(* ===== verification/Vecodex_Prelude.thy ===== *)
theory Vecodex_Prelude
  imports Main "HOL-Library.Multiset" "HOL-Library.AList" "HOL-Library.Product_Lexorder"
begin

text \<open>
  Shared vocabulary of the development: the failures of the C++ program as a datatype, results
  that are either a failure or a value, \<open>size_t\<close> arithmetic on \<open>nat\<close> with its wrap-around
  written out, \<open>rand()\<close> as an explicit supply of numbers, and the standard containers
  (\<open>std::unordered_map\<close> as an association list with distinct keys, \<open>std::unordered_set\<close> as a
  list without repetition). The generic lemmas on these are collected here.
\<close>

named_theorems result_simps \<open>rewrite rules for sequenced fallible steps\<close>

section \<open>Failures\<close>

text \<open>
  Exceptions the code throws carry their message; undefined behaviour the code can reach (reading
  past the end of an array, dereferencing an empty \<open>shared_ptr\<close>, an oversized shift, locking a
  mutex the thread already holds, using a variable that was never given a value, converting a
  double that does not fit) has a constructor of its own, so that it is a visible result and never a
  silent value. \<open>StdException\<close> is a bare \<open>std::exception\<close>, which is what is left of an exception
  that is caught by reference to that class and thrown again by name.
\<close>

datatype cxx_error =
    RuntimeError string
  | InvalidArgument string
  | OutOfRange
  | LengthError
  | AssertFailed
  | LibraryError string
  | NullPointer
  | BufferOverrun
  | DivideByZero
  | ShiftOverflow
  | SelfDeadlock
  | Indeterminate
  | ConversionOverflow
  | StdException

type_synonym 'a outcome = "cxx_error + 'a"

definition bindR :: "'a outcome \<Rightarrow> ('a \<Rightarrow> 'b outcome) \<Rightarrow> 'b outcome" where
  "bindR m f = (case m of Inl e \<Rightarrow> Inl e | Inr x \<Rightarrow> f x)"

lemma bindR_simps [simp, result_simps]:
  "bindR (Inl e) f = Inl e"
  "bindR (Inr x) f = f x"
  by (simp_all add: bindR_def)

lemma bindR_eq_Inr [result_simps]:
  "bindR m f = Inr y \<longleftrightarrow> (\<exists>x. m = Inr x \<and> f x = Inr y)"
  by (cases m) auto

lemma bindR_eq_Inl:
  "bindR m f = Inl e \<longleftrightarrow> m = Inl e \<or> (\<exists>x. m = Inr x \<and> f x = Inl e)"
  by (cases m) auto

lemma bindR_cong [fundef_cong]:
  "m = m' \<Longrightarrow> (\<And>x. m' = Inr x \<Longrightarrow> f x = g x) \<Longrightarrow> bindR m f = bindR m' g"
  by (cases m') auto

lemma bindR_assoc: "bindR (bindR m f) g = bindR m (\<lambda>x. bindR (f x) g)"
  by (cases m) auto

text \<open>A loop whose body can fail: it stops at the first failure.\<close>

fun foldR :: "('a \<Rightarrow> 's \<Rightarrow> 's outcome) \<Rightarrow> 'a list \<Rightarrow> 's \<Rightarrow> 's outcome" where
  "foldR f [] s = Inr s"
| "foldR f (x # xs) s = bindR (f x s) (foldR f xs)"

lemma foldR_append: "foldR f (xs @ ys) s = bindR (foldR f xs s) (foldR f ys)"
  by (induction xs arbitrary: s) (auto simp: bindR_assoc intro!: bindR_cong)

lemma foldR_invariant:
  assumes "P s" and "\<And>x s. x \<in> set xs \<Longrightarrow> P s \<Longrightarrow> \<exists>t. f x s = Inr t \<and> P t"
  shows "\<exists>t. foldR f xs s = Inr t \<and> P t"
  using assms
proof (induction xs arbitrary: s)
  case Nil
  then show ?case by simp
next
  case (Cons x xs)
  from Cons.prems(1) Cons.prems(2) [of x s] obtain t where "f x s = Inr t" and "P t"
    by auto
  with Cons.IH [of t] Cons.prems(2) show ?case by auto
qed

section \<open>Machine sizes\<close>

text \<open>
  \<open>size_t\<close> is 64 bits wide. Container sizes are below \<open>2 ^ 64\<close>, so they are kept as \<open>nat\<close> and
  only the operations whose result can leave the range write out the wrap-around: unsigned
  subtraction, unsigned addition, and the conversion of a signed \<open>int\<close>.
\<close>

definition size_sub :: "nat \<Rightarrow> nat \<Rightarrow> nat" where
  "size_sub a b = (if b \<le> a then a - b else a + 2 ^ 64 - b)"

definition size_add :: "nat \<Rightarrow> nat \<Rightarrow> nat" where
  "size_add a b = (a + b) mod 2 ^ 64"

definition to_size_t :: "int \<Rightarrow> nat" where
  "to_size_t i = nat (i mod 2 ^ 64)"

lemma size_sub_le [simp]: "b \<le> a \<Longrightarrow> size_sub a b = a - b"
  by (simp add: size_sub_def)

lemma size_sub_mod:
  assumes "a < 2 ^ 64" and "b < 2 ^ 64"
  shows "int (size_sub a b) = (int a - int b) mod 2 ^ 64"
proof (cases "b \<le> a")
  case True
  with assms show ?thesis by (simp add: of_nat_diff)
next
  case False
  with assms have "int (size_sub a b) = int a - int b + 2 ^ 64"
    by (simp add: size_sub_def of_nat_diff)
  moreover have "(int a - int b) mod 2 ^ 64 = (int a - int b + 2 ^ 64) mod 2 ^ 64"
    by simp
  moreover have "0 \<le> int a - int b + 2 ^ 64" and "int a - int b + 2 ^ 64 < 2 ^ 64"
    using False assms by simp_all
  ultimately show ?thesis by (metis mod_pos_pos_trivial)
qed

lemma to_size_t_nonneg [simp]: "0 \<le> i \<Longrightarrow> i < 2 ^ 64 \<Longrightarrow> to_size_t i = nat i"
  by (simp add: to_size_t_def)

section \<open>Random numbers\<close>

text \<open>
  \<open>rand()\<close> is the only source of segment identifiers. The model threads the sequence of values
  that the coming calls return; a theorem that needs them not to repeat says so.
\<close>

type_synonym rng = "nat \<Rightarrow> nat"

definition rand :: "rng \<Rightarrow> nat \<times> rng" where
  "rand g = (g 0, \<lambda>i. g (Suc i))"

text \<open>The coming values are pairwise different and avoid the identifiers in use.\<close>

definition fresh_rng :: "nat set \<Rightarrow> rng \<Rightarrow> bool" where
  "fresh_rng used g \<longleftrightarrow> inj g \<and> range g \<inter> used = {}"

lemma fresh_rng_step:
  assumes "fresh_rng used g"
  shows "g 0 \<notin> used" and "fresh_rng (insert (g 0) used) (\<lambda>i. g (Suc i))"
  using assms by (auto simp: fresh_rng_def inj_on_def disjoint_iff)

lemma fresh_rng_mono: "fresh_rng used g \<Longrightarrow> used' \<subseteq> used \<Longrightarrow> fresh_rng used' g"
  by (auto simp: fresh_rng_def)

section \<open>Containers\<close>

text \<open>
  The iteration order of the unordered containers is not specified. Code that iterates one takes
  the order as an argument: a function that may permute the entries and does nothing else.
\<close>

definition reorders :: "('a list \<Rightarrow> 'a list) \<Rightarrow> bool" where
  "reorders it \<longleftrightarrow> (\<forall>xs. mset (it xs) = mset xs)"

lemma reorders_mset: "reorders it \<Longrightarrow> mset (it xs) = mset xs"
  by (simp add: reorders_def)

lemma reorders_set: "reorders it \<Longrightarrow> set (it xs) = set xs"
  by (metis reorders_mset set_mset_mset)

lemma reorders_length: "reorders it \<Longrightarrow> length (it xs) = length xs"
  by (metis reorders_mset size_mset)

lemma reorders_id: "reorders (\<lambda>xs. xs)"
  by (simp add: reorders_def)

lemma reorders_rev: "reorders rev"
  by (simp add: reorders_def)

lemma AList_update_fresh: "k \<notin> fst ` set xs \<Longrightarrow> AList.update k v xs = xs @ [(k, v)]"
  by (induction xs) auto

lemma set_AList_update_fresh: "k \<notin> fst ` set xs \<Longrightarrow> set (AList.update k v xs) = insert (k, v) (set xs)"
  by (simp add: AList_update_fresh)

lemma length_insert_le: "length (List.insert x xs) \<le> Suc (length xs)"
  by (simp add: List.insert_def)

text \<open>The first element satisfying a predicate is removed, as \<open>erase(find_if(...))\<close> does.\<close>

fun remove_first :: "('a \<Rightarrow> bool) \<Rightarrow> 'a list \<Rightarrow> 'a list" where
  "remove_first P [] = []"
| "remove_first P (x # xs) = (if P x then xs else x # remove_first P xs)"

lemma remove_first_none: "\<forall>x \<in> set xs. \<not> P x \<Longrightarrow> remove_first P xs = xs"
  by (induction xs) auto

lemma set_remove_first_subset: "set (remove_first P xs) \<subseteq> set xs"
  by (induction xs) auto

lemma set_remove_first_keeps: "x \<in> set xs \<Longrightarrow> \<not> P x \<Longrightarrow> x \<in> set (remove_first P xs)"
  by (induction xs) auto

lemma length_remove_first:
  "length (remove_first P xs) = (if \<exists>x \<in> set xs. P x then length xs - 1 else length xs)"
proof (induction xs)
  case Nil
  then show ?case by simp
next
  case (Cons x xs)
  then show ?case by (cases xs) auto
qed

section \<open>Flat vector arrays\<close>

text \<open>
  A batch of \<open>n\<close> vectors of dimension \<open>d\<close> is one flat array of floats; \<open>rows d n xs\<close> are the
  \<open>n\<close> vectors that a reader of that array sees.
\<close>

fun rows :: "nat \<Rightarrow> nat \<Rightarrow> 'f list \<Rightarrow> 'f list list" where
  "rows d 0 xs = []"
| "rows d (Suc n) xs = take d xs # rows d n (drop d xs)"

lemma length_rows [simp]: "length (rows d n xs) = n"
  by (induction n arbitrary: xs) auto

lemma rows_add: "rows d (m + n) xs = rows d m xs @ rows d n (drop (m * d) xs)"
  by (induction m arbitrary: xs) (auto simp: add.commute)

lemma rows_take: "n * d \<le> m \<Longrightarrow> rows d n (take m xs) = rows d n xs"
proof (induction n arbitrary: m xs)
  case 0
  then show ?case by simp
next
  case (Suc n)
  then have "rows d n (take (m - d) (drop d xs)) = rows d n (drop d xs)" and "d \<le> m"
    by auto
  then show ?case by (simp add: drop_take min_absorb1)
qed

lemma rows_concat:
  assumes "\<forall>v \<in> set vs. length v = d"
  shows "rows d (length vs) (concat vs) = vs"
  using assms by (induction vs) auto

lemma length_concat_rows: "\<forall>v \<in> set vs. length v = d \<Longrightarrow> length (concat vs) = length vs * d"
  by (induction vs) auto

lemma rows_lengths: "n * d \<le> length xs \<Longrightarrow> v \<in> set (rows d n xs) \<Longrightarrow> length v = d"
proof (induction n arbitrary: xs)
  case 0
  then show ?case by simp
next
  case (Suc n)
  then show ?case using Suc.IH [of "drop d xs"] by auto
qed

end
