(* ===== verification/Search_TopK.thy ===== *)
theory Search_TopK
  imports Vecodex_Prelude
begin

text \<open>
  The result order of \<open>index/include/Segment.h\<close> (\<open>struct SearchResult\<close>) and the bounded
  \<open>std::set\<close> in which \<open>Index::search\<close> keeps the best \<open>k\<close> results. The set is a strictly
  ascending list. The lemmas show that the insert-then-drop-the-last loop computes the \<open>k\<close> least
  elements of everything it was fed, in whatever order it was fed, and that the \<open>k\<close> best of a
  union can be computed from the \<open>k\<close> best of its parts, which is why one query per segment is
  enough.
\<close>

section \<open>SearchResult\<close>

datatype ('id, 'f) SearchResult = SearchResult (sr_id: 'id) (sr_dist: 'f)

text \<open>\<open>operator<\<close> compares the distance first and the identifier at equal distance.\<close>

definition search_result_less ::
  "('id::linorder, 'f::linorder) SearchResult \<Rightarrow> ('id, 'f) SearchResult \<Rightarrow> bool" where
  "search_result_less a b \<longleftrightarrow>
     sr_dist a < sr_dist b \<or> (sr_dist a = sr_dist b \<and> sr_id a < sr_id b)"

instantiation SearchResult :: (linorder, linorder) linorder
begin

definition less_SearchResult :: "('a, 'b) SearchResult \<Rightarrow> ('a, 'b) SearchResult \<Rightarrow> bool" where
  "less_SearchResult a b \<longleftrightarrow> search_result_less a b"

definition less_eq_SearchResult :: "('a, 'b) SearchResult \<Rightarrow> ('a, 'b) SearchResult \<Rightarrow> bool" where
  "less_eq_SearchResult a b \<longleftrightarrow> a = b \<or> search_result_less a b"

instance
proof
  fix a b :: "('a, 'b) SearchResult"
  show "a \<le> b \<or> b \<le> a"
    by (cases a; cases b) (auto simp: less_eq_SearchResult_def search_result_less_def)
qed (auto simp: less_SearchResult_def less_eq_SearchResult_def search_result_less_def)

end

lemmas search_result_order = less_SearchResult_def less_eq_SearchResult_def search_result_less_def

text \<open>\<open>operator==\<close> looks at the identifier only; \<open>std::set\<close> never calls it.\<close>

definition search_result_eq :: "('id, 'f) SearchResult \<Rightarrow> ('id, 'f) SearchResult \<Rightarrow> bool" where
  "search_result_eq a b \<longleftrightarrow> sr_id a = sr_id b"

definition search_result_greater ::
  "('id::linorder, 'f::linorder) SearchResult \<Rightarrow> ('id, 'f) SearchResult \<Rightarrow> bool" where
  "search_result_greater a b \<longleftrightarrow>
     sr_dist a > sr_dist b \<or> (sr_dist a = sr_dist b \<and> sr_id a > sr_id b)"

lemma search_result_greater_flip: "search_result_greater a b \<longleftrightarrow> b < a"
  by (auto simp: search_result_greater_def search_result_order)

lemma SearchResult_le_dist: "a \<le> b \<Longrightarrow> sr_dist a \<le> sr_dist b"
  by (auto simp: search_result_order)

section \<open>The bounded set\<close>

text \<open>
  \<open>kth_stat.emplace(id, dist); if (kth_stat.size() > k) kth_stat.erase(*kth_stat.rbegin());\<close>
  on the strictly ascending list of the set's elements.
\<close>

definition kth_emplace :: "nat \<Rightarrow> 'a::linorder \<Rightarrow> 'a list \<Rightarrow> 'a list" where
  "kth_emplace k p s =
     (let s' = insort_insert p s in if length s' > k then butlast s' else s')"

definition kth_emplace_all :: "nat \<Rightarrow> 'a::linorder list \<Rightarrow> 'a list \<Rightarrow> 'a list" where
  "kth_emplace_all k ps s = fold (kth_emplace k) ps s"

text \<open>Reference definition: the \<open>k\<close> least elements of a finite set, in ascending order.\<close>

definition least_k :: "nat \<Rightarrow> 'a::linorder set \<Rightarrow> 'a list" where
  "least_k k S = take k (sorted_list_of_set S)"

lemma insort_take:
  "sorted xs \<Longrightarrow> take k (insort x (take k xs)) = take k (insort x xs)"
proof (induction xs arbitrary: k)
  case Nil
  then show ?case by simp
next
  case (Cons y ys)
  then show ?case by (cases k) (auto simp: take_Cons')
qed

lemma take_insort_present:
  assumes "sorted xs" and "distinct xs" and "x \<in> set xs" and "x \<notin> set (take k xs)"
  shows "take k (insort x (take k xs)) = take k xs"
proof -
  have "y \<le> x" if "y \<in> set (take k xs)" for y
  proof -
    from assms(3,4) have "x \<in> set (drop k xs)"
      by (metis Un_iff append_take_drop_id set_append)
    with assms(1) that show ?thesis
      by (metis append_take_drop_id sorted_append)
  qed
  moreover have "insort x ys = takeWhile (\<lambda>y. y < x) ys @ x # dropWhile (\<lambda>y. y < x) ys" for ys
    by (induction ys) auto
  ultimately have "insort x (take k xs) = take k xs @ [x]"
    using assms(4) by (metis (no_types, lifting) dropWhile_eq_Nil_conv nless_le
        takeWhile_eq_all_conv)
  then show ?thesis using assms(3,4) by (cases "k \<le> length xs") simp_all
qed

lemma kth_emplace_least_k:
  assumes "finite S"
  shows "kth_emplace k x (least_k k S) = least_k k (insert x S)"
proof -
  let ?xs = "sorted_list_of_set S"
  have drop_last: "(if length ys > k then butlast ys else ys) = take k ys"
    if "length ys \<le> Suc k" for ys :: "'a list"
    using that by (cases "length ys = Suc k") (auto simp: butlast_conv_take)
  have "length (insort_insert x (take k ?xs)) \<le> Suc k"
    by (simp add: insort_insert_key_def min_def)
  then have eq: "kth_emplace k x (least_k k S) = take k (insort_insert x (take k ?xs))"
    by (simp add: kth_emplace_def least_k_def Let_def drop_last)
  show ?thesis
  proof (cases "x \<in> S")
    case True
    show ?thesis
    proof (cases "x \<in> set (take k ?xs)")
      case True
      with eq assms \<open>x \<in> S\<close> show ?thesis
        by (simp add: insort_insert_key_def least_k_def insert_absorb)
    next
      case False
      with eq assms \<open>x \<in> S\<close> show ?thesis
        by (simp add: insort_insert_key_def least_k_def insert_absorb take_insort_present)
    qed
  next
    case False
    with assms have "x \<notin> set (take k ?xs)"
      by (auto dest: in_set_takeD)
    with eq assms False show ?thesis
      by (simp add: insort_insert_key_def least_k_def insort_take sorted_list_of_set_insert)
  qed
qed

lemma kth_emplace_all_least_k:
  "finite S \<Longrightarrow> kth_emplace_all k ps (least_k k S) = least_k k (S \<union> set ps)"
  unfolding kth_emplace_all_def
proof (induction ps arbitrary: S)
  case Nil
  then show ?case by simp
next
  case (Cons p ps)
  then show ?case by (simp add: kth_emplace_least_k)
qed

lemma least_k_empty [simp]: "least_k k {} = []"
  by (simp add: least_k_def)

lemma length_least_k: "finite S \<Longrightarrow> length (least_k k S) = min k (card S)"
  by (simp add: least_k_def)

lemma set_least_k_subset: "finite S \<Longrightarrow> set (least_k k S) \<subseteq> S"
  by (metis least_k_def set_sorted_list_of_set set_take_subset)

lemma sorted_least_k: "sorted (least_k k S)"
  by (simp add: least_k_def sorted_wrt_take)

lemma distinct_least_k: "distinct (least_k k S)"
  by (simp add: least_k_def)

lemma least_k_below:
  assumes "finite S" and "x \<in> set (least_k k S)" and "y \<in> S" and "y \<notin> set (least_k k S)"
  shows "x \<le> y"
proof -
  from assms(1,3,4) have "y \<in> set (drop k (sorted_list_of_set S))"
    by (metis Un_iff append_take_drop_id least_k_def set_append set_sorted_list_of_set)
  with assms(2) show ?thesis
    unfolding least_k_def
    by (metis append_take_drop_id sorted_append sorted_list_of_set.sorted_sorted_key_list_of_set)
qed

section \<open>Top-k sets\<close>

text \<open>
  \<open>top_k key k C S\<close>: \<open>S\<close> holds \<open>k\<close> members of \<open>C\<close> (all of them when there are fewer) and nothing
  left out has a smaller key. At equal keys more than one \<open>S\<close> qualifies, which is the freedom an
  index has at a tie.
\<close>

definition top_k :: "('a \<Rightarrow> 'k::linorder) \<Rightarrow> nat \<Rightarrow> 'a set \<Rightarrow> 'a set \<Rightarrow> bool" where
  "top_k key k C S \<longleftrightarrow>
     S \<subseteq> C \<and> card S = min k (card C) \<and> (\<forall>c \<in> C - S. \<forall>s \<in> S. key s \<le> key c)"

lemma top_k_least_k:
  assumes "finite C" and "\<And>a b. a \<le> b \<Longrightarrow> key a \<le> key b"
  shows "top_k key k C (set (least_k k C))"
  using assms least_k_below [OF assms(1)] set_least_k_subset [OF assms(1)]
  by (auto simp: top_k_def distinct_card [OF distinct_least_k] length_least_k)

lemma top_k_all: "finite C \<Longrightarrow> top_k key k C S \<Longrightarrow> card C \<le> k \<Longrightarrow> S = C"
  by (auto simp: top_k_def card_subset_eq)

lemma top_k_finite: "finite C \<Longrightarrow> top_k key k C S \<Longrightarrow> finite S"
  by (auto simp: top_k_def finite_subset)

text \<open>
  The \<open>k\<close> least of the union of per-part top-k sets are a top-k set of the whole: an element
  dropped by its part has \<open>k\<close> elements of that part at or before it.
\<close>

lemma least_k_max_bound:
  assumes "finite U" and "R \<subseteq> U" and "card R = k" and "\<forall>r \<in> R. r \<le> m"
    and "x \<in> set (least_k k U)"
  shows "x \<le> m"
proof (rule ccontr)
  assume "\<not> x \<le> m"
  with assms(4) have "R \<subseteq> {u \<in> U. u < x}" using assms(2) by fastforce
  then have "k \<le> card {u \<in> U. u < x}"
    using assms(1,3) by (metis (no_types, lifting) card_mono finite_subset mem_Collect_eq subsetI)
  moreover have "insert x {u \<in> U. u < x} \<subseteq> set (least_k k U)"
  proof
    fix y assume "y \<in> insert x {u \<in> U. u < x}"
    with assms(5) least_k_below [OF assms(1) assms(5)] show "y \<in> set (least_k k U)"
      by fastforce
  qed
  then have "card (insert x {u \<in> U. u < x}) \<le> card (set (least_k k U))"
    by (simp add: card_mono)
  then have "Suc (card {u \<in> U. u < x}) \<le> k"
    using assms(1) by (simp add: distinct_card [OF distinct_least_k] length_least_k)
  ultimately show False by simp
qed

lemma top_k_union:
  fixes key :: "'a::linorder \<Rightarrow> 'k::linorder"
  assumes fin: "finite I" "\<And>i. i \<in> I \<Longrightarrow> finite (C i)"
    and parts: "\<And>i. i \<in> I \<Longrightarrow> top_k key k (C i) (R i)"
    and mono: "\<And>a b. a \<le> b \<Longrightarrow> key a \<le> key b"
  shows "top_k key k (\<Union>i\<in>I. C i) (set (least_k k (\<Union>i\<in>I. R i)))"
proof -
  let ?C = "\<Union>i\<in>I. C i" and ?R = "\<Union>i\<in>I. R i"
  let ?S = "set (least_k k ?R)"
  have RC: "R i \<subseteq> C i" if "i \<in> I" for i using parts [OF that] by (simp add: top_k_def)
  have finC: "finite ?C" using fin by simp
  have sub: "?R \<subseteq> ?C" using RC by blast
  then have finR: "finite ?R" using finC finite_subset by blast
  have card_S: "card ?S = min k (card ?R)"
    using finR by (simp add: distinct_card [OF distinct_least_k] length_least_k)
  have enough: "min k (card ?R) = min k (card ?C)"
  proof (cases "\<exists>i \<in> I. k \<le> card (C i)")
    case True
    then obtain i where i: "i \<in> I" "k \<le> card (C i)" by blast
    then have "card (R i) = k" using parts [OF i(1)] by (simp add: top_k_def)
    moreover have "card (R i) \<le> card ?R" and "card (C i) \<le> card ?C"
      using i(1) finR finC by (auto intro!: card_mono)
    ultimately show ?thesis using i(2) by simp
  next
    case False
    then have "R i = C i" if "i \<in> I" for i
      using that parts fin(2) by (intro top_k_all) (auto simp: not_le less_imp_le)
    then show ?thesis by simp
  qed
  have below: "key s \<le> key c" if c: "c \<in> ?C - ?S" and s: "s \<in> ?S" for c s
  proof (cases "c \<in> ?R")
    case True
    with c s least_k_below [OF finR s] mono show ?thesis by blast
  next
    case False
    with c obtain i where i: "i \<in> I" "c \<in> C i - R i" by auto
    then have "R i \<noteq> C i" by blast
    with top_k_all [OF fin(2) parts, of i] i(1) have k: "card (R i) = k"
      using parts [OF i(1)] by (auto simp: top_k_def min_def split: if_splits)
    have finRi: "finite (R i)" using i(1) fin(2) RC finite_subset by blast
    have "R i \<noteq> {}"
    proof
      assume "R i = {}"
      with k have "least_k k ?R = []" by (simp add: least_k_def)
      with s show False by simp
    qed
    then have m: "Max (R i) \<in> R i" "\<forall>r \<in> R i. r \<le> Max (R i)" using finRi by simp_all
    have "R i \<subseteq> ?R" using i(1) by blast
    then have "s \<le> Max (R i)" by (rule least_k_max_bound [OF finR _ k m(2) s])
    then have "key s \<le> key (Max (R i))" by (rule mono)
    also have "\<dots> \<le> key c" using parts [OF i(1)] i(2) m(1) by (auto simp: top_k_def)
    finally show ?thesis .
  qed
  have "?S \<subseteq> ?C" using set_least_k_subset [OF finR] sub by (rule order_trans)
  with card_S enough below show ?thesis by (simp add: top_k_def)
qed

text \<open>Relabelling the elements one to one keeps a top-k set.\<close>

lemma top_k_image:
  assumes "top_k key k C S" and "inj_on f C" and "\<And>c. c \<in> C \<Longrightarrow> key' (f c) = key c"
  shows "top_k key' k (f ` C) (f ` S)"
proof -
  from assms(1) have "S \<subseteq> C" by (simp add: top_k_def)
  with assms(2) have "inj_on f S" by (rule inj_on_subset)
  then have "card (f ` S) = min k (card (f ` C))"
    using assms(1,2) by (simp add: card_image top_k_def)
  moreover have "key' s \<le> key' c" if c: "c \<in> f ` C - f ` S" and s: "s \<in> f ` S" for c s
  proof -
    from c obtain c0 where "c = f c0" and "c0 \<in> C - S" by auto
    moreover from s obtain s0 where "s = f s0" and "s0 \<in> S" by auto
    ultimately show ?thesis using assms(1,3) \<open>S \<subseteq> C\<close> by (auto simp: top_k_def)
  qed
  ultimately show ?thesis using \<open>S \<subseteq> C\<close> by (auto simp: top_k_def)
qed

text \<open>
  Fetching \<open>k + e\<close> best and dropping \<open>e\<close> unwanted ones leaves a top-k set of the wanted ones.
\<close>

lemma top_k_overfetch:
  assumes fin: "finite A" and fetched: "top_k key (k + card E) A F" and "E \<subseteq> A"
    and best: "top_k key k (F - E) S"
  shows "top_k key k (A - E) S"
proof -
  have FA: "F \<subseteq> A" and cF: "card F = min (k + card E) (card A)"
    and below: "\<And>c s. c \<in> A - F \<Longrightarrow> s \<in> F \<Longrightarrow> key s \<le> key c"
    using fetched by (auto simp: top_k_def)
  have SF: "S \<subseteq> F - E" and cS: "card S = min k (card (F - E))"
    and below': "\<And>c s. c \<in> F - E - S \<Longrightarrow> s \<in> S \<Longrightarrow> key s \<le> key c"
    using best by (auto simp: top_k_def)
  have finE: "finite E" and finF: "finite F" using fin \<open>E \<subseteq> A\<close> FA finite_subset by auto
  have cAE: "card (A - E) = card A - card E" using finE \<open>E \<subseteq> A\<close> by (rule card_Diff_subset)
  have "card F - card E \<le> card (F - E)" using finE by (rule diff_card_le_card_Diff)
  moreover have "card (F - E) \<le> card (A - E)" using FA fin by (intro card_mono) auto
  ultimately have "card S = min k (card (A - E))" using cS cF cAE by (auto simp: min_def split: if_splits)
  moreover have "key s \<le> key c" if "c \<in> A - E - S" and "s \<in> S" for c s
    using that below below' SF by (cases "c \<in> F") auto
  ultimately show ?thesis using SF FA by (auto simp: top_k_def)
qed

lemma take_sort_distinct: "distinct xs \<Longrightarrow> take k (sort xs) = least_k k (set xs)"
  by (simp add: least_k_def sorted_list_of_set_sort_remdups distinct_remdups_id)

text \<open>
  C19. The bounded set of \<open>Index::search\<close>: emplacing any sequence of results and dropping the last
  element whenever there are more than \<open>k\<close> leaves exactly the \<open>k\<close> least results that occurred, in
  ascending order. The order of the sequence, and hence the order in which segments and hash maps
  are visited, has no influence.
\<close>

theorem kth_stat_least: "kth_emplace_all k ps [] = least_k k (set ps)"
  using kth_emplace_all_least_k [of "{}" k ps] by simp

end
