(* ===== verification/Base_Index.thy ===== *)
theory Base_Index
  imports Search_TopK
begin

text \<open>
  The abstract class \<open>IBaseIndex\<close> of \<open>index/include/IBaseIndex.h\<close>: a record of its virtual
  methods, and as a locale the contract that the classes above it (\<open>Segment\<close>,
  \<open>SegmentStorage\<close>, \<open>Index\<close>) rely on. An index is seen as the list of its documents, pairs of an
  identifier and a vector; every operation is specified by what it does to that list.
\<close>

section \<open>The virtual methods\<close>

text \<open>
  Arrays are lists; a method that fills the caller's arrays returns what it wrote
  (\<open>single_search\<close>: the identifiers and distances of the \<open>ans_k\<close> entries, in order).
  \<open>dynamic_type\<close> is the run-time type that \<open>dynamic_pointer_cast\<close> inspects.
\<close>

record ('x, 'id, 'f) IBaseIndex =
  add_batch :: "'x \<Rightarrow> nat \<Rightarrow> 'f list \<Rightarrow> 'id list \<Rightarrow> 'x outcome"
  single_search :: "'x \<Rightarrow> nat \<Rightarrow> 'f list \<Rightarrow> ('id \<times> 'f) list outcome"
  erase_batch :: "'x \<Rightarrow> nat \<Rightarrow> 'id list \<Rightarrow> 'x outcome"
  merge_from_other :: "'x \<Rightarrow> 'x \<Rightarrow> 'x outcome"
  serialize_index :: "'x \<Rightarrow> string"
  base_size :: "'x \<Rightarrow> nat"
  dynamic_type :: "'x \<Rightarrow> nat"

type_synonym ('id, 'f) document = "'id \<times> 'f list"

text \<open>The scored form of a set of documents for a query.\<close>

definition candidates ::
  "('f list \<Rightarrow> 'f list \<Rightarrow> 'f) \<Rightarrow> 'f list \<Rightarrow> ('id, 'f) document set \<Rightarrow> ('id, 'f) SearchResult set" where
  "candidates dist q D = (\<lambda>(id, v). SearchResult id (dist q v)) ` D"

definition as_results :: "('id \<times> 'f) list \<Rightarrow> ('id, 'f) SearchResult set" where
  "as_results r = (\<lambda>(id, d). SearchResult id d) ` set r"

lemma candidates_Un: "candidates dist q (A \<union> B) = candidates dist q A \<union> candidates dist q B"
  by (simp add: candidates_def image_Un)

lemma candidates_UN: "candidates dist q (\<Union>i\<in>I. D i) = (\<Union>i\<in>I. candidates dist q (D i))"
  by (auto simp: candidates_def)

lemma candidates_mono: "A \<subseteq> B \<Longrightarrow> candidates dist q A \<subseteq> candidates dist q B"
  by (auto simp: candidates_def)

lemma finite_candidates: "finite D \<Longrightarrow> finite (candidates dist q D)"
  by (simp add: candidates_def)

lemma sr_id_candidates: "sr_id ` candidates dist q D = fst ` D"
  by (force simp: candidates_def image_iff)

lemma card_candidates:
  assumes "inj_on fst D"
  shows "card (candidates dist q D) = card D"
  unfolding candidates_def
  by (rule card_image) (use assms in \<open>fastforce simp: inj_on_def\<close>)

section \<open>The contract\<close>

text \<open>
  \<open>docs\<close> are the documents an index holds, \<open>known\<close> the identifiers it was ever given (erased
  ones included), \<open>shape\<close> what has to agree before two indexes can be merged. An identifier is
  added to an index at most once: that is what callers have to ensure.
\<close>

locale base_index =
  fixes V :: "('x, 'id::linorder, 'f::linorder) IBaseIndex"
    and invar :: "'x \<Rightarrow> bool"
    and shape :: "'x \<Rightarrow> 'k"
    and dim :: "'x \<Rightarrow> nat"
    and docs :: "'x \<Rightarrow> ('id, 'f) document list"
    and known :: "'x \<Rightarrow> 'id set"
    and dist :: "'f list \<Rightarrow> 'f list \<Rightarrow> 'f"
  assumes shape_dim: "shape x = shape y \<Longrightarrow> dim x = dim y"
    and shape_type: "shape x = shape y \<Longrightarrow> dynamic_type V x = dynamic_type V y"
    and docs_known: "invar x \<Longrightarrow> fst ` set (docs x) \<subseteq> known x"
    and docs_distinct: "invar x \<Longrightarrow> distinct (map fst (docs x))"
    and size_docs: "invar x \<Longrightarrow> base_size V x = length (docs x)"
    and add_docs: "\<lbrakk>invar x; n * dim x \<le> length vs; n \<le> length ids; distinct (take n ids);
      set (take n ids) \<inter> known x = {}\<rbrakk> \<Longrightarrow>
      \<exists>y. add_batch V x n vs ids = Inr y \<and> invar y \<and> shape y = shape x \<and>
        known y = known x \<union> set (take n ids) \<and>
        docs y = docs x @ zip (take n ids) (rows (dim x) n vs)"
    and erase_docs: "\<lbrakk>invar x; n \<le> length ids\<rbrakk> \<Longrightarrow>
      \<exists>y. erase_batch V x n ids = Inr y \<and> invar y \<and> shape y = shape x \<and> known y = known x \<and>
        docs y = filter (\<lambda>(id, _). id \<notin> set (take n ids)) (docs x)"
    and merge_docs: "\<lbrakk>invar x; invar y; shape x = shape y; known x \<inter> fst ` set (docs y) = {}\<rbrakk> \<Longrightarrow>
      \<exists>z. merge_from_other V x y = Inr z \<and> invar z \<and> shape z = shape x \<and>
        known z = known x \<union> fst ` set (docs y) \<and> mset (docs z) = mset (docs x) + mset (docs y)"
    and search_sound: "\<lbrakk>invar x; dim x \<le> length q; 0 < k\<rbrakk> \<Longrightarrow>
      \<exists>r. single_search V x k q = Inr r \<and> length r \<le> k \<and> distinct (map fst r) \<and>
        as_results r \<subseteq> candidates dist (take (dim x) q) (set (docs x))"
begin

lemma docs_inj: "invar x \<Longrightarrow> inj_on fst (set (docs x))"
  using docs_distinct distinct_map by blast

lemma card_docs: "invar x \<Longrightarrow> card (set (docs x)) = length (docs x)"
  using docs_distinct distinct_card distinct_map by blast

end

text \<open>An index that answers exactly (FAISS calls it a flat index) returns a top-k set.\<close>

locale exact_base_index = base_index +
  assumes search_exact: "\<lbrakk>invar x; dim x \<le> length q; 0 < k; single_search V x k q = Inr r\<rbrakk> \<Longrightarrow>
    top_k sr_dist k (candidates dist (take (dim x) q) (set (docs x))) (as_results r)"

end
