(* ===== verification/Faiss_Index.thy ===== *)
theory Faiss_Index
  imports Base_Index
begin

text \<open>
  \<open>FaissIndex<BaseIndex, IDType>\<close> of \<open>index/baselines/faiss.h\<close>. The FAISS index it wraps is a
  parameter, a record of the FAISS calls the class makes; what FAISS documents about these calls
  is the predicate \<open>faiss_contract\<close> (any index) and \<open>faiss_exact\<close> (flat indexes, which search
  exhaustively). The class adds to it: identifiers of the caller's type, deletion by masking, and
  merging; the lemmas show that it satisfies the contract of \<open>IBaseIndex\<close>.
\<close>

section \<open>The FAISS library\<close>

datatype MetricType = METRIC_L1 | METRIC_L2 | METRIC_Linf

datatype faiss_args = FlatArgs int MetricType | HNSWFlatArgs int int MetricType

text \<open>
  \<open>fx_add b n x\<close> is \<open>add(n, x)\<close>, \<open>fx_search b q k\<close> is \<open>search(1, q, k, dist, labels)\<close> returning
  the \<open>k\<close> pairs of a distance and a label (\<open>-1\<close> where there was no further vector),
  \<open>fx_reconstruct_batch b ls\<close> the concatenated stored vectors, \<open>fx_d\<close> the public field \<open>d\<close>.
\<close>

record ('b, 'f) faiss_lib =
  fx_make :: "faiss_args \<Rightarrow> 'b"
  fx_d :: "'b \<Rightarrow> nat"
  fx_add :: "'b \<Rightarrow> nat \<Rightarrow> 'f list \<Rightarrow> 'b"
  fx_search :: "'b \<Rightarrow> 'f list \<Rightarrow> nat \<Rightarrow> ('f \<times> int) list"
  fx_reconstruct_batch :: "'b \<Rightarrow> int list \<Rightarrow> 'f list"
  fx_write_index :: "'b \<Rightarrow> string"
  fx_read_index :: "string \<Rightarrow> ('b \<times> string) outcome"

text \<open>
  What FAISS documents, in terms of the vectors an index stores: they are numbered from 0 in the
  order of their addition, a search labels its answers with these numbers, without repetition and
  with the true distance, and a stored vector can be read back. Nothing is said about a search for
  zero answers, which FAISS rejects.
\<close>

definition faiss_hits ::
  "('b \<Rightarrow> 'f list list) \<Rightarrow> ('f list \<Rightarrow> 'f list \<Rightarrow> 'f) \<Rightarrow> 'b \<Rightarrow> 'f list \<Rightarrow> ('f \<times> int) set" where
  "faiss_hits vecs dist b q = (\<lambda>l. (dist q (vecs b ! nat l), l)) ` {0..<int (length (vecs b))}"

definition faiss_found :: "('f \<times> int) list \<Rightarrow> ('f \<times> int) list" where
  "faiss_found res = filter (\<lambda>(_, l). l \<noteq> -1) res"

definition faiss_contract ::
  "('b, 'f) faiss_lib \<Rightarrow> ('b \<Rightarrow> 'f list list) \<Rightarrow> ('f list \<Rightarrow> 'f list \<Rightarrow> 'f) \<Rightarrow> bool" where
  "faiss_contract F vecs dist \<longleftrightarrow>
     (\<forall>a. vecs (fx_make F a) = []) \<and>
     (\<forall>b. \<forall>v \<in> set (vecs b). length v = fx_d F b) \<and>
     (\<forall>b n x. length x = n * fx_d F b \<longrightarrow>
        vecs (fx_add F b n x) = vecs b @ rows (fx_d F b) n x \<and> fx_d F (fx_add F b n x) = fx_d F b) \<and>
     (\<forall>b q k. length q = fx_d F b \<longrightarrow> 0 < k \<longrightarrow>
        length (fx_search F b q k) = k \<and>
        distinct (map snd (faiss_found (fx_search F b q k))) \<and>
        set (faiss_found (fx_search F b q k)) \<subseteq> faiss_hits vecs dist b q) \<and>
     (\<forall>b ls. set ls \<subseteq> {0..<int (length (vecs b))} \<longrightarrow>
        fx_reconstruct_batch F b ls = concat (map (\<lambda>l. vecs b ! nat l) ls))"

text \<open>
  An index that searches exhaustively: no vector left out is nearer than one found. Only flat indexes do
  this, and \<open>dist\<close> is the distance of one metric: the predicate describes the library as far as a program
  that uses one exhaustive kind of index and one metric calls it.
\<close>

definition faiss_exact ::
  "('b, 'f::linorder) faiss_lib \<Rightarrow> ('b \<Rightarrow> 'f list list) \<Rightarrow> ('f list \<Rightarrow> 'f list \<Rightarrow> 'f) \<Rightarrow> bool" where
  "faiss_exact F vecs dist \<longleftrightarrow> faiss_contract F vecs dist \<and>
     (\<forall>b q k. length q = fx_d F b \<longrightarrow> 0 < k \<longrightarrow>
        top_k fst k (faiss_hits vecs dist b q) (set (faiss_found (fx_search F b q k))))"

section \<open>The class\<close>

datatype base_kind = IndexFlat | IndexHNSWFlat | IndexHNSW

record ('b, 'id) FaissIndex =
  fi_kind :: base_kind
  fi_index :: 'b
  fi_next_id :: int
  fi_ids :: "('id \<times> int) list"
  fi_inv_ids :: "(int \<times> 'id) list"
  fi_erased :: "int list"

text \<open>The constructor from the arguments of the FAISS index.\<close>

definition faiss_new :: "('b, 'f) faiss_lib \<Rightarrow> faiss_args \<Rightarrow> ('b, 'id) FaissIndex" where
  "faiss_new F args = \<lparr>
     fi_kind = (case args of FlatArgs _ _ \<Rightarrow> IndexFlat | HNSWFlatArgs _ _ _ \<Rightarrow> IndexHNSWFlat),
     fi_index = fx_make F args, fi_next_id = 0, fi_ids = [], fi_inv_ids = [], fi_erased = []\<rparr>"

fun faiss_assign_ids :: "'id list \<Rightarrow> ('b, 'id) FaissIndex \<Rightarrow> ('b, 'id) FaissIndex" where
  "faiss_assign_ids [] x = x"
| "faiss_assign_ids (i # is) x = faiss_assign_ids is (x\<lparr>
     fi_ids := AList.update i (fi_next_id x) (fi_ids x),
     fi_inv_ids := AList.update (fi_next_id x) i (fi_inv_ids x),
     fi_next_id := fi_next_id x + 1\<rparr>)"

definition faiss_add_batch ::
  "('b, 'f) faiss_lib \<Rightarrow> ('b, 'id) FaissIndex \<Rightarrow> nat \<Rightarrow> 'f list \<Rightarrow> 'id list \<Rightarrow>
    ('b, 'id) FaissIndex outcome" where
  "faiss_add_batch F x n vectors ids =
     (let d = fx_d F (fi_index x) in
      if length vectors < n * d \<or> length ids < n then Inl BufferOverrun
      else Inr (faiss_assign_ids (take n ids)
        (x\<lparr>fi_index := fx_add F (fi_index x) n (take (n * d) vectors)\<rparr>)))"

text \<open>
  \<open>single_search\<close> asks FAISS for \<open>k\<close> answers more than there are erased vectors, drops the
  missing and the erased ones and returns the first \<open>k\<close> in the order of distance and label. The sum
  is taken without wrap-around: callers pass a positive \<open>int\<close> for \<open>k\<close>, and an index in memory has fewer
  than \<open>2 ^ 63\<close> labels.
\<close>

definition faiss_usable :: "('b, 'id) FaissIndex \<Rightarrow> ('f \<times> int) \<Rightarrow> bool" where
  "faiss_usable x r \<longleftrightarrow>
     \<not> (snd r = -1 \<or> map_of (fi_inv_ids x) (snd r) = None \<or> snd r \<in> set (fi_erased x))"

definition faiss_single_search ::
  "('b, 'f::linorder) faiss_lib \<Rightarrow> ('b, 'id) FaissIndex \<Rightarrow> nat \<Rightarrow> 'f list \<Rightarrow>
    ('id \<times> 'f) list outcome" where
  "faiss_single_search F x k q =
     (let d = fx_d F (fi_index x) in
      if length q < d then Inl BufferOverrun
      else
        let res = fx_search F (fi_index x) (take d q) (k + length (fi_erased x));
            sorted_res = sort (filter (faiss_usable x) res)
        in Inr (map (\<lambda>(key, value). (the (map_of (fi_inv_ids x) value), key))
             (take (min k (length sorted_res)) sorted_res)))"

text \<open>
  \<open>merge_from_other\<close> reads the other index's live vectors back and adds them here, in the order
  in which its \<open>unordered_map\<close> is iterated. The buffer holds one row of this index's dimension
  for each of them and starts out zero.
\<close>

definition faiss_live_entries ::
  "((int \<times> 'id) list \<Rightarrow> (int \<times> 'id) list) \<Rightarrow> ('b, 'id) FaissIndex \<Rightarrow> (int \<times> 'id) list" where
  "faiss_live_entries it x = filter (\<lambda>(key, _). key \<notin> set (fi_erased x)) (it (fi_inv_ids x))"

definition faiss_merge_from_other ::
  "('b, 'f::zero) faiss_lib \<Rightarrow> ((int \<times> 'id) list \<Rightarrow> (int \<times> 'id) list) \<Rightarrow>
    ('b, 'id) FaissIndex \<Rightarrow> ('b, 'id) FaissIndex \<Rightarrow> ('b, 'id) FaissIndex outcome" where
  "faiss_merge_from_other F it x other =
     (if fi_kind x \<noteq> fi_kind other then Inl (RuntimeError ''Couldn't cast index into FaissIndex'')
      else
        let entries = faiss_live_entries it other;
            ids = map snd entries; idxs = map fst entries;
            room = length idxs * fx_d F (fi_index x);
            rec = fx_reconstruct_batch F (fi_index other) idxs
        in if room < length rec then Inl BufferOverrun
           else faiss_add_batch F x (length ids) (rec @ replicate (room - length rec) 0) ids)"

fun faiss_erase_ids :: "'id list \<Rightarrow> ('b, 'id) FaissIndex \<Rightarrow> ('b, 'id) FaissIndex" where
  "faiss_erase_ids [] x = x"
| "faiss_erase_ids (i # is) x = faiss_erase_ids is
     (case map_of (fi_ids x) i of
        None \<Rightarrow> x
      | Some idx \<Rightarrow> x\<lparr>fi_erased := List.insert idx (fi_erased x)\<rparr>)"

definition faiss_erase_batch ::
  "('b, 'id) FaissIndex \<Rightarrow> nat \<Rightarrow> 'id list \<Rightarrow> ('b, 'id) FaissIndex outcome" where
  "faiss_erase_batch x n ids =
     (if length ids < n then Inl BufferOverrun else Inr (faiss_erase_ids (take n ids) x))"

definition faiss_size :: "('b, 'id) FaissIndex \<Rightarrow> nat" where
  "faiss_size x = size_sub (length (fi_ids x)) (length (fi_erased x))"

definition faiss_getID :: "('b, 'id) FaissIndex \<Rightarrow> int \<Rightarrow> 'id outcome" where
  "faiss_getID x idx =
     (case map_of (fi_inv_ids x) idx of None \<Rightarrow> Inl OutOfRange | Some i \<Rightarrow> Inr i)"

definition get_segment_type :: "base_kind \<Rightarrow> int" where
  "get_segment_type k = (if k = IndexFlat then 0 else 1)"

section \<open>Invariant\<close>

text \<open>
  \<open>faiss_wf\<close> holds of every index the operations build, whatever the identifiers:
  the labels are exactly \<open>0, \<dots>, next_id - 1\<close> and the two maps agree, except that \<open>fi_ids\<close> only
  knows the latest label of an identifier that was added twice.
\<close>

definition faiss_wf :: "('b, 'id) FaissIndex \<Rightarrow> bool" where
  "faiss_wf x \<longleftrightarrow>
     0 \<le> fi_next_id x \<and>
     distinct (map fst (fi_ids x)) \<and> distinct (map fst (fi_inv_ids x)) \<and>
     fst ` set (fi_inv_ids x) = {0..<fi_next_id x} \<and>
     (\<forall>(i, l) \<in> set (fi_ids x). (l, i) \<in> set (fi_inv_ids x)) \<and>
     snd ` set (fi_inv_ids x) = fst ` set (fi_ids x) \<and>
     distinct (fi_erased x) \<and> set (fi_erased x) \<subseteq> {0..<fi_next_id x}"

text \<open>Every identifier was added once, and FAISS holds one vector per label.\<close>

definition faiss_inv ::
  "('b, 'f) faiss_lib \<Rightarrow> ('b \<Rightarrow> 'f list list) \<Rightarrow> ('b, 'id) FaissIndex \<Rightarrow> bool" where
  "faiss_inv F vecs x \<longleftrightarrow> faiss_wf x \<and> distinct (map snd (fi_inv_ids x)) \<and>
     int (length (vecs (fi_index x))) = fi_next_id x"

definition faiss_docs ::
  "('b \<Rightarrow> 'f list list) \<Rightarrow> ('b, 'id) FaissIndex \<Rightarrow> ('id, 'f) document list" where
  "faiss_docs vecs x =
     map (\<lambda>(l, i). (i, vecs (fi_index x) ! nat l))
       (filter (\<lambda>(l, _). l \<notin> set (fi_erased x)) (fi_inv_ids x))"

definition faiss_known :: "('b, 'id) FaissIndex \<Rightarrow> 'id set" where
  "faiss_known x = fst ` set (fi_ids x)"

definition faiss_shape :: "('b, 'f) faiss_lib \<Rightarrow> ('b, 'id) FaissIndex \<Rightarrow> base_kind \<times> nat" where
  "faiss_shape F x = (fi_kind x, fx_d F (fi_index x))"

section \<open>Preservation\<close>

lemma set_AList_update:
  "distinct (map fst xs) \<Longrightarrow>
    set (AList.update k v xs) = insert (k, v) {p \<in> set xs. fst p \<noteq> k}"
proof (induction xs)
  case Nil
  then show ?case by simp
next
  case (Cons p xs)
  then show ?case by (cases "fst p = k") (force simp: image_iff)+
qed

lemma faiss_wfD:
  assumes "faiss_wf x"
  shows "0 \<le> fi_next_id x" and "distinct (map fst (fi_ids x))" and "distinct (map fst (fi_inv_ids x))"
    and "fst ` set (fi_inv_ids x) = {0..<fi_next_id x}"
    and "\<And>i l. (i, l) \<in> set (fi_ids x) \<Longrightarrow> (l, i) \<in> set (fi_inv_ids x)"
    and "snd ` set (fi_inv_ids x) = fst ` set (fi_ids x)"
    and "distinct (fi_erased x)" and "set (fi_erased x) \<subseteq> {0..<fi_next_id x}"
  using assms by (auto simp only: faiss_wf_def)

lemma faiss_wfI:
  assumes "0 \<le> fi_next_id x" and "distinct (map fst (fi_ids x))" and "distinct (map fst (fi_inv_ids x))"
    and "fst ` set (fi_inv_ids x) = {0..<fi_next_id x}"
    and "\<And>i l. (i, l) \<in> set (fi_ids x) \<Longrightarrow> (l, i) \<in> set (fi_inv_ids x)"
    and "snd ` set (fi_inv_ids x) = fst ` set (fi_ids x)"
    and "distinct (fi_erased x)" and "set (fi_erased x) \<subseteq> {0..<fi_next_id x}"
  shows "faiss_wf x"
  unfolding faiss_wf_def using assms by blast

lemma faiss_assign_ids_frame [simp]:
  "fi_kind (faiss_assign_ids is x) = fi_kind x"
  "fi_index (faiss_assign_ids is x) = fi_index x"
  "fi_erased (faiss_assign_ids is x) = fi_erased x"
  "fi_next_id (faiss_assign_ids is x) = fi_next_id x + int (length is)"
  by (induction "is" arbitrary: x) auto

lemma faiss_erase_ids_frame [simp]:
  "fi_kind (faiss_erase_ids is x) = fi_kind x"
  "fi_index (faiss_erase_ids is x) = fi_index x"
  "fi_ids (faiss_erase_ids is x) = fi_ids x"
  "fi_inv_ids (faiss_erase_ids is x) = fi_inv_ids x"
  "fi_next_id (faiss_erase_ids is x) = fi_next_id x"
  by (induction "is" arbitrary: x) (auto split: option.split)

lemma faiss_wf_index [simp]: "faiss_wf (x\<lparr>fi_index := b\<rparr>) \<longleftrightarrow> faiss_wf x"
  by (simp add: faiss_wf_def)

lemma faiss_wf_new [simp]: "faiss_wf (faiss_new F a)"
  by (simp add: faiss_wf_def faiss_new_def)

lemma faiss_wf_assign1:
  assumes wf: "faiss_wf x"
  shows "faiss_wf (faiss_assign_ids [i] x)"
proof -
  let ?l = "fi_next_id x"
  note D = faiss_wfD [OF wf]
  have fresh: "?l \<notin> fst ` set (fi_inv_ids x)" by (simp only: D(4) atLeastLessThan_iff) simp
  have ids: "set (AList.update i ?l (fi_ids x)) = insert (i, ?l) {p \<in> set (fi_ids x). fst p \<noteq> i}"
    by (rule set_AList_update [OF D(2)])
  have inv: "set (AList.update ?l i (fi_inv_ids x)) = insert (?l, i) (set (fi_inv_ids x))"
    by (rule set_AList_update_fresh [OF fresh])
  have keys: "fst ` set (AList.update ?l i (fi_inv_ids x)) = {0..<?l + 1}"
    unfolding inv image_insert D(4) using D(1) by auto
  have names: "snd ` set (AList.update ?l i (fi_inv_ids x)) = fst ` set (AList.update i ?l (fi_ids x))"
    unfolding inv image_insert D(6) dom_update by simp
  have agree: "(l, j) \<in> set (AList.update ?l i (fi_inv_ids x))"
    if "(j, l) \<in> set (AList.update i ?l (fi_ids x))" for j l
    using that D(5) unfolding ids inv by blast
  show ?thesis
    by (rule faiss_wfI)
      (use D(1,8) in \<open>auto simp: keys names agree distinct_update D(2,3,7)\<close>)
qed

lemma faiss_wf_assign: "faiss_wf x \<Longrightarrow> faiss_wf (faiss_assign_ids is x)"
proof (induction "is" arbitrary: x)
  case Nil
  then show ?case by simp
next
  case (Cons i "is")
  then have "faiss_wf (faiss_assign_ids is (faiss_assign_ids [i] x))"
    by (intro Cons.IH faiss_wf_assign1)
  then show ?case by simp
qed

lemma faiss_erased_bound:
  assumes "faiss_wf x" and "map_of (fi_ids x) i = Some l"
  shows "l \<in> {0..<fi_next_id x}"
proof -
  from assms(2) have "(i, l) \<in> set (fi_ids x)" by (rule map_of_SomeD)
  then have "(l, i) \<in> set (fi_inv_ids x)" by (rule faiss_wfD(5) [OF assms(1)])
  then have "l \<in> fst ` set (fi_inv_ids x)" by force
  then show ?thesis by (simp only: faiss_wfD(4) [OF assms(1)])
qed

lemma faiss_wf_erase: "faiss_wf x \<Longrightarrow> faiss_wf (faiss_erase_ids is x)"
proof (induction "is" arbitrary: x)
  case Nil
  then show ?case by simp
next
  case (Cons i "is")
  show ?case
  proof (cases "map_of (fi_ids x) i")
    case None
    with Cons show ?thesis by simp
  next
    case (Some l)
    with Cons.prems have "l \<in> {0..<fi_next_id x}" by (rule faiss_erased_bound)
    with faiss_wfD [OF Cons.prems] have "faiss_wf (x\<lparr>fi_erased := List.insert l (fi_erased x)\<rparr>)"
      by (intro faiss_wfI) (auto simp: distinct_insert)
    with Cons.IH Some show ?thesis by simp
  qed
qed

lemma faiss_assign_inv_ids:
  "faiss_wf x \<Longrightarrow> fi_inv_ids (faiss_assign_ids is x) =
     fi_inv_ids x @ zip (map (\<lambda>j. fi_next_id x + int j) [0..<length is]) is"
proof (induction "is" arbitrary: x)
  case Nil
  then show ?case by simp
next
  case (Cons i "is")
  let ?y = "faiss_assign_ids [i] x"
  have fresh: "fi_next_id x \<notin> fst ` set (fi_inv_ids x)" by (simp add: faiss_wfD(4) [OF Cons.prems])
  have "fi_inv_ids (faiss_assign_ids (i # is) x) = fi_inv_ids (faiss_assign_ids is ?y)" by simp
  also have "\<dots> = fi_inv_ids ?y @ zip (map (\<lambda>j. fi_next_id ?y + int j) [0..<length is]) is"
    using Cons.prems by (intro Cons.IH faiss_wf_assign)
  also have "fi_inv_ids ?y = fi_inv_ids x @ [(fi_next_id x, i)]"
    using fresh by (simp add: AList_update_fresh)
  finally show ?case
    by (simp add: map_upt_Suc algebra_simps del: upt_Suc faiss_assign_ids.simps)
qed

lemma faiss_assign_known [simp]:
  "faiss_known (faiss_assign_ids is x) = faiss_known x \<union> set is"
  by (induction "is" arbitrary: x) (auto simp: faiss_known_def dom_update)

lemma faiss_erase_known [simp]: "faiss_known (faiss_erase_ids is x) = faiss_known x"
  by (simp add: faiss_known_def)

section \<open>The documents of an index\<close>

lemma faiss_invD:
  assumes "faiss_inv F vecs x"
  shows "faiss_wf x" and "distinct (map snd (fi_inv_ids x))"
    and "int (length (vecs (fi_index x))) = fi_next_id x"
  using assms by (auto simp only: faiss_inv_def)

lemma faiss_contractD:
  assumes "faiss_contract F vecs dist"
  shows "vecs (fx_make F a) = []"
    and "v \<in> set (vecs b) \<Longrightarrow> length v = fx_d F b"
    and "length x = n * fx_d F b \<Longrightarrow> vecs (fx_add F b n x) = vecs b @ rows (fx_d F b) n x"
    and "length x = n * fx_d F b \<Longrightarrow> fx_d F (fx_add F b n x) = fx_d F b"
    and "length q = fx_d F b \<Longrightarrow> 0 < k \<Longrightarrow> length (fx_search F b q k) = k"
    and "length q = fx_d F b \<Longrightarrow> 0 < k \<Longrightarrow> distinct (map snd (faiss_found (fx_search F b q k)))"
    and "length q = fx_d F b \<Longrightarrow> 0 < k \<Longrightarrow> set (faiss_found (fx_search F b q k)) \<subseteq> faiss_hits vecs dist b q"
    and "set ls \<subseteq> {0..<int (length (vecs b))} \<Longrightarrow>
      fx_reconstruct_batch F b ls = concat (map (\<lambda>l. vecs b ! nat l) ls)"
  using assms unfolding faiss_contract_def by simp_all

lemma faiss_inv_new: "faiss_contract F vecs dist \<Longrightarrow> faiss_inv F vecs (faiss_new F a)"
  by (simp add: faiss_inv_def faiss_contractD) (simp add: faiss_new_def faiss_contractD)

lemma faiss_docs_new [simp]: "faiss_docs vecs (faiss_new F a) = []"
  by (simp add: faiss_docs_def faiss_new_def)

lemma faiss_known_new [simp]: "faiss_known (faiss_new F a) = {}"
  by (simp add: faiss_known_def faiss_new_def)

lemma faiss_inv_length:
  assumes "faiss_inv F vecs x"
  shows "int (length (fi_inv_ids x)) = fi_next_id x" and "length (fi_ids x) = length (fi_inv_ids x)"
proof -
  note D = faiss_wfD [OF faiss_invD(1) [OF assms]]
  have "length (fi_inv_ids x) = card (fst ` set (fi_inv_ids x))"
    using distinct_card [OF D(3)] by simp
  then show "int (length (fi_inv_ids x)) = fi_next_id x" using D(1,4) by simp
  have "length (fi_ids x) = card (fst ` set (fi_ids x))" using distinct_card [OF D(2)] by simp
  also have "\<dots> = card (snd ` set (fi_inv_ids x))" by (simp only: D(6))
  also have "\<dots> = length (fi_inv_ids x)" using distinct_card [OF faiss_invD(2) [OF assms]] by simp
  finally show "length (fi_ids x) = length (fi_inv_ids x)" .
qed

lemma length_faiss_docs:
  assumes "faiss_wf x"
  shows "length (faiss_docs vecs x) + length (fi_erased x) = nat (fi_next_id x)"
proof -
  note D = faiss_wfD [OF assms]
  let ?live = "filter (\<lambda>(l, _). l \<notin> set (fi_erased x)) (fi_inv_ids x)"
  have "distinct (map fst ?live)" using D(3) by (simp add: distinct_map_filter)
  then have "length ?live = card (fst ` set ?live)" using distinct_card by fastforce
  also have "fst ` set ?live = {0..<fi_next_id x} - set (fi_erased x)"
    unfolding D(4) [symmetric] by force
  also have "card \<dots> = nat (fi_next_id x) - length (fi_erased x)"
    using D(8) distinct_card [OF D(7)] by (simp add: card_Diff_subset)
  finally have "length ?live = nat (fi_next_id x) - length (fi_erased x)" .
  moreover have "length (fi_erased x) \<le> nat (fi_next_id x)"
    using card_mono [OF _ D(8)] distinct_card [OF D(7)] by simp
  ultimately show ?thesis by (simp add: faiss_docs_def)
qed

lemma faiss_size_docs:
  assumes "faiss_inv F vecs x"
  shows "faiss_size x = length (faiss_docs vecs x)"
proof -
  have "length (fi_ids x) = nat (fi_next_id x)"
    using faiss_inv_length [OF assms] by linarith
  then show ?thesis
    using length_faiss_docs [OF faiss_invD(1) [OF assms], of vecs]
    by (simp add: faiss_size_def)
qed

lemma faiss_docs_known: "faiss_wf x \<Longrightarrow> fst ` set (faiss_docs vecs x) \<subseteq> faiss_known x"
proof
  fix i assume wf: "faiss_wf x" and "i \<in> fst ` set (faiss_docs vecs x)"
  then have "i \<in> snd ` set (fi_inv_ids x)" by (force simp: faiss_docs_def)
  then show "i \<in> faiss_known x" by (simp only: faiss_wfD(6) [OF wf] faiss_known_def)
qed

lemma map_fst_faiss_docs:
  "map fst (faiss_docs vecs x) = map snd (filter (\<lambda>(l, _). l \<notin> set (fi_erased x)) (fi_inv_ids x))"
  by (simp add: faiss_docs_def comp_def case_prod_unfold)

lemma faiss_docs_distinct: "faiss_inv F vecs x \<Longrightarrow> distinct (map fst (faiss_docs vecs x))"
  by (auto simp only: map_fst_faiss_docs faiss_inv_def intro: distinct_map_filter)

subsection \<open>Adding\<close>

lemma faiss_docs_assign:
  assumes inv: "faiss_inv F vecs x" and vecs: "vecs b = vecs (fi_index x) @ vs"
    and len: "length vs = length is"
  shows "faiss_docs vecs (faiss_assign_ids is (x\<lparr>fi_index := b\<rparr>)) = faiss_docs vecs x @ zip is vs"
proof -
  note D = faiss_wfD [OF faiss_invD(1) [OF inv]] and N = faiss_invD(3) [OF inv]
  let ?E = "set (fi_erased x)"
  let ?new = "zip (map (\<lambda>j. fi_next_id x + int j) [0..<length is]) is"
  have old: "map (\<lambda>(l, i). (i, vecs b ! nat l)) (filter (\<lambda>(l, _). l \<notin> ?E) (fi_inv_ids x)) =
      faiss_docs vecs x"
  proof -
    have "nat l < length (vecs (fi_index x))" if "(l, i) \<in> set (fi_inv_ids x)" for l i
    proof -
      from that have "l \<in> fst ` set (fi_inv_ids x)" by force
      then show ?thesis using N by (simp add: D(4) nat_less_iff)
    qed
    then show ?thesis unfolding faiss_docs_def vecs
      by (auto intro!: map_cong simp: nth_append)
  qed
  have "filter (\<lambda>(l, _). l \<notin> ?E) ?new = ?new"
  proof (rule filter_True, clarify)
    fix l i assume "(l, i) \<in> set ?new" and "l \<in> ?E"
    then show False by (auto dest!: set_zip_leftD subsetD [OF D(8)])
  qed
  moreover have "map (\<lambda>(l, i). (i, vecs b ! nat l)) ?new = zip is vs"
    using len by (intro nth_equalityI) (auto simp: vecs nth_append nat_add_distrib simp flip: N)
  ultimately show ?thesis using faiss_invD(1) [OF inv] old
    by (simp add: faiss_docs_def faiss_assign_inv_ids)
qed

lemma faiss_inv_assign:
  assumes inv: "faiss_inv F vecs x" and vecs: "vecs b = vecs (fi_index x) @ vs"
    and len: "length vs = length is" and fresh: "distinct is" "set is \<inter> faiss_known x = {}"
  shows "faiss_inv F vecs (faiss_assign_ids is (x\<lparr>fi_index := b\<rparr>))"
proof -
  note wf = faiss_invD(1) [OF inv]
  have "map snd (zip (map (\<lambda>j. fi_next_id x + int j) [0..<length is]) is) = is" by simp
  moreover have "set (map snd (fi_inv_ids x)) = faiss_known x"
    unfolding set_map by (simp only: faiss_wfD(6) [OF wf] faiss_known_def)
  ultimately have "distinct (map snd (fi_inv_ids (faiss_assign_ids is (x\<lparr>fi_index := b\<rparr>))))"
    using wf fresh faiss_invD(2) [OF inv]
    by (simp only: faiss_assign_inv_ids faiss_wf_index map_append distinct_append) auto
  then show ?thesis using wf faiss_invD(3) [OF inv] len
    by (simp add: faiss_inv_def faiss_wf_assign vecs)
qed

lemma faiss_add_docs:
  assumes con: "faiss_contract F vecs dist" and inv: "faiss_inv F vecs x"
    and len: "n * fx_d F (fi_index x) \<le> length vs" "n \<le> length ids"
    and fresh: "distinct (take n ids)" "set (take n ids) \<inter> faiss_known x = {}"
  shows "\<exists>y. faiss_add_batch F x n vs ids = Inr y \<and> faiss_inv F vecs y \<and>
    faiss_shape F y = faiss_shape F x \<and> faiss_known y = faiss_known x \<union> set (take n ids) \<and>
    faiss_docs vecs y = faiss_docs vecs x @ zip (take n ids) (rows (fx_d F (fi_index x)) n vs)"
proof -
  let ?d = "fx_d F (fi_index x)"
  let ?b = "fx_add F (fi_index x) n (take (n * ?d) vs)"
  let ?y = "faiss_assign_ids (take n ids) (x\<lparr>fi_index := ?b\<rparr>)"
  have taken: "length (take (n * ?d) vs) = n * ?d" using len by simp
  then have b: "vecs ?b = vecs (fi_index x) @ rows ?d n vs" "fx_d F ?b = ?d"
    using con by (simp_all add: faiss_contractD rows_take)
  have n: "length (rows ?d n vs) = length (take n ids)" using len by simp
  have "faiss_add_batch F x n vs ids = Inr ?y" using len by (simp add: faiss_add_batch_def)
  moreover have "faiss_inv F vecs ?y" by (rule faiss_inv_assign [OF inv b(1) n fresh])
  moreover have "faiss_docs vecs ?y = faiss_docs vecs x @ zip (take n ids) (rows ?d n vs)"
    by (rule faiss_docs_assign [OF inv b(1) n])
  moreover have "faiss_shape F ?y = faiss_shape F x" using b by (simp add: faiss_shape_def)
  moreover have "faiss_known ?y = faiss_known x \<union> set (take n ids)"
    by (simp add: faiss_known_def [of "x\<lparr>fi_index := _\<rparr>"] faiss_known_def [of x])
  ultimately show ?thesis by blast
qed

subsection \<open>Erasing\<close>

lemma set_faiss_erase_ids:
  "set (fi_erased (faiss_erase_ids is x)) =
     set (fi_erased x) \<union> {l. \<exists>i \<in> set is. map_of (fi_ids x) i = Some l}"
  by (induction "is" arbitrary: x) (auto split: option.split)

lemma faiss_erase_docs:
  assumes inv: "faiss_inv F vecs x"
  shows "faiss_docs vecs (faiss_erase_ids is x) =
    filter (\<lambda>(i, _). i \<notin> set is) (faiss_docs vecs x)"
proof -
  note D = faiss_wfD [OF faiss_invD(1) [OF inv]] and U = faiss_invD(2) [OF inv]
  have hit: "l \<in> {l. \<exists>i \<in> set is. map_of (fi_ids x) i = Some l} \<longleftrightarrow> j \<in> set is"
    if l: "(l, j) \<in> set (fi_inv_ids x)" for l j
  proof
    assume "l \<in> {l. \<exists>i \<in> set is. map_of (fi_ids x) i = Some l}"
    then obtain i where "i \<in> set is" and "map_of (fi_ids x) i = Some l" by blast
    moreover from this have "(l, i) \<in> set (fi_inv_ids x)" using D(5) map_of_SomeD by fast
    with l D(3) have "i = j" by (metis eq_key_imp_eq_value)
    ultimately show "j \<in> set is" by simp
  next
    assume j: "j \<in> set is"
    from l have "j \<in> snd ` set (fi_inv_ids x)" by force
    then have "j \<in> fst ` set (fi_ids x)" by (simp only: D(6))
    then obtain l' where l': "map_of (fi_ids x) j = Some l'"
      by (metis domD dom_map_of_conv_image_fst)
    then have "(l', j) \<in> set (fi_inv_ids x)" using D(5) map_of_SomeD by fast
    with l U have "l' = l" by (fastforce simp: distinct_map inj_on_def)
    with l' j show "l \<in> {l. \<exists>i \<in> set is. map_of (fi_ids x) i = Some l}" by blast
  qed
  have "filter (\<lambda>(l, _). l \<notin> set (fi_erased (faiss_erase_ids is x))) (fi_inv_ids x) =
    filter (\<lambda>(l, j). l \<notin> set (fi_erased x) \<and> j \<notin> set is) (fi_inv_ids x)"
    by (rule filter_cong) (use hit in \<open>auto simp only: set_faiss_erase_ids\<close>)
  then show ?thesis
    by (simp add: faiss_docs_def filter_map comp_def case_prod_unfold conj_commute)
qed

lemma faiss_inv_erase: "faiss_inv F vecs x \<Longrightarrow> faiss_inv F vecs (faiss_erase_ids is x)"
  by (simp add: faiss_inv_def faiss_wf_erase)

subsection \<open>Merging\<close>

lemma faiss_live_entries_docs:
  assumes "reorders it"
  shows "mset (map (\<lambda>(l, i). (i, vecs (fi_index x) ! nat l)) (faiss_live_entries it x)) =
    mset (faiss_docs vecs x)"
  using reorders_mset [OF assms, of "fi_inv_ids x"]
  by (simp add: faiss_live_entries_def faiss_docs_def)

lemma faiss_merge_docs:
  assumes con: "faiss_contract F vecs dist" and it: "reorders it"
    and inv: "faiss_inv F vecs x" "faiss_inv F vecs y"
    and shape: "faiss_shape F x = faiss_shape F y"
    and fresh: "faiss_known x \<inter> fst ` set (faiss_docs vecs y) = {}"
  shows "\<exists>z. faiss_merge_from_other F it x y = Inr z \<and> faiss_inv F vecs z \<and>
    faiss_shape F z = faiss_shape F x \<and>
    faiss_known z = faiss_known x \<union> fst ` set (faiss_docs vecs y) \<and>
    mset (faiss_docs vecs z) = mset (faiss_docs vecs x) + mset (faiss_docs vecs y)"
proof -
  note D = faiss_wfD [OF faiss_invD(1) [OF inv(2)]] and N = faiss_invD(3) [OF inv(2)]
  let ?es = "faiss_live_entries it y" and ?d = "fx_d F (fi_index x)"
  let ?row = "\<lambda>l. vecs (fi_index y) ! nat l"
  let ?docs = "map (\<lambda>(l, i). (i, ?row l)) ?es"
  let ?rec = "concat (map ?row (map fst ?es))"
  have es: "mset ?docs = mset (faiss_docs vecs y)" by (rule faiss_live_entries_docs [OF it])
  have ids_mset: "mset (map snd ?es) = mset (map fst (faiss_docs vecs y))"
    using arg_cong [OF es, of "image_mset fst"] by (simp add: comp_def case_prod_unfold flip: mset_map)
  have ids: "distinct (map snd ?es)" "set (map snd ?es) = fst ` set (faiss_docs vecs y)"
    using mset_eq_imp_distinct_iff [OF ids_mset] mset_eq_setD [OF ids_mset]
      faiss_docs_distinct [OF inv(2)] by simp_all
  have "set (map fst ?es) \<subseteq> fst ` set (fi_inv_ids y)"
    using reorders_set [OF it] by (auto simp: faiss_live_entries_def)
  then have range: "set (map fst ?es) \<subseteq> {0..<int (length (vecs (fi_index y)))}"
    by (simp only: D(4) N)
  then have rec: "fx_reconstruct_batch F (fi_index y) (map fst ?es) = ?rec"
    by (rule faiss_contractD(8) [OF con])
  have dims: "fx_d F (fi_index y) = ?d" and kinds: "fi_kind x = fi_kind y"
    using shape by (simp_all add: faiss_shape_def)
  have rows: "\<forall>v \<in> set (map ?row (map fst ?es)). length v = ?d"
  proof
    fix v assume "v \<in> set (map ?row (map fst ?es))"
    then obtain l where "l \<in> set (map fst ?es)" and v: "v = ?row l" by auto
    with range have "nat l < length (vecs (fi_index y))" by (auto simp: nat_less_iff)
    with v have "v \<in> set (vecs (fi_index y))" by simp
    then show "length v = ?d" using faiss_contractD(2) [OF con] dims by metis
  qed
  have room: "length ?rec = length ?es * ?d" using length_concat_rows [OF rows] by simp
  have step: "faiss_merge_from_other F it x y =
      faiss_add_batch F x (length ?es) ?rec (map snd ?es)"
    using kinds room rec by (simp add: faiss_merge_from_other_def Let_def)
  have rr: "rows ?d (length ?es) ?rec = map ?row (map fst ?es)"
    using rows_concat [OF rows] by simp
  have "zip (map snd ?es) (map ?row (map fst ?es)) = ?docs"
    by (auto simp: zip_map1 zip_map2 zip_same_conv_map)
  moreover have "take (length ?es) (map snd ?es) = map snd ?es" by simp
  moreover have "set (map snd ?es) \<inter> faiss_known x = {}" using fresh ids(2) by blast
  ultimately obtain z where "faiss_merge_from_other F it x y = Inr z" and "faiss_inv F vecs z"
    and "faiss_shape F z = faiss_shape F x" and "faiss_known z = faiss_known x \<union> set (map snd ?es)"
    and "faiss_docs vecs z = faiss_docs vecs x @ ?docs"
    using faiss_add_docs [OF con inv(1), of "length ?es" ?rec "map snd ?es"] room ids(1)
    unfolding step rr by auto
  then show ?thesis using es ids(2) by auto
qed

end
