(* ===== verification/Faiss_Interface.thy ===== *)
theory Faiss_Interface
  imports Faiss_Index
begin

text \<open>
  Searching a \<open>FaissIndex\<close>: \<open>single_search\<close> returns documents of the index with their true
  distances, and the exact top-k when FAISS searches exhaustively, because asking for as many
  extra answers as there are erased vectors makes up for the ones that are dropped. With the
  lemmas on adding, erasing and merging this makes \<open>FaissIndex\<close> an implementation of
  \<open>IBaseIndex\<close>: the interpretations of both contracts.
\<close>

section \<open>Searching\<close>

lemma faiss_hits_inj: "inj_on snd (faiss_hits vecs dist b q)"
  by (auto simp: inj_on_def faiss_hits_def)

text \<open>
  Relabelling: a usable answer carries the label of a live document, and its identifier and
  distance are those of that document.
\<close>

definition faiss_relabel :: "('b, 'id) FaissIndex \<Rightarrow> ('f \<times> int) \<Rightarrow> ('id, 'f) SearchResult" where
  "faiss_relabel x r = SearchResult (the (map_of (fi_inv_ids x) (snd r))) (fst r)"

lemma faiss_inv_lookup:
  assumes "faiss_inv F vecs x" and "l \<in> {0..<fi_next_id x}"
  obtains i where "(l, i) \<in> set (fi_inv_ids x)" and "map_of (fi_inv_ids x) l = Some i"
proof -
  note D = faiss_wfD [OF faiss_invD(1) [OF assms(1)]]
  from assms(2) have "l \<in> fst ` set (fi_inv_ids x)" by (simp only: D(4))
  then obtain i where "(l, i) \<in> set (fi_inv_ids x)" by force
  moreover from this have "map_of (fi_inv_ids x) l = Some i" using D(3) by simp
  ultimately show thesis by (rule that)
qed

lemma faiss_name_inj:
  assumes inv: "faiss_inv F vecs x"
  shows "inj_on (\<lambda>r. sr_id (faiss_relabel x r)) (faiss_hits vecs dist (fi_index x) q)"
proof (rule inj_onI)
  fix r s
  assume r: "r \<in> faiss_hits vecs dist (fi_index x) q" and s: "s \<in> faiss_hits vecs dist (fi_index x) q"
    and eq: "sr_id (faiss_relabel x r) = sr_id (faiss_relabel x s)"
  have "snd r \<in> {0..<fi_next_id x}" and "snd s \<in> {0..<fi_next_id x}"
    using r s faiss_invD(3) [OF inv] by (auto simp: faiss_hits_def)
  then obtain i j where "(snd r, i) \<in> set (fi_inv_ids x)" "map_of (fi_inv_ids x) (snd r) = Some i"
    and "(snd s, j) \<in> set (fi_inv_ids x)" "map_of (fi_inv_ids x) (snd s) = Some j"
    using faiss_inv_lookup [OF inv] by metis
  moreover from this eq have "i = j" by (simp add: faiss_relabel_def)
  ultimately have "snd r = snd s"
    using faiss_invD(2) [OF inv] by (fastforce simp: distinct_map inj_on_def)
  with r s show "r = s" using faiss_hits_inj by (metis inj_onD)
qed

lemma faiss_relabel_live:
  assumes inv: "faiss_inv F vecs x"
  shows "faiss_relabel x ` {r \<in> faiss_hits vecs dist (fi_index x) q. snd r \<notin> set (fi_erased x)} =
    candidates dist q (set (faiss_docs vecs x))"
    (is "?f ` ?H = ?C")
proof (intro equalityI subsetI)
  fix c assume "c \<in> ?f ` ?H"
  then obtain l where l: "l \<in> {0..<fi_next_id x}" "l \<notin> set (fi_erased x)"
    and c: "c = ?f (dist q (vecs (fi_index x) ! nat l), l)"
    using faiss_invD(3) [OF inv] by (auto simp: faiss_hits_def)
  obtain i where "(l, i) \<in> set (fi_inv_ids x)" "map_of (fi_inv_ids x) l = Some i"
    by (rule faiss_inv_lookup [OF inv l(1)])
  with l c show "c \<in> ?C" by (force simp: faiss_relabel_def candidates_def faiss_docs_def)
next
  note D = faiss_wfD [OF faiss_invD(1) [OF inv]]
  fix c assume "c \<in> ?C"
  then obtain l i where li: "(l, i) \<in> set (fi_inv_ids x)" "l \<notin> set (fi_erased x)"
    and c: "c = SearchResult i (dist q (vecs (fi_index x) ! nat l))"
    by (auto simp: candidates_def faiss_docs_def)
  from li have "l \<in> fst ` set (fi_inv_ids x)" by force
  then have l: "l \<in> {0..<fi_next_id x}" by (simp only: D(4))
  have "map_of (fi_inv_ids x) l = Some i" using D(3) li by simp
  with c have "c = ?f (dist q (vecs (fi_index x) ! nat l), l)" by (simp add: faiss_relabel_def)
  moreover have "(dist q (vecs (fi_index x) ! nat l), l) \<in> ?H"
    using l li faiss_invD(3) [OF inv] by (auto simp: faiss_hits_def)
  ultimately show "c \<in> ?f ` ?H" by blast
qed

lemma faiss_relabel_inj:
  "faiss_inv F vecs x \<Longrightarrow> inj_on (faiss_relabel x) (faiss_hits vecs dist (fi_index x) q)"
  using faiss_name_inj by (fastforce simp: inj_on_def)

text \<open>The answers of FAISS that \<open>single_search\<close> keeps, and what it returns for them.\<close>

definition faiss_kept :: "('b, 'f) faiss_lib \<Rightarrow> ('b, 'id) FaissIndex \<Rightarrow> nat \<Rightarrow> 'f list \<Rightarrow> ('f \<times> int) list" where
  "faiss_kept F x k q = filter (\<lambda>r. snd r \<notin> set (fi_erased x))
     (faiss_found (fx_search F (fi_index x) (take (fx_d F (fi_index x)) q) (k + length (fi_erased x))))"

lemma faiss_kept_hits:
  assumes con: "faiss_contract F vecs dist" and len: "fx_d F (fi_index x) \<le> length q" and k: "0 < k"
  shows "set (faiss_kept F x k q) \<subseteq> {r \<in> faiss_hits vecs dist (fi_index x) (take (fx_d F (fi_index x)) q).
      snd r \<notin> set (fi_erased x)}"
    and "distinct (map snd (faiss_kept F x k q))"
  using faiss_contractD(6,7) [OF con, of "take (fx_d F (fi_index x)) q" "fi_index x" "k + length (fi_erased x)"] len k
  by (auto simp: faiss_kept_def distinct_map_filter)

lemma faiss_single_search_kept:
  assumes con: "faiss_contract F vecs dist" and inv: "faiss_inv F vecs x"
    and len: "fx_d F (fi_index x) \<le> length q" and k: "0 < k"
  shows "faiss_single_search F x k q =
    Inr (map (\<lambda>r. (sr_id (faiss_relabel x r), fst r)) (least_k k (set (faiss_kept F x k q))))"
proof -
  let ?d = "fx_d F (fi_index x)"
  let ?res = "fx_search F (fi_index x) (take ?d q) (k + length (fi_erased x))"
  have known: "map_of (fi_inv_ids x) (snd r) \<noteq> None" if "r \<in> set (faiss_found ?res)" for r
  proof -
    have "r \<in> faiss_hits vecs dist (fi_index x) (take ?d q)"
      using that faiss_contractD(7) [OF con, of "take ?d q" "fi_index x" "k + length (fi_erased x)"] len k by auto
    then have "snd r \<in> {0..<fi_next_id x}"
      using faiss_invD(3) [OF inv] by (auto simp: faiss_hits_def)
    then show ?thesis using faiss_inv_lookup [OF inv] by (metis option.distinct(1))
  qed
  have "filter (faiss_usable x) ?res =
    filter (\<lambda>r. snd r \<notin> set (fi_erased x) \<and> map_of (fi_inv_ids x) (snd r) \<noteq> None) (faiss_found ?res)"
    by (auto simp: faiss_found_def faiss_usable_def intro!: filter_cong)
  also have "\<dots> = faiss_kept F x k q"
    unfolding faiss_kept_def using known by (intro filter_cong) auto
  finally have kept: "filter (faiss_usable x) ?res = faiss_kept F x k q" .
  have "distinct (faiss_kept F x k q)"
    using faiss_kept_hits(2) [OF con len k] distinct_map by blast
  then have "take k (sort (faiss_kept F x k q)) = least_k k (set (faiss_kept F x k q))"
    by (rule take_sort_distinct)
  with len show ?thesis
    by (simp add: faiss_single_search_def Let_def kept faiss_relabel_def case_prod_unfold
        flip: take_take)
qed

lemma faiss_search_sound:
  assumes con: "faiss_contract F vecs dist" and inv: "faiss_inv F vecs x"
    and len: "fx_d F (fi_index x) \<le> length q" and k: "0 < k"
  shows "\<exists>r. faiss_single_search F x k q = Inr r \<and> length r \<le> k \<and> distinct (map fst r) \<and>
    as_results r \<subseteq> candidates dist (take (fx_d F (fi_index x)) q) (set (faiss_docs vecs x))"
proof -
  let ?best = "least_k k (set (faiss_kept F x k q))"
  have sub: "set ?best \<subseteq> set (faiss_kept F x k q)" by (rule set_least_k_subset) simp
  note hits = faiss_kept_hits(1) [OF con len k]
  have "inj_on (\<lambda>r. sr_id (faiss_relabel x r)) (set ?best)"
    by (rule inj_on_subset [OF faiss_name_inj [OF inv]]) (use sub hits in blast)
  then have "distinct (map (\<lambda>r. sr_id (faiss_relabel x r)) ?best)"
    by (simp add: distinct_map distinct_least_k)
  moreover have "as_results (map (\<lambda>r. (sr_id (faiss_relabel x r), fst r)) ?best) =
      faiss_relabel x ` set ?best"
    by (force simp: as_results_def faiss_relabel_def image_iff)
  moreover have "faiss_relabel x ` set ?best \<subseteq>
      candidates dist (take (fx_d F (fi_index x)) q) (set (faiss_docs vecs x))"
    unfolding faiss_relabel_live [OF inv, symmetric] using sub hits by blast
  ultimately show ?thesis
    using faiss_single_search_kept [OF con inv len k] by (simp add: length_least_k comp_def)
qed

text \<open>With an exhaustive FAISS index the answer is exact, deletions included.\<close>

lemma faiss_search_exact:
  assumes ex: "faiss_exact F vecs dist" and inv: "faiss_inv F vecs x"
    and len: "fx_d F (fi_index x) \<le> length q" and k: "0 < k" and r: "faiss_single_search F x k q = Inr r"
  shows "top_k sr_dist k (candidates dist (take (fx_d F (fi_index x)) q) (set (faiss_docs vecs x)))
    (as_results r)"
proof -
  from ex have con: "faiss_contract F vecs dist" by (simp add: faiss_exact_def)
  note D = faiss_wfD [OF faiss_invD(1) [OF inv]] and N = faiss_invD(3) [OF inv]
  let ?q = "take (fx_d F (fi_index x)) q" and ?K = "set (faiss_kept F x k q)"
  let ?H = "faiss_hits vecs dist (fi_index x) ?q"
  let ?E = "{r \<in> ?H. snd r \<in> set (fi_erased x)}"
  let ?found = "set (faiss_found (fx_search F (fi_index x) ?q (k + length (fi_erased x))))"
  have "snd ` ?E = set (fi_erased x) \<inter> {0..<int (length (vecs (fi_index x)))}"
    unfolding faiss_hits_def by (auto simp: image_iff)
  then have img: "snd ` ?E = set (fi_erased x)" using D(8) N by auto
  have "inj_on snd ?E" by (rule inj_on_subset [OF faiss_hits_inj]) blast
  then have "card (snd ` ?E) = card ?E" by (rule card_image)
  then have card: "card ?E = length (fi_erased x)" unfolding img distinct_card [OF D(7)] by (rule sym)
  have FH: "?found \<subseteq> ?H" by (rule faiss_contractD(7) [OF con]) (simp_all add: len k)
  have K: "?found - ?E = ?K"
  proof -
    have "?K = {r \<in> ?found. snd r \<notin> set (fi_erased x)}" by (simp add: faiss_kept_def)
    with FH show ?thesis by blast
  qed
  have fin: "finite ?H" by (simp add: faiss_hits_def)
  have fetched: "top_k fst (k + card ?E) ?H ?found"
    using ex len k unfolding card by (simp add: faiss_exact_def)
  have best: "top_k fst k (?found - ?E) (set (least_k k ?K))"
    unfolding K by (rule top_k_least_k) (auto simp: less_eq_prod_def)
  have "top_k fst k (?H - ?E) (set (least_k k ?K))"
    by (rule top_k_overfetch [OF fin fetched _ best]) blast
  moreover have "inj_on (faiss_relabel x) (?H - ?E)"
    by (rule inj_on_subset [OF faiss_relabel_inj [OF inv]]) blast
  ultimately have "top_k sr_dist k (faiss_relabel x ` (?H - ?E)) (faiss_relabel x ` set (least_k k ?K))"
    by (rule top_k_image) (simp add: faiss_relabel_def)
  moreover have "?H - ?E = {r \<in> ?H. snd r \<notin> set (fi_erased x)}" by blast
  moreover have "as_results r = faiss_relabel x ` set (least_k k ?K)"
    using r faiss_single_search_kept [OF con inv len k]
    by (force simp: as_results_def faiss_relabel_def image_iff)
  ultimately show ?thesis by (simp add: faiss_relabel_live [OF inv])
qed

section \<open>The class implements the interface\<close>

definition faiss_vtable ::
  "('b, 'f::{linorder, zero}) faiss_lib \<Rightarrow> ((int \<times> 'id) list \<Rightarrow> (int \<times> 'id) list) \<Rightarrow>
    (('b, 'id) FaissIndex \<Rightarrow> string) \<Rightarrow> (('b, 'id) FaissIndex, 'id, 'f) IBaseIndex" where
  "faiss_vtable F it ser = \<lparr>
     add_batch = faiss_add_batch F,
     single_search = faiss_single_search F,
     erase_batch = faiss_erase_batch,
     merge_from_other = faiss_merge_from_other F it,
     serialize_index = ser,
     base_size = faiss_size,
     dynamic_type = (\<lambda>x. case fi_kind x of IndexFlat \<Rightarrow> 0 | IndexHNSWFlat \<Rightarrow> 1 | IndexHNSW \<Rightarrow> 2)\<rparr>"

definition faiss_ok ::
  "('b, 'f) faiss_lib \<Rightarrow> ('b \<Rightarrow> 'f list list) \<Rightarrow> ('f list \<Rightarrow> 'f list \<Rightarrow> 'f) \<Rightarrow>
    ((int \<times> 'id) list \<Rightarrow> (int \<times> 'id) list) \<Rightarrow> ('b, 'id) FaissIndex \<Rightarrow> bool" where
  "faiss_ok F vecs dist it x \<longleftrightarrow> faiss_contract F vecs dist \<and> reorders it \<and> faiss_inv F vecs x"

definition faiss_ok_exact ::
  "('b, 'f::linorder) faiss_lib \<Rightarrow> ('b \<Rightarrow> 'f list list) \<Rightarrow> ('f list \<Rightarrow> 'f list \<Rightarrow> 'f) \<Rightarrow>
    ((int \<times> 'id) list \<Rightarrow> (int \<times> 'id) list) \<Rightarrow> ('b, 'id) FaissIndex \<Rightarrow> bool" where
  "faiss_ok_exact F vecs dist it x \<longleftrightarrow> faiss_ok F vecs dist it x \<and> faiss_exact F vecs dist"

lemma faiss_base_index:
  fixes F :: "('b, 'f::{linorder, zero}) faiss_lib" and it :: "(int \<times> 'id::linorder) list \<Rightarrow> _"
  assumes sub: "\<And>x :: ('b, 'id) FaissIndex. P x \<longleftrightarrow> faiss_ok F vecs dist it x \<and> Q"
  shows "base_index (faiss_vtable F it ser) P (faiss_shape F) (\<lambda>x. fx_d F (fi_index x))
    (faiss_docs vecs) faiss_known dist"
proof
  fix x y :: "('b, 'id) FaissIndex"
  show "faiss_shape F x = faiss_shape F y \<Longrightarrow> fx_d F (fi_index x) = fx_d F (fi_index y)"
    by (simp add: faiss_shape_def)
  show "faiss_shape F x = faiss_shape F y \<Longrightarrow>
      dynamic_type (faiss_vtable F it ser) x = dynamic_type (faiss_vtable F it ser) y"
    by (simp add: faiss_shape_def faiss_vtable_def)
  show "P x \<Longrightarrow> fst ` set (faiss_docs vecs x) \<subseteq> faiss_known x"
    by (simp add: sub faiss_ok_def faiss_inv_def faiss_docs_known)
  show "P x \<Longrightarrow> distinct (map fst (faiss_docs vecs x))"
    using faiss_docs_distinct [of F vecs x] by (simp add: sub faiss_ok_def)
  show "P x \<Longrightarrow> base_size (faiss_vtable F it ser) x = length (faiss_docs vecs x)"
    using faiss_size_docs [of F vecs x] by (simp add: sub faiss_ok_def faiss_vtable_def)
next
  fix x :: "('b, 'id) FaissIndex" and n and vs :: "'f list" and ids :: "'id list"
  assume "P x" and "n * fx_d F (fi_index x) \<le> length vs" and "n \<le> length ids"
    and "distinct (take n ids)" and "set (take n ids) \<inter> faiss_known x = {}"
  then show "\<exists>y. add_batch (faiss_vtable F it ser) x n vs ids = Inr y \<and> P y \<and>
      faiss_shape F y = faiss_shape F x \<and> faiss_known y = faiss_known x \<union> set (take n ids) \<and>
      faiss_docs vecs y = faiss_docs vecs x @ zip (take n ids) (rows (fx_d F (fi_index x)) n vs)"
    using faiss_add_docs [of F vecs dist x n vs ids]
    by (auto simp: sub faiss_ok_def faiss_vtable_def)
next
  fix x :: "('b, 'id) FaissIndex" and n and ids :: "'id list"
  assume "P x" and "n \<le> length ids"
  then show "\<exists>y. erase_batch (faiss_vtable F it ser) x n ids = Inr y \<and> P y \<and>
      faiss_shape F y = faiss_shape F x \<and> faiss_known y = faiss_known x \<and>
      faiss_docs vecs y = filter (\<lambda>(id, _). id \<notin> set (take n ids)) (faiss_docs vecs x)"
    using faiss_erase_docs [of F vecs x "take n ids"]
    by (simp add: sub faiss_ok_def faiss_vtable_def faiss_erase_batch_def faiss_inv_erase
        faiss_shape_def)
next
  fix x y :: "('b, 'id) FaissIndex"
  assume "P x" and "P y" and "faiss_shape F x = faiss_shape F y"
    and "faiss_known x \<inter> fst ` set (faiss_docs vecs y) = {}"
  then show "\<exists>z. merge_from_other (faiss_vtable F it ser) x y = Inr z \<and> P z \<and>
      faiss_shape F z = faiss_shape F x \<and>
      faiss_known z = faiss_known x \<union> fst ` set (faiss_docs vecs y) \<and>
      mset (faiss_docs vecs z) = mset (faiss_docs vecs x) + mset (faiss_docs vecs y)"
    using faiss_merge_docs [of F vecs dist it x y]
    by (auto simp: sub faiss_ok_def faiss_vtable_def)
next
  fix x :: "('b, 'id) FaissIndex" and q :: "'f list" and k :: nat
  assume "P x" and "fx_d F (fi_index x) \<le> length q" and "0 < k"
  then show "\<exists>r. single_search (faiss_vtable F it ser) x k q = Inr r \<and> length r \<le> k \<and>
      distinct (map fst r) \<and>
      as_results r \<subseteq> candidates dist (take (fx_d F (fi_index x)) q) (set (faiss_docs vecs x))"
    using faiss_search_sound [of F vecs dist x q k]
    by (simp add: sub faiss_ok_def faiss_vtable_def)
qed

interpretation faiss: base_index "faiss_vtable F it ser" "faiss_ok F vecs dist it" "faiss_shape F"
  "\<lambda>x. fx_d F (fi_index x)" "faiss_docs vecs" faiss_known dist
  for F :: "('b, 'f::{linorder, zero}) faiss_lib" and it :: "(int \<times> 'id::linorder) list \<Rightarrow> _"
    and ser vecs dist
  by (rule faiss_base_index [where Q = True]) simp

interpretation faiss_flat: exact_base_index "faiss_vtable F it ser" "faiss_ok_exact F vecs dist it"
  "faiss_shape F" "\<lambda>x. fx_d F (fi_index x)" "faiss_docs vecs" faiss_known dist
  for F :: "('b, 'f::{linorder, zero}) faiss_lib" and it :: "(int \<times> 'id::linorder) list \<Rightarrow> _"
    and ser vecs dist
proof (intro exact_base_index.intro exact_base_index_axioms.intro)
  show "base_index (faiss_vtable F it ser) (faiss_ok_exact F vecs dist it) (faiss_shape F)
      (\<lambda>x. fx_d F (fi_index x)) (faiss_docs vecs) faiss_known dist"
    by (rule faiss_base_index [where Q = "faiss_exact F vecs dist"]) (simp add: faiss_ok_exact_def)
next
  fix x :: "('b, 'id) FaissIndex" and q r and k :: nat
  assume "faiss_ok_exact F vecs dist it x" and "fx_d F (fi_index x) \<le> length q"
    and "0 < k" and "single_search (faiss_vtable F it ser) x k q = Inr r"
  then show "top_k sr_dist k
      (candidates dist (take (fx_d F (fi_index x)) q) (set (faiss_docs vecs x))) (as_results r)"
    by (auto simp: faiss_ok_exact_def faiss_ok_def faiss_vtable_def intro: faiss_search_exact)
qed

end
