(* ===== verification/Vecodex_Segment.thy ===== *)
theory Vecodex_Segment
  imports Faiss_Interface
begin

text \<open>
  \<open>Segment\<close> (\<open>index/include/Segment.h\<close>), its interface \<open>ISegment\<close> (\<open>ISegment.h\<close>) and
  \<open>SegmentFactory\<close> (\<open>SegmentFactory.h\<close>): a base index with a random identifier and a type tag.
  Here a method is one step; what the readers-writer lock of a segment is for is shown in
  \<open>Index_Threads\<close>. The lock makes \<open>mergeSegment\<close> wait for itself when a segment is merged into itself.
\<close>

section \<open>The class\<close>

record 'x Segment =
  seg_index :: 'x
  seg_id :: nat
  seg_type :: int

record 'x SegmentFactory =
  sf_index :: 'x
  sf_type :: int

definition segment_new :: "int \<Rightarrow> 'x \<Rightarrow> rng \<Rightarrow> 'x Segment \<times> rng" where
  "segment_new ty x g =
     (let (r, g') = rand g in (\<lparr>seg_index = x, seg_id = r, seg_type = ty\<rparr>, g'))"

definition factory_create :: "'x SegmentFactory \<Rightarrow> rng \<Rightarrow> 'x Segment \<times> rng" where
  "factory_create f g = segment_new (sf_type f) (sf_index f) g"

definition seg_addVectorBatch ::
  "('x, 'id, 'f) IBaseIndex \<Rightarrow> 'x Segment \<Rightarrow> nat \<Rightarrow> 'id list \<Rightarrow> 'f list \<Rightarrow> 'x Segment outcome" where
  "seg_addVectorBatch V s n ids vectors =
     bindR (add_batch V (seg_index s) n vectors ids) (\<lambda>x. Inr (s\<lparr>seg_index := x\<rparr>))"

definition seg_deleteBatch ::
  "('x, 'id, 'f) IBaseIndex \<Rightarrow> 'x Segment \<Rightarrow> nat \<Rightarrow> 'id list \<Rightarrow> 'x Segment outcome" where
  "seg_deleteBatch V s n ids =
     bindR (erase_batch V (seg_index s) n ids) (\<lambda>x. Inr (s\<lparr>seg_index := x\<rparr>))"

text \<open>
  \<open>searchQuery\<close> allocates two arrays of \<open>k\<close> entries (a negative \<open>k\<close> throws there) and copies the
  answers into an \<open>unordered_map\<close>, so a repeated identifier keeps its last distance.
\<close>

definition seg_searchQuery ::
  "('x, 'id, 'f) IBaseIndex \<Rightarrow> 'x Segment \<Rightarrow> 'f list \<Rightarrow> int \<Rightarrow> ('id \<times> 'f) list outcome" where
  "seg_searchQuery V s q k =
     (if k < 0 then Inl LengthError
      else bindR (single_search V (seg_index s) (nat k) q)
        (\<lambda>r. Inr (fold (\<lambda>(i, d) m. AList.update i d m) r [])))"

text \<open>
  \<open>mergeSegment\<close> between two segments of the heap, given with their addresses: it asserts that
  both have the same class, then takes the other segment's lock and its own.
\<close>

definition seg_mergeSegment ::
  "('x, 'id, 'f) IBaseIndex \<Rightarrow> nat \<times> 'x Segment \<Rightarrow> nat \<times> 'x Segment \<Rightarrow> 'x Segment outcome" where
  "seg_mergeSegment V this other =
     (if dynamic_type V (seg_index (snd this)) \<noteq> dynamic_type V (seg_index (snd other))
      then Inl AssertFailed
      else if fst this = fst other then Inl SelfDeadlock
      else bindR (merge_from_other V (seg_index (snd this)) (seg_index (snd other)))
        (\<lambda>x. Inr ((snd this)\<lparr>seg_index := x\<rparr>)))"

definition seg_size :: "('x, 'id, 'f) IBaseIndex \<Rightarrow> 'x Segment \<Rightarrow> nat" where
  "seg_size V s = base_size V (seg_index s)"

section \<open>What the operations do to the documents\<close>

lemma fold_AList_update_distinct:
  "distinct (map fst r) \<Longrightarrow> fst ` set r \<inter> fst ` set m = {} \<Longrightarrow>
    fold (\<lambda>(i, d) m. AList.update i d m) r m = m @ r"
proof (induction r arbitrary: m)
  case Nil
  then show ?case by simp
next
  case (Cons p r)
  then show ?case by (cases p) (simp add: AList_update_fresh)
qed

context base_index
begin

abbreviation sdocs :: "'x Segment \<Rightarrow> ('id, 'f) document list" where
  "sdocs s \<equiv> docs (seg_index s)"

lemma seg_add_docs:
  assumes "invar (seg_index s)" "n * dim (seg_index s) \<le> length vs" "n \<le> length ids"
    "distinct (take n ids)" "set (take n ids) \<inter> known (seg_index s) = {}"
  shows "\<exists>x. seg_addVectorBatch V s n ids vs = Inr (s\<lparr>seg_index := x\<rparr>) \<and> invar x \<and>
    shape x = shape (seg_index s) \<and> known x = known (seg_index s) \<union> set (take n ids) \<and>
    docs x = sdocs s @ zip (take n ids) (rows (dim (seg_index s)) n vs)"
  using add_docs [OF assms] by (auto simp: seg_addVectorBatch_def)

lemma seg_delete_docs:
  assumes "invar (seg_index s)" "n \<le> length ids"
  shows "\<exists>x. seg_deleteBatch V s n ids = Inr (s\<lparr>seg_index := x\<rparr>) \<and> invar x \<and>
    shape x = shape (seg_index s) \<and> known x = known (seg_index s) \<and>
    docs x = filter (\<lambda>(i, _). i \<notin> set (take n ids)) (sdocs s)"
  using erase_docs [OF assms] by (auto simp: seg_deleteBatch_def)

lemma seg_merge_docs:
  assumes "invar (seg_index s)" "invar (seg_index t)" "shape (seg_index s) = shape (seg_index t)"
    "known (seg_index s) \<inter> fst ` set (sdocs t) = {}" "p \<noteq> q"
  shows "\<exists>x. seg_mergeSegment V (p, s) (q, t) = Inr (s\<lparr>seg_index := x\<rparr>) \<and> invar x \<and>
    shape x = shape (seg_index s) \<and> known x = known (seg_index s) \<union> fst ` set (sdocs t) \<and>
    mset (docs x) = mset (sdocs s) + mset (sdocs t)"
  using merge_docs [OF assms(1-4)] shape_type [OF assms(3)] assms(5)
  by (auto simp: seg_mergeSegment_def)

lemma seg_search_sound:
  assumes "invar (seg_index s)" "dim (seg_index s) \<le> length q" "0 < k"
  shows "\<exists>r. seg_searchQuery V s q k = Inr r \<and> single_search V (seg_index s) (nat k) q = Inr r \<and>
    as_results r \<subseteq> candidates dist (take (dim (seg_index s)) q) (set (sdocs s))"
  using search_sound [OF assms(1,2), of "nat k"] assms(3)
  by (auto simp: seg_searchQuery_def fold_AList_update_distinct)

lemma seg_size_docs: "invar (seg_index s) \<Longrightarrow> seg_size V s = length (sdocs s)"
  by (simp add: seg_size_def size_docs)

end

context exact_base_index
begin

lemma seg_search_exact:
  assumes "invar (seg_index s)" "dim (seg_index s) \<le> length q" "0 < k"
  shows "\<exists>r. seg_searchQuery V s q k = Inr r \<and>
    top_k sr_dist (nat k) (candidates dist (take (dim (seg_index s)) q) (set (sdocs s))) (as_results r)"
  using seg_search_sound [OF assms] search_exact [OF assms(1,2), of "nat k"] assms(3) by auto

end

end
