(* ===== verification/Index_Model.thy ===== *)
theory Index_Model
  imports Vecodex_Segment
begin

text \<open>
  \<open>IIndex\<close> with its \<open>SegmentStorage\<close> (\<open>index/include/IIndex.h\<close>) and \<open>Index\<close>
  (\<open>index/include/Index.h\<close>). Segments are shared between the list that is searched
  (\<open>segments_\<close>), the levels of the storage and the segment being filled (\<open>last_\<close>), and merging
  changes a segment in place, so the state has a heap of segments and these fields hold addresses.
  An invocation of the update callback is an event (identifiers of erased segments, addresses of
  inserted segments); each operation returns its events in order.
\<close>

section \<open>State\<close>

record SegmentStorage =
  levels :: "nat option list list"
  st_sz :: nat
  st_counter :: nat

record 'x Index =
  ix_store :: "'x Segment list"
  ix_storage :: SegmentStorage
  ix_enable_merge :: bool
  ix_callback :: bool
  ix_ctx :: bool
  ix_thread :: bool
  ix_segments :: "nat list"
  ix_last :: nat
  ix_d :: int
  ix_threshold :: nat
  ix_factory :: "'x SegmentFactory"

type_synonym update_event = "nat list \<times> nat list"

abbreviation seg_at :: "'x Index \<Rightarrow> nat \<Rightarrow> 'x Segment" where
  "seg_at ix p \<equiv> ix_store ix ! p"

definition index_new ::
  "int \<Rightarrow> int \<Rightarrow> bool \<Rightarrow> 'x SegmentFactory \<Rightarrow> rng \<Rightarrow> 'x Index \<times> rng" where
  "index_new dim segmentThreshold enable_merge factory g =
     (let (s, g') = factory_create factory g in
      (\<lparr>ix_store = [s], ix_storage = \<lparr>levels = [], st_sz = 0, st_counter = 0\<rparr>,
        ix_enable_merge = enable_merge, ix_callback = False, ix_ctx = False, ix_thread = False, ix_segments = [],
        ix_last = 0, ix_d = dim, ix_threshold = to_size_t segmentThreshold,
        ix_factory = factory\<rparr>, g'))"

definition index_setUpdateCallback :: "'x Index \<Rightarrow> 'x Index" where
  "index_setUpdateCallback ix = ix\<lparr>ix_callback := True\<rparr>"

section \<open>SegmentStorage::add\<close>

text \<open>
  The loop \<open>for (; (1ll << i) < segment->size(); ++i)\<close>, which also appends the missing levels.
  Shifting by 64 or more is undefined.
\<close>

function storage_level :: "nat \<Rightarrow> nat \<Rightarrow> 'a list list \<Rightarrow> (nat \<times> 'a list list) outcome" where
  "storage_level segment_size i lv =
     (if 64 \<le> i then Inl ShiftOverflow
      else if 2 ^ i < segment_size then storage_level segment_size (i + 1) (if i = length lv then lv @ [[]] else lv)
      else Inr (i, lv))"
  by pat_completeness auto
termination
  by (relation "measure (\<lambda>(segment_size, i, lv). 64 - i)") auto

declare storage_level.simps [simp del]

definition storage_add :: "SegmentStorage \<Rightarrow> nat \<Rightarrow> nat \<Rightarrow> SegmentStorage outcome" where
  "storage_add st segment segment_size =
     bindR (storage_level segment_size 0 (levels st)) (\<lambda>(i, lv).
       let i = (if i = 0 then 0 else i - 1);
           lv = (if i = length lv then lv @ [[]] else lv)
       in Inr (st\<lparr>levels := lv[i := lv ! i @ [Some segment]],
                  st_sz := size_add (st_sz st) segment_size, st_counter := size_add (st_counter st) 1\<rparr>))"

section \<open>SegmentStorage::merge\<close>

text \<open>The variables of the loops: the index being changed, \<open>rand()\<close>, the remaining amount, the two
  lists collected on a level, and the callback invocations so far.\<close>

record 'x merge_ctx =
  mc_ix :: "'x Index"
  mc_rng :: rng
  mc_amount :: nat
  mc_erased :: "nat list"
  mc_inserted :: "nat list"
  mc_events :: "update_event list"

abbreviation mc_levels :: "'x merge_ctx \<Rightarrow> nat option list list" where
  "mc_levels c \<equiv> levels (ix_storage (mc_ix c))"

text \<open>The body of the inner loop once both neighbours exist and fit the amount.\<close>

definition merge_pair ::
  "('x, 'id, 'f) IBaseIndex \<Rightarrow> nat \<Rightarrow> nat \<Rightarrow> nat \<Rightarrow> nat \<Rightarrow> 'x merge_ctx \<Rightarrow> 'x merge_ctx outcome" where
  "merge_pair V i j p q c =
     (let ix = mc_ix c; a = seg_at ix p; b = seg_at ix q; st = ix_storage ix in
      bindR (seg_mergeSegment V (p, a) (q, b)) (\<lambda>merged.
        let (r, g) = rand (mc_rng c);
            lv = (if i + 1 = length (levels st) then levels st @ [[]] else levels st);
            lv = lv[i + 1 := lv ! (i + 1) @ [Some p]];
            lv = lv[i := (lv ! i)[j := None, j + 1 := None]]
        in Inr (c\<lparr>
          mc_ix := ix\<lparr>ix_store := (ix_store ix)[p := merged\<lparr>seg_id := r\<rparr>],
                      ix_storage := st\<lparr>levels := lv, st_counter := size_sub (st_counter st) 1\<rparr>\<rparr>,
          mc_rng := g,
          mc_amount := mc_amount c - size_add (seg_size V a) (seg_size V b),
          mc_erased := mc_erased c @ [seg_id b, seg_id a],
          mc_inserted := mc_inserted c @ [p]\<rparr>)))"

text \<open>
  One round of the inner loop. A level keeps its length while it is processed (pairs are replaced
  by null pointers), so the loop runs over the indices \<open>j\<close> with \<open>j + 1 < levels[i].size()\<close>.
\<close>

definition merge_step ::
  "('x, 'id, 'f) IBaseIndex \<Rightarrow> nat \<Rightarrow> nat \<Rightarrow> 'x merge_ctx \<Rightarrow> 'x merge_ctx outcome" where
  "merge_step V i j c =
     (case (mc_levels c ! i ! j, mc_levels c ! i ! (j + 1)) of
        (Some p, Some q) \<Rightarrow>
          if size_add (seg_size V (seg_at (mc_ix c) p)) (seg_size V (seg_at (mc_ix c) q)) > mc_amount c
          then Inr c
          else merge_pair V i j p q c
      | _ \<Rightarrow> Inr c)"

text \<open>After the pairs of a level: update the searched segments and invoke the callback.\<close>

definition merge_publish :: "'x merge_ctx \<Rightarrow> 'x merge_ctx" where
  "merge_publish c =
     (let ix = mc_ix c;
          segs = fold (\<lambda>i. remove_first (\<lambda>p. seg_id (seg_at ix p) = i)) (mc_erased c)
            (ix_segments ix @ mc_inserted c)
      in c\<lparr>
        mc_ix := ix\<lparr>ix_segments := segs\<rparr>,
        mc_events := mc_events c @
          (if ix_callback ix \<and> mc_erased c \<noteq> [] \<and> mc_inserted c \<noteq> []
           then [(mc_erased c, mc_inserted c)] else []),
        mc_erased := [], mc_inserted := []\<rparr>)"

definition merge_level ::
  "('x, 'id, 'f) IBaseIndex \<Rightarrow> nat \<Rightarrow> 'x merge_ctx \<Rightarrow> 'x merge_ctx outcome" where
  "merge_level V i c =
     bindR (foldR (merge_step V i) [0..<length (mc_levels c ! i) - 1] c) (\<lambda>c. Inr (merge_publish c))"

subsection \<open>Termination of the loop over the levels\<close>

text \<open>
  The loop also visits levels that it appends itself. It ends because a pair that moves up leaves
  one segment fewer on the levels still to be visited.
\<close>

definition ptrs_of :: "nat option list \<Rightarrow> nat list" where
  "ptrs_of l = List.map_filter (\<lambda>x. x) l"

definition level_ptrs :: "nat option list list \<Rightarrow> nat list" where
  "level_ptrs lv = concat (map ptrs_of lv)"

lemma ptrs_of_simps [simp]:
  "ptrs_of [] = []"
  "ptrs_of (Some p # l) = p # ptrs_of l"
  "ptrs_of (None # l) = ptrs_of l"
  "ptrs_of (l @ l') = ptrs_of l @ ptrs_of l'"
  by (simp_all add: ptrs_of_def map_filter_simps) (simp add: List.map_filter_def)

lemma level_ptrs_simps [simp]:
  "level_ptrs [] = []"
  "level_ptrs (l # lv) = ptrs_of l @ level_ptrs lv"
  "level_ptrs (lv @ lv') = level_ptrs lv @ level_ptrs lv'"
  by (simp_all add: level_ptrs_def)

lemma mset_ptrs_of_update:
  "j < length l \<Longrightarrow> mset (ptrs_of (l[j := x])) + mset (ptrs_of [l ! j]) =
    mset (ptrs_of l) + mset (ptrs_of [x])"
proof (induction l arbitrary: j)
  case Nil
  then show ?case by simp
next
  case (Cons y l)
  show ?case
  proof (cases j)
    case 0
    then show ?thesis by (cases x; cases y) auto
  next
    case (Suc n)
    with Cons show ?thesis by (cases y) auto
  qed
qed

lemma mset_level_ptrs_update:
  "i < length lv \<Longrightarrow> mset (level_ptrs (lv[i := l])) + mset (ptrs_of (lv ! i)) =
    mset (level_ptrs lv) + mset (ptrs_of l)"
proof (induction lv arbitrary: i)
  case Nil
  then show ?case by simp
next
  case (Cons l' lv)
  then show ?case by (cases i) (auto simp: ac_simps)
qed

lemma mset_ptrs_of_pair:
  assumes "j + 1 < length l" and "l ! j = Some p" and "l ! (j + 1) = Some q"
  shows "mset (ptrs_of l) = mset (ptrs_of (l[j := None, j + 1 := None])) + {#p, q#}"
  using assms mset_ptrs_of_update [of j l None] mset_ptrs_of_update [of "j + 1" "l[j := None]" None]
  by (simp add: ac_simps)

text \<open>What a merged pair does to the levels.\<close>

definition lift_pair :: "nat \<Rightarrow> nat \<Rightarrow> nat \<Rightarrow> nat option list list \<Rightarrow> nat option list list" where
  "lift_pair i j p lv =
     (let lv = (if i + 1 = length lv then lv @ [[]] else lv);
          lv = lv[i + 1 := lv ! (i + 1) @ [Some p]]
      in lv[i := (lv ! i)[j := None, j + 1 := None]])"

lemma merge_pair_levels:
  "merge_pair V i j p q c = Inr c' \<Longrightarrow> mc_levels c' = lift_pair i j p (mc_levels c)"
  by (auto simp: merge_pair_def lift_pair_def Let_def rand_def bindR_eq_Inr)

lemma lift_pair_nth:
  assumes "i < length lv"
  shows "lift_pair i j p lv ! i = (lv ! i)[j := None, j + 1 := None]"
  using assms by (auto simp: lift_pair_def Let_def nth_append)

lemma length_lift_pair:
  "i < length lv \<Longrightarrow> length (lift_pair i j p lv) = (if i + 1 = length lv then Suc (length lv) else length lv)"
  by (simp add: lift_pair_def Let_def)

lemma drop_lift_pair:
  assumes "i < length lv"
  shows "mset (level_ptrs (drop (Suc i) (lift_pair i j p lv))) =
    add_mset p (mset (level_ptrs (drop (Suc i) lv)))"
proof -
  define lv1 where "lv1 = (if i + 1 = length lv then lv @ [[]] else lv)"
  define lv2 where "lv2 = lv1[i + 1 := lv1 ! (i + 1) @ [Some p]]"
  have len: "Suc i < length lv1" using assms by (simp add: lv1_def)
  have "drop (Suc i) (lift_pair i j p lv) = drop (Suc i) lv2"
    by (simp add: lift_pair_def Let_def lv1_def lv2_def)
  also have "\<dots> = (drop (Suc i) lv1)[0 := lv1 ! (i + 1) @ [Some p]]"
    using len by (simp add: lv2_def drop_update_swap)
  also have "mset (level_ptrs \<dots>) = add_mset p (mset (level_ptrs (drop (Suc i) lv1)))"
    using mset_level_ptrs_update [of 0 "drop (Suc i) lv1" "lv1 ! (i + 1) @ [Some p]"] len by simp
  also have "level_ptrs (drop (Suc i) lv1) = level_ptrs (drop (Suc i) lv)"
    using assms by (auto simp: lv1_def)
  finally show ?thesis .
qed

text \<open>The measure: segments on the levels not yet visited, then levels not yet visited.\<close>

definition unvisited :: "nat \<Rightarrow> nat option list list \<Rightarrow> nat" where
  "unvisited i lv = length (level_ptrs (drop i lv))"

lemma merge_step_progress:
  assumes "merge_step V i j c = Inr c'" and "i < length (mc_levels c)"
    and "j + 1 < length (mc_levels c ! i)"
  shows "length (mc_levels c' ! i) = length (mc_levels c ! i) \<and> length (mc_levels c) \<le> length (mc_levels c') \<and>
    (mc_levels c' = mc_levels c \<or>
     (unvisited (Suc i) (mc_levels c') = Suc (unvisited (Suc i) (mc_levels c)) \<and>
      length (ptrs_of (mc_levels c' ! i)) + 2 = length (ptrs_of (mc_levels c ! i))))"
proof (cases "c' = c")
  case True
  then show ?thesis by simp
next
  case False
  with assms(1) obtain p q where pq: "mc_levels c ! i ! j = Some p" "mc_levels c ! i ! (j + 1) = Some q"
    and "merge_pair V i j p q c = Inr c'"
    by (auto simp: merge_step_def split: option.splits if_splits)
  then have lv: "mc_levels c' = lift_pair i j p (mc_levels c)" by (simp add: merge_pair_levels)
  have "length (ptrs_of (mc_levels c ! i)) = length (ptrs_of (mc_levels c' ! i)) + 2"
    using arg_cong [OF mset_ptrs_of_pair [OF assms(3) pq], of size] assms(2)
    by (simp add: lv lift_pair_nth)
  moreover have "unvisited (Suc i) (mc_levels c') = Suc (unvisited (Suc i) (mc_levels c))"
    using arg_cong [OF drop_lift_pair [OF assms(2), of j p], of size] by (simp add: lv unvisited_def)
  ultimately show ?thesis using assms(2) by (simp add: lv lift_pair_nth length_lift_pair)
qed

lemma merge_steps_progress:
  assumes "foldR (merge_step V i) js c = Inr c'" and "i < length (mc_levels c)"
    and "\<forall>j \<in> set js. j + 1 < length (mc_levels c ! i)"
  shows "length (mc_levels c' ! i) = length (mc_levels c ! i) \<and> length (mc_levels c) \<le> length (mc_levels c') \<and>
    (mc_levels c' = mc_levels c \<or>
     (\<exists>n > 0. unvisited (Suc i) (mc_levels c') = unvisited (Suc i) (mc_levels c) + n \<and>
      length (ptrs_of (mc_levels c' ! i)) + 2 * n = length (ptrs_of (mc_levels c ! i))))"
  using assms
proof (induction js arbitrary: c)
  case Nil
  then show ?case by simp
next
  case (Cons j js)
  from Cons.prems(1) obtain d where d: "merge_step V i j c = Inr d" "foldR (merge_step V i) js d = Inr c'"
    by (auto simp: bindR_eq_Inr)
  note one = merge_step_progress [OF d(1) Cons.prems(2)]
  have "length (mc_levels d ! i) = length (mc_levels c ! i)" "length (mc_levels c) \<le> length (mc_levels d)"
    using one Cons.prems(3) by simp_all
  then show ?case
    using Cons.IH [OF d(2)] one Cons.prems by (auto intro: exI [of _ 1])
qed

lemma merge_publish_levels [simp]: "mc_levels (merge_publish c) = mc_levels c"
  "mc_amount (merge_publish c) = mc_amount c"
  by (simp_all add: merge_publish_def Let_def)

lemma unvisited_Suc: "i < length lv \<Longrightarrow> unvisited i lv = length (ptrs_of (lv ! i)) + unvisited (Suc i) lv"
  by (simp add: unvisited_def Cons_nth_drop_Suc [symmetric])

lemma merge_level_progress:
  assumes "merge_level V i c = Inr c'" and "i < length (mc_levels c)"
  shows "unvisited (Suc i) (mc_levels c') < unvisited i (mc_levels c) \<or>
    (mc_levels c' = mc_levels c \<and> unvisited (Suc i) (mc_levels c') \<le> unvisited i (mc_levels c))"
proof -
  from assms(1) obtain d where d: "foldR (merge_step V i) [0..<length (mc_levels c ! i) - 1] c = Inr d"
    and c': "c' = merge_publish d"
    by (auto simp: merge_level_def bindR_eq_Inr)
  have "mc_levels d = mc_levels c \<or>
     (\<exists>n > 0. unvisited (Suc i) (mc_levels d) = unvisited (Suc i) (mc_levels c) + n \<and>
      length (ptrs_of (mc_levels d ! i)) + 2 * n = length (ptrs_of (mc_levels c ! i)))"
    using merge_steps_progress [OF d assms(2)] by (metis atLeastLessThan_iff less_diff_conv set_upt)
  then show ?thesis using unvisited_Suc [OF assms(2)] by (auto simp: c')
qed

function merge_levels ::
  "('x, 'id, 'f) IBaseIndex \<Rightarrow> nat \<Rightarrow> 'x merge_ctx \<Rightarrow> 'x merge_ctx outcome" where
  "merge_levels V i c =
     (if 0 < mc_amount c \<and> i < length (mc_levels c)
      then bindR (merge_level V i c) (\<lambda>c. merge_levels V (i + 1) c)
      else Inr c)"
  by pat_completeness auto
termination
proof (relation "measures [\<lambda>(V, i, c). unvisited i (mc_levels c), \<lambda>(V, i, c). length (mc_levels c) - i]",
    goal_cases)
  case 1
  then show ?case by simp
next
  case (2 V i c c')
  then show ?case using merge_level_progress [of V i c c'] by auto
qed

declare merge_levels.simps [simp del]

definition merge_compact :: "SegmentStorage \<Rightarrow> SegmentStorage" where
  "merge_compact st = st\<lparr>levels := map (filter (\<lambda>s. s \<noteq> None)) (levels st)\<rparr>"

definition storage_merge ::
  "('x, 'id, 'f) IBaseIndex \<Rightarrow> nat \<Rightarrow> 'x Index \<Rightarrow> rng \<Rightarrow> ('x Index \<times> rng \<times> update_event list) outcome" where
  "storage_merge V amount ix g =
     bindR (merge_levels V 0
         \<lparr>mc_ix = ix, mc_rng = g, mc_amount = amount, mc_erased = [], mc_inserted = [], mc_events = []\<rparr>)
       (\<lambda>c. Inr ((mc_ix c)\<lparr>ix_storage := merge_compact (ix_storage (mc_ix c))\<rparr>, mc_rng c, mc_events c))"

section \<open>Index::add\<close>

definition merge_predicate :: "'x Index \<Rightarrow> bool" where
  "merge_predicate ix = ix_enable_merge ix"

text \<open>The segment being filled is full: store it, make it searchable, start a new one.\<close>

definition index_seal ::
  "('x, 'id, 'f) IBaseIndex \<Rightarrow> 'x Index \<Rightarrow> rng \<Rightarrow> ('x Index \<times> rng) outcome" where
  "index_seal V ix g =
     bindR (storage_add (ix_storage ix) (ix_last ix) (seg_size V (seg_at ix (ix_last ix)))) (\<lambda>st.
       let (s, g) = factory_create (ix_factory ix) g in
       Inr (ix\<lparr>ix_storage := st, ix_segments := ix_segments ix @ [ix_last ix],
               ix_store := ix_store ix @ [s], ix_last := length (ix_store ix)\<rparr>, g))"

text \<open>
  The loop over the batches, on the remaining identifiers and vectors. \<open>n\<close> becomes smaller in
  every round because an empty batch is an error.
\<close>

function index_add_loop ::
  "('x, 'id, 'f) IBaseIndex \<Rightarrow> nat \<Rightarrow> 'id list \<Rightarrow> 'f list \<Rightarrow> 'x Index \<Rightarrow> rng \<Rightarrow> nat list \<Rightarrow>
    ('x Index \<times> rng \<times> nat list) outcome" where
  "index_add_loop V n ids vectors ix g inserted =
     (if n = 0 then Inr (ix, g, inserted)
      else
        let last = ix_last ix;
            batch = min n (size_sub (ix_threshold ix) (seg_size V (seg_at ix last)))
        in if batch = 0 then Inl (RuntimeError ''Empty batch in adding'')
        else
          bindR (seg_addVectorBatch V (seg_at ix last) batch ids vectors) (\<lambda>s.
            let ix = ix\<lparr>ix_store := (ix_store ix)[last := s]\<rparr>;
                ids = drop batch ids;
                vectors = drop (batch * to_size_t (ix_d ix)) vectors
            in if seg_size V s = ix_threshold ix
               then bindR (index_seal V ix g) (\<lambda>(ix, g).
                      index_add_loop V (n - batch) ids vectors ix g (inserted @ [last]))
               else index_add_loop V (n - batch) ids vectors ix g inserted))"
  by pat_completeness auto
termination
  by (relation "measure (\<lambda>(V, n, ids, vectors, ix, g, inserted). n)") auto

declare index_add_loop.simps [simp del]

text \<open>\<open>inserted.reserve\<close> divides by the threshold. The amount given to \<open>merge\<close> is the constant 200.\<close>

definition index_add ::
  "('x, 'id, 'f) IBaseIndex \<Rightarrow> nat \<Rightarrow> 'id list \<Rightarrow> 'f list \<Rightarrow> 'x Index \<Rightarrow> rng \<Rightarrow>
    ('x Index \<times> rng \<times> update_event list) outcome" where
  "index_add V n ids vectors ix g =
     (if ix_threshold ix = 0 then Inl DivideByZero
      else bindR (index_add_loop V n ids vectors ix g []) (\<lambda>(ix, g, inserted).
        let events = (if ix_callback ix \<and> inserted \<noteq> [] then [([], inserted)] else []) in
        if merge_predicate ix
        then bindR (storage_merge V 200 ix g) (\<lambda>(ix, g, events'). Inr (ix, g, events @ events'))
        else Inr (ix, g, events)))"

section \<open>Index::search, erase, pushSegment, eraseSegment, size\<close>

text \<open>
  \<open>it\<close> is the order in which the iteration over an \<open>unordered_map\<close> visits its entries. The
  comparison \<open>kth_stat.size() > k\<close> converts \<open>k\<close> to an unsigned number.
\<close>

definition index_collect ::
  "('x, 'id::linorder, 'f::linorder) IBaseIndex \<Rightarrow> (('id \<times> 'f) list \<Rightarrow> ('id \<times> 'f) list) \<Rightarrow>
    'f list \<Rightarrow> int \<Rightarrow> 'x Segment \<Rightarrow> ('id, 'f) SearchResult list \<Rightarrow> ('id, 'f) SearchResult list outcome" where
  "index_collect V it query k segment kth_stat =
     bindR (seg_searchQuery V segment query k) (\<lambda>results.
       Inr (kth_emplace_all (to_size_t k) (map (\<lambda>(i, d). SearchResult i d) (it results)) kth_stat))"

definition index_search ::
  "('x, 'id::linorder, 'f::linorder) IBaseIndex \<Rightarrow> (('id \<times> 'f) list \<Rightarrow> ('id \<times> 'f) list) \<Rightarrow>
    'x Index \<Rightarrow> 'f list \<Rightarrow> int \<Rightarrow> 'id list outcome" where
  "index_search V it ix query k =
     bindR (foldR (\<lambda>p. index_collect V it query k (seg_at ix p)) (ix_segments ix) []) (\<lambda>kth_stat.
     bindR (index_collect V it query k (seg_at ix (ix_last ix)) kth_stat) (\<lambda>kth_stat.
       Inr (map sr_id kth_stat)))"

definition index_delete_at ::
  "('x, 'id, 'f) IBaseIndex \<Rightarrow> nat \<Rightarrow> 'id list \<Rightarrow> nat \<Rightarrow> 'x Segment list \<Rightarrow> 'x Segment list outcome" where
  "index_delete_at V n ids p store =
     bindR (seg_deleteBatch V (store ! p) n ids) (\<lambda>s. Inr (store[p := s]))"

definition index_erase ::
  "('x, 'id, 'f) IBaseIndex \<Rightarrow> 'x Index \<Rightarrow> nat \<Rightarrow> 'id list \<Rightarrow> 'x Index outcome" where
  "index_erase V ix n ids =
     bindR (foldR (index_delete_at V n ids) (ix_segments ix) (ix_store ix)) (\<lambda>store.
     bindR (index_delete_at V n ids (ix_last ix) store) (\<lambda>store.
       Inr (ix\<lparr>ix_store := store\<rparr>)))"

text \<open>The pushed segment is a new object of the heap; a null pointer is None.\<close>

definition index_pushSegment ::
  "('x, 'id, 'f) IBaseIndex \<Rightarrow> 'x Index \<Rightarrow> 'x Segment option \<Rightarrow> ('x Index \<times> update_event list) outcome" where
  "index_pushSegment V ix segment =
     (case segment of
        None \<Rightarrow> Inl NullPointer
      | Some s \<Rightarrow>
          let p = length (ix_store ix) in
          bindR (storage_add (ix_storage ix) p (seg_size V s)) (\<lambda>st.
            Inr (ix\<lparr>ix_store := ix_store ix @ [s], ix_storage := st,
                    ix_segments := ix_segments ix @ [p]\<rparr>,
                 if ix_callback ix then [([], [p])] else [])))"

definition index_eraseSegment :: "'x Index \<Rightarrow> nat \<Rightarrow> 'x Index \<times> bool" where
  "index_eraseSegment ix i =
     (ix, List.find (\<lambda>p. seg_id (seg_at ix p) = i) (ix_segments ix) \<noteq> None)"

definition index_size :: "'x Index \<Rightarrow> nat" where
  "index_size ix = length (ix_segments ix)"

section \<open>The asynchronous operations\<close>

text \<open>
  \<open>StartExecutor\<close>: the state in which the thread of the executor has created the context. \<open>StopExecution\<close>
  drops the thread and keeps the context, so it can be called once. Each asynchronous operation
  asks an empty \<open>shared_ptr\<close> for its promise's future before it posts the task.
\<close>

datatype ('id, 'f) index_task =
    AddTask nat "'id list" "'f list"
  | EraseTask nat "'id list"
  | SearchTask "'f list" int

definition index_StartExecutor :: "'x Index \<Rightarrow> 'x Index" where
  "index_StartExecutor ix = ix\<lparr>ix_ctx := True, ix_thread := True\<rparr>"

definition index_StopExecution :: "'x Index \<Rightarrow> 'x Index outcome" where
  "index_StopExecution ix = (if \<not> ix_ctx ix \<or> \<not> ix_thread ix then Inl NullPointer else Inr (ix\<lparr>ix_thread := False\<rparr>))"

definition promise_get_future :: "'p option \<Rightarrow> 'p outcome" where
  "promise_get_future promise_ptr = (case promise_ptr of None \<Rightarrow> Inl NullPointer | Some p \<Rightarrow> Inr p)"

definition async_post :: "'x Index \<Rightarrow> ('id, 'f) index_task \<Rightarrow> (unit \<times> ('id, 'f) index_task) outcome" where
  "async_post ix task =
     (if \<not> ix_ctx ix then Inl (RuntimeError ''Execution was not started'')
      else bindR (promise_get_future None) (\<lambda>f. Inr (f, task)))"

definition async_add ::
  "'x Index \<Rightarrow> nat \<Rightarrow> 'id list \<Rightarrow> 'f list \<Rightarrow> (unit \<times> ('id, 'f) index_task) outcome" where
  "async_add ix n ids vectors = async_post ix (AddTask n ids vectors)"

definition async_erase :: "'x Index \<Rightarrow> nat \<Rightarrow> 'id list \<Rightarrow> (unit \<times> ('id, 'f) index_task) outcome" where
  "async_erase ix n ids = async_post ix (EraseTask n ids)"

definition async_search :: "'x Index \<Rightarrow> 'f list \<Rightarrow> int \<Rightarrow> (unit \<times> ('id, 'f) index_task) outcome" where
  "async_search ix query k = async_post ix (SearchTask query k)"

end
