(* ===== verification/Index_Heap.thy ===== *)
theory Index_Heap
  imports Index_Model
begin

text \<open>
  The heap of segments of an index. Some segments are owned (the segment being filled and those in
  the levels of the storage): they hold the documents of the index, each once. The list that is
  searched may hold other segments too, left over from merging; what they hold is also in an owned
  segment. \<open>heap_wf\<close> states this, and the lemmas show how the four changes the program makes
  (allocating a segment, adding to one, merging two, deleting documents) keep it.
\<close>

section \<open>Well-formed heaps\<close>

definition heap_wf ::
  "('x \<Rightarrow> bool) \<Rightarrow> ('x \<Rightarrow> 'k) \<Rightarrow> ('x \<Rightarrow> ('id, 'f) document list) \<Rightarrow> ('x \<Rightarrow> 'id set) \<Rightarrow> 'k \<Rightarrow>
    'x Segment list \<Rightarrow> nat set \<Rightarrow> nat set \<Rightarrow> bool" where
  "heap_wf invar shape docs known sh store own segs \<longleftrightarrow>
     own \<subseteq> {..<length store} \<and> segs \<subseteq> {..<length store} \<and>
     (\<forall>s \<in> set store. invar (seg_index s) \<and> shape (seg_index s) = sh) \<and>
     (\<forall>p \<in> own. \<forall>q \<in> own. p \<noteq> q \<longrightarrow>
        known (seg_index (store ! p)) \<inter> known (seg_index (store ! q)) = {}) \<and>
     (\<forall>p \<in> segs. set (docs (seg_index (store ! p))) \<subseteq>
        (\<Union>q\<in>own. set (docs (seg_index (store ! q))))) \<and>
     inj_on (\<lambda>p. seg_id (store ! p)) own"

lemma heap_wfD:
  assumes "heap_wf invar shape docs known sh store own segs"
  shows "own \<subseteq> {..<length store}" and "segs \<subseteq> {..<length store}"
    and "\<And>s. s \<in> set store \<Longrightarrow> invar (seg_index s)"
    and "\<And>s. s \<in> set store \<Longrightarrow> shape (seg_index s) = sh"
    and "\<And>p q. p \<in> own \<Longrightarrow> q \<in> own \<Longrightarrow> p \<noteq> q \<Longrightarrow>
      known (seg_index (store ! p)) \<inter> known (seg_index (store ! q)) = {}"
    and "\<And>p. p \<in> segs \<Longrightarrow> set (docs (seg_index (store ! p))) \<subseteq>
      (\<Union>q\<in>own. set (docs (seg_index (store ! q))))"
    and "inj_on (\<lambda>p. seg_id (store ! p)) own"
    and "\<And>p. p \<in> own \<Longrightarrow> p < length store" and "\<And>p. p \<in> segs \<Longrightarrow> p < length store"
    and "finite own"
  using assms finite_subset [of own "{..<length store}"] by (simp_all add: heap_wf_def subset_iff)

lemma heap_wfI:
  assumes "own \<subseteq> {..<length store}" and "segs \<subseteq> {..<length store}"
    and "\<And>s. s \<in> set store \<Longrightarrow> invar (seg_index s)"
    and "\<And>s. s \<in> set store \<Longrightarrow> shape (seg_index s) = sh"
    and "\<And>p q. p \<in> own \<Longrightarrow> q \<in> own \<Longrightarrow> p \<noteq> q \<Longrightarrow>
      known (seg_index (store ! p)) \<inter> known (seg_index (store ! q)) = {}"
    and "\<And>p. p \<in> segs \<Longrightarrow> set (docs (seg_index (store ! p))) \<subseteq>
      (\<Union>q\<in>own. set (docs (seg_index (store ! q))))"
    and "inj_on (\<lambda>p. seg_id (store ! p)) own"
  shows "heap_wf invar shape docs known sh store own segs"
  using assms by (simp add: heap_wf_def)

lemma heap_wf_segs:
  assumes "heap_wf invar shape docs known sh store own segs" and "segs' \<subseteq> segs \<union> own"
  shows "heap_wf invar shape docs known sh store own segs'"
proof (rule heap_wfI)
  note D = heap_wfD [OF assms(1)]
  show "segs' \<subseteq> {..<length store}" using assms(2) D(1,2) by blast
  show "set (docs (seg_index (store ! p))) \<subseteq> (\<Union>q\<in>own. set (docs (seg_index (store ! q))))"
    if "p \<in> segs'" for p
    using that assms(2) D(6) [of p] by blast
qed (use heap_wfD [OF assms(1)] in \<open>simp_all\<close>)

text \<open>The documents of the heap: those of the owned segments.\<close>

definition heap_docs ::
  "('x \<Rightarrow> ('id, 'f) document list) \<Rightarrow> 'x Segment list \<Rightarrow> nat set \<Rightarrow> ('id, 'f) document multiset" where
  "heap_docs docs store own = (\<Sum>p\<in>own. mset (docs (seg_index (store ! p))))"

definition heap_known :: "('x \<Rightarrow> 'id set) \<Rightarrow> 'x Segment list \<Rightarrow> nat set \<Rightarrow> 'id set" where
  "heap_known known store own = (\<Union>p\<in>own. known (seg_index (store ! p)))"

lemma set_heap_docs:
  "finite own \<Longrightarrow> set_mset (heap_docs docs store own) = (\<Union>p\<in>own. set (docs (seg_index (store ! p))))"
  by (simp add: heap_docs_def set_mset_sum)

section \<open>Allocation\<close>

lemma heap_wf_alloc:
  assumes wf: "heap_wf invar shape docs known sh store own segs"
    and s: "invar (seg_index s)" "shape (seg_index s) = sh"
    and fresh: "known (seg_index s) \<inter> heap_known known store own = {}" "seg_id s \<notin> seg_id ` set store"
  shows "heap_wf invar shape docs known sh (store @ [s]) (insert (length store) own) segs"
proof (rule heap_wfI)
  note D = heap_wfD [OF wf]
  let ?n = "length store"
  have old: "(store @ [s]) ! p = store ! p" if "p \<in> own \<union> segs" for p
    using that D(8,9) by (auto simp: nth_append)
  have dis: "known (seg_index s) \<inter> known (seg_index (store ! p)) = {}" if "p \<in> own" for p
    using that fresh(1) by (force simp: heap_known_def)
  have id: "seg_id (store ! p) \<noteq> seg_id s" if "p \<in> own" for p
    using that fresh(2) D(8) [OF that] by (metis image_eqI nth_mem)
  show "insert ?n own \<subseteq> {..<length (store @ [s])}" "segs \<subseteq> {..<length (store @ [s])}"
    using D(1,2) by auto
  show "invar (seg_index t)" "shape (seg_index t) = sh" if "t \<in> set (store @ [s])" for t
    using that D(3,4) s by auto
  show "known (seg_index ((store @ [s]) ! p)) \<inter> known (seg_index ((store @ [s]) ! q)) = {}"
    if "p \<in> insert ?n own" "q \<in> insert ?n own" "p \<noteq> q" for p q
    using that D(5) [of p q] dis [of p] dis [of q] old [of p] old [of q] by auto
  show "set (docs (seg_index ((store @ [s]) ! p))) \<subseteq>
      (\<Union>q\<in>insert ?n own. set (docs (seg_index ((store @ [s]) ! q))))" if "p \<in> segs" for p
    using D(6) [OF that] old that by auto
  show "inj_on (\<lambda>p. seg_id ((store @ [s]) ! p)) (insert ?n own)"
  proof (rule inj_onI)
    fix p q assume pq: "p \<in> insert ?n own" "q \<in> insert ?n own"
      and eq: "seg_id ((store @ [s]) ! p) = seg_id ((store @ [s]) ! q)"
    show "p = q"
      using pq eq id [of p] id [of q] old [of p] old [of q] inj_onD [OF D(7), of p q] by auto
  qed
qed

lemma heap_docs_alloc:
  assumes "own \<subseteq> {..<length store}"
  shows "heap_docs docs (store @ [s]) (insert (length store) own) =
      heap_docs docs store own + mset (docs (seg_index s))"
    and "heap_known known (store @ [s]) (insert (length store) own) =
      heap_known known store own \<union> known (seg_index s)"
proof -
  have fin: "finite own" and old: "\<And>p. p \<in> own \<Longrightarrow> (store @ [s]) ! p = store ! p"
    and new: "length store \<notin> own"
    using assms finite_subset by (auto simp: nth_append)
  show "heap_docs docs (store @ [s]) (insert (length store) own) =
      heap_docs docs store own + mset (docs (seg_index s))"
    using fin old new by (simp add: heap_docs_def add.commute)
  show "heap_known known (store @ [s]) (insert (length store) own) =
      heap_known known store own \<union> known (seg_index s)"
    using old by (auto simp: heap_known_def)
qed

section \<open>Changing one owned segment\<close>

lemma inj_on_update_id:
  assumes inj: "inj_on (\<lambda>q. seg_id (store ! q)) own" and p: "p \<in> own" "p < length store" and own': "own' \<subseteq> own"
    and len: "\<And>q. q \<in> own \<Longrightarrow> q < length store" and id: "seg_id s = seg_id (store ! p) \<or> seg_id s \<notin> seg_id ` set store"
  shows "inj_on (\<lambda>q. seg_id (store[p := s] ! q)) own'"
proof (rule inj_onI)
  have new: "seg_id (store ! q) \<noteq> seg_id s" if q: "q \<in> own'" "q \<noteq> p" for q
  proof
    assume eq: "seg_id (store ! q) = seg_id s"
    have "q \<in> own" using q own' by blast
    with id show False
    proof (elim disjE)
      assume "seg_id s = seg_id (store ! p)"
      with inj_onD [OF inj, of q p] \<open>q \<in> own\<close> p(1) q(2) eq show False by simp
    next
      assume "seg_id s \<notin> seg_id ` set store"
      then show False using eq nth_mem [OF len [OF \<open>q \<in> own\<close>]] by (metis image_eqI)
    qed
  qed
  fix a b assume ab: "a \<in> own'" "b \<in> own'" and eq: "seg_id (store[p := s] ! a) = seg_id (store[p := s] ! b)"
  show "a = b"
  proof (cases "a = p \<or> b = p")
    case True
    with new [of a] new [of b] ab eq p(2) show ?thesis by (metis nth_list_update_eq nth_list_update_neq)
  next
    case False
    with eq have "seg_id (store ! a) = seg_id (store ! b)" by simp
    then show ?thesis by (rule inj_onD [OF inj]) (use ab own' in blast)+
  qed
qed

lemma heap_wf_update:
  assumes wf: "heap_wf invar shape docs known sh store own segs" and p: "p \<in> own"
    and own': "own' \<subseteq> own" "p \<in> own'"
    and s: "invar (seg_index s)" "shape (seg_index s) = sh"
    and known: "\<And>q. q \<in> own' \<Longrightarrow> q \<noteq> p \<Longrightarrow> known (seg_index s) \<inter> known (seg_index (store ! q)) = {}"
    and docs: "\<And>q. q \<in> insert p (own - own') \<Longrightarrow> set (docs (seg_index (store ! q))) \<subseteq> set (docs (seg_index s))"
    and id: "seg_id s = seg_id (store ! p) \<or> seg_id s \<notin> seg_id ` set store"
  shows "heap_wf invar shape docs known sh (store[p := s]) own' segs"
proof (rule heap_wfI)
  note D = heap_wfD [OF wf]
  have len: "p < length store" using p D(8) by blast
  have new [simp]: "store[p := s] ! p = s" using len by simp
  have old: "store[p := s] ! q = store ! q" if "q \<noteq> p" for q using that by simp
  show "own' \<subseteq> {..<length (store[p := s])}" "segs \<subseteq> {..<length (store[p := s])}"
    using D(1,2) own' by auto
  show "invar (seg_index t)" "shape (seg_index t) = sh" if "t \<in> set (store[p := s])" for t
    using that set_update_subset_insert [of store p s] D(3,4) s by auto
  show "known (seg_index (store[p := s] ! a)) \<inter> known (seg_index (store[p := s] ! b)) = {}"
    if ab: "a \<in> own'" "b \<in> own'" "a \<noteq> b" for a b
  proof -
    consider "a = p" "b \<noteq> p" | "a \<noteq> p" "b = p" | "a \<noteq> p" "b \<noteq> p" using ab(3) by blast
    then show ?thesis
    proof cases
      case 1
      with known [of b] ab(2) show ?thesis by simp
    next
      case 2
      with known [of a] ab(1) show ?thesis by (simp add: Int_commute)
    next
      case 3
      with D(5) [of a b] ab own'(1) show ?thesis by (simp add: subset_iff)
    qed
  qed
  have cover: "set (docs (seg_index (store ! q))) \<subseteq> (\<Union>r\<in>own'. set (docs (seg_index (store[p := s] ! r))))"
    if "q \<in> own" for q
  proof (cases "q \<in> own' \<and> q \<noteq> p")
    case True
    then have "set (docs (seg_index (store ! q))) = set (docs (seg_index (store[p := s] ! q)))"
      by (simp add: old)
    with True show ?thesis by blast
  next
    case False
    with that have "q \<in> insert p (own - own')" by blast
    from docs [OF this] have "set (docs (seg_index (store ! q))) \<subseteq> set (docs (seg_index s))" .
    also have "\<dots> = set (docs (seg_index (store[p := s] ! p)))" by simp
    finally show ?thesis using own'(2) by blast
  qed
  show "set (docs (seg_index (store[p := s] ! q))) \<subseteq> (\<Union>r\<in>own'. set (docs (seg_index (store[p := s] ! r))))"
    if "q \<in> segs" for q
  proof (cases "q = p")
    case True
    with own'(2) show ?thesis by blast
  next
    case False
    have "set (docs (seg_index (store ! q))) \<subseteq> (\<Union>r\<in>own'. set (docs (seg_index (store[p := s] ! r))))"
      using D(6) [OF that] cover by blast
    then show ?thesis by (simp only: old [OF False])
  qed
  show "inj_on (\<lambda>q. seg_id (store[p := s] ! q)) own'"
    using len p own'(1) id D(8) by (intro inj_on_update_id [OF D(7)]) auto
qed

lemma heap_docs_update:
  assumes "finite own" and "p \<in> own" and "p < length store"
  shows "heap_docs docs (store[p := s]) own + mset (docs (seg_index (store ! p))) =
    heap_docs docs store own + mset (docs (seg_index s))"
proof -
  have "(\<Sum>q\<in>own - {p}. mset (docs (seg_index (store[p := s] ! q)))) =
      (\<Sum>q\<in>own - {p}. mset (docs (seg_index (store ! q))))"
    by (intro sum.cong) auto
  with assms show ?thesis
    by (simp add: heap_docs_def sum.remove [of own p] ac_simps)
qed

lemma heap_docs_remove:
  assumes "finite own" and "q \<in> own"
  shows "heap_docs docs store own = heap_docs docs store (own - {q}) + mset (docs (seg_index (store ! q)))"
  using assms by (simp add: heap_docs_def sum.remove [of own q] add.commute)

lemma heap_known_update:
  assumes "p \<in> own" and "p < length store"
  shows "heap_known known (store[p := s]) own = heap_known known store (own - {p}) \<union> known (seg_index s)"
  using assms by (auto simp: heap_known_def nth_list_update split: if_splits)

section \<open>Deletion\<close>

lemma heap_wf_filter:
  assumes wf: "heap_wf invar shape docs known sh store own segs"
    and len: "length store' = length store"
    and inv: "\<And>s. s \<in> set store' \<Longrightarrow> invar (seg_index s) \<and> shape (seg_index s) = sh"
    and same: "\<And>p. p \<in> own \<union> segs \<Longrightarrow> seg_id (store' ! p) = seg_id (store ! p) \<and>
      known (seg_index (store' ! p)) = known (seg_index (store ! p)) \<and>
      docs (seg_index (store' ! p)) = filter P (docs (seg_index (store ! p)))"
  shows "heap_wf invar shape docs known sh store' own segs"
proof (rule heap_wfI)
  note D = heap_wfD [OF wf]
  show "own \<subseteq> {..<length store'}" "segs \<subseteq> {..<length store'}" using D(1,2) len by simp_all
  show "known (seg_index (store' ! p)) \<inter> known (seg_index (store' ! q)) = {}"
    if "p \<in> own" "q \<in> own" "p \<noteq> q" for p q
    using that D(5) same by simp
  show "set (docs (seg_index (store' ! p))) \<subseteq> (\<Union>q\<in>own. set (docs (seg_index (store' ! q))))"
    if "p \<in> segs" for p
    using that D(6) [OF that] same by auto
  show "inj_on (\<lambda>p. seg_id (store' ! p)) own"
    using D(7) same by (auto simp: inj_on_def)
qed (use inv in simp_all)

lemma heap_docs_filter:
  assumes "\<And>p. p \<in> own \<Longrightarrow> docs (seg_index (store' ! p)) = filter P (docs (seg_index (store ! p)))"
  shows "heap_docs docs store' own = filter_mset P (heap_docs docs store own)"
proof -
  have "heap_docs docs store' own = (\<Sum>p\<in>own. filter_mset P (mset (docs (seg_index (store ! p)))))"
    unfolding heap_docs_def by (rule sum.cong) (simp_all add: assms mset_filter)
  also have "\<dots> = filter_mset P (heap_docs docs store own)"
    unfolding heap_docs_def by (induction own rule: infinite_finite_induct) simp_all
  finally show ?thesis .
qed

end
