(* ===== verification/Index_Storage.thy ===== *)
theory Index_Storage
  imports Index_Heap
begin

text \<open>
  The invariant of an \<open>Index\<close> and the correctness of \<open>SegmentStorage\<close>: adding a segment puts it on
  the level of its size, and merging ends, never fails, keeps the documents of the index and keeps
  every owned segment searchable.
\<close>

section \<open>The invariant of an index\<close>

definition owners :: "'x Index \<Rightarrow> nat list" where
  "owners ix = ix_last ix # level_ptrs (levels (ix_storage ix))"

definition index_docs ::
  "('x \<Rightarrow> ('id, 'f) document list) \<Rightarrow> 'x Index \<Rightarrow> ('id, 'f) document multiset" where
  "index_docs docs ix = heap_docs docs (ix_store ix) (set (owners ix))"

definition index_known :: "('x \<Rightarrow> 'id set) \<Rightarrow> 'x Index \<Rightarrow> 'id set" where
  "index_known known ix = heap_known known (ix_store ix) (set (owners ix))"

text \<open>A segment on level \<open>i\<close> holds at most \<open>2 ^ (i + 1)\<close> documents.\<close>

definition levels_fit :: "(nat \<Rightarrow> nat) \<Rightarrow> nat option list list \<Rightarrow> bool" where
  "levels_fit sz lv \<longleftrightarrow> (\<forall>i < length lv. \<forall>p \<in> set (ptrs_of (lv ! i)). sz p \<le> 2 ^ (i + 1))"

text \<open>What never changes: the factory makes empty indexes, and the parameters make sense.\<close>

definition index_params ::
  "('x \<Rightarrow> bool) \<Rightarrow> ('x \<Rightarrow> nat) \<Rightarrow> ('x \<Rightarrow> ('id, 'f) document list) \<Rightarrow> ('x \<Rightarrow> 'id set) \<Rightarrow> 'x Index \<Rightarrow> bool" where
  "index_params invar dim docs known ix \<longleftrightarrow>
     invar (sf_index (ix_factory ix)) \<and> docs (sf_index (ix_factory ix)) = [] \<and>
     known (sf_index (ix_factory ix)) = {} \<and>
     0 < ix_threshold ix \<and> ix_threshold ix \<le> 2 ^ 63 \<and>
     to_size_t (ix_d ix) = dim (sf_index (ix_factory ix))"

definition index_wf ::
  "('x \<Rightarrow> bool) \<Rightarrow> ('x \<Rightarrow> 'k) \<Rightarrow> ('x \<Rightarrow> nat) \<Rightarrow> ('x \<Rightarrow> ('id, 'f) document list) \<Rightarrow> ('x \<Rightarrow> 'id set) \<Rightarrow>
    'x Index \<Rightarrow> bool" where
  "index_wf invar shape dim docs known ix \<longleftrightarrow>
     index_params invar dim docs known ix \<and>
     distinct (owners ix) \<and> set (level_ptrs (levels (ix_storage ix))) \<subseteq> set (ix_segments ix) \<and>
     heap_wf invar shape docs known (shape (sf_index (ix_factory ix))) (ix_store ix)
       (set (owners ix)) (set (ix_segments ix)) \<and>
     levels_fit (\<lambda>p. length (docs (seg_index (seg_at ix p)))) (levels (ix_storage ix))"

definition index_inv ::
  "('x \<Rightarrow> bool) \<Rightarrow> ('x \<Rightarrow> 'k) \<Rightarrow> ('x \<Rightarrow> nat) \<Rightarrow> ('x \<Rightarrow> ('id, 'f) document list) \<Rightarrow> ('x \<Rightarrow> 'id set) \<Rightarrow>
    'x Index \<Rightarrow> bool" where
  "index_inv invar shape dim docs known ix \<longleftrightarrow>
     index_wf invar shape dim docs known ix \<and>
     length (docs (seg_index (seg_at ix (ix_last ix)))) < ix_threshold ix"

lemma index_wfD:
  assumes "index_wf invar shape dim docs known ix"
  shows "index_params invar dim docs known ix" and "distinct (owners ix)"
    and "set (level_ptrs (levels (ix_storage ix))) \<subseteq> set (ix_segments ix)"
    and "heap_wf invar shape docs known (shape (sf_index (ix_factory ix))) (ix_store ix)
       (set (owners ix)) (set (ix_segments ix))"
    and "levels_fit (\<lambda>p. length (docs (seg_index (seg_at ix p)))) (levels (ix_storage ix))"
  using assms by (simp_all only: index_wf_def)

lemma index_paramsD:
  assumes "index_params invar dim docs known ix"
  shows "invar (sf_index (ix_factory ix))" and "docs (sf_index (ix_factory ix)) = []"
    and "known (sf_index (ix_factory ix)) = {}" and "0 < ix_threshold ix" and "ix_threshold ix \<le> 2 ^ 63"
    and "to_size_t (ix_d ix) = dim (sf_index (ix_factory ix))"
  using assms by (simp_all only: index_params_def)

lemma last_in_owners [simp]: "ix_last ix \<in> set (owners ix)"
  by (simp add: owners_def)

lemma levels_fitD: "levels_fit sz lv \<Longrightarrow> i < length lv \<Longrightarrow> p \<in> set (ptrs_of (lv ! i)) \<Longrightarrow> sz p \<le> 2 ^ (i + 1)"
  by (simp add: levels_fit_def)

lemma set_level_ptrs: "set (level_ptrs lv) = (\<Union>l \<in> set lv. set (ptrs_of l))"
  by (simp add: level_ptrs_def)

lemma nth_level_ptrs: "i < length lv \<Longrightarrow> p \<in> set (ptrs_of (lv ! i)) \<Longrightarrow> p \<in> set (level_ptrs lv)"
  using nth_mem by (force simp: set_level_ptrs)

lemma levels_fit_mono:
  assumes "levels_fit sz lv" and "\<And>p. p \<in> set (level_ptrs lv) \<Longrightarrow> sz' p \<le> sz p"
  shows "levels_fit sz' lv"
  unfolding levels_fit_def
proof (intro allI impI ballI)
  fix i p assume i: "i < length lv" and p: "p \<in> set (ptrs_of (lv ! i))"
  then have "sz' p \<le> sz p" using assms(2) nth_level_ptrs by blast
  also have "\<dots> \<le> 2 ^ (i + 1)" using assms(1) i p by (rule levels_fitD)
  finally show "sz' p \<le> 2 ^ (i + 1)" .
qed

section \<open>SegmentStorage::add\<close>

lemma storage_level_spec:
  assumes "n \<le> 2 ^ 63" and "i \<le> length lv" and "i = 0 \<or> 2 ^ (i - 1) < n"
  shows "\<exists>j e. storage_level n i lv = Inr (j, lv @ replicate e []) \<and> n \<le> 2 ^ j \<and>
    (j = 0 \<or> 2 ^ (j - 1) < n) \<and> j \<le> length lv + e"
  using assms
proof (induction n i lv rule: storage_level.induct)
  case (1 n i lv)
  have i: "i < 64"
  proof (rule ccontr)
    assume "\<not> i < 64"
    then have "(2::nat) ^ 63 \<le> 2 ^ (i - 1)" by (intro power_increasing) auto
    with 1 \<open>\<not> i < 64\<close> show False by auto
  qed
  show ?case
  proof (cases "2 ^ i < n")
    case False
    with i have "storage_level n i lv = Inr (i, lv)" by (subst storage_level.simps) simp
    with False "1.prems" show ?thesis by (intro exI [of _ i] exI [of _ 0]) auto
  next
    case True
    define lv1 where "lv1 = (if i = length lv then lv @ [[]] else lv)"
    have "\<exists>j e. storage_level n (i + 1) lv1 = Inr (j, lv1 @ replicate e []) \<and> n \<le> 2 ^ j \<and>
        (j = 0 \<or> 2 ^ (j - 1) < n) \<and> j \<le> length lv1 + e"
      unfolding lv1_def
      by (rule "1.IH") (use i True "1.prems" in auto)
    then obtain j e where "storage_level n (i + 1) lv1 = Inr (j, lv1 @ replicate e [])"
      and "n \<le> 2 ^ j" "j = 0 \<or> 2 ^ (j - 1) < n" "j \<le> length lv1 + e" by blast
    moreover have "storage_level n i lv = storage_level n (i + 1) lv1"
      using i True unfolding lv1_def by (subst storage_level.simps) simp
    moreover have "lv1 @ replicate e [] = lv @ replicate (if i = length lv then Suc e else e) []"
      by (simp add: lv1_def)
    ultimately show ?thesis
      by (intro exI [of _ j] exI [of _ "if i = length lv then Suc e else e"]) (auto simp: lv1_def)
  qed
qed

lemma storage_add_spec:
  assumes "n \<le> 2 ^ 63"
  shows "\<exists>i lv e st'. storage_add st p n = Inr st' \<and> lv = levels st @ replicate e [] \<and>
    i < length lv \<and> levels st' = lv[i := lv ! i @ [Some p]] \<and>
    n \<le> 2 ^ (i + 1) \<and> (i = 0 \<or> 2 ^ i < n) \<and>
    st_sz st' = size_add (st_sz st) n \<and> st_counter st' = size_add (st_counter st) 1"
proof -
  obtain j e where j: "storage_level n 0 (levels st) = Inr (j, levels st @ replicate e [])"
    "n \<le> 2 ^ j" "j = 0 \<or> 2 ^ (j - 1) < n" "j \<le> length (levels st) + e"
    using storage_level_spec [OF assms, of 0 "levels st"] by auto
  define i where "i = (if j = 0 then 0 else j - 1)"
  define lv where "lv = (if i = length (levels st) + e then levels st @ replicate (Suc e) []
    else levels st @ replicate e [])"
  have "i < length lv" using j(4) by (auto simp: lv_def i_def)
  moreover have "n \<le> 2 ^ (i + 1)" "i = 0 \<or> 2 ^ i < n"
    using j(2,3) by (cases j; simp add: i_def)+
  moreover obtain e' where "lv = levels st @ replicate e' []" unfolding lv_def by metis
  moreover have "storage_add st p n = Inr (st\<lparr>levels := lv[i := lv ! i @ [Some p]],
      st_sz := size_add (st_sz st) n, st_counter := size_add (st_counter st) 1\<rparr>)"
    by (simp add: storage_add_def j(1) Let_def lv_def i_def replicate_append_same)
  ultimately show ?thesis
    by (intro exI [of _ i] exI [of _ lv] exI [of _ e'] exI conjI) (assumption | simp)+
qed

lemma level_ptrs_replicate [simp]: "level_ptrs (replicate e []) = []"
  by (induction e) simp_all

lemma ptrs_of_replicate_nth: "i < e \<Longrightarrow> ptrs_of (replicate e [] ! i) = []"
  by simp

lemma storage_add_levels:
  assumes "n \<le> 2 ^ 63" and "levels_fit sz (levels st)" and "sz p = n"
  shows "\<exists>st'. storage_add st p n = Inr st' \<and>
    mset (level_ptrs (levels st')) = add_mset p (mset (level_ptrs (levels st))) \<and>
    levels_fit sz (levels st')"
proof -
  obtain st' i lv e where *: "storage_add st p n = Inr st'" "lv = levels st @ replicate e []"
    "i < length lv" "levels st' = lv[i := lv ! i @ [Some p]]" "n \<le> 2 ^ (i + 1)"
    using storage_add_spec [OF assms(1), of st p] by blast
  have "mset (level_ptrs (levels st')) = add_mset p (mset (level_ptrs lv))"
    using mset_level_ptrs_update [OF *(3), of "lv ! i @ [Some p]"] by (simp add: *(4))
  moreover have "levels_fit sz lv"
    using assms(2) unfolding levels_fit_def *(2) by (auto simp: nth_append)
  then have "levels_fit sz (levels st')"
    using *(3,5) assms(3) unfolding levels_fit_def *(4) by (auto simp: nth_list_update split: if_splits)
  ultimately show ?thesis using *(1,2) by auto
qed

section \<open>Merging a pair: the levels\<close>

lemma mset_lift_pair:
  assumes i: "i < length lv" and j: "j + 1 < length (lv ! i)"
    and p: "lv ! i ! j = Some p" and q: "lv ! i ! (j + 1) = Some q"
  shows "mset (level_ptrs lv) = add_mset q (mset (level_ptrs (lift_pair i j p lv)))"
proof -
  let ?lv' = "lift_pair i j p lv"
  have i': "i < length ?lv'" using i by (simp add: length_lift_pair)
  have split: "level_ptrs l = level_ptrs (take i l) @ ptrs_of (l ! i) @ level_ptrs (drop (Suc i) l)"
    if "i < length l" for l
    using id_take_nth_drop [OF that] level_ptrs_simps by metis
  have "take i ?lv' = take i lv" using i by (simp add: lift_pair_def Let_def)
  then show ?thesis
    unfolding split [OF i] split [OF i'] lift_pair_nth [OF i]
    using mset_ptrs_of_pair [OF j p q] drop_lift_pair [OF i, of j p] by simp
qed

lemma set_ptrs_of: "set (ptrs_of l) = {p. Some p \<in> set l}"
  by (induction l) (auto simp: ptrs_of_def map_filter_simps split: option.splits)

lemma ptrs_of_lift_pair:
  assumes i: "i < length lv" and k: "k < length (lift_pair i j p lv)"
    and r: "r \<in> set (ptrs_of (lift_pair i j p lv ! k))"
  shows "(k < length lv \<and> r \<in> set (ptrs_of (lv ! k))) \<or> (k = i + 1 \<and> r = p)"
proof (cases "k = i")
  case True
  have "set ((lv ! i)[j := None, j + 1 := None]) \<subseteq> insert None (set (lv ! i))"
    using set_update_subset_insert by (metis insert_absorb2 insert_mono subset_trans)
  with r i show ?thesis by (auto simp: True lift_pair_nth set_ptrs_of)
next
  case False
  with i k r show ?thesis
    by (auto simp: lift_pair_def Let_def nth_append nth_list_update split: if_splits)
qed

lemma level_ptrs_unique:
  assumes "distinct (level_ptrs lv)" and "i < length lv" and "k < length lv"
    and "p \<in> set (ptrs_of (lv ! i))" and "p \<in> set (ptrs_of (lv ! k))"
  shows "i = k"
  using assms
proof (induction lv arbitrary: i k)
  case Nil
  then show ?case by simp
next
  case (Cons l lv)
  then show ?case by (cases i; cases k) (auto dest: nth_level_ptrs)
qed

lemma levels_fit_lift_pair:
  assumes fit: "levels_fit sz lv" and i: "i < length lv" and j: "j + 1 < length (lv ! i)"
    and p: "lv ! i ! j = Some p" and q: "lv ! i ! (j + 1) = Some q"
    and dis: "distinct (level_ptrs lv)" and sz: "sz' p \<le> sz p + sz q" "\<And>r. r \<noteq> p \<Longrightarrow> sz' r = sz r"
  shows "levels_fit sz' (lift_pair i j p lv)"
  unfolding levels_fit_def
proof (intro allI impI ballI)
  let ?lv' = "lift_pair i j p lv"
  have "distinct (q # level_ptrs ?lv')"
    using mset_lift_pair [OF i j p q] dis by (metis mset.simps(2) mset_eq_imp_distinct_iff)
  then have dis': "distinct (level_ptrs ?lv')" by simp
  fix k r assume k: "k < length ?lv'" and r: "r \<in> set (ptrs_of (?lv' ! k))"
  have pq: "p \<in> set (ptrs_of (lv ! i))" "q \<in> set (ptrs_of (lv ! i))"
    using p q j by (auto simp: set_ptrs_of) (metis Suc_lessD nth_mem, metis nth_mem)
  have i1: "i + 1 < length ?lv'" using i by (auto simp: length_lift_pair)
  have "Some p \<in> set (?lv' ! (i + 1))"
    using i by (auto simp: lift_pair_def Let_def nth_append)
  then have up: "p \<in> set (ptrs_of (?lv' ! (i + 1)))" by (simp add: set_ptrs_of)
  show "sz' r \<le> 2 ^ (k + 1)"
  proof (cases "r = p")
    case True
    with level_ptrs_unique [OF dis' k i1 _ up] r have "k = i + 1" by simp
    moreover have "sz p \<le> 2 ^ (i + 1)" "sz q \<le> 2 ^ (i + 1)"
      using fit i pq by (auto dest: levels_fitD)
    ultimately show ?thesis using sz(1) True by simp
  next
    case False
    with ptrs_of_lift_pair [OF i k r] fit sz(2) show ?thesis by (auto dest: levels_fitD)
  qed
qed

text \<open>
  C24. \<open>SegmentStorage::add\<close> puts a segment of \<open>n\<close> documents at the end of the level \<open>i\<close> with
  \<open>2 ^ i < n \<le> 2 ^ (i + 1)\<close> (level 0 when \<open>n\<close> is at most 2), appending empty levels as needed. The
  other levels do not change, and for sizes up to \<open>2 ^ 63\<close> the shift in its loop never overflows. The size and the
  number of segments are counted modulo \<open>2 ^ 64\<close>.
\<close>

theorem storage_add_level:
  assumes "n \<le> 2 ^ 63"
  shows "\<exists>st' i. storage_add st p n = Inr st' \<and> i < length (levels st') \<and>
    n \<le> 2 ^ (i + 1) \<and> (i = 0 \<or> 2 ^ i < n) \<and>
    levels st' ! i = (if i < length (levels st) then levels st ! i else []) @ [Some p] \<and>
    (\<forall>j < length (levels st'). j \<noteq> i \<longrightarrow>
       levels st' ! j = (if j < length (levels st) then levels st ! j else [])) \<and>
    st_sz st' = size_add (st_sz st) n \<and> st_counter st' = size_add (st_counter st) 1"
proof -
  obtain i lv e st' where a: "storage_add st p n = Inr st'" "lv = levels st @ replicate e []"
    "i < length lv" "levels st' = lv[i := lv ! i @ [Some p]]" "n \<le> 2 ^ (i + 1)" "i = 0 \<or> 2 ^ i < n"
    "st_sz st' = size_add (st_sz st) n" "st_counter st' = size_add (st_counter st) 1"
    using storage_add_spec [OF assms, of st p] by blast
  have lv: "lv ! j = (if j < length (levels st) then levels st ! j else [])" if "j < length lv" for j
    using that by (auto simp: a(2) nth_append)
  show ?thesis
    using a(1,3,5-) lv by (intro exI [of _ st'] exI [of _ i]) (auto simp: a(4))
qed

theorem storage_add_level_witness:
  "\<exists>st' i. storage_add \<lparr>levels = [], st_sz = 0, st_counter = 0\<rparr> 7 5 = Inr st' \<and> i < length (levels st') \<and>
    5 \<le> (2::nat) ^ (i + 1) \<and> (i = 0 \<or> 2 ^ i < (5::nat)) \<and> levels st' ! i = [Some 7] \<and>
    (\<forall>j < length (levels st'). j \<noteq> i \<longrightarrow> levels st' ! j = []) \<and> st_sz st' = 5 \<and> st_counter st' = 1"
  using storage_add_level [of 5 "\<lparr>levels = [], st_sz = 0, st_counter = 0\<rparr>" 7] by (simp add: size_add_def)

end
