(* ===== verification/Index_Merge.thy ===== *)
theory Index_Merge
  imports Index_Storage
begin

text \<open>
  \<open>SegmentStorage::merge\<close> over any base index that keeps its contract: the loop invariant of the
  three nested loops, and the result that merging always succeeds, changes no document and keeps
  the invariant of the index.
\<close>

section \<open>The loop invariant\<close>

text \<open>
  During a level: the segments still owned have identifiers that are not about to be erased, the
  inserted ones are searchable already, and coming random identifiers are new.
\<close>

definition merge_wf ::
  "('x \<Rightarrow> bool) \<Rightarrow> ('x \<Rightarrow> 'k) \<Rightarrow> ('x \<Rightarrow> nat) \<Rightarrow> ('x \<Rightarrow> ('id, 'f) document list) \<Rightarrow> ('x \<Rightarrow> 'id set) \<Rightarrow>
    'x merge_ctx \<Rightarrow> bool" where
  "merge_wf invar shape dim docs known c \<longleftrightarrow>
     index_wf invar shape dim docs known (mc_ix c) \<and>
     set (mc_inserted c) \<subseteq> set (ix_segments (mc_ix c)) \<and>
     (\<forall>p \<in> set (level_ptrs (mc_levels c)). seg_id (seg_at (mc_ix c) p) \<notin> set (mc_erased c)) \<and>
     fresh_rng (seg_id ` set (ix_store (mc_ix c)) \<union> set (mc_erased c)) (mc_rng c)"

lemma merge_wfD:
  assumes "merge_wf invar shape dim docs known c"
  shows "index_wf invar shape dim docs known (mc_ix c)"
    and "set (mc_inserted c) \<subseteq> set (ix_segments (mc_ix c))"
    and "\<And>p. p \<in> set (level_ptrs (mc_levels c)) \<Longrightarrow> seg_id (seg_at (mc_ix c) p) \<notin> set (mc_erased c)"
    and "fresh_rng (seg_id ` set (ix_store (mc_ix c)) \<union> set (mc_erased c)) (mc_rng c)"
  using assms by (simp_all add: merge_wf_def)

text \<open>What merging leaves as it was.\<close>

definition index_frame ::
  "('x \<Rightarrow> ('id, 'f) document list) \<Rightarrow> ('x \<Rightarrow> 'id set) \<Rightarrow> 'x Index \<Rightarrow> 'x Index \<Rightarrow> bool" where
  "index_frame docs known ix ix' \<longleftrightarrow>
     index_docs docs ix' = index_docs docs ix \<and> index_known known ix' \<subseteq> index_known known ix \<and>
     ix_last ix' = ix_last ix \<and> seg_at ix' (ix_last ix') = seg_at ix (ix_last ix) \<and>
     ix_factory ix' = ix_factory ix \<and> ix_threshold ix' = ix_threshold ix \<and> ix_d ix' = ix_d ix \<and>
     ix_enable_merge ix' = ix_enable_merge ix \<and> ix_callback ix' = ix_callback ix \<and>
     ix_ctx ix' = ix_ctx ix"

lemma index_frame_refl: "index_frame docs known ix ix"
  by (simp add: index_frame_def)

lemma index_frame_trans:
  "index_frame docs known a b \<Longrightarrow> index_frame docs known b c \<Longrightarrow> index_frame docs known a c"
  by (auto simp: index_frame_def)

lemma index_frame_inv:
  assumes "index_frame docs known ix ix'" and "index_inv invar shape dim docs known ix"
    and "index_wf invar shape dim docs known ix'"
  shows "index_inv invar shape dim docs known ix'"
  using assms by (auto simp: index_inv_def index_frame_def)

section \<open>Publishing a level\<close>

lemma set_fold_remove_first:
  "set (fold (\<lambda>i. remove_first (\<lambda>p. f p = i)) is xs) \<subseteq> set xs"
proof (induction "is" arbitrary: xs)
  case Nil
  then show ?case by simp
next
  case (Cons i "is")
  have "set (fold (\<lambda>i. remove_first (\<lambda>p. f p = i)) is (remove_first (\<lambda>p. f p = i) xs)) \<subseteq>
      set (remove_first (\<lambda>p. f p = i) xs)"
    by (rule Cons.IH)
  also have "\<dots> \<subseteq> set xs" by (rule set_remove_first_subset)
  finally show ?case by simp
qed

lemma fold_remove_first_keeps:
  "p \<in> set xs \<Longrightarrow> f p \<notin> set is \<Longrightarrow> p \<in> set (fold (\<lambda>i. remove_first (\<lambda>p. f p = i)) is xs)"
  by (induction "is" arbitrary: xs) (simp_all add: set_remove_first_keeps)

lemma merge_publish_wf:
  assumes "merge_wf invar shape dim docs known c"
  shows "merge_wf invar shape dim docs known (merge_publish c)"
    and "index_frame docs known (mc_ix c) (mc_ix (merge_publish c))"
proof -
  note M = merge_wfD [OF assms] and W = index_wfD [OF merge_wfD(1) [OF assms]]
  let ?ix = "mc_ix c" and ?ix' = "mc_ix (merge_publish c)"
  have same: "ix_store ?ix' = ix_store ?ix" "owners ?ix' = owners ?ix" "ix_storage ?ix' = ix_storage ?ix"
    "ix_factory ?ix' = ix_factory ?ix" "ix_last ?ix' = ix_last ?ix"
    "index_params invar dim docs known ?ix' = index_params invar dim docs known ?ix"
    by (simp_all add: merge_publish_def Let_def owners_def index_params_def)
  have segs: "ix_segments ?ix' = fold (\<lambda>i. remove_first (\<lambda>p. seg_id (seg_at ?ix p) = i)) (mc_erased c)
      (ix_segments ?ix @ mc_inserted c)"
    by (simp add: merge_publish_def Let_def)
  have "set (ix_segments ?ix') \<subseteq> set (ix_segments ?ix @ mc_inserted c)"
    unfolding segs by (rule set_fold_remove_first)
  also have "\<dots> \<subseteq> set (ix_segments ?ix) \<union> set (owners ?ix)" using M(2) by auto
  finally have heap: "heap_wf invar shape docs known (shape (sf_index (ix_factory ?ix))) (ix_store ?ix)
      (set (owners ?ix)) (set (ix_segments ?ix'))"
    by (rule heap_wf_segs [OF W(4)])
  have "set (level_ptrs (levels (ix_storage ?ix))) \<subseteq> set (ix_segments ?ix')"
    unfolding segs using W(3) M(3) by (auto intro!: fold_remove_first_keeps)
  then have "index_wf invar shape dim docs known ?ix'"
    unfolding index_wf_def same using W heap by blast
  moreover have "fresh_rng (seg_id ` set (ix_store ?ix)) (mc_rng c)"
    using M(4) by (rule fresh_rng_mono) blast
  moreover have "mc_inserted (merge_publish c) = []" "mc_erased (merge_publish c) = []"
    "mc_rng (merge_publish c) = mc_rng c"
    by (simp_all add: merge_publish_def Let_def)
  ultimately show "merge_wf invar shape dim docs known (merge_publish c)"
    by (simp add: merge_wf_def same)
  show "index_frame docs known ?ix ?ix'"
    unfolding index_frame_def index_docs_def index_known_def same
    by (simp add: merge_publish_def Let_def)
qed

section \<open>Merging a pair\<close>

text \<open>The index after a pair was merged into the segment \<open>s\<close>.\<close>

definition paired :: "nat \<Rightarrow> nat \<Rightarrow> nat \<Rightarrow> 'x Segment \<Rightarrow> nat \<Rightarrow> 'x Index \<Rightarrow> 'x Index" where
  "paired i j p s n ix = ix\<lparr>ix_store := (ix_store ix)[p := s],
     ix_storage := (ix_storage ix)\<lparr>levels := lift_pair i j p (levels (ix_storage ix)), st_counter := n\<rparr>\<rparr>"

lemma merge_pair_paired:
  assumes "seg_mergeSegment V (p, seg_at (mc_ix c) p) (q, seg_at (mc_ix c) q) = Inr m"
  shows "merge_pair V i j p q c = Inr (c\<lparr>
    mc_ix := paired i j p (m\<lparr>seg_id := mc_rng c 0\<rparr>) (size_sub (st_counter (ix_storage (mc_ix c))) 1) (mc_ix c),
    mc_rng := \<lambda>n. mc_rng c (Suc n), 
    mc_amount := mc_amount c - size_add (seg_size V (seg_at (mc_ix c) p)) (seg_size V (seg_at (mc_ix c) q)),
    mc_erased := mc_erased c @ [seg_id (seg_at (mc_ix c) q), seg_id (seg_at (mc_ix c) p)],
    mc_inserted := mc_inserted c @ [p]\<rparr>)"
  using assms by (simp add: merge_pair_def Let_def rand_def paired_def lift_pair_def)

lemma paired_fields [simp]:
  "ix_store (paired i j p s n ix) = (ix_store ix)[p := s]"
  "levels (ix_storage (paired i j p s n ix)) = lift_pair i j p (levels (ix_storage ix))"
  "ix_segments (paired i j p s n ix) = ix_segments ix" "ix_last (paired i j p s n ix) = ix_last ix"
  "ix_factory (paired i j p s n ix) = ix_factory ix"
  "index_params invar dim docs known (paired i j p s n ix) = index_params invar dim docs known ix"
  by (simp_all add: paired_def index_params_def)

lemma mset_owners_paired:
  assumes "i < length (levels (ix_storage ix))" and "j + 1 < length (levels (ix_storage ix) ! i)"
    and "levels (ix_storage ix) ! i ! j = Some p" and "levels (ix_storage ix) ! i ! (j + 1) = Some q"
  shows "mset (owners ix) = add_mset q (mset (owners (paired i j p s n ix)))"
  using mset_lift_pair [OF assms] by (simp add: owners_def)

lemma paired_owners:
  assumes dis: "distinct (owners ix)" and i: "i < length (levels (ix_storage ix))"
    and j: "j + 1 < length (levels (ix_storage ix) ! i)"
    and p: "levels (ix_storage ix) ! i ! j = Some p" and q: "levels (ix_storage ix) ! i ! (j + 1) = Some q"
  shows "distinct (owners (paired i j p s n ix))"
    and "set (owners (paired i j p s n ix)) = set (owners ix) - {q}"
    and "set (level_ptrs (lift_pair i j p (levels (ix_storage ix)))) =
      set (level_ptrs (levels (ix_storage ix))) - {q}"
    and "p \<noteq> q" and "p \<in> set (level_ptrs (levels (ix_storage ix)))"
    and "q \<in> set (level_ptrs (levels (ix_storage ix)))"
    and "ix_last ix \<noteq> p" and "ix_last ix \<noteq> q"
proof -
  let ?ix' = "paired i j p s n ix" and ?lv = "levels (ix_storage ix)"
  have lv: "mset (level_ptrs ?lv) = add_mset q (mset (level_ptrs (lift_pair i j p ?lv)))"
    by (rule mset_lift_pair [OF i j p q])
  have "distinct (level_ptrs ?lv)" using dis by (simp add: owners_def)
  then have "distinct (q # level_ptrs (lift_pair i j p ?lv))"
    using lv by (metis mset.simps(2) mset_eq_imp_distinct_iff)
  then have q': "distinct (level_ptrs (lift_pair i j p ?lv))"
    "q \<notin> set (level_ptrs (lift_pair i j p ?lv))" by simp_all
  then show sub: "set (level_ptrs (lift_pair i j p ?lv)) = set (level_ptrs ?lv) - {q}"
    using arg_cong [OF lv, of set_mset] by auto
  show in_lv: "p \<in> set (level_ptrs ?lv)" "q \<in> set (level_ptrs ?lv)"
    using p q j nth_level_ptrs [OF i] nth_mem [of j "?lv ! i"] nth_mem [of "j + 1" "?lv ! i"]
    by (auto simp: set_ptrs_of)
  with dis show last: "ix_last ix \<noteq> p" "ix_last ix \<noteq> q" by (auto simp: owners_def)
  show "p \<noteq> q"
  proof
    assume "p = q"
    then have "\<not> distinct (ptrs_of (?lv ! i))"
      using mset_ptrs_of_pair [OF j p q] by (auto simp: distinct_count_atmost_1)
    moreover have "distinct (ptrs_of (?lv ! i))"
      using i \<open>distinct (level_ptrs ?lv)\<close>
      by (metis Cons_nth_drop_Suc append_take_drop_id distinct_append level_ptrs_simps(2,3))
    ultimately show False by contradiction
  qed
  show "distinct (owners ?ix')" "set (owners ?ix') = set (owners ix) - {q}"
    using dis q' sub last by (auto simp: owners_def)
qed

context base_index
begin

abbreviation "iwf \<equiv> index_wf invar shape dim docs known"
abbreviation "mwf \<equiv> merge_wf invar shape dim docs known"

text \<open>\<open>merged_of ix p q s\<close>: \<open>s\<close> holds what the segments \<open>p\<close> and \<open>q\<close> held, under a new identifier.\<close>

definition merged_of :: "'x Index \<Rightarrow> nat \<Rightarrow> nat \<Rightarrow> 'x Segment \<Rightarrow> bool" where
  "merged_of ix p q s \<longleftrightarrow>
     invar (seg_index s) \<and> shape (seg_index s) = shape (seg_index (seg_at ix p)) \<and>
     known (seg_index s) = known (seg_index (seg_at ix p)) \<union> fst ` set (sdocs (seg_at ix q)) \<and>
     mset (sdocs s) = mset (sdocs (seg_at ix p)) + mset (sdocs (seg_at ix q)) \<and>
     seg_id s \<notin> seg_id ` set (ix_store ix)"

lemma merged_ofD:
  assumes "merged_of ix p q s"
  shows "invar (seg_index s)" and "shape (seg_index s) = shape (seg_index (seg_at ix p))"
    and "known (seg_index s) = known (seg_index (seg_at ix p)) \<union> fst ` set (sdocs (seg_at ix q))"
    and "mset (sdocs s) = mset (sdocs (seg_at ix p)) + mset (sdocs (seg_at ix q))"
    and "seg_id s \<notin> seg_id ` set (ix_store ix)"
    and "set (sdocs s) = set (sdocs (seg_at ix p)) \<union> set (sdocs (seg_at ix q))"
    and "length (sdocs s) = length (sdocs (seg_at ix p)) + length (sdocs (seg_at ix q))"
  using assms unfolding merged_of_def by (auto dest: arg_cong [of _ _ size] mset_eq_setD)
    (metis mset_append mset_eq_setD set_append Un_iff)+

lemma paired_wf:
  assumes wf: "iwf ix" and i: "i < length (levels (ix_storage ix))"
    and j: "j + 1 < length (levels (ix_storage ix) ! i)"
    and p: "levels (ix_storage ix) ! i ! j = Some p" and q: "levels (ix_storage ix) ! i ! (j + 1) = Some q"
    and m: "merged_of ix p q s"
  shows "iwf (paired i j p s n ix)"
proof -
  let ?own' = "set (owners (paired i j p s n ix))"
  note W = index_wfD [OF wf] and s = merged_ofD [OF m]
  note H = heap_wfD [OF W(4)] and O = paired_owners [OF W(2) i j p q]
  have pq: "p \<in> set (owners ix)" "q \<in> set (owners ix)" using O(5,6) by (auto simp: owners_def)
  have len: "p < length (ix_store ix)" "q < length (ix_store ix)" using H(8) pq by auto
  have other: "known (seg_index s) \<inter> known (seg_index (seg_at ix r)) = {}"
    if "r \<in> ?own'" "r \<noteq> p" for r
  proof -
    have "known (seg_index (seg_at ix p)) \<inter> known (seg_index (seg_at ix r)) = {}"
      "known (seg_index (seg_at ix q)) \<inter> known (seg_index (seg_at ix r)) = {}"
      using that O(2) pq H(5) [of p r] H(5) [of q r] by auto
    moreover have "fst ` set (sdocs (seg_at ix q)) \<subseteq> known (seg_index (seg_at ix q))"
      using docs_known H(3) len by simp
    ultimately show ?thesis unfolding s(3) by blast
  qed
  have "heap_wf invar shape docs known (shape (sf_index (ix_factory ix))) ((ix_store ix)[p := s])
      ?own' (set (ix_segments ix))"
  proof (rule heap_wf_update [OF W(4) pq(1)])
    show "?own' \<subseteq> set (owners ix)" "p \<in> ?own'" using O(2,4) pq by auto
    show "shape (seg_index s) = shape (sf_index (ix_factory ix))" using s(2) H(4) len by simp
    show "set (sdocs (seg_at ix r)) \<subseteq> set (sdocs s)" if "r \<in> insert p (set (owners ix) - ?own')" for r
      using that O(2) s(6) by auto
  qed (use s(1,5) other in auto)
  moreover have "distinct (level_ptrs (levels (ix_storage ix)))" using W(2) by (simp add: owners_def)
  then have "levels_fit (\<lambda>r. length (sdocs ((ix_store ix)[p := s] ! r)))
      (lift_pair i j p (levels (ix_storage ix)))"
    by (rule levels_fit_lift_pair [OF W(5) i j p q]) (use s(7) len in simp_all)
  ultimately show ?thesis unfolding index_wf_def paired_fields using W(1,3) O(1,3) by blast
qed

lemma paired_frame:
  assumes wf: "iwf ix" and i: "i < length (levels (ix_storage ix))"
    and j: "j + 1 < length (levels (ix_storage ix) ! i)"
    and p: "levels (ix_storage ix) ! i ! j = Some p" and q: "levels (ix_storage ix) ! i ! (j + 1) = Some q"
    and m: "merged_of ix p q s"
  shows "index_frame docs known ix (paired i j p s n ix)"
proof -
  let ?ix' = "paired i j p s n ix"
  note W = index_wfD [OF wf] and s = merged_ofD [OF m]
  note H = heap_wfD [OF W(4)] and O = paired_owners [OF W(2) i j p q]
  have pq: "p \<in> set (owners ix)" "q \<in> set (owners ix)" using O(5,6) by (auto simp: owners_def)
  have len: "p < length (ix_store ix)" "q < length (ix_store ix)" using H(8) pq by auto
  have up: "p \<in> set (owners ?ix')" and fin: "finite (set (owners ?ix'))" using O(2,4) pq by auto
  have "heap_docs docs ((ix_store ix)[p := s]) (set (owners ?ix')) + mset (sdocs (seg_at ix p)) =
      heap_docs docs (ix_store ix) (set (owners ix) - {q}) + mset (sdocs s)"
    using heap_docs_update [OF fin up len(1)] O(2) by simp
  also have "\<dots> = index_docs docs ix + mset (sdocs (seg_at ix p))"
    using heap_docs_remove [of "set (owners ix)" q docs "ix_store ix"] pq(2) s(4)
    by (simp add: index_docs_def)
  finally have "index_docs docs ?ix' = index_docs docs ix" by (simp add: index_docs_def)
  moreover have "fst ` set (sdocs (seg_at ix q)) \<subseteq> known (seg_index (seg_at ix q))"
    using docs_known H(3) len by simp
  then have "index_known known ?ix' \<subseteq> index_known known ix"
    using O(2) pq unfolding index_known_def paired_fields heap_known_update [OF up len(1)] s(3)
    by (auto simp: heap_known_def)
  ultimately show ?thesis
    using O(7) by (simp add: index_frame_def) (simp add: paired_def)
qed

lemma merge_pair_ok:
  assumes wf: "mwf c" and i: "i < length (mc_levels c)" and j: "j + 1 < length (mc_levels c ! i)"
    and p: "mc_levels c ! i ! j = Some p" and q: "mc_levels c ! i ! (j + 1) = Some q"
  shows "\<exists>c'. merge_pair V i j p q c = Inr c' \<and> mwf c' \<and> index_frame docs known (mc_ix c) (mc_ix c')"
proof -
  let ?ix = "mc_ix c"
  let ?a = "seg_at ?ix p" and ?b = "seg_at ?ix q"
  note M = merge_wfD [OF wf]
  note W = index_wfD [OF M(1)]
  note H = heap_wfD [OF W(4)] and O = paired_owners [OF W(2) i j p q]
  note F = fresh_rng_step [OF M(4)]
  have pq: "p \<in> set (owners ?ix)" "q \<in> set (owners ?ix)" using O(5,6) by (auto simp: owners_def)
  then have len: "p < length (ix_store ?ix)" "q < length (ix_store ?ix)" using H(8) by auto
  have "invar (seg_index ?a)" "invar (seg_index ?b)" "shape (seg_index ?a) = shape (seg_index ?b)"
    using H(3,4) len by simp_all
  moreover have "fst ` set (sdocs ?b) \<subseteq> known (seg_index ?b)" using docs_known H(3) len by simp
  then have "known (seg_index ?a) \<inter> fst ` set (sdocs ?b) = {}" using H(5) [OF pq O(4)] by blast
  ultimately obtain x where x: "seg_mergeSegment V (p, ?a) (q, ?b) = Inr (?a\<lparr>seg_index := x\<rparr>)" "invar x"
    "shape x = shape (seg_index ?a)" "known x = known (seg_index ?a) \<union> fst ` set (sdocs ?b)"
    "mset (docs x) = mset (sdocs ?a) + mset (sdocs ?b)"
    using seg_merge_docs [OF _ _ _ _ O(4)] by blast
  define s where "s = ?a\<lparr>seg_index := x, seg_id := mc_rng c 0\<rparr>"
  have m: "merged_of ?ix p q s" using x F(1) by (simp add: merged_of_def s_def)
  let ?ix' = "paired i j p s (size_sub (st_counter (ix_storage ?ix)) 1) ?ix"
  let ?e = "mc_erased c @ [seg_id ?b, seg_id ?a]"
  have ids: "seg_id (seg_at ?ix' r) \<notin> set ?e" if r: "r \<in> set (level_ptrs (levels (ix_storage ?ix')))" for r
  proof (cases "r = p")
    case True
    have "mc_rng c 0 \<notin> seg_id ` set (ix_store ?ix)" "mc_rng c 0 \<notin> set (mc_erased c)" using F(1) by auto
    with len True show ?thesis by (auto simp: s_def)
  next
    case False
    have "r \<in> set (level_ptrs (mc_levels c))" "r \<noteq> q" using r O(3) by auto
    then have "seg_id (seg_at ?ix r) \<notin> set (mc_erased c)" "r \<in> set (owners ?ix)"
      using M(3) by (auto simp: owners_def)
    with False \<open>r \<noteq> q\<close> inj_onD [OF H(7), of r] pq show ?thesis by auto
  qed
  have "seg_id ` set ((ix_store ?ix)[p := s]) \<union> set ?e \<subseteq>
      insert (mc_rng c 0) (seg_id ` set (ix_store ?ix) \<union> set (mc_erased c))"
    using set_update_subset_insert [of "ix_store ?ix" p s] len by (auto simp: s_def)
  then have "fresh_rng (seg_id ` set ((ix_store ?ix)[p := s]) \<union> set ?e) (\<lambda>n. mc_rng c (Suc n))"
    by (rule fresh_rng_mono [OF F(2)])
  moreover have "p \<in> set (ix_segments ?ix)" using O(5) W(3) by blast
  moreover note ids M(2) paired_wf [OF M(1) i j p q m] paired_frame [OF M(1) i j p q m]
  ultimately show ?thesis
    by (simp add: merge_pair_paired [OF x(1)] merge_wf_def flip: s_def)
qed

section \<open>The loops\<close>

lemma merge_step_ok:
  assumes wf: "mwf c" and i: "i < length (mc_levels c)" and j: "j + 1 < length (mc_levels c ! i)"
  shows "\<exists>c'. merge_step V i j c = Inr c' \<and> mwf c' \<and> index_frame docs known (mc_ix c) (mc_ix c')"
proof (cases "merge_step V i j c = Inr c")
  case True
  with wf show ?thesis by (simp add: index_frame_refl)
next
  case False
  then obtain p q where pq: "mc_levels c ! i ! j = Some p" "mc_levels c ! i ! (j + 1) = Some q"
    and "merge_step V i j c = merge_pair V i j p q c"
    by (auto simp: merge_step_def split: option.splits if_splits)
  with merge_pair_ok [OF wf i j pq] show ?thesis by simp
qed

lemma merge_level_ok:
  assumes wf: "mwf c" and i: "i < length (mc_levels c)"
  shows "\<exists>c'. merge_level V i c = Inr c' \<and> mwf c' \<and> index_frame docs known (mc_ix c) (mc_ix c')"
proof -
  let ?n = "length (mc_levels c ! i)"
  let ?P = "\<lambda>d. mwf d \<and> index_frame docs known (mc_ix c) (mc_ix d) \<and> i < length (mc_levels d) \<and>
    length (mc_levels d ! i) = ?n"
  have step: "\<exists>e. merge_step V i j d = Inr e \<and> ?P e" if "j \<in> set [0..<?n - 1]" "?P d" for j d
  proof -
    from that have j: "j + 1 < length (mc_levels d ! i)" and i': "i < length (mc_levels d)" by auto
    from that merge_step_ok [OF _ i' j] obtain e where e: "merge_step V i j d = Inr e" "mwf e"
      "index_frame docs known (mc_ix d) (mc_ix e)" by auto
    with merge_step_progress [OF e(1) i' j] that(2) show ?thesis
      by (auto intro: index_frame_trans)
  qed
  have "?P c" using wf i by (simp add: index_frame_refl)
  then have "\<exists>d. foldR (merge_step V i) [0..<?n - 1] c = Inr d \<and> ?P d"
    by (rule foldR_invariant) (rule step)
  then obtain d where d: "foldR (merge_step V i) [0..<?n - 1] c = Inr d" "?P d" by blast
  from d(2) have "mwf (merge_publish d)" "index_frame docs known (mc_ix c) (mc_ix (merge_publish d))"
    using merge_publish_wf [of invar shape dim docs known d] by (auto intro: index_frame_trans)
  then show ?thesis unfolding merge_level_def d(1) by simp
qed

lemma merge_levels_ok:
  assumes "mwf c"
  shows "\<exists>c'. merge_levels V i c = Inr c' \<and> mwf c' \<and> index_frame docs known (mc_ix c) (mc_ix c')"
proof -
  have "V' = V \<Longrightarrow> mwf c \<Longrightarrow>
    \<exists>c'. merge_levels V' i c = Inr c' \<and> mwf c' \<and> index_frame docs known (mc_ix c) (mc_ix c')" for V'
  proof (induction V' i c rule: merge_levels.induct)
    case (1 V' i c)
    show ?case
    proof (cases "0 < mc_amount c \<and> i < length (mc_levels c)")
      case True
      with merge_level_ok [OF "1.prems"(2)] obtain d where d: "merge_level V' i c = Inr d" "mwf d"
        "index_frame docs known (mc_ix c) (mc_ix d)" using "1.prems"(1) by blast
      from "1.IH" [OF True d(1) "1.prems"(1) d(2)] d(3)
      obtain c' where "merge_levels V' (i + 1) d = Inr c'" "mwf c'"
        "index_frame docs known (mc_ix c) (mc_ix c')" by (blast intro: index_frame_trans)
      with True d(1) show ?thesis by (subst merge_levels.simps) simp
    next
      case False
      with "1.prems" show ?thesis by (subst merge_levels.simps) (auto simp: index_frame_refl)
    qed
  qed
  with assms show ?thesis by blast
qed

lemma ptrs_of_compact [simp]: "ptrs_of (filter (\<lambda>s. \<exists>p. s = Some p) l) = ptrs_of l"
  by (induction l) (auto simp: ptrs_of_def map_filter_simps)

lemma compact_wf:
  assumes "iwf ix"
  shows "iwf (ix\<lparr>ix_storage := merge_compact (ix_storage ix)\<rparr>)"
    and "index_frame docs known ix (ix\<lparr>ix_storage := merge_compact (ix_storage ix)\<rparr>)"
proof -
  let ?lv = "levels (ix_storage ix)"
  have ptrs: "level_ptrs (map (filter (\<lambda>s. s \<noteq> None)) ?lv) = level_ptrs ?lv"
    by (simp add: level_ptrs_def comp_def)
  have "levels_fit sz (map (filter (\<lambda>s. s \<noteq> None)) ?lv) = levels_fit sz ?lv" for sz
    by (simp add: levels_fit_def)
  then show "iwf (ix\<lparr>ix_storage := merge_compact (ix_storage ix)\<rparr>)"
    using assms ptrs by (simp add: index_wf_def index_params_def merge_compact_def owners_def)
  show "index_frame docs known ix (ix\<lparr>ix_storage := merge_compact (ix_storage ix)\<rparr>)"
    using ptrs by (simp add: index_frame_def index_docs_def index_known_def merge_compact_def owners_def)
qed

theorem storage_merge_ok:
  assumes wf: "iwf ix" and fresh: "fresh_rng (seg_id ` set (ix_store ix)) g"
  shows "\<exists>ix' g' ev. storage_merge V amount ix g = Inr (ix', g', ev) \<and> iwf ix' \<and>
    fresh_rng (seg_id ` set (ix_store ix')) g' \<and> index_frame docs known ix ix' \<and>
    (\<forall>l \<in> set (levels (ix_storage ix')). None \<notin> set l)"
proof -
  define c where "c = \<lparr>mc_ix = ix, mc_rng = g, mc_amount = amount, mc_erased = [], mc_inserted = [], mc_events = []\<rparr>"
  have "mwf c" using wf fresh by (simp add: merge_wf_def c_def)
  then obtain c' where c': "merge_levels V 0 c = Inr c'" "mwf c'" "index_frame docs known ix (mc_ix c')"
    using merge_levels_ok [of c 0] by (auto simp: c_def)
  note M = merge_wfD [OF c'(2)]
  have "fresh_rng (seg_id ` set (ix_store (mc_ix c'))) (mc_rng c')" using M(4) by (rule fresh_rng_mono) blast
  with compact_wf [OF M(1)] c'(3) show ?thesis
    by (auto simp: storage_merge_def c'(1) simp flip: c_def intro: index_frame_trans)
      (auto simp: merge_compact_def)
qed

end

section \<open>Segments that stay behind\<close>

lemma count_remove_first: "\<not> P x \<Longrightarrow> count_list (remove_first P xs) x = count_list xs x"
  by (induction xs) auto

lemma count_fold_remove_first:
  "f p \<notin> set is \<Longrightarrow> count_list (fold (\<lambda>i. remove_first (\<lambda>p. f p = i)) is xs) p = count_list xs p"
  by (induction "is" arbitrary: xs) (auto simp: count_remove_first)

lemma merge_publish_count:
  assumes "merge_wf invar shape dim docs known c" and "p \<in> set (level_ptrs (mc_levels c))"
  shows "count_list (ix_segments (mc_ix (merge_publish c))) p =
    count_list (ix_segments (mc_ix c)) p + count_list (mc_inserted c) p"
  using merge_wfD(3) [OF assms] by (simp add: merge_publish_def Let_def count_fold_remove_first)

end
