(* ===== verification/Index_Correct.thy ===== *)
theory Index_Correct
  imports Index_Merge
begin

text \<open>
  The operations of \<open>Index\<close> over any base index that keeps its contract, specified by the
  documents of the index: \<open>add\<close> adds the given ones (splitting the batch over segments and merging
  afterwards), \<open>erase\<close> removes the given identifiers everywhere, \<open>search\<close> answers from all
  documents, \<open>pushSegment\<close> adds the documents of the pushed segment.
\<close>

definition same_params :: "'x Index \<Rightarrow> 'x Index \<Rightarrow> bool" where
  "same_params ix ix' \<longleftrightarrow> ix_factory ix' = ix_factory ix \<and> ix_threshold ix' = ix_threshold ix \<and>
     ix_d ix' = ix_d ix \<and> ix_enable_merge ix' = ix_enable_merge ix \<and> ix_callback ix' = ix_callback ix \<and>
     ix_ctx ix' = ix_ctx ix"

lemma same_params_trans: "same_params a b \<Longrightarrow> same_params b c \<Longrightarrow> same_params a c"
  by (simp add: same_params_def)

lemma index_frame_params: "index_frame docs known ix ix' \<Longrightarrow> same_params ix ix'"
  by (simp add: index_frame_def same_params_def)

lemma index_params_same:
  "same_params ix ix' \<Longrightarrow> index_params invar dim docs known ix' = index_params invar dim docs known ix"
  by (simp add: index_params_def same_params_def)

lemma zip_rows_split:
  assumes "b \<le> n"
  shows "zip (take n ids) (rows d n vs) =
    zip (take b ids) (rows d b vs) @ zip (take (n - b) (drop b ids)) (rows d (n - b) (drop (b * d) vs))"
proof (cases "b \<le> length ids")
  case True
  have "rows d n vs = rows d b vs @ rows d (n - b) (drop (b * d) vs)"
    using rows_add [of d b "n - b" vs] assms by simp
  moreover have "take n ids = take b ids @ take (n - b) (drop b ids)"
    using assms by (metis le_add_diff_inverse take_add)
  ultimately show ?thesis using True by simp
next
  case False
  then have "drop b ids = []" "take n ids = ids" "take b ids = ids" using assms by simp_all
  moreover have "rows d n vs = rows d b vs @ rows d (n - b) (drop (b * d) vs)"
    using rows_add [of d b "n - b" vs] assms by simp
  ultimately show ?thesis using False by (simp add: zip_append2)
qed

context base_index
begin

abbreviation "iinv \<equiv> index_inv invar shape dim docs known"
abbreviation "idim ix \<equiv> dim (sf_index (ix_factory ix))"
abbreviation "last_seg ix \<equiv> seg_at ix (ix_last ix)"

lemma last_segment:
  assumes "iwf ix"
  shows "ix_last ix < length (ix_store ix)" and "invar (seg_index (last_seg ix))"
    and "shape (seg_index (last_seg ix)) = shape (sf_index (ix_factory ix))"
    and "dim (seg_index (last_seg ix)) = idim ix"
proof -
  note H = heap_wfD [OF index_wfD(4) [OF assms]]
  show len: "ix_last ix < length (ix_store ix)" using H(8) by simp
  then show "invar (seg_index (last_seg ix))"
    and sh: "shape (seg_index (last_seg ix)) = shape (sf_index (ix_factory ix))"
    using H(3,4) by simp_all
  from sh show "dim (seg_index (last_seg ix)) = idim ix" by (rule shape_dim)
qed

section \<open>Storing a segment\<close>

text \<open>A new segment of the heap becomes the one being filled; the previous one goes to the storage.\<close>

lemma index_seal_ok:
  assumes wf: "iwf ix" and small: "length (sdocs (last_seg ix)) \<le> 2 ^ 63"
    and fresh: "fresh_rng (seg_id ` set (ix_store ix)) g"
  shows "\<exists>ix' g'. index_seal V ix g = Inr (ix', g') \<and> iwf ix' \<and> same_params ix ix' \<and>
    fresh_rng (seg_id ` set (ix_store ix')) g' \<and> index_docs docs ix' = index_docs docs ix \<and>
    index_known known ix' = index_known known ix \<and> sdocs (last_seg ix') = []"
proof -
  note W = index_wfD [OF wf] and F = fresh_rng_step [OF fresh]
  note P = index_paramsD [OF W(1)] and H = heap_wfD [OF W(4)] and L = last_segment [OF wf]
  let ?store = "ix_store ix" and ?last = "ix_last ix" and ?n = "length (ix_store ix)"
  let ?s = "\<lparr>seg_index = sf_index (ix_factory ix), seg_id = g 0, seg_type = sf_type (ix_factory ix)\<rparr>"
  have sz: "seg_size V (last_seg ix) = length (sdocs (last_seg ix))" using L(2) by (rule seg_size_docs)
  obtain st where st: "storage_add (ix_storage ix) ?last (seg_size V (last_seg ix)) = Inr st"
    "mset (level_ptrs (levels st)) = add_mset ?last (mset (level_ptrs (levels (ix_storage ix))))"
    "levels_fit (\<lambda>p. length (sdocs (seg_at ix p))) (levels st)"
    using storage_add_levels [OF small W(5)] unfolding sz by blast
  define ix' where "ix' = ix\<lparr>ix_storage := st, ix_segments := ix_segments ix @ [?last],
    ix_store := ?store @ [?s], ix_last := ?n\<rparr>"
  have seal: "index_seal V ix g = Inr (ix', \<lambda>i. g (Suc i))"
    by (simp add: index_seal_def st(1) factory_create_def segment_new_def rand_def ix'_def)
  have par: "same_params ix ix'" by (simp add: same_params_def ix'_def)
  have mown: "mset (owners ix') = add_mset ?n (mset (owners ix))"
    by (simp add: owners_def ix'_def st(2))
  then have own: "set (owners ix') = insert ?n (set (owners ix))"
    by (metis set_mset_add_mset_insert set_mset_mset)
  have "distinct (?n # owners ix)" using W(2) H(8) by auto
  then have dis: "distinct (owners ix')" using mown by (metis mset.simps(2) mset_eq_imp_distinct_iff)
  have lv: "set (level_ptrs (levels st)) = insert ?last (set (level_ptrs (levels (ix_storage ix))))"
    using st(2) by (metis set_mset_add_mset_insert set_mset_mset)
  have "heap_wf invar shape docs known (shape (sf_index (ix_factory ix))) (?store @ [?s])
      (insert ?n (set (owners ix))) (set (ix_segments ix))"
    by (rule heap_wf_alloc [OF W(4)]) (use P F(1) in simp_all)
  then have heap: "heap_wf invar shape docs known (shape (sf_index (ix_factory ix))) (?store @ [?s])
      (set (owners ix')) (set (ix_segments ix'))"
    unfolding own by (rule heap_wf_segs) (auto simp: ix'_def)
  have "levels_fit (\<lambda>p. length (sdocs ((?store @ [?s]) ! p))) (levels st)"
  proof (rule levels_fit_mono [OF st(3)])
    fix p assume "p \<in> set (level_ptrs (levels st))"
    then have "p < ?n" using lv H(8) by (auto simp: owners_def)
    then show "length (sdocs ((?store @ [?s]) ! p)) \<le> length (sdocs (seg_at ix p))"
      by (simp add: nth_append)
  qed
  moreover have "set (level_ptrs (levels st)) \<subseteq> set (ix_segments ix')"
    using lv W(3) by (auto simp: ix'_def)
  moreover have "ix_store ix' = ?store @ [?s]" "ix_storage ix' = st" "ix_factory ix' = ix_factory ix"
    by (simp_all add: ix'_def)
  ultimately have "iwf ix'"
    unfolding index_wf_def using heap dis W(1) by (simp add: index_params_same [OF par])
  moreover have "fresh_rng (seg_id ` set (ix_store ix')) (\<lambda>i. g (Suc i))"
    using F(2) by (simp add: ix'_def)
  moreover have "index_docs docs ix' = index_docs docs ix" "index_known known ix' = index_known known ix"
    using heap_docs_alloc(1) [OF H(1), of docs ?s] heap_docs_alloc(2) [OF H(1), of known ?s] P(2,3)
    unfolding index_docs_def index_known_def own by (simp_all add: ix'_def)
  ultimately show ?thesis using seal par P(2) by (auto simp: ix'_def)
qed

section \<open>Adding to the segment being filled\<close>

lemma index_fill_ok:
  assumes wf: "iwf ix" and len: "b * idim ix \<le> length vs" "b \<le> length ids"
    and ids: "distinct (take b ids)" "set (take b ids) \<inter> index_known known ix = {}"
  shows "\<exists>s. seg_addVectorBatch V (last_seg ix) b ids vs = Inr s \<and> seg_id s = seg_id (last_seg ix) \<and>
    invar (seg_index s) \<and>
    sdocs s = sdocs (last_seg ix) @ zip (take b ids) (rows (idim ix) b vs) \<and>
    iwf (ix\<lparr>ix_store := (ix_store ix)[ix_last ix := s]\<rparr>) \<and>
    index_docs docs (ix\<lparr>ix_store := (ix_store ix)[ix_last ix := s]\<rparr>) =
      index_docs docs ix + mset (zip (take b ids) (rows (idim ix) b vs)) \<and>
    index_known known (ix\<lparr>ix_store := (ix_store ix)[ix_last ix := s]\<rparr>) =
      index_known known ix \<union> set (take b ids)"
proof -
  note W = index_wfD [OF wf] and L = last_segment [OF wf]
  note H = heap_wfD [OF W(4)]
  have kn: "known (seg_index (last_seg ix)) \<subseteq> index_known known ix"
    by (force simp: index_known_def heap_known_def)
  then obtain x where x: "seg_addVectorBatch V (last_seg ix) b ids vs = Inr ((last_seg ix)\<lparr>seg_index := x\<rparr>)"
    "invar x" "shape x = shape (seg_index (last_seg ix))"
    "known x = known (seg_index (last_seg ix)) \<union> set (take b ids)"
    "docs x = sdocs (last_seg ix) @ zip (take b ids) (rows (idim ix) b vs)"
    using seg_add_docs [OF L(2), of b vs ids] len ids L(4) by auto
  define s where "s = (last_seg ix)\<lparr>seg_index := x\<rparr>"
  define ix' where "ix' = ix\<lparr>ix_store := (ix_store ix)[ix_last ix := s]\<rparr>"
  have own: "owners ix' = owners ix" by (simp add: ix'_def owners_def)
  have heap: "heap_wf invar shape docs known (shape (sf_index (ix_factory ix)))
      ((ix_store ix)[ix_last ix := s]) (set (owners ix)) (set (ix_segments ix))"
  proof (rule heap_wf_update [OF W(4)])
    show "known (seg_index s) \<inter> known (seg_index (seg_at ix q)) = {}"
      if "q \<in> set (owners ix)" "q \<noteq> ix_last ix" for q
      using that H(5) [of "ix_last ix" q] ids(2) unfolding s_def
      by (auto simp: x(4) index_known_def heap_known_def)
  qed (use x L in \<open>auto simp: s_def\<close>)
  have "levels_fit (\<lambda>p. length (sdocs ((ix_store ix)[ix_last ix := s] ! p))) (levels (ix_storage ix))"
    by (rule levels_fit_mono [OF W(5)])
      (use W(2) in \<open>metis distinct.simps(2) le_refl nth_list_update_neq owners_def\<close>)
  then have "iwf ix'"
    unfolding index_wf_def own using W heap
    by (simp add: ix'_def index_params_def)
  moreover have "index_docs docs ix' + mset (sdocs (last_seg ix)) = index_docs docs ix + mset (sdocs s)"
    using heap_docs_update [OF H(10) last_in_owners L(1), of docs s]
    by (simp add: index_docs_def own) (simp add: ix'_def)
  then have "index_docs docs ix' = index_docs docs ix + mset (zip (take b ids) (rows (idim ix) b vs))"
    by (simp add: s_def x(5))
  moreover have "index_known known ix' = index_known known ix \<union> set (take b ids)"
    using heap_known_update [OF last_in_owners L(1), of known s] kn
    unfolding index_known_def own by (auto simp: ix'_def s_def x(4) heap_known_def)
  ultimately show ?thesis using x by (simp add: ix'_def s_def)
qed

section \<open>Index::add\<close>

text \<open>One round of the loop: fill the last segment, and store it when it is full.\<close>

lemma index_round_ok:
  assumes inv: "iinv ix" and fresh: "fresh_rng (seg_id ` set (ix_store ix)) g"
    and b: "b \<le> ix_threshold ix - length (sdocs (last_seg ix))"
    and len: "b * idim ix \<le> length vs" "b \<le> length ids"
    and ids: "distinct (take b ids)" "set (take b ids) \<inter> index_known known ix = {}"
  shows "\<exists>s ix' g'. seg_addVectorBatch V (last_seg ix) b ids vs = Inr s \<and>
    (if seg_size V s = ix_threshold ix
     then index_seal V (ix\<lparr>ix_store := (ix_store ix)[ix_last ix := s]\<rparr>) g
     else Inr (ix\<lparr>ix_store := (ix_store ix)[ix_last ix := s]\<rparr>, g)) = Inr (ix', g') \<and>
    iinv ix' \<and> same_params ix ix' \<and> fresh_rng (seg_id ` set (ix_store ix')) g' \<and>
    index_docs docs ix' = index_docs docs ix + mset (zip (take b ids) (rows (idim ix) b vs)) \<and>
    index_known known ix' = index_known known ix \<union> set (take b ids)"
proof -
  from inv have wf: "iwf ix" and room: "length (sdocs (last_seg ix)) < ix_threshold ix"
    by (simp_all add: index_inv_def)
  note P = index_paramsD [OF index_wfD(1) [OF wf]]
  from index_fill_ok [OF wf len ids] obtain s
    where s: "seg_addVectorBatch V (last_seg ix) b ids vs = Inr s" "seg_id s = seg_id (last_seg ix)"
      "invar (seg_index s)" "sdocs s = sdocs (last_seg ix) @ zip (take b ids) (rows (idim ix) b vs)"
      and one: "iwf (ix\<lparr>ix_store := (ix_store ix)[ix_last ix := s]\<rparr>)"
      "index_docs docs (ix\<lparr>ix_store := (ix_store ix)[ix_last ix := s]\<rparr>) =
        index_docs docs ix + mset (zip (take b ids) (rows (idim ix) b vs))"
      "index_known known (ix\<lparr>ix_store := (ix_store ix)[ix_last ix := s]\<rparr>) =
        index_known known ix \<union> set (take b ids)"
    by blast
  define ix1 where "ix1 = ix\<lparr>ix_store := (ix_store ix)[ix_last ix := s]\<rparr>"
  note one = one [folded ix1_def]
  have par: "same_params ix ix1" by (simp add: same_params_def ix1_def)
  have last1: "last_seg ix1 = s" using last_segment(1) [OF wf] by (simp add: ix1_def)
  have size1: "seg_size V s = length (sdocs s)" using s(3) by (rule seg_size_docs)
  have "length (sdocs s) = length (sdocs (last_seg ix)) + b" using len(2) by (simp add: s(4))
  then have le: "length (sdocs s) \<le> ix_threshold ix" using b room by simp
  have "seg_id ` set (ix_store ix1) \<subseteq> seg_id ` set (ix_store ix)"
    using set_update_subset_insert [of "ix_store ix" "ix_last ix" s] s(2) last_segment(1) [OF wf]
    by (auto simp: ix1_def)
  then have fresh1: "fresh_rng (seg_id ` set (ix_store ix1)) g" by (rule fresh_rng_mono [OF fresh])
  show ?thesis
  proof (cases "seg_size V s = ix_threshold ix")
    case True
    have "length (sdocs (last_seg ix1)) \<le> 2 ^ 63" using le P(5) by (simp add: last1)
    from index_seal_ok [OF one(1) this fresh1] obtain ix' g'
      where i: "index_seal V ix1 g = Inr (ix', g')" "iwf ix'" "same_params ix1 ix'"
        "fresh_rng (seg_id ` set (ix_store ix')) g'" "index_docs docs ix' = index_docs docs ix1"
        "index_known known ix' = index_known known ix1" "sdocs (last_seg ix') = []" by blast
    have "iinv ix'" using i(2,3,7) P(4) par by (simp add: index_inv_def same_params_def)
    then show ?thesis using i s(1) one True same_params_trans [OF par i(3)]
      by (intro exI [of _ s] exI [of _ ix'] exI [of _ g']) (simp flip: ix1_def)
  next
    case False
    then have "iinv ix1" using one(1) le size1 par by (simp add: index_inv_def last1 same_params_def)
    then show ?thesis using s(1) one False par fresh1
      by (intro exI [of _ s] exI [of _ ix1] exI [of _ g]) (simp flip: ix1_def)
  qed
qed

lemma index_add_loop_step:
  assumes "n \<noteq> 0" and "b = min n (size_sub (ix_threshold ix) (seg_size V (last_seg ix)))" and "0 < b"
    and "seg_addVectorBatch V (last_seg ix) b ids vs = Inr s"
    and "(if seg_size V s = ix_threshold ix
      then index_seal V (ix\<lparr>ix_store := (ix_store ix)[ix_last ix := s]\<rparr>) g
      else Inr (ix\<lparr>ix_store := (ix_store ix)[ix_last ix := s]\<rparr>, g)) = Inr (ix', g')"
  shows "\<exists>ins'. index_add_loop V n ids vs ix g ins =
    index_add_loop V (n - b) (drop b ids) (drop (b * to_size_t (ix_d ix)) vs) ix' g' ins'"
  using assms by (subst index_add_loop.simps) (auto simp: Let_def)

lemma index_add_loop_ok:
  assumes "iinv ix" and "fresh_rng (seg_id ` set (ix_store ix)) g"
    and "n * idim ix \<le> length vs" and "n \<le> length ids"
    and "distinct (take n ids)" and "set (take n ids) \<inter> index_known known ix = {}"
  shows "\<exists>ix' g' ins'. index_add_loop V n ids vs ix g ins = Inr (ix', g', ins') \<and> iinv ix' \<and>
    same_params ix ix' \<and> fresh_rng (seg_id ` set (ix_store ix')) g' \<and>
    index_docs docs ix' = index_docs docs ix + mset (zip (take n ids) (rows (idim ix) n vs)) \<and>
    index_known known ix' = index_known known ix \<union> set (take n ids)"
  using assms
proof (induction n arbitrary: ids vs ix g ins rule: less_induct)
  case (less n)
  show ?case
  proof (cases "n = 0")
    case True
    with less.prems show ?thesis by (subst index_add_loop.simps) (simp add: same_params_def)
  next
    case False
    from less.prems(1) have wf: "iwf ix" and room: "length (sdocs (last_seg ix)) < ix_threshold ix"
      by (simp_all add: index_inv_def)
    have d: "to_size_t (ix_d ix) = idim ix" using wf by (intro index_paramsD(6)) (rule index_wfD(1))
    define b where "b = min n (ix_threshold ix - length (sdocs (last_seg ix)))"
    have b: "0 < b" "b \<le> n" "b \<le> ix_threshold ix - length (sdocs (last_seg ix))"
      using False room by (auto simp: b_def)
    have batch: "b = min n (size_sub (ix_threshold ix) (seg_size V (last_seg ix)))"
      using room seg_size_docs [OF last_segment(2) [OF wf]] by (simp add: b_def)
    have split: "take n ids = take b ids @ take (n - b) (drop b ids)"
      using b(2) by (metis le_add_diff_inverse take_add)
    have len: "b * idim ix \<le> length vs" "b \<le> length ids"
      using order_trans [OF mult_le_mono1 [OF b(2)] less.prems(3)] b(2) less.prems(4) by auto
    have "distinct (take b ids)" "set (take b ids) \<inter> index_known known ix = {}"
      using less.prems(5,6) by (auto simp: split)
    from index_round_ok [OF less.prems(1,2) b(3) len this] obtain s ix1 g1
      where s: "seg_addVectorBatch V (last_seg ix) b ids vs = Inr s"
        "(if seg_size V s = ix_threshold ix
          then index_seal V (ix\<lparr>ix_store := (ix_store ix)[ix_last ix := s]\<rparr>) g
          else Inr (ix\<lparr>ix_store := (ix_store ix)[ix_last ix := s]\<rparr>, g)) = Inr (ix1, g1)"
        and one: "iinv ix1" "same_params ix ix1" "fresh_rng (seg_id ` set (ix_store ix1)) g1"
        "index_docs docs ix1 = index_docs docs ix + mset (zip (take b ids) (rows (idim ix) b vs))"
        "index_known known ix1 = index_known known ix \<union> set (take b ids)"
      by blast
    obtain ins1 where loop: "index_add_loop V n ids vs ix g ins =
        index_add_loop V (n - b) (drop b ids) (drop (b * idim ix) vs) ix1 g1 ins1"
      using index_add_loop_step [OF False batch b(1) s] d by auto
    have dim1: "idim ix1 = idim ix" using one(2) by (simp add: same_params_def)
    have "\<exists>ix' g' ins'. index_add_loop V (n - b) (drop b ids) (drop (b * idim ix) vs) ix1 g1 ins1 =
          Inr (ix', g', ins') \<and> iinv ix' \<and> same_params ix1 ix' \<and>
        fresh_rng (seg_id ` set (ix_store ix')) g' \<and> index_docs docs ix' = index_docs docs ix1 +
          mset (zip (take (n - b) (drop b ids)) (rows (idim ix1) (n - b) (drop (b * idim ix) vs))) \<and>
        index_known known ix' = index_known known ix1 \<union> set (take (n - b) (drop b ids))"
    proof (rule less.IH [OF _ one(1,3)])
      show "(n - b) * idim ix1 \<le> length (drop (b * idim ix) vs)"
        using less.prems(3) by (simp add: dim1 diff_mult_distrib)
      show "distinct (take (n - b) (drop b ids))" "set (take (n - b) (drop b ids)) \<inter> index_known known ix1 = {}"
        using less.prems(5,6) by (auto simp: split one(5))
    qed (use b less.prems(4) in auto)
    then show ?thesis
      using one same_params_trans [OF one(2)] zip_rows_split [OF b(2), of ids "idim ix" vs]
      unfolding loop dim1 split by (auto simp: Un_assoc)
  qed
qed

theorem index_add_ok:
  assumes inv: "iinv ix" and fresh: "fresh_rng (seg_id ` set (ix_store ix)) g"
    and len: "n * idim ix \<le> length vs" "n \<le> length ids"
    and ids: "distinct (take n ids)" "set (take n ids) \<inter> index_known known ix = {}"
  shows "\<exists>ix' g' ev. index_add V n ids vs ix g = Inr (ix', g', ev) \<and> iinv ix' \<and> same_params ix ix' \<and>
    fresh_rng (seg_id ` set (ix_store ix')) g' \<and>
    index_docs docs ix' = index_docs docs ix + mset (zip (take n ids) (rows (idim ix) n vs)) \<and>
    index_known known ix' \<subseteq> index_known known ix \<union> set (take n ids)"
proof -
  from inv have thr: "ix_threshold ix \<noteq> 0" by (simp add: index_inv_def)
  from index_add_loop_ok [OF assms] obtain ix1 g1 ins
    where l: "index_add_loop V n ids vs ix g [] = Inr (ix1, g1, ins)" "iinv ix1" "same_params ix ix1"
      "fresh_rng (seg_id ` set (ix_store ix1)) g1"
      "index_docs docs ix1 = index_docs docs ix + mset (zip (take n ids) (rows (idim ix) n vs))"
      "index_known known ix1 = index_known known ix \<union> set (take n ids)" by blast
  show ?thesis
  proof (cases "merge_predicate ix1")
    case False
    with l thr show ?thesis by (auto simp: index_add_def Let_def)
  next
    case True
    from l(2) have wf1: "iwf ix1" by (simp add: index_inv_def)
    from storage_merge_ok [OF wf1 l(4), of 200] obtain ix2 g2 ev
      where m: "storage_merge V 200 ix1 g1 = Inr (ix2, g2, ev)" "iwf ix2"
        "fresh_rng (seg_id ` set (ix_store ix2)) g2" "index_frame docs known ix1 ix2" by blast
    have "iinv ix2" by (rule index_frame_inv [OF m(4) l(2) m(2)])
    moreover have "same_params ix ix2"
      using l(3) index_frame_params [OF m(4)] by (rule same_params_trans)
    ultimately show ?thesis
      using True thr l m unfolding index_frame_def by (auto simp: index_add_def Let_def)
  qed
qed

section \<open>Index::search\<close>

lemma index_collect_ok:
  assumes inv: "invar (seg_index s)" and len: "dim (seg_index s) \<le> length q"
    and k: "0 < k" "k < 2 ^ 31" and it: "reorders it" and fin: "finite S"
  shows "\<exists>r. seg_searchQuery V s q k = Inr r \<and>
    index_collect V it q k s (least_k (nat k) S) = Inr (least_k (nat k) (S \<union> as_results r)) \<and>
    as_results r \<subseteq> candidates dist (take (dim (seg_index s)) q) (set (sdocs s))"
proof -
  from seg_search_sound [OF inv len k(1)] obtain r where r: "seg_searchQuery V s q k = Inr r"
    "as_results r \<subseteq> candidates dist (take (dim (seg_index s)) q) (set (sdocs s))" by blast
  have "to_size_t k = nat k" using k by simp
  then have "index_collect V it q k s (least_k (nat k) S) = Inr (least_k (nat k) (S \<union> as_results r))"
    by (simp add: index_collect_def r(1) kth_emplace_all_least_k fin as_results_def reorders_set [OF it])
  with r show ?thesis by blast
qed

text \<open>
  The segments that are searched hold exactly the documents of the index.
\<close>

lemma searched_docs:
  assumes wf: "iwf ix"
  shows "(\<Union>p \<in> insert (ix_last ix) (set (ix_segments ix)). set (sdocs (seg_at ix p))) =
    set_mset (index_docs docs ix)"
proof -
  note W = index_wfD [OF wf]
  note H = heap_wfD [OF W(4)]
  have "set (owners ix) \<subseteq> insert (ix_last ix) (set (ix_segments ix))"
    using W(3) by (auto simp: owners_def)
  moreover have "ix_last ix \<in> set (owners ix)" by simp
  ultimately show ?thesis
    unfolding index_docs_def set_heap_docs [OF H(10)] using H(6) by blast
qed

text \<open>The answer of one segment, as results.\<close>

definition answers :: "'x Index \<Rightarrow> 'f list \<Rightarrow> int \<Rightarrow> nat \<Rightarrow> ('id, 'f) SearchResult set" where
  "answers ix q k p = as_results (projr (seg_searchQuery V (seg_at ix p) q k))"

lemma searched_segment:
  assumes "iwf ix" and "p \<in> insert (ix_last ix) (set (ix_segments ix))"
  shows "invar (seg_index (seg_at ix p))" and "dim (seg_index (seg_at ix p)) = idim ix"
proof -
  note H = heap_wfD [OF index_wfD(4) [OF assms(1)]]
  have "p < length (ix_store ix)" using assms(2) H(8) [OF last_in_owners] H(9) by auto
  then show "invar (seg_index (seg_at ix p))" "dim (seg_index (seg_at ix p)) = idim ix"
    using H(3,4) by (auto intro: shape_dim)
qed

lemma index_search_eq:
  assumes wf: "iwf ix" and len: "idim ix \<le> length q" and k: "0 < k" "k < 2 ^ 31" and it: "reorders it"
  shows "index_search V it ix q k = Inr (map sr_id (least_k (nat k)
    (\<Union>p \<in> insert (ix_last ix) (set (ix_segments ix)). answers ix q k p)))"
proof -
  have one: "index_collect V it q k (seg_at ix p) (least_k (nat k) S) =
      Inr (least_k (nat k) (S \<union> answers ix q k p))" if "finite S" "p \<in> insert (ix_last ix) (set (ix_segments ix))" for p S
    using index_collect_ok [of "seg_at ix p" q k it S] searched_segment [OF wf that(2)] len k it that(1)
    by (auto simp: answers_def)
  have fin: "finite (answers ix q k p)" for p by (simp add: answers_def as_results_def)
  have all: "foldR (\<lambda>p. index_collect V it q k (seg_at ix p)) ps (least_k (nat k) S) =
      Inr (least_k (nat k) (S \<union> (\<Union>p \<in> set ps. answers ix q k p)))"
    if "set ps \<subseteq> set (ix_segments ix)" "finite S" for ps S
    using that
  proof (induction ps arbitrary: S)
    case Nil
    then show ?case by simp
  next
    case (Cons p ps)
    have "foldR (\<lambda>p. index_collect V it q k (seg_at ix p)) (p # ps) (least_k (nat k) S) =
        foldR (\<lambda>p. index_collect V it q k (seg_at ix p)) ps (least_k (nat k) (S \<union> answers ix q k p))"
      using one [OF Cons.prems(2), of p] Cons.prems(1) by simp
    also have "\<dots> = Inr (least_k (nat k) (S \<union> answers ix q k p \<union> (\<Union>p \<in> set ps. answers ix q k p)))"
      using Cons.IH [of "S \<union> answers ix q k p"] Cons.prems fin by simp
    finally show ?case by (simp add: Un_assoc)
  qed
  let ?U = "\<Union>p \<in> set (ix_segments ix). answers ix q k p"
  have "foldR (\<lambda>p. index_collect V it q k (seg_at ix p)) (ix_segments ix) [] = Inr (least_k (nat k) ?U)"
    using all [of "ix_segments ix" "{}"] by simp
  moreover have "finite ?U" using fin by simp
  ultimately show ?thesis
    using one [of ?U "ix_last ix"] by (simp add: index_search_def Un_commute)
qed

theorem index_search_sound:
  assumes wf: "iwf ix" and len: "idim ix \<le> length q" and k: "0 < k" "k < 2 ^ 31" and it: "reorders it"
  shows "\<exists>r. index_search V it ix q k = Inr (map sr_id r) \<and> length r \<le> nat k \<and> sorted r \<and> distinct r \<and>
    set r \<subseteq> candidates dist (take (idim ix) q) (set_mset (index_docs docs ix))"
proof -
  let ?U = "\<Union>p \<in> insert (ix_last ix) (set (ix_segments ix)). answers ix q k p"
  have sub: "answers ix q k p \<subseteq> candidates dist (take (idim ix) q) (set (sdocs (seg_at ix p)))"
    if "p \<in> insert (ix_last ix) (set (ix_segments ix))" for p
    using seg_search_sound [of "seg_at ix p" q k] searched_segment [OF wf that] len k
    by (auto simp: answers_def)
  have fin: "finite ?U" by (simp add: answers_def as_results_def)
  have "set (least_k (nat k) ?U) \<subseteq> ?U" using fin by (rule set_least_k_subset)
  also have "\<dots> \<subseteq> candidates dist (take (idim ix) q)
      (\<Union>p \<in> insert (ix_last ix) (set (ix_segments ix)). set (sdocs (seg_at ix p)))"
    unfolding candidates_UN using sub by blast
  also note searched_docs [OF wf]
  finally have sub: "set (least_k (nat k) ?U) \<subseteq>
      candidates dist (take (idim ix) q) (set_mset (index_docs docs ix))" .
  have "length (least_k (nat k) ?U) \<le> nat k" by (simp only: length_least_k [OF fin] min.cobounded1)
  with sub index_search_eq [OF assms] sorted_least_k distinct_least_k show ?thesis by blast
qed

end

context exact_base_index
begin

theorem index_search_exact:
  assumes wf: "iwf ix" and len: "idim ix \<le> length q" and k: "0 < k" "k < 2 ^ 31" and it: "reorders it"
  shows "\<exists>r. index_search V it ix q k = Inr (map sr_id r) \<and> sorted r \<and> distinct r \<and>
    top_k sr_dist (nat k) (candidates dist (take (idim ix) q) (set_mset (index_docs docs ix))) (set r)"
proof -
  let ?I = "insert (ix_last ix) (set (ix_segments ix))"
  let ?C = "\<lambda>p. candidates dist (take (idim ix) q) (set (sdocs (seg_at ix p)))"
  have "top_k sr_dist (nat k) (\<Union>p \<in> ?I. ?C p) (set (least_k (nat k) (\<Union>p \<in> ?I. answers ix q k p)))"
  proof (rule top_k_union)
    show "top_k sr_dist (nat k) (?C p) (answers ix q k p)" if "p \<in> ?I" for p
      using seg_search_exact [of "seg_at ix p" q k] searched_segment [OF wf that] len k
      by (auto simp: answers_def)
  qed (auto simp: finite_candidates SearchResult_le_dist)
  then have "top_k sr_dist (nat k) (candidates dist (take (idim ix) q) (set_mset (index_docs docs ix)))
      (set (least_k (nat k) (\<Union>p \<in> ?I. answers ix q k p)))"
    unfolding candidates_UN [symmetric] searched_docs [OF wf] .
  with index_search_eq [OF assms] sorted_least_k distinct_least_k show ?thesis by blast
qed

end

end
