(* ===== verification/Index_Update.thy ===== *)
theory Index_Update
  imports Index_Correct
begin

text \<open>
  The remaining operations of \<open>Index\<close>: construction, \<open>erase\<close>, \<open>pushSegment\<close> and
  \<open>eraseSegment\<close>, over any base index that keeps its contract.
\<close>

context base_index
begin

section \<open>Construction\<close>

theorem index_new_ok:
  assumes f: "invar (sf_index f)" "docs (sf_index f) = []" "known (sf_index f) = {}"
    and d: "to_size_t d = dim (sf_index f)" and thr: "0 < thr" "thr < 2 ^ 31"
    and new: "index_new d thr em f g = (ix, g')" and rng: "inj g"
  shows "iinv ix" and "index_docs docs ix = {#}" and "index_known known ix = {}"
    and "fresh_rng (seg_id ` set (ix_store ix)) g'" and "ix_factory ix = f"
proof -
  from new have ix: "ix = \<lparr>ix_store = [\<lparr>seg_index = sf_index f, seg_id = g 0, seg_type = sf_type f\<rparr>],
      ix_storage = \<lparr>levels = [], st_sz = 0, st_counter = 0\<rparr>, ix_enable_merge = em, ix_callback = False,
      ix_ctx = False, ix_thread = False, ix_segments = [], ix_last = 0, ix_d = d, ix_threshold = to_size_t thr, ix_factory = f\<rparr>"
    and g': "g' = (\<lambda>i. g (Suc i))"
    by (simp_all add: index_new_def factory_create_def segment_new_def rand_def)
  have own: "owners ix = [0]" by (simp add: ix owners_def)
  show "index_docs docs ix = {#}" "index_known known ix = {}"
    unfolding index_docs_def index_known_def own using f by (simp_all add: ix heap_docs_def heap_known_def)
  have "index_params invar dim docs known ix" using f d thr by (simp add: index_params_def ix)
  moreover have "heap_wf invar shape docs known (shape (sf_index f)) (ix_store ix) {0} {}"
    by (rule heap_wfI) (use f in \<open>auto simp: ix\<close>)
  ultimately show "iinv ix"
    using f thr by (simp add: index_inv_def index_wf_def own) (simp add: ix levels_fit_def)
  show "fresh_rng (seg_id ` set (ix_store ix)) g'"
    using rng by (auto simp: ix g' fresh_rng_def inj_on_def)
  show "ix_factory ix = f" by (simp add: ix)
qed

section \<open>Index::erase\<close>

text \<open>The effect of deleting from the segments \<open>ps\<close>, some of which may be listed twice.\<close>

definition deleted ::
  "'id set \<Rightarrow> nat set \<Rightarrow> 'x Segment list \<Rightarrow> 'x Segment list \<Rightarrow> bool" where
  "deleted D P store store' \<longleftrightarrow> length store' = length store \<and>
     (\<forall>p < length store. seg_id (store' ! p) = seg_id (store ! p) \<and>
        invar (seg_index (store' ! p)) \<and> shape (seg_index (store' ! p)) = shape (seg_index (store ! p)) \<and>
        known (seg_index (store' ! p)) = known (seg_index (store ! p)) \<and>
        sdocs (store' ! p) =
          (if p \<in> P then filter (\<lambda>(i, _). i \<notin> D) (sdocs (store ! p)) else sdocs (store ! p)))"

lemma deleted_trans:
  assumes "deleted D P store s" and "deleted D Q s s'"
  shows "deleted D (P \<union> Q) store s'"
proof -
  have "filter (\<lambda>(i, _). i \<notin> D) (filter (\<lambda>(i, _). i \<notin> D) xs) = filter (\<lambda>(i, _). i \<notin> D) xs"
    for xs :: "('id, 'f) document list" by simp
  with assms show ?thesis unfolding deleted_def by auto
qed

lemma index_delete_at_ok:
  assumes inv: "\<forall>s \<in> set store. invar (seg_index s)" and p: "p < length store" and n: "n \<le> length ids"
  shows "\<exists>store'. index_delete_at V n ids p store = Inr store' \<and>
    deleted (set (take n ids)) {p} store store'"
proof -
  have "invar (seg_index (store ! p))" using inv p by simp
  from seg_delete_docs [OF this n] obtain x
    where x: "seg_deleteBatch V (store ! p) n ids = Inr ((store ! p)\<lparr>seg_index := x\<rparr>)" "invar x"
      "shape x = shape (seg_index (store ! p))" "known x = known (seg_index (store ! p))"
      "docs x = filter (\<lambda>(i, _). i \<notin> set (take n ids)) (sdocs (store ! p))" by blast
  then have "deleted (set (take n ids)) {p} store (store[p := (store ! p)\<lparr>seg_index := x\<rparr>])"
    using inv p by (simp add: deleted_def nth_list_update)
  with x(1) show ?thesis by (simp add: index_delete_at_def)
qed

lemma deleted_invar:
  assumes "deleted D P store store'"
  shows "\<forall>s \<in> set store'. invar (seg_index s)" and "length store' = length store"
  using assms by (auto simp: deleted_def in_set_conv_nth)

lemma index_delete_all_ok:
  assumes "\<forall>s \<in> set store. invar (seg_index s)" and "set ps \<subseteq> {..<length store}" and "n \<le> length ids"
  shows "\<exists>store'. foldR (index_delete_at V n ids) ps store = Inr store' \<and>
    deleted (set (take n ids)) (set ps) store store'"
  using assms
proof (induction ps arbitrary: store)
  case Nil
  then show ?case by (simp add: deleted_def)
next
  case (Cons p ps)
  from index_delete_at_ok [OF Cons.prems(1) _ Cons.prems(3), of p] Cons.prems(2) obtain s
    where s: "index_delete_at V n ids p store = Inr s" "deleted (set (take n ids)) {p} store s" by auto
  from Cons.IH [OF deleted_invar(1) [OF s(2)] _ Cons.prems(3)] Cons.prems(2) deleted_invar(2) [OF s(2)]
  obtain s' where "foldR (index_delete_at V n ids) ps s = Inr s'"
    "deleted (set (take n ids)) (set ps) s s'" by auto
  with s deleted_trans [OF s(2)] show ?case by fastforce
qed

theorem index_erase_ok:
  assumes inv: "iinv ix" and n: "n \<le> length ids"
  shows "\<exists>ix'. index_erase V ix n ids = Inr ix' \<and> iinv ix' \<and> same_params ix ix' \<and>
    seg_id ` set (ix_store ix') = seg_id ` set (ix_store ix) \<and>
    index_docs docs ix' = filter_mset (\<lambda>(i, _). i \<notin> set (take n ids)) (index_docs docs ix) \<and>
    index_known known ix' = index_known known ix"
proof -
  from inv have wf: "iwf ix" and room: "length (sdocs (last_seg ix)) < ix_threshold ix"
    by (simp_all add: index_inv_def)
  note W = index_wfD [OF wf] and L = last_segment [OF wf]
  note H = heap_wfD [OF W(4)]
  let ?ps = "ix_segments ix @ [ix_last ix]" and ?P = "\<lambda>(i, _). i \<notin> set (take n ids)"
  have "set ?ps \<subseteq> {..<length (ix_store ix)}" using H(2) L(1) by auto
  then obtain store' where e: "foldR (index_delete_at V n ids) ?ps (ix_store ix) = Inr store'"
    and del: "deleted (set (take n ids)) (set ?ps) (ix_store ix) store'"
    using index_delete_all_ok [of "ix_store ix" ?ps n ids] H(3) n by blast
  define ix' where "ix' = ix\<lparr>ix_store := store'\<rparr>"
  have erase: "index_erase V ix n ids = Inr ix'"
    using e by (auto simp: index_erase_def ix'_def foldR_append bindR_eq_Inr)
  have own: "owners ix' = owners ix" by (simp add: owners_def ix'_def)
  have covered: "set (owners ix) \<union> set (ix_segments ix) \<subseteq> set ?ps" using W(3) by (auto simp: owners_def)
  have len: "length store' = length (ix_store ix)" using del by (simp add: deleted_def)
  have each: "seg_id (store' ! p) = seg_id (seg_at ix p)"
    "known (seg_index (store' ! p)) = known (seg_index (seg_at ix p))"
    "sdocs (store' ! p) = filter ?P (sdocs (seg_at ix p))"
    if "p \<in> set (owners ix) \<union> set (ix_segments ix)" for p
    using that covered del H(8) [of p] H(9) [of p] by (auto simp: deleted_def)
  have all: "invar (seg_index s) \<and> shape (seg_index s) = shape (sf_index (ix_factory ix))"
    if "s \<in> set store'" for s
  proof -
    from that len obtain p where "p < length (ix_store ix)" "s = store' ! p"
      by (auto simp: in_set_conv_nth)
    with del H(4) [of "seg_at ix p"] show ?thesis by (simp add: deleted_def)
  qed
  have "heap_wf invar shape docs known (shape (sf_index (ix_factory ix))) store'
      (set (owners ix)) (set (ix_segments ix))"
    by (rule heap_wf_filter [OF W(4) len all, where P = ?P]) (use each in blast)+
  moreover have "levels_fit (\<lambda>p. length (sdocs (store' ! p))) (levels (ix_storage ix))"
    by (rule levels_fit_mono [OF W(5)]) (use each(3) in \<open>simp add: owners_def\<close>)
  ultimately have "iwf ix'"
    using W unfolding index_wf_def own by (simp add: ix'_def index_params_def)
  moreover have "length (sdocs (last_seg ix')) < ix_threshold ix'"
    using room each(3) [of "ix_last ix"] le_less_trans [OF length_filter_le] by (simp add: ix'_def)
  moreover have "map seg_id store' = map seg_id (ix_store ix)"
    by (rule nth_equalityI) (use del in \<open>simp_all add: deleted_def\<close>)
  then have "seg_id ` set store' = seg_id ` set (ix_store ix)" by (metis set_map)
  moreover have "index_docs docs ix' = filter_mset ?P (index_docs docs ix)"
    unfolding index_docs_def own by (rule heap_docs_filter) (use each(3) in \<open>simp add: ix'_def\<close>)
  moreover have "index_known known ix' = index_known known ix"
    unfolding index_known_def own heap_known_def using each(2) by (simp add: ix'_def)
  ultimately show ?thesis using erase by (simp add: index_inv_def ix'_def same_params_def)
qed

section \<open>Index::pushSegment and eraseSegment\<close>

theorem index_pushSegment_ok:
  assumes inv: "iinv ix" and s: "invar (seg_index s)" "shape (seg_index s) = shape (sf_index (ix_factory ix))"
    and small: "length (sdocs s) \<le> 2 ^ 63"
    and known: "known (seg_index s) \<inter> index_known known ix = {}" and id: "seg_id s \<notin> seg_id ` set (ix_store ix)"
  shows "\<exists>ix' ev. index_pushSegment V ix (Some s) = Inr (ix', ev) \<and> iinv ix' \<and> same_params ix ix' \<and>
    ix_store ix' = ix_store ix @ [s] \<and> index_docs docs ix' = index_docs docs ix + mset (sdocs s) \<and>
    index_known known ix' = index_known known ix \<union> known (seg_index s)"
proof -
  from inv have wf: "iwf ix" and room: "length (sdocs (last_seg ix)) < ix_threshold ix"
    by (simp_all add: index_inv_def)
  note W = index_wfD [OF wf] and L = last_segment [OF wf]
  note H = heap_wfD [OF W(4)]
  let ?store = "ix_store ix @ [s]" and ?n = "length (ix_store ix)"
  have sz: "seg_size V s = length (sdocs (?store ! ?n))" using seg_size_docs [OF s(1)] by simp
  have "levels_fit (\<lambda>p. length (sdocs (?store ! p))) (levels (ix_storage ix))"
    by (rule levels_fit_mono [OF W(5)]) (use H(8) in \<open>auto simp: nth_append owners_def\<close>)
  then obtain st where st: "storage_add (ix_storage ix) ?n (seg_size V s) = Inr st"
    "mset (level_ptrs (levels st)) = add_mset ?n (mset (level_ptrs (levels (ix_storage ix))))"
    "levels_fit (\<lambda>p. length (sdocs (?store ! p))) (levels st)"
    using storage_add_levels [of "seg_size V s" _ _ ?n] small unfolding sz by fastforce
  define ix' where "ix' = ix\<lparr>ix_store := ?store, ix_storage := st, ix_segments := ix_segments ix @ [?n]\<rparr>"
  have push: "index_pushSegment V ix (Some s) = Inr (ix', if ix_callback ix then [([], [?n])] else [])"
    by (simp add: index_pushSegment_def Let_def st(1) ix'_def)
  have mown: "mset (owners ix') = add_mset ?n (mset (owners ix))"
    by (simp add: owners_def ix'_def st(2) add_mset_commute)
  then have own: "set (owners ix') = insert ?n (set (owners ix))"
    by (metis set_mset_add_mset_insert set_mset_mset)
  have "distinct (?n # owners ix)" using W(2) H(8) by auto
  then have dis: "distinct (owners ix')" using mown by (metis mset.simps(2) mset_eq_imp_distinct_iff)
  have lv: "set (level_ptrs (levels st)) = insert ?n (set (level_ptrs (levels (ix_storage ix))))"
    using st(2) by (metis set_mset_add_mset_insert set_mset_mset)
  have "heap_wf invar shape docs known (shape (sf_index (ix_factory ix))) ?store
      (insert ?n (set (owners ix))) (set (ix_segments ix))"
    by (rule heap_wf_alloc [OF W(4) s]) (use known id in \<open>simp_all add: index_known_def\<close>)
  then have heap: "heap_wf invar shape docs known (shape (sf_index (ix_factory ix))) ?store
      (set (owners ix')) (set (ix_segments ix'))"
    unfolding own by (rule heap_wf_segs) (auto simp: ix'_def)
  have "iwf ix'"
    unfolding index_wf_def using heap dis W(1,3) st(3) lv by (auto simp: ix'_def index_params_def)
  moreover have "last_seg ix' = last_seg ix" using L(1) by (simp add: ix'_def nth_append)
  moreover have "index_docs docs ix' = index_docs docs ix + mset (sdocs s)"
    "index_known known ix' = index_known known ix \<union> known (seg_index s)"
    using heap_docs_alloc(1) [OF H(1), of docs s] heap_docs_alloc(2) [OF H(1), of known s]
    unfolding index_docs_def index_known_def own by (simp_all add: ix'_def)
  ultimately show ?thesis
    using push room by (auto simp: index_inv_def ix'_def same_params_def)
qed

end

text \<open>\<open>eraseSegment\<close> reports whether a searched segment has the identifier; it removes nothing.\<close>

lemma index_eraseSegment_spec:
  "index_eraseSegment ix i = (ix, i \<in> (\<lambda>p. seg_id (seg_at ix p)) ` set (ix_segments ix))"
  by (auto simp: index_eraseSegment_def find_None_iff image_iff)

end
