(* ===== verification/Faiss_Reference.thy ===== *)
theory Faiss_Reference
  imports Faiss_Interface
begin

text \<open>
  A small implementation of the FAISS interface: an exhaustive index over integer vectors with the
  L1 distance, stored as the list of its vectors. It satisfies everything the development assumes
  of FAISS, so those assumptions are consistent, and it lets concrete indexes be evaluated.
\<close>

section \<open>The library\<close>

type_synonym ref_base = "nat \<times> int list list"

definition ref_dist :: "int list \<Rightarrow> int list \<Rightarrow> int" where
  "ref_dist q v = sum_list (map2 (\<lambda>a b. \<bar>a - b\<bar>) q v)"

text \<open>Only vectors of the right length count as stored.\<close>

definition ref_vecs :: "ref_base \<Rightarrow> int list list" where
  "ref_vecs b = filter (\<lambda>v. length v = fst b) (snd b)"

definition ref_hits :: "ref_base \<Rightarrow> int list \<Rightarrow> (int \<times> int) list" where
  "ref_hits b q = map (\<lambda>l. (ref_dist q (ref_vecs b ! l), int l)) [0..<length (ref_vecs b)]"

definition ref_search :: "ref_base \<Rightarrow> int list \<Rightarrow> nat \<Rightarrow> (int \<times> int) list" where
  "ref_search b q k = take k (sort (ref_hits b q) @ replicate k (0, -1))"

subsection \<open>A file format\<close>

definition put_nat :: "nat \<Rightarrow> string" where
  "put_nat n = replicate n CHR ''1'' @ CHR ''0'' # []"

fun get_nat :: "string \<Rightarrow> (nat \<times> string) outcome" where
  "get_nat [] = Inl (LibraryError ''read error'')"
| "get_nat (c # s) =
     (if c = CHR ''1'' then bindR (get_nat s) (\<lambda>(n, r). Inr (Suc n, r)) else Inr (0, s))"

lemma get_put_nat [simp]: "get_nat (put_nat n @ r) = Inr (n, r)"
  by (induction n) (simp_all add: put_nat_def)

definition put_int :: "int \<Rightarrow> string" where
  "put_int i = put_nat (nat i) @ put_nat (nat (- i))"

definition get_int :: "string \<Rightarrow> (int \<times> string) outcome" where
  "get_int s = bindR (get_nat s) (\<lambda>(a, s). bindR (get_nat s) (\<lambda>(b, s). Inr (int a - int b, s)))"

lemma get_put_int [simp]: "get_int (put_int i @ r) = Inr (i, r)"
  by (simp add: get_int_def put_int_def)

definition put_list :: "('a \<Rightarrow> string) \<Rightarrow> 'a list \<Rightarrow> string" where
  "put_list put xs = put_nat (length xs) @ concat (map put xs)"

fun get_many :: "(string \<Rightarrow> ('a \<times> string) outcome) \<Rightarrow> nat \<Rightarrow> string \<Rightarrow> ('a list \<times> string) outcome" where
  "get_many get 0 s = Inr ([], s)"
| "get_many get (Suc n) s =
     bindR (get s) (\<lambda>(x, s). bindR (get_many get n s) (\<lambda>(xs, s). Inr (x # xs, s)))"

definition get_list :: "(string \<Rightarrow> ('a \<times> string) outcome) \<Rightarrow> string \<Rightarrow> ('a list \<times> string) outcome" where
  "get_list get s = bindR (get_nat s) (\<lambda>(n, s). get_many get n s)"

lemma get_put_list:
  assumes "\<And>x r. get (put x @ r) = Inr (x, r)"
  shows "get_list get (put_list put xs @ r) = Inr (xs, r)"
proof -
  have "get_many get (length xs) (concat (map put xs) @ r) = Inr (xs, r)"
    by (induction xs) (simp_all add: assms)
  then show ?thesis by (simp add: get_list_def put_list_def)
qed

definition ref_write :: "ref_base \<Rightarrow> string" where
  "ref_write b = put_nat (fst b) @ put_list (put_list put_int) (snd b)"

definition ref_read :: "string \<Rightarrow> (ref_base \<times> string) outcome" where
  "ref_read s = bindR (get_nat s) (\<lambda>(d, s). bindR (get_list (get_list get_int) s) (\<lambda>(vs, s). Inr ((d, vs), s)))"

lemma ref_read_write: "ref_read (ref_write b @ r) = Inr (b, r)"
  by (simp add: ref_read_def ref_write_def get_put_list)

definition ref_faiss :: "(ref_base, int) faiss_lib" where
  "ref_faiss = \<lparr>
     fx_make = (\<lambda>a. case a of FlatArgs d m \<Rightarrow> (nat d, []) | HNSWFlatArgs d M m \<Rightarrow> (nat d, [])),
     fx_d = fst,
     fx_add = (\<lambda>b n x. (fst b, snd b @ rows (fst b) n x)),
     fx_search = ref_search,
     fx_reconstruct_batch = (\<lambda>b ls. concat (map (\<lambda>l. ref_vecs b ! nat l) ls)),
     fx_write_index = ref_write,
     fx_read_index = ref_read\<rparr>"

section \<open>It keeps the contract\<close>

lemma set_ref_hits: "set (ref_hits b q) = faiss_hits ref_vecs ref_dist b q"
proof -
  have "{0..<int (length (ref_vecs b))} = int ` {0..<length (ref_vecs b)}"
    by (simp add: image_int_atLeastLessThan)
  then show ?thesis by (simp add: ref_hits_def faiss_hits_def image_image)
qed

lemma distinct_ref_hits: "distinct (map snd (ref_hits b q))"
  by (simp add: ref_hits_def comp_def distinct_map inj_on_def)

lemma faiss_found_ref_search:
  "faiss_found (ref_search b q k) = take k (sort (ref_hits b q))"
proof -
  have ge: "0 \<le> snd r" if "r \<in> set (ref_hits b q)" for r using that by (auto simp: ref_hits_def)
  have "filter (\<lambda>(_, l). l \<noteq> -1) (take k (sort (ref_hits b q))) = take k (sort (ref_hits b q))"
    using ge by (intro filter_True) (force dest: in_set_takeD)
  then show ?thesis by (simp add: faiss_found_def ref_search_def)
qed

lemma ref_faiss_contract: "faiss_contract ref_faiss ref_vecs ref_dist"
  unfolding faiss_contract_def
proof (intro conjI allI impI ballI)
  fix a show "ref_vecs (fx_make ref_faiss a) = []"
    by (cases a) (simp_all add: ref_faiss_def ref_vecs_def)
next
  fix b v assume "v \<in> set (ref_vecs b)"
  then show "length v = fx_d ref_faiss b" by (simp add: ref_faiss_def ref_vecs_def)
next
  fix b n and x :: "int list" assume len: "length x = n * fx_d ref_faiss b"
  have "filter (\<lambda>v. length v = fst b) (rows (fst b) n x) = rows (fst b) n x"
    using len rows_lengths [of n "fst b" x] by (intro filter_True) (auto simp: ref_faiss_def)
  then show "ref_vecs (fx_add ref_faiss b n x) = ref_vecs b @ rows (fx_d ref_faiss b) n x"
    by (simp add: ref_faiss_def ref_vecs_def)
  show "fx_d ref_faiss (fx_add ref_faiss b n x) = fx_d ref_faiss b" by (simp add: ref_faiss_def)
next
  fix b q and k :: nat
  have search: "fx_search ref_faiss = ref_search" by (simp add: ref_faiss_def)
  show "length (fx_search ref_faiss b q k) = k" by (simp add: search ref_search_def)
  have "distinct (map snd (sort (ref_hits b q)))"
    using distinct_ref_hits [of b q] by (metis mset_eq_imp_distinct_iff mset_map mset_sort)
  then show "distinct (map snd (faiss_found (fx_search ref_faiss b q k)))"
    by (simp add: search faiss_found_ref_search flip: take_map)
  show "set (faiss_found (fx_search ref_faiss b q k)) \<subseteq> faiss_hits ref_vecs ref_dist b q"
    using set_take_subset [of k "sort (ref_hits b q)"]
    by (simp add: search faiss_found_ref_search flip: set_ref_hits)
qed (simp_all add: ref_faiss_def)

lemma ref_faiss_exact: "faiss_exact ref_faiss ref_vecs ref_dist"
  unfolding faiss_exact_def
proof (intro conjI allI impI ref_faiss_contract)
  fix b q and k :: nat
  have "distinct (ref_hits b q)" using distinct_ref_hits distinct_map by blast
  then have "faiss_found (fx_search ref_faiss b q k) = least_k k (faiss_hits ref_vecs ref_dist b q)"
    by (simp add: ref_faiss_def faiss_found_ref_search take_sort_distinct flip: set_ref_hits)
  moreover have "top_k fst k (faiss_hits ref_vecs ref_dist b q)
      (set (least_k k (faiss_hits ref_vecs ref_dist b q)))"
    by (rule top_k_least_k) (auto simp: less_eq_prod_def simp flip: set_ref_hits)
  ultimately show "top_k fst k (faiss_hits ref_vecs ref_dist b q)
      (set (faiss_found (fx_search ref_faiss b q k)))" by simp
qed

section \<open>Properties of FaissIndex\<close>

text \<open>An index of three vectors, one of them erased.\<close>

definition demo_faiss :: "(ref_base, nat) FaissIndex" where
  "demo_faiss = faiss_erase_ids [11] (faiss_assign_ids [10, 11, 12]
     ((faiss_new ref_faiss (FlatArgs 2 METRIC_L1))\<lparr>fi_index := (2, [[0, 1], [0, 2], [3, 0]])\<rparr>))"

lemma demo_faiss_inv: "faiss_inv ref_faiss ref_vecs demo_faiss"
  unfolding demo_faiss_def
  by (intro faiss_inv_erase faiss_inv_assign [where vs = "[[0, 1], [0, 2], [3, 0]]"]
      faiss_inv_new [OF ref_faiss_contract])
    (simp_all add: ref_vecs_def faiss_new_def ref_faiss_def faiss_known_def)

lemma demo_faiss_fields:
  "fi_index demo_faiss = (2, [[0, 1], [0, 2], [3, 0]])" "fi_erased demo_faiss = [1]"
  "fi_inv_ids demo_faiss = [(0, 10), (1, 11), (2, 12)]" "fi_kind demo_faiss = IndexFlat"
  "fi_ids demo_faiss = [(10, 0), (11, 1), (12, 2)]" "fi_next_id demo_faiss = 3"
  by (simp_all add: demo_faiss_def faiss_new_def)

lemma demo_faiss_docs: "faiss_docs ref_vecs demo_faiss = [(10, [0, 1]), (12, [3, 0])]"
  by (simp add: faiss_docs_def demo_faiss_fields ref_vecs_def)

text \<open>
  C12. \<open>FaissIndex::single_search\<close> on a FAISS index that searches exhaustively: although erased
  vectors stay in FAISS, asking it for as many more answers as there are erased vectors and
  dropping those gives exactly the \<open>k\<close> nearest of the documents that are not erased, each
  identifier once. The number of answers asked for fits into a \<open>size_t\<close>.
\<close>

theorem faiss_single_search_topk:
  fixes F :: "('b, 'f::{linorder, zero}) faiss_lib" and x :: "('b, 'id::linorder) FaissIndex"
  assumes "faiss_exact F vecs dist" and "faiss_inv F vecs x" and "fx_d F (fi_index x) \<le> length q" and "0 < k"
    and "k + length (fi_erased x) < 2 ^ 64"
  shows "\<exists>r. faiss_single_search F x k q = Inr r \<and> distinct (map fst r) \<and>
    top_k sr_dist k (candidates dist (take (fx_d F (fi_index x)) q) (set (faiss_docs vecs x))) (as_results r)"
proof -
  have "faiss_contract F vecs dist" using assms(1) by (simp add: faiss_exact_def)
  from faiss_search_sound [OF this assms(2-4)] faiss_search_exact [OF assms(1-4)] show ?thesis by blast
qed

theorem faiss_single_search_topk_witness:
  "\<exists>r. faiss_single_search ref_faiss demo_faiss 1 [0, 2] = Inr r \<and> distinct (map fst r) \<and>
    top_k sr_dist 1 (candidates ref_dist [0, 2] {(10, [0, 1]), (12, [3, 0])}) (as_results r)"
  using faiss_single_search_topk [OF ref_faiss_exact demo_faiss_inv, of "[0, 2]" 1]
  by (simp add: demo_faiss_docs demo_faiss_fields ref_faiss_def)

text \<open>
  C18. \<open>FaissIndex::merge_from_other\<close> between two indexes of the same class and dimension, whose
  identifiers do not overlap: the documents of the result are those of both, the erased ones of the
  other index are left behind, and the invariant of the class holds again. The other index's hash
  map may be iterated in any order.
\<close>

theorem faiss_merge_documents:
  fixes F :: "('b, 'f::{linorder, zero}) faiss_lib" and x :: "('b, 'id::linorder) FaissIndex"
  assumes "faiss_contract F vecs dist" and "reorders it"
    and "faiss_inv F vecs x" and "faiss_inv F vecs y" and "faiss_shape F x = faiss_shape F y"
    and "faiss_known x \<inter> fst ` set (faiss_docs vecs y) = {}"
  shows "\<exists>z. faiss_merge_from_other F it x y = Inr z \<and> faiss_inv F vecs z \<and>
    faiss_shape F z = faiss_shape F x \<and>
    faiss_size z = faiss_size x + faiss_size y \<and>
    mset (faiss_docs vecs z) = mset (faiss_docs vecs x) + mset (faiss_docs vecs y)"
proof -
  from faiss_merge_docs [OF assms] obtain z where z: "faiss_merge_from_other F it x y = Inr z"
    "faiss_inv F vecs z" "faiss_shape F z = faiss_shape F x"
    "mset (faiss_docs vecs z) = mset (faiss_docs vecs x) + mset (faiss_docs vecs y)" by blast
  moreover have "length (faiss_docs vecs z) = length (faiss_docs vecs x) + length (faiss_docs vecs y)"
    using arg_cong [OF z(4), of size] by simp
  ultimately show ?thesis using assms(3,4) by (auto simp: faiss_size_docs)
qed

theorem faiss_merge_documents_witness:
  "\<exists>z. faiss_merge_from_other ref_faiss rev (faiss_new ref_faiss (FlatArgs 2 METRIC_L1)) demo_faiss = Inr z \<and>
    faiss_inv ref_faiss ref_vecs z \<and>
    faiss_shape ref_faiss z = faiss_shape ref_faiss (faiss_new ref_faiss (FlatArgs 2 METRIC_L1) :: (ref_base, nat) FaissIndex) \<and>
    faiss_size z = 2 \<and> mset (faiss_docs ref_vecs z) = {#(10, [0, 1]), (12, [3, 0])#}"
proof -
  have "faiss_shape ref_faiss (faiss_new ref_faiss (FlatArgs 2 METRIC_L1) :: (ref_base, nat) FaissIndex) =
      faiss_shape ref_faiss demo_faiss"
    by (simp add: faiss_shape_def demo_faiss_fields faiss_new_def ref_faiss_def)
  note merged = faiss_merge_documents [OF ref_faiss_contract reorders_rev faiss_inv_new [OF ref_faiss_contract]
      demo_faiss_inv this]
  have "faiss_size demo_faiss = 2"
    "faiss_size (faiss_new ref_faiss (FlatArgs 2 METRIC_L1) :: (ref_base, nat) FaissIndex) = 0"
    by (simp_all add: faiss_size_def demo_faiss_fields) (simp add: faiss_new_def)
  with merged show ?thesis by (simp add: demo_faiss_docs numeral_2_eq_2)
qed

text \<open>
  Adding an identifier again. \<open>erase_batch\<close> masks only the position last given to an
  identifier, so after the same identifier was added twice and erased once, the first vector is
  still a document of the index (and is found by searches) while \<open>size()\<close> reports 0.
\<close>

theorem faiss_duplicate_survives_erase:
  fixes F :: "('b, 'f::{linorder, zero}) faiss_lib" and i :: "'id::linorder"
  assumes "faiss_contract F vecs dist" and "length v = fx_d F (fx_make F a)" and "length w = length v"
  shows "\<exists>x. bindR (faiss_add_batch F (faiss_new F a) 1 v [i])
        (\<lambda>x. bindR (faiss_add_batch F x 1 w [i]) (\<lambda>x. faiss_erase_batch x 1 [i])) = Inr x \<and>
    faiss_docs vecs x = [(i, v)] \<and> faiss_size x = 0"
proof -
  note C = faiss_contractD [OF assms(1)]
  have 1: "vecs (fx_add F (fx_make F a) 1 v) = [v]" "fx_d F (fx_add F (fx_make F a) 1 v) = length v"
    using C(1,3,4) assms(2) by simp_all
  have 2: "vecs (fx_add F (fx_add F (fx_make F a) 1 v) 1 w) = [v, w]"
    using C(3) [of w 1 "fx_add F (fx_make F a) 1 v"] 1 assms(3) by simp
  show ?thesis
    using 1 2 assms(2,3)
    by (simp add: faiss_add_batch_def faiss_new_def faiss_erase_batch_def faiss_docs_def faiss_size_def Let_def)
qed

theorem faiss_duplicate_survives_erase_witness:
  "\<exists>x. bindR (faiss_add_batch ref_faiss (faiss_new ref_faiss (FlatArgs 2 METRIC_L1)) 1 [0, 1] [7 :: nat])
        (\<lambda>x. bindR (faiss_add_batch ref_faiss x 1 [5, 5] [7]) (\<lambda>x. faiss_erase_batch x 1 [7])) = Inr x \<and>
    faiss_docs ref_vecs x = [(7, [0, 1])] \<and> faiss_size x = 0"
  by (rule faiss_duplicate_survives_erase [OF ref_faiss_contract]) (simp_all add: ref_faiss_def)

text \<open>
  Adding an erased identifier again and erasing it again: the map of identifiers holds it once
  but two positions are masked, and \<open>size()\<close> wraps around to \<open>2 ^ 64 - 1\<close>.
\<close>

theorem faiss_size_wraps:
  fixes F :: "('b, 'f::{linorder, zero}) faiss_lib" and i :: "'id::linorder"
  assumes "faiss_contract F vecs dist" and "length v = fx_d F (fx_make F a)"
  shows "\<exists>x. bindR (faiss_add_batch F (faiss_new F a) 1 v [i])
        (\<lambda>x. bindR (faiss_erase_batch x 1 [i])
        (\<lambda>x. bindR (faiss_add_batch F x 1 v [i]) (\<lambda>x. faiss_erase_batch x 1 [i]))) = Inr x \<and>
    faiss_docs vecs x = [] \<and> faiss_size x = 2 ^ 64 - 1"
proof -
  note C = faiss_contractD [OF assms(1)]
  have 1: "vecs (fx_add F (fx_make F a) 1 v) = [v]" "fx_d F (fx_add F (fx_make F a) 1 v) = length v"
    using C(1,3,4) assms(2) by simp_all
  show ?thesis
    using 1 assms(2)
    by (simp add: faiss_add_batch_def faiss_new_def faiss_erase_batch_def faiss_docs_def faiss_size_def
        size_sub_def Let_def)
qed

theorem faiss_size_wraps_witness:
  "\<exists>x. bindR (faiss_add_batch ref_faiss (faiss_new ref_faiss (FlatArgs 2 METRIC_L1)) 1 [0, 1] [7 :: nat])
        (\<lambda>x. bindR (faiss_erase_batch x 1 [7])
        (\<lambda>x. bindR (faiss_add_batch ref_faiss x 1 [0, 1] [7]) (\<lambda>x. faiss_erase_batch x 1 [7]))) = Inr x \<and>
    faiss_docs ref_vecs x = [] \<and> faiss_size x = 2 ^ 64 - 1"
  by (rule faiss_size_wraps [OF ref_faiss_contract]) (simp add: ref_faiss_def)

end
