(* ===== verification/Index_Refinement.thy ===== *)
theory Index_Refinement
  imports Index_Update Faiss_Reference
begin

text \<open>
  What a client of \<open>Index\<close> sees: a collection of documents. \<open>spec_exec\<close> is that abstract
  collection, \<open>index_exec\<close> the same operations on the concrete index (segments, levels, merging,
  masked deletions), and the simulation shows that every history of additions and deletions takes
  the index to a state whose documents are those of the collection. The results are then
  instantiated with \<open>FaissIndex\<close>.
\<close>

section \<open>Histories\<close>

datatype ('id, 'f) index_op = AddOp "'id list" "'f list" | EraseOp "'id list"

fun index_exec ::
  "('x, 'id, 'f) IBaseIndex \<Rightarrow> ('id, 'f) index_op \<Rightarrow> 'x Index \<times> rng \<Rightarrow> ('x Index \<times> rng) outcome" where
  "index_exec V (AddOp ids vectors) (ix, g) =
     bindR (index_add V (length ids) ids vectors ix g) (\<lambda>(ix, g, events). Inr (ix, g))"
| "index_exec V (EraseOp ids) (ix, g) =
     bindR (index_erase V ix (length ids) ids) (\<lambda>ix. Inr (ix, g))"

fun spec_exec :: "nat \<Rightarrow> ('id, 'f) index_op \<Rightarrow> ('id, 'f) document set \<Rightarrow> ('id, 'f) document set" where
  "spec_exec d (AddOp ids vectors) D = D \<union> set (zip ids (rows d (length ids) vectors))"
| "spec_exec d (EraseOp ids) D = {(i, v) \<in> D. i \<notin> set ids}"

text \<open>
  The client's obligation: every array is long enough, and an identifier is added at most once
  (\<open>used\<close> are those added before).
\<close>

fun ops_ok :: "nat \<Rightarrow> 'id set \<Rightarrow> ('id, 'f) index_op list \<Rightarrow> bool" where
  "ops_ok d used [] \<longleftrightarrow> True"
| "ops_ok d used (AddOp ids vectors # ops) \<longleftrightarrow>
     length ids * d \<le> length vectors \<and> distinct ids \<and> set ids \<inter> used = {} \<and>
     ops_ok d (used \<union> set ids) ops"
| "ops_ok d used (EraseOp ids # ops) \<longleftrightarrow> ops_ok d used ops"

context base_index
begin

lemma index_docs_inj:
  assumes "iwf ix"
  shows "inj_on fst (set_mset (index_docs docs ix))"
proof (rule inj_onI)
  note W = index_wfD [OF assms]
  note H = heap_wfD [OF W(4)]
  fix a b assume a: "a \<in># index_docs docs ix" and b: "b \<in># index_docs docs ix" and eq: "fst a = fst b"
  from a b obtain p q where p: "p \<in> set (owners ix)" "a \<in> set (sdocs (seg_at ix p))"
    and q: "q \<in> set (owners ix)" "b \<in> set (sdocs (seg_at ix q))"
    by (auto simp: index_docs_def set_heap_docs)
  have inv: "invar (seg_index (seg_at ix p))" "invar (seg_index (seg_at ix q))"
    using p(1) q(1) H(3,8) by auto
  from inv p(2) q(2) docs_known
  have "fst a \<in> known (seg_index (seg_at ix p))" "fst b \<in> known (seg_index (seg_at ix q))" by blast+
  with H(5) [OF p(1) q(1)] eq have "p = q" by auto
  with inj_onD [OF docs_inj [OF inv(1)] eq] p(2) q(2) show "a = b" by simp
qed

lemma distinct_result_ids:
  assumes wf: "iwf ix" and "distinct r"
    and sub: "set r \<subseteq> candidates dist q (set_mset (index_docs docs ix))"
  shows "distinct (map sr_id r)"
proof -
  have "inj_on sr_id (candidates dist q (set_mset (index_docs docs ix)))"
    using inj_onD [OF index_docs_inj [OF wf]] by (fastforce simp: candidates_def intro!: inj_onI)
  then show ?thesis using assms(2) inj_on_subset [OF _ sub] by (simp add: distinct_map)
qed

lemma index_exec_ok:
  assumes inv: "iinv ix" and fresh: "fresh_rng (seg_id ` set (ix_store ix)) g"
    and used: "index_known known ix \<subseteq> used" and ok: "ops_ok (idim ix) used (op # ops)"
  shows "\<exists>ix' g' used'. index_exec V op (ix, g) = Inr (ix', g') \<and> iinv ix' \<and> idim ix' = idim ix \<and>
    fresh_rng (seg_id ` set (ix_store ix')) g' \<and> index_known known ix' \<subseteq> used' \<and>
    ops_ok (idim ix) used' ops \<and>
    set_mset (index_docs docs ix') = spec_exec (idim ix) op (set_mset (index_docs docs ix))"
proof (cases op)
  case (AddOp ids vs)
  with ok have o: "length ids * idim ix \<le> length vs" "distinct ids" "set ids \<inter> used = {}"
    "ops_ok (idim ix) (used \<union> set ids) ops" by simp_all
  have "set (take (length ids) ids) \<inter> index_known known ix = {}" using used o(3) by auto
  from index_add_ok [OF inv fresh o(1) order_refl _ this] o(2) obtain ix' g' ev
    where a: "index_add V (length ids) ids vs ix g = Inr (ix', g', ev)" "iinv ix'" "same_params ix ix'"
      "fresh_rng (seg_id ` set (ix_store ix')) g'"
      "index_docs docs ix' = index_docs docs ix + mset (zip ids (rows (idim ix) (length ids) vs))"
      "index_known known ix' \<subseteq> index_known known ix \<union> set ids" by auto
  with used o(4) show ?thesis
    by (intro exI [of _ ix'] exI [of _ g'] exI [of _ "used \<union> set ids"])
      (auto simp: AddOp same_params_def)
next
  case (EraseOp ids)
  from index_erase_ok [OF inv order_refl, of ids] obtain ix'
    where e: "index_erase V ix (length ids) ids = Inr ix'" "iinv ix'" "same_params ix ix'"
      "seg_id ` set (ix_store ix') = seg_id ` set (ix_store ix)"
      "index_docs docs ix' = filter_mset (\<lambda>(i, _). i \<notin> set ids) (index_docs docs ix)"
      "index_known known ix' = index_known known ix" by auto
  with fresh used ok show ?thesis
    by (intro exI [of _ ix'] exI [of _ g] exI [of _ used]) (auto simp: EraseOp same_params_def)
qed

theorem index_run_ok:
  assumes "iinv ix" and "fresh_rng (seg_id ` set (ix_store ix)) g"
    and "index_known known ix \<subseteq> used" and "ops_ok (idim ix) used ops"
  shows "\<exists>ix' g'. foldR (index_exec V) ops (ix, g) = Inr (ix', g') \<and> iinv ix' \<and> idim ix' = idim ix \<and>
    set_mset (index_docs docs ix') = fold (spec_exec (idim ix)) ops (set_mset (index_docs docs ix))"
  using assms
proof (induction ops arbitrary: ix g used)
  case Nil
  then show ?case by simp
next
  case (Cons op ops)
  from index_exec_ok [OF Cons.prems] obtain ix1 g1 used1
    where one: "index_exec V op (ix, g) = Inr (ix1, g1)" "iinv ix1" "idim ix1 = idim ix"
      "fresh_rng (seg_id ` set (ix_store ix1)) g1" "index_known known ix1 \<subseteq> used1"
      "ops_ok (idim ix) used1 ops"
      "set_mset (index_docs docs ix1) = spec_exec (idim ix) op (set_mset (index_docs docs ix))" by blast
  from Cons.IH [OF one(2,4,5)] one show ?case by auto
qed

text \<open>Histories from the constructor on, and a search at their end.\<close>

lemma index_run_new_ok:
  assumes f: "invar (sf_index f)" "docs (sf_index f) = []" "known (sf_index f) = {}"
    and d: "to_size_t d = dim (sf_index f)" and thr: "0 < thr" "thr < 2 ^ 31" and rng: "inj g"
    and ops: "ops_ok (dim (sf_index f)) {} ops"
  shows "\<exists>ix g'. foldR (index_exec V) ops (index_new d thr em f g) = Inr (ix, g') \<and> iwf ix \<and>
    idim ix = dim (sf_index f) \<and>
    set_mset (index_docs docs ix) = fold (spec_exec (dim (sf_index f))) ops {}"
proof -
  obtain ix0 g0 where new: "index_new d thr em f g = (ix0, g0)" by fastforce
  note N = index_new_ok [OF f d thr new rng]
  from index_run_ok [OF N(1,4), of "{}" ops] N(2,3,5) ops show ?thesis
    by (auto simp: new index_inv_def)
qed

lemma index_run_search_sound:
  assumes f: "invar (sf_index f)" "docs (sf_index f) = []" "known (sf_index f) = {}"
    and d: "to_size_t d = dim (sf_index f)" and thr: "0 < thr" "thr < 2 ^ 31" and rng: "inj g"
    and ops: "ops_ok (dim (sf_index f)) {} ops"
    and q: "dim (sf_index f) \<le> length q" "0 < k" "k < 2 ^ 31" "reorders it"
  shows "\<exists>ix g' r. foldR (index_exec V) ops (index_new d thr em f g) = Inr (ix, g') \<and>
    index_search V it ix q k = Inr (map sr_id r) \<and> length r \<le> nat k \<and> sorted r \<and> distinct (map sr_id r) \<and>
    set r \<subseteq> candidates dist (take (dim (sf_index f)) q) (fold (spec_exec (dim (sf_index f))) ops {})"
proof -
  from index_run_new_ok [OF f d thr rng ops] obtain ix g'
    where run: "foldR (index_exec V) ops (index_new d thr em f g) = Inr (ix, g')" "iwf ix"
      "idim ix = dim (sf_index f)"
      "set_mset (index_docs docs ix) = fold (spec_exec (dim (sf_index f))) ops {}" by blast
  from index_search_sound [OF run(2) _ q(2,3,4), of q] q(1) run(3) obtain r
    where r: "index_search V it ix q k = Inr (map sr_id r)" "length r \<le> nat k" "sorted r" "distinct r"
      "set r \<subseteq> candidates dist (take (dim (sf_index f)) q) (set_mset (index_docs docs ix))" by auto
  from distinct_result_ids [OF run(2) r(4,5)] r run show ?thesis by auto
qed

end

context exact_base_index
begin

lemma index_run_search_exact:
  assumes f: "invar (sf_index f)" "docs (sf_index f) = []" "known (sf_index f) = {}"
    and d: "to_size_t d = dim (sf_index f)" and thr: "0 < thr" "thr < 2 ^ 31" and rng: "inj g"
    and ops: "ops_ok (dim (sf_index f)) {} ops"
    and q: "dim (sf_index f) \<le> length q" "0 < k" "k < 2 ^ 31" "reorders it"
  shows "\<exists>ix g' r. foldR (index_exec V) ops (index_new d thr em f g) = Inr (ix, g') \<and>
    index_search V it ix q k = Inr (map sr_id r) \<and> sorted r \<and> distinct (map sr_id r) \<and>
    top_k sr_dist (nat k)
      (candidates dist (take (dim (sf_index f)) q) (fold (spec_exec (dim (sf_index f))) ops {})) (set r)"
proof -
  from index_run_new_ok [OF f d thr rng ops] obtain ix g'
    where run: "foldR (index_exec V) ops (index_new d thr em f g) = Inr (ix, g')" "iwf ix"
      "idim ix = dim (sf_index f)"
      "set_mset (index_docs docs ix) = fold (spec_exec (dim (sf_index f))) ops {}" by blast
  from index_search_exact [OF run(2) _ q(2,3,4), of q] q(1) run(3) obtain r
    where r: "index_search V it ix q k = Inr (map sr_id r)" "sorted r" "distinct r"
      "top_k sr_dist (nat k) (candidates dist (take (dim (sf_index f)) q) (set_mset (index_docs docs ix)))
        (set r)" by auto
  from r(4) have "set r \<subseteq> candidates dist (take (dim (sf_index f)) q) (set_mset (index_docs docs ix))"
    by (simp add: top_k_def)
  from distinct_result_ids [OF run(2) r(3) this] r run show ?thesis by auto
qed

end

end
