(* ===== verification/Vecodex_Index.thy ===== *)
theory Vecodex_Index
  imports Index_Refinement
begin

text \<open>
  The index the servers use: \<open>Index\<close> over segments of \<open>FaissIndex\<close>. The theorems instantiate the
  results on any base index with the interpretations of \<open>FaissIndex\<close>; the hypotheses on FAISS are
  the two predicates of its documented behaviour.
\<close>

section \<open>Definitions\<close>

definition faiss_factory :: "('b, 'f) faiss_lib \<Rightarrow> faiss_args \<Rightarrow> ('b, 'id) FaissIndex SegmentFactory" where
  "faiss_factory F args =
     \<lparr>sf_index = faiss_new F args, sf_type = get_segment_type (fi_kind (faiss_new F args :: ('b, 'id) FaissIndex))\<rparr>"

definition faiss_index_inv ::
  "('b, 'f) faiss_lib \<Rightarrow> ('b \<Rightarrow> 'f list list) \<Rightarrow> ('f list \<Rightarrow> 'f list \<Rightarrow> 'f) \<Rightarrow>
    ((int \<times> 'id) list \<Rightarrow> (int \<times> 'id) list) \<Rightarrow> ('b, 'id) FaissIndex Index \<Rightarrow> bool" where
  "faiss_index_inv F vecs dist it ix \<longleftrightarrow>
     index_inv (faiss_ok F vecs dist it) (faiss_shape F) (\<lambda>x. fx_d F (fi_index x)) (faiss_docs vecs)
       faiss_known ix"

abbreviation faiss_index_docs ::
  "('b \<Rightarrow> 'f list list) \<Rightarrow> ('b, 'id) FaissIndex Index \<Rightarrow> ('id, 'f) document multiset" where
  "faiss_index_docs vecs \<equiv> index_docs (faiss_docs vecs)"

abbreviation faiss_index_dim :: "('b, 'f) faiss_lib \<Rightarrow> ('b, 'id) FaissIndex Index \<Rightarrow> nat" where
  "faiss_index_dim F ix \<equiv> fx_d F (fi_index (sf_index (ix_factory ix)))"

text \<open>A history from the constructor on.\<close>

definition faiss_index_run ::
  "('b, 'f::{linorder, zero}) faiss_lib \<Rightarrow> ((int \<times> 'id) list \<Rightarrow> (int \<times> 'id) list) \<Rightarrow>
    (('b, 'id) FaissIndex \<Rightarrow> string) \<Rightarrow> faiss_args \<Rightarrow> int \<Rightarrow> int \<Rightarrow> bool \<Rightarrow> rng \<Rightarrow>
    ('id, 'f) index_op list \<Rightarrow> (('b, 'id) FaissIndex Index \<times> rng) outcome" where
  "faiss_index_run F it ser args d thr enable_merge g ops =
     foldR (index_exec (faiss_vtable F it ser)) ops
       (index_new d thr enable_merge (faiss_factory F args) g)"

lemma sf_index_faiss_factory [simp]: "sf_index (faiss_factory F args) = faiss_new F args"
  by (simp add: faiss_factory_def)

lemma fi_index_faiss_new [simp]: "fi_index (faiss_new F args) = fx_make F args"
  by (simp add: faiss_new_def)

section \<open>Histories of an index\<close>

lemma faiss_factory_ok:
  fixes F :: "('b, 'f::linorder) faiss_lib" and it :: "(int \<times> 'id) list \<Rightarrow> _"
  assumes "faiss_contract F vecs dist" and "reorders it"
  shows "faiss_ok F vecs dist it (sf_index (faiss_factory F args :: ('b, 'id) FaissIndex SegmentFactory))"
    and "faiss_exact F vecs dist \<Longrightarrow>
      faiss_ok_exact F vecs dist it (sf_index (faiss_factory F args :: ('b, 'id) FaissIndex SegmentFactory))"
  using assms faiss_inv_new [OF assms(1)] by (simp_all add: faiss_ok_exact_def faiss_ok_def)

text \<open>
  C1. Exact search after any history. An index over a FAISS index that searches exhaustively is
  built by the constructor and then taken through any sequence of additions and deletions, with
  merging on or off, in which every identifier is added at most once. No operation fails, and a
  search returns \<open>k\<close> of the documents that were added and not deleted (all of them when there are
  fewer), each identifier once, nearest first, such that no document left out is nearer than one
  returned. How the documents are spread over segments, which segments were merged, and the
  iteration order of the hash maps do not matter.
\<close>

theorem index_history_search_exact:
  fixes F :: "('b, 'f::{linorder, zero}) faiss_lib" and it :: "(int \<times> 'id::linorder) list \<Rightarrow> _"
  assumes "faiss_exact F vecs dist" and "reorders it" and "reorders it'" and "inj g"
    and "0 < thr" "thr < 2 ^ 31" and "0 \<le> d" "d < 2 ^ 31" "fx_d F (fx_make F args) = nat d"
    and "ops_ok (nat d) {} ops" and "nat d \<le> length q" and "0 < k" "k < 2 ^ 31"
  shows "\<exists>ix g' r. faiss_index_run F it ser args d thr enable_merge g ops = Inr (ix, g') \<and>
    index_search (faiss_vtable F it ser) it' ix q k = Inr (map sr_id r) \<and>
    sorted r \<and> distinct (map sr_id r) \<and>
    top_k sr_dist (nat k) (candidates dist (take (nat d) q) (fold (spec_exec (nat d)) ops {})) (set r)"
proof -
  let ?f = "faiss_factory F args :: ('b, 'id) FaissIndex SegmentFactory"
  have "faiss_contract F vecs dist" using assms(1) by (simp add: faiss_exact_def)
  then have "faiss_ok_exact F vecs dist it (sf_index ?f)" using assms(1,2) by (intro faiss_factory_ok(2))
  from faiss_flat.index_run_search_exact [OF this, of d thr g ops q k it' ser enable_merge] assms(3-)
  show ?thesis by (simp add: faiss_index_run_def)
qed

definition demo_ops :: "(nat, int) index_op list" where
  "demo_ops = [AddOp [10, 11, 12, 13, 14] [0, 1, 0, 2, 3, 0, 9, 9, 5, 5], EraseOp [11], AddOp [15] [1, 1]]"

lemma ref_make_dim: "fx_d ref_faiss (fx_make ref_faiss (FlatArgs 2 m)) = 2"
  "fx_d ref_faiss (fx_make ref_faiss (HNSWFlatArgs 2 M m)) = 2"
  by (simp_all add: ref_faiss_def)

lemma rows_3: "rows d 3 xs = [take d xs, take d (drop d xs), take d (drop d (drop d xs))]"
  by (simp add: numeral_3_eq_3)

lemma demo_ops_ok: "ops_ok 2 {} demo_ops"
  by (simp add: demo_ops_def)

theorem index_history_search_exact_witness:
  "\<exists>ix g' r. faiss_index_run ref_faiss rev (\<lambda>_. []) (FlatArgs 2 METRIC_L1) 2 2 True (\<lambda>n. n) demo_ops = Inr (ix, g') \<and>
    index_search (faiss_vtable ref_faiss rev (\<lambda>_. [])) rev ix [0, 0] 3 = Inr (map sr_id r) \<and>
    sorted r \<and> distinct (map sr_id r) \<and>
    top_k sr_dist 3 (candidates ref_dist [0, 0] (fold (spec_exec 2) demo_ops {})) (set r)"
  using index_history_search_exact [where F = ref_faiss and vecs = ref_vecs and dist = ref_dist
      and it = rev and it' = rev and g = "\<lambda>n. n" and thr = 2 and d = 2 and args = "FlatArgs 2 METRIC_L1"
      and ops = demo_ops and q = "[0, 0]" and k = 3 and ser = "\<lambda>_. []" and enable_merge = True]
  by (simp add: ref_faiss_exact reorders_rev ref_make_dim demo_ops_ok)

text \<open>
  C13. Sound search after any history, for every kind of FAISS index (an HNSW index may miss
  documents): after any sequence of additions and deletions a search succeeds and returns at most
  \<open>k\<close> identifiers, each once, nearest first, each of a document that was added and not deleted.
\<close>

theorem index_history_search_sound:
  fixes F :: "('b, 'f::{linorder, zero}) faiss_lib" and it :: "(int \<times> 'id::linorder) list \<Rightarrow> _"
  assumes "faiss_contract F vecs dist" and "reorders it" and "reorders it'" and "inj g"
    and "0 < thr" "thr < 2 ^ 31" and "0 \<le> d" "d < 2 ^ 31" "fx_d F (fx_make F args) = nat d"
    and "ops_ok (nat d) {} ops" and "nat d \<le> length q" and "0 < k" "k < 2 ^ 31"
  shows "\<exists>ix g' r. faiss_index_run F it ser args d thr enable_merge g ops = Inr (ix, g') \<and>
    index_search (faiss_vtable F it ser) it' ix q k = Inr (map sr_id r) \<and>
    length r \<le> nat k \<and> sorted r \<and> distinct (map sr_id r) \<and>
    set r \<subseteq> candidates dist (take (nat d) q) (fold (spec_exec (nat d)) ops {})"
proof -
  let ?f = "faiss_factory F args :: ('b, 'id) FaissIndex SegmentFactory"
  have "faiss_ok F vecs dist it (sf_index ?f)" using assms(1,2) by (rule faiss_factory_ok(1))
  from faiss.index_run_search_sound [OF this, of d thr g ops q k it' ser enable_merge] assms(3-)
  show ?thesis by (simp add: faiss_index_run_def)
qed

theorem index_history_search_sound_witness:
  "\<exists>ix g' r. faiss_index_run ref_faiss rev (\<lambda>_. []) (HNSWFlatArgs 2 32 METRIC_L2) 2 2 True (\<lambda>n. n) demo_ops = Inr (ix, g') \<and>
    index_search (faiss_vtable ref_faiss rev (\<lambda>_. [])) rev ix [0, 0] 3 = Inr (map sr_id r) \<and>
    length r \<le> 3 \<and> sorted r \<and> distinct (map sr_id r) \<and>
    set r \<subseteq> candidates ref_dist [0, 0] (fold (spec_exec 2) demo_ops {})"
  using index_history_search_sound [where F = ref_faiss and vecs = ref_vecs and dist = ref_dist
      and it = rev and it' = rev and g = "\<lambda>n. n" and thr = 2 and d = 2 and args = "HNSWFlatArgs 2 32 METRIC_L2"
      and ops = demo_ops and q = "[0, 0]" and k = 3 and ser = "\<lambda>_. []" and enable_merge = True]
  by (simp add: ref_faiss_contract reorders_rev ref_make_dim demo_ops_ok)

section \<open>The single operations\<close>

text \<open>A new index, which the witnesses below start from.\<close>

definition demo_index :: "(ref_base, nat) FaissIndex Index" where
  "demo_index = fst (index_new 2 2 True (faiss_factory ref_faiss (FlatArgs 2 METRIC_L1)) (\<lambda>n. n))"

lemma demo_index_ok:
  "faiss_index_inv ref_faiss ref_vecs ref_dist rev demo_index"
  "index_known faiss_known demo_index = {}" "faiss_index_docs ref_vecs demo_index = {#}"
  "fresh_rng (seg_id ` set (ix_store demo_index)) Suc" "faiss_index_dim ref_faiss demo_index = 2"
  "ix_factory demo_index = faiss_factory ref_faiss (FlatArgs 2 METRIC_L1)"
proof -
  let ?f = "faiss_factory ref_faiss (FlatArgs 2 METRIC_L1) :: (ref_base, nat) FaissIndex SegmentFactory"
  have new: "index_new 2 2 True ?f (\<lambda>n. n) = (demo_index, Suc)"
    by (simp add: demo_index_def index_new_def factory_create_def segment_new_def rand_def)
  note N = faiss.index_new_ok [OF faiss_factory_ok(1) [OF ref_faiss_contract reorders_rev] _ _ _ _ _ new]
  show "faiss_index_inv ref_faiss ref_vecs ref_dist rev demo_index"
    unfolding faiss_index_inv_def by (rule N(1)) (simp_all add: ref_make_dim)
  show "index_known faiss_known demo_index = {}" by (rule N(3)) (simp_all add: ref_make_dim)
  show "faiss_index_docs ref_vecs demo_index = {#}" by (rule N(2)) (simp_all add: ref_make_dim)
  show "fresh_rng (seg_id ` set (ix_store demo_index)) Suc" by (rule N(4)) (simp_all add: ref_make_dim)
  show f: "ix_factory demo_index = ?f" by (rule N(5)) (simp_all add: ref_make_dim)
  show "faiss_index_dim ref_faiss demo_index = 2" by (simp add: f ref_make_dim)
qed

text \<open>An index of two full segments and one being filled, merging off.\<close>

definition demo_add :: "((ref_base, nat) FaissIndex Index \<times> rng \<times> update_event list) outcome" where
  "demo_add = index_add (faiss_vtable ref_faiss rev (\<lambda>_. [])) 5 [10, 11, 12, 13, 14]
     [0, 1, 0, 2, 3, 0, 9, 9, 5, 5] (demo_index\<lparr>ix_enable_merge := False\<rparr>) Suc"

definition demo_filled :: "(ref_base, nat) FaissIndex Index" where
  "demo_filled = fst (projr demo_add)"

definition demo_rng :: rng where
  "demo_rng = fst (snd (projr demo_add))"

lemma rows_5: "rows d 5 xs = [take d xs, take d (drop d xs), take d (drop d (drop d xs)),
    take d (drop d (drop d (drop d xs))), take d (drop d (drop d (drop d (drop d xs))))]"
  by (simp add: eval_nat_numeral)

lemma demo_filled_ok:
  "faiss_index_inv ref_faiss ref_vecs ref_dist rev demo_filled"
  "fresh_rng (seg_id ` set (ix_store demo_filled)) demo_rng"
  "faiss_index_docs ref_vecs demo_filled =
    {#(10, [0, 1]), (11, [0, 2]), (12, [3, 0]), (13, [9, 9]), (14, [5, 5])#}"
proof -
  let ?ix = "demo_index\<lparr>ix_enable_merge := False\<rparr>"
  have same: "faiss_index_inv ref_faiss ref_vecs ref_dist rev ?ix" "index_known faiss_known ?ix = {}"
    "faiss_index_docs ref_vecs ?ix = {#}" "fresh_rng (seg_id ` set (ix_store ?ix)) Suc"
    "faiss_index_dim ref_faiss ?ix = 2"
    using demo_index_ok by (simp_all add: faiss_index_inv_def index_inv_def index_wf_def index_params_def
        owners_def index_known_def index_docs_def)
  from faiss.index_add_ok [OF same(1) [unfolded faiss_index_inv_def] same(4),
      of 5 "[0, 1, 0, 2, 3, 0, 9, 9, 5, 5]" "[10, 11, 12, 13, 14]" "\<lambda>_. []"]
  obtain ix' g' ev where add: "demo_add = Inr (ix', g', ev)" and "faiss_index_inv ref_faiss ref_vecs ref_dist rev ix'"
    "fresh_rng (seg_id ` set (ix_store ix')) g'" "faiss_index_docs ref_vecs ix' =
      mset (zip (take 5 [10, 11, 12, 13, 14]) (rows 2 5 [0, 1, 0, 2, 3, 0, 9, 9, 5, 5]))"
    unfolding same demo_add_def [symmetric] faiss_index_inv_def by auto
  then show "faiss_index_inv ref_faiss ref_vecs ref_dist rev demo_filled"
    "fresh_rng (seg_id ` set (ix_store demo_filled)) demo_rng"
    "faiss_index_docs ref_vecs demo_filled =
      {#(10, [0, 1]), (11, [0, 2]), (12, [3, 0]), (13, [9, 9]), (14, [5, 5])#}"
    by (simp_all add: demo_filled_def demo_rng_def rows_5 add)
qed

text \<open>
  C14. \<open>Index::add\<close>: given distinct identifiers the index does not know, it never fails (in
  particular its check for an empty batch cannot fire), the documents afterwards are those before
  plus the \<open>n\<close> given ones, and the invariant of the index holds again, whether or not the batch
  spans several segments and whether or not segments are merged at the end.
\<close>

theorem index_add_documents:
  fixes F :: "('b, 'f::{linorder, zero}) faiss_lib" and it :: "(int \<times> 'id::linorder) list \<Rightarrow> _"
  assumes "faiss_index_inv F vecs dist it ix" and "fresh_rng (seg_id ` set (ix_store ix)) g"
    and "n * faiss_index_dim F ix \<le> length vectors" and "n \<le> length ids"
    and "distinct (take n ids)" and "set (take n ids) \<inter> index_known faiss_known ix = {}"
  shows "\<exists>ix' g' events. index_add (faiss_vtable F it ser) n ids vectors ix g = Inr (ix', g', events) \<and>
    faiss_index_inv F vecs dist it ix' \<and> fresh_rng (seg_id ` set (ix_store ix')) g' \<and>
    faiss_index_docs vecs ix' = faiss_index_docs vecs ix +
      mset (zip (take n ids) (rows (faiss_index_dim F ix) n vectors))"
  using faiss.index_add_ok [OF assms [unfolded faiss_index_inv_def], of ser]
  unfolding faiss_index_inv_def by blast

theorem index_add_documents_witness:
  "\<exists>ix' g' events. index_add (faiss_vtable ref_faiss rev (\<lambda>_. [])) 3 [10, 11, 12] [0, 1, 0, 2, 3, 0] demo_index Suc =
      Inr (ix', g', events) \<and>
    faiss_index_inv ref_faiss ref_vecs ref_dist rev ix' \<and> fresh_rng (seg_id ` set (ix_store ix')) g' \<and>
    faiss_index_docs ref_vecs ix' = {#(10, [0, 1]), (11, [0, 2]), (12, [3, 0])#}"
  using index_add_documents [OF demo_index_ok(1,4), of 3 "[0, 1, 0, 2, 3, 0]" "[10, 11, 12]" "\<lambda>_. []"]
  by (simp add: demo_index_ok(1-5) rows_3)

text \<open>
  C15. \<open>Index::erase\<close>: it never fails, exactly the documents with a given identifier disappear, from
  every segment that holds a copy, and the invariant of the index holds again.
\<close>

theorem index_erase_documents:
  fixes F :: "('b, 'f::{linorder, zero}) faiss_lib" and it :: "(int \<times> 'id::linorder) list \<Rightarrow> _"
  assumes "faiss_index_inv F vecs dist it ix" and "n \<le> length ids"
  shows "\<exists>ix'. index_erase (faiss_vtable F it ser) ix n ids = Inr ix' \<and>
    faiss_index_inv F vecs dist it ix' \<and>
    faiss_index_docs vecs ix' = filter_mset (\<lambda>(i, _). i \<notin> set (take n ids)) (faiss_index_docs vecs ix) \<and>
    (\<forall>p \<in> insert (ix_last ix') (set (ix_segments ix')).
       set (take n ids) \<inter> fst ` set (faiss_docs vecs (seg_index (seg_at ix' p))) = {})"
proof -
  from faiss.index_erase_ok [OF assms [unfolded faiss_index_inv_def], of ser] obtain ix'
    where e: "index_erase (faiss_vtable F it ser) ix n ids = Inr ix'" "faiss_index_inv F vecs dist it ix'"
      "faiss_index_docs vecs ix' = filter_mset (\<lambda>(i, _). i \<notin> set (take n ids)) (faiss_index_docs vecs ix)"
    unfolding faiss_index_inv_def by blast
  then have wf: "index_wf (faiss_ok F vecs dist it) (faiss_shape F) (\<lambda>x. fx_d F (fi_index x))
      (faiss_docs vecs) faiss_known ix'"
    by (simp add: faiss_index_inv_def index_inv_def)
  have "set (take n ids) \<inter> fst ` set_mset (faiss_index_docs vecs ix') = {}" using e(3) by auto
  with e show ?thesis unfolding faiss.searched_docs [OF wf, symmetric] by blast
qed

theorem index_erase_documents_witness:
  "\<exists>ix'. index_erase (faiss_vtable ref_faiss rev (\<lambda>_. [])) demo_filled 1 [12] = Inr ix' \<and>
    faiss_index_inv ref_faiss ref_vecs ref_dist rev ix' \<and>
    faiss_index_docs ref_vecs ix' = {#(10, [0, 1]), (11, [0, 2]), (13, [9, 9]), (14, [5, 5])#} \<and>
    (\<forall>p \<in> insert (ix_last ix') (set (ix_segments ix')).
       {12} \<inter> fst ` set (faiss_docs ref_vecs (seg_index (seg_at ix' p))) = {})"
  using index_erase_documents [OF demo_filled_ok(1), of 1 "[12]" "\<lambda>_. []"] by (simp add: demo_filled_ok(3))

text \<open>
  C16. \<open>SegmentStorage::merge\<close>, for any amount: the loops end without a failure (no assertion, no
  null pointer, no segment merged into itself), no document is lost, duplicated or changed, the
  segment being filled is untouched, every level is left without null pointers, and the invariant
  holds again, which includes that all segments of the levels are searched and that level \<open>i\<close> holds
  no segment of more than \<open>2 ^ (i + 1)\<close> documents.
\<close>

theorem storage_merge_documents:
  fixes F :: "('b, 'f::{linorder, zero}) faiss_lib" and it :: "(int \<times> 'id::linorder) list \<Rightarrow> _"
  assumes "faiss_index_inv F vecs dist it ix" and "fresh_rng (seg_id ` set (ix_store ix)) g"
  shows "\<exists>ix' g' events. storage_merge (faiss_vtable F it ser) amount ix g = Inr (ix', g', events) \<and>
    faiss_index_inv F vecs dist it ix' \<and> fresh_rng (seg_id ` set (ix_store ix')) g' \<and>
    faiss_index_docs vecs ix' = faiss_index_docs vecs ix \<and>
    seg_at ix' (ix_last ix') = seg_at ix (ix_last ix) \<and>
    (\<forall>l \<in> set (levels (ix_storage ix')). None \<notin> set l)"
proof -
  have wf: "index_wf (faiss_ok F vecs dist it) (faiss_shape F) (\<lambda>x. fx_d F (fi_index x))
      (faiss_docs vecs) faiss_known ix"
    using assms(1) by (simp add: faiss_index_inv_def index_inv_def)
  from faiss.storage_merge_ok [OF wf assms(2), of ser amount] obtain ix' g' events
    where m: "storage_merge (faiss_vtable F it ser) amount ix g = Inr (ix', g', events)"
      "index_wf (faiss_ok F vecs dist it) (faiss_shape F) (\<lambda>x. fx_d F (fi_index x))
        (faiss_docs vecs) faiss_known ix'" "fresh_rng (seg_id ` set (ix_store ix')) g'"
      "index_frame (faiss_docs vecs) faiss_known ix ix'"
      "\<forall>l \<in> set (levels (ix_storage ix')). None \<notin> set l" by blast
  have "faiss_index_inv F vecs dist it ix'"
    using index_frame_inv [OF m(4) _ m(2)] assms(1) by (simp add: faiss_index_inv_def)
  with m show ?thesis by (auto simp: index_frame_def)
qed

theorem storage_merge_documents_witness:
  "\<exists>ix' g' events. storage_merge (faiss_vtable ref_faiss rev (\<lambda>_. [])) 200 demo_filled demo_rng = Inr (ix', g', events) \<and>
    faiss_index_inv ref_faiss ref_vecs ref_dist rev ix' \<and> fresh_rng (seg_id ` set (ix_store ix')) g' \<and>
    faiss_index_docs ref_vecs ix' =
      {#(10, [0, 1]), (11, [0, 2]), (12, [3, 0]), (13, [9, 9]), (14, [5, 5])#} \<and>
    seg_at ix' (ix_last ix') = seg_at demo_filled (ix_last demo_filled) \<and>
    (\<forall>l \<in> set (levels (ix_storage ix')). None \<notin> set l)"
  using storage_merge_documents [OF demo_filled_ok(1,2), of "\<lambda>_. []" 200] by (simp add: demo_filled_ok(3))

text \<open>
  C17. \<open>Index::pushSegment\<close> of a segment of the same kind and dimension, with a new identifier and
  documents whose identifiers the index does not know: its documents are added to those of the
  index and the invariant holds again.
\<close>

theorem index_pushSegment_documents:
  fixes F :: "('b, 'f::{linorder, zero}) faiss_lib" and it :: "(int \<times> 'id::linorder) list \<Rightarrow> _"
  assumes "faiss_index_inv F vecs dist it ix" and "faiss_inv F vecs (seg_index s)"
    and "faiss_shape F (seg_index s) = faiss_shape F (sf_index (ix_factory ix))"
    and "length (faiss_docs vecs (seg_index s)) \<le> 2 ^ 63"
    and "faiss_known (seg_index s) \<inter> index_known faiss_known ix = {}"
    and "seg_id s \<notin> seg_id ` set (ix_store ix)"
  shows "\<exists>ix' events. index_pushSegment (faiss_vtable F it ser) ix (Some s) = Inr (ix', events) \<and>
    faiss_index_inv F vecs dist it ix' \<and>
    faiss_index_docs vecs ix' = faiss_index_docs vecs ix + mset (faiss_docs vecs (seg_index s))"
proof -
  have "faiss_ok F vecs dist it (sf_index (ix_factory ix))"
    using assms(1) by (simp add: faiss_index_inv_def index_inv_def index_wf_def index_params_def)
  then have "faiss_ok F vecs dist it (seg_index s)" using assms(2) by (simp add: faiss_ok_def)
  from faiss.index_pushSegment_ok [OF assms(1) [unfolded faiss_index_inv_def] this assms(3-), of ser]
  show ?thesis unfolding faiss_index_inv_def by blast
qed

theorem index_pushSegment_documents_witness:
  "\<exists>ix n ix' events. faiss_index_docs ref_vecs ix = {#(15, [1, 1])#} \<and>
    index_pushSegment (faiss_vtable ref_faiss rev (\<lambda>_. [])) ix (Some \<lparr>seg_index = demo_faiss, seg_id = n, seg_type = 0\<rparr>) = Inr (ix', events) \<and>
    faiss_index_inv ref_faiss ref_vecs ref_dist rev ix' \<and>
    faiss_index_docs ref_vecs ix' = {#(15, [1, 1]), (10, [0, 1]), (12, [3, 0])#}"
proof -
  note I = demo_index_ok
  from faiss.index_add_ok [OF I(1) [unfolded faiss_index_inv_def] I(4), of 1 "[1, 1]" "[15]" "\<lambda>_. []"] I(2,3,5)
  obtain ix g ev where ix: "faiss_index_inv ref_faiss ref_vecs ref_dist rev ix" "same_params demo_index ix"
    "faiss_index_docs ref_vecs ix = {#(15, [1, 1])#}" "index_known faiss_known ix \<subseteq> {15}"
    unfolding faiss_index_inv_def by auto
  obtain n where n: "n \<notin> seg_id ` set (ix_store ix)" using ex_new_if_finite [of "seg_id ` set (ix_store ix)"] infinite_UNIV_nat by auto
  let ?s = "\<lparr>seg_index = demo_faiss, seg_id = n, seg_type = 0 :: int\<rparr>"
  have s: "faiss_inv ref_faiss ref_vecs (seg_index ?s)" "seg_id ?s \<notin> seg_id ` set (ix_store ix)"
    "length (faiss_docs ref_vecs (seg_index ?s)) \<le> 2 ^ 63" "faiss_known (seg_index ?s) \<inter> index_known faiss_known ix = {}"
    "faiss_shape ref_faiss (seg_index ?s) = faiss_shape ref_faiss (sf_index (ix_factory ix))"
    using demo_faiss_inv n ix(2,4) I(6)
    by (auto simp: demo_faiss_docs faiss_known_def demo_faiss_fields same_params_def faiss_shape_def faiss_new_def ref_faiss_def)
  from index_pushSegment_documents [OF ix(1) s(1,5,3,4,2), of "\<lambda>_. []"] obtain ix' ev'
    where "index_pushSegment (faiss_vtable ref_faiss rev (\<lambda>_. [])) ix (Some ?s) = Inr (ix', ev')"
      "faiss_index_inv ref_faiss ref_vecs ref_dist rev ix'"
      "faiss_index_docs ref_vecs ix' = {#(15, [1, 1])#} + mset (faiss_docs ref_vecs (seg_index ?s))" unfolding ix(3) by blast
  with ix(3) show ?thesis by (intro exI [of _ ix] exI [of _ n] exI [of _ ix'] exI [of _ ev']) (simp add: demo_faiss_docs)
qed

text \<open>
  A merged segment is searched more than once. Merging takes the identifiers of both segments
  for erasure, gives the surviving segment \<open>p\<close> a new identifier and appends it to the searched
  segments again; looking for its old identifier then finds nothing, so every merge that \<open>p\<close>
  survives leaves one more copy of it among the searched segments.
\<close>

theorem merge_leaves_copy:
  fixes F :: "('b, 'f::{linorder, zero}) faiss_lib" and it :: "(int \<times> 'id::linorder) list \<Rightarrow> _"
  assumes inv: "faiss_index_inv F vecs dist it ix" and fresh: "fresh_rng (seg_id ` set (ix_store ix)) g"
    and i: "i < length (levels (ix_storage ix))" and j: "j + 1 < length (levels (ix_storage ix) ! i)"
    and p: "levels (ix_storage ix) ! i ! j = Some p" and q: "levels (ix_storage ix) ! i ! (j + 1) = Some q"
  shows "\<exists>c. merge_pair (faiss_vtable F it ser) i j p q \<lparr>mc_ix = ix, mc_rng = g, mc_amount = amount,
        mc_erased = [], mc_inserted = [], mc_events = []\<rparr> = Inr c \<and>
    count_list (ix_segments (mc_ix (merge_publish c))) p = count_list (ix_segments ix) p + 1 \<and>
    2 \<le> count_list (ix_segments (mc_ix (merge_publish c))) p"
proof -
  let ?c = "\<lparr>mc_ix = ix, mc_rng = g, mc_amount = amount, mc_erased = [], mc_inserted = [], mc_events = []\<rparr>"
  let ?wf = "merge_wf (faiss_ok F vecs dist it) (faiss_shape F) (\<lambda>x. fx_d F (fi_index x))
    (faiss_docs vecs) faiss_known"
  have wf: "?wf ?c" using inv fresh by (simp add: merge_wf_def faiss_index_inv_def index_inv_def)
  note W = index_wfD [OF merge_wfD(1) [OF wf], simplified]
  note O = paired_owners [OF W(2) i j p q]
  from faiss.merge_pair_ok [OF wf, of i j p q ser] i j p q obtain c
    where c: "merge_pair (faiss_vtable F it ser) i j p q ?c = Inr c" "?wf c" by auto
  then have "mc_inserted c = [p]" "ix_segments (mc_ix c) = ix_segments ix"
    by (auto simp: merge_pair_def Let_def rand_def bindR_eq_Inr)
  moreover have "p \<in> set (level_ptrs (mc_levels c))"
    using merge_pair_levels [OF c(1)] O(3,4,5) by simp
  ultimately have "count_list (ix_segments (mc_ix (merge_publish c))) p = count_list (ix_segments ix) p + 1"
    using merge_publish_count [OF c(2)] by simp
  moreover have "p \<in> set (ix_segments ix)" using O(5) W(3) by blast
  then have "0 < count_list (ix_segments ix) p" by (metis count_list_0_iff gr0I)
  ultimately show ?thesis using c(1) by simp
qed

text \<open>The new index with two segments pushed into it.\<close>

definition demo_segment :: "nat \<Rightarrow> (ref_base, nat) FaissIndex Segment" where
  "demo_segment n = \<lparr>seg_index = faiss_new ref_faiss (FlatArgs 2 METRIC_L1), seg_id = n, seg_type = 0\<rparr>"

definition demo_push :: "(ref_base, nat) FaissIndex Index \<Rightarrow> nat \<Rightarrow> (ref_base, nat) FaissIndex Index" where
  "demo_push ix n = fst (projr (index_pushSegment (faiss_vtable ref_faiss rev (\<lambda>_. [])) ix (Some (demo_segment n))))"

lemma demo_push_ok:
  assumes "faiss_index_inv ref_faiss ref_vecs ref_dist rev ix" and "n \<notin> seg_id ` set (ix_store ix)"
    and "ix_factory ix = faiss_factory ref_faiss (FlatArgs 2 METRIC_L1)"
  shows "faiss_index_inv ref_faiss ref_vecs ref_dist rev (demo_push ix n)"
    and "ix_store (demo_push ix n) = ix_store ix @ [demo_segment n]"
    and "ix_factory (demo_push ix n) = ix_factory ix"
proof -
  have ok: "faiss_ok ref_faiss ref_vecs ref_dist rev (seg_index (demo_segment n))"
    by (simp add: demo_segment_def faiss_ok_def ref_faiss_contract reorders_rev faiss_inv_new [OF ref_faiss_contract])
  from faiss.index_pushSegment_ok [OF assms(1) [unfolded faiss_index_inv_def] ok, of "\<lambda>_. []"] assms(2,3)
  obtain ix' ev where push: "index_pushSegment (faiss_vtable ref_faiss rev (\<lambda>_. [])) ix (Some (demo_segment n)) = Inr (ix', ev)"
    and "faiss_index_inv ref_faiss ref_vecs ref_dist rev ix'" "same_params ix ix'"
    "ix_store ix' = ix_store ix @ [demo_segment n]"
    unfolding faiss_index_inv_def by (auto simp: demo_segment_def)
  then show "faiss_index_inv ref_faiss ref_vecs ref_dist rev (demo_push ix n)"
    "ix_store (demo_push ix n) = ix_store ix @ [demo_segment n]"
    "ix_factory (demo_push ix n) = ix_factory ix"
    by (simp_all add: demo_push_def push same_params_def)
qed

lemma demo_two_ok:
  "faiss_index_inv ref_faiss ref_vecs ref_dist rev (demo_push (demo_push demo_index 7) 8)"
  "fresh_rng (seg_id ` set (ix_store (demo_push (demo_push demo_index 7) 8))) (\<lambda>n. n + 9)"
  "levels (ix_storage (demo_push (demo_push demo_index 7) 8)) = [[Some 1, Some 2]]"
  "ix_segments (demo_push (demo_push demo_index 7) 8) = [1, 2]"
proof -
  have store: "seg_id ` set (ix_store demo_index) = {0}"
    by (simp add: demo_index_def index_new_def factory_create_def segment_new_def rand_def)
  have one: "faiss_index_inv ref_faiss ref_vecs ref_dist rev (demo_push demo_index 7)"
    "ix_store (demo_push demo_index 7) = ix_store demo_index @ [demo_segment 7]"
    "ix_factory (demo_push demo_index 7) = faiss_factory ref_faiss (FlatArgs 2 METRIC_L1)"
    using demo_push_ok [OF demo_index_ok(1), of 7] demo_index_ok(6) store by auto
  have two: "faiss_index_inv ref_faiss ref_vecs ref_dist rev (demo_push (demo_push demo_index 7) 8)"
    "ix_store (demo_push (demo_push demo_index 7) 8) = ix_store (demo_push demo_index 7) @ [demo_segment 8]"
    using demo_push_ok [OF one(1), of 8] one store by (auto simp: demo_segment_def)
  show "faiss_index_inv ref_faiss ref_vecs ref_dist rev (demo_push (demo_push demo_index 7) 8)" by (rule two)
  show "fresh_rng (seg_id ` set (ix_store (demo_push (demo_push demo_index 7) 8))) (\<lambda>n. n + 9)"
    using store by (auto simp: two(2) one(2) demo_segment_def fresh_rng_def inj_on_def)
  have size: "seg_size (faiss_vtable ref_faiss rev (\<lambda>_. [])) (demo_segment n) = 0" for n
    by (simp add: seg_size_def faiss_vtable_def demo_segment_def faiss_size_def faiss_new_def)
  show "levels (ix_storage (demo_push (demo_push demo_index 7) 8)) = [[Some 1, Some 2]]"
    "ix_segments (demo_push (demo_push demo_index 7) 8) = [1, 2]"
    by (simp_all add: demo_push_def index_pushSegment_def Let_def size storage_add_def size_add_def storage_level.simps
        demo_index_def index_new_def factory_create_def segment_new_def rand_def)
qed

theorem merge_leaves_copy_witness:
  "\<exists>c. merge_pair (faiss_vtable ref_faiss rev (\<lambda>_. [])) 0 0 1 2 \<lparr>mc_ix = demo_push (demo_push demo_index 7) 8,
        mc_rng = (\<lambda>n. n + 9), mc_amount = 200, mc_erased = [], mc_inserted = [], mc_events = []\<rparr> = Inr c \<and>
    count_list (ix_segments (mc_ix (merge_publish c))) 1 = 2"
  using merge_leaves_copy [OF demo_two_ok(1,2), of 0 0 1 2 "\<lambda>_. []" 200]
  by (auto simp: demo_two_ok(3,4) numeral_2_eq_2)

end
