(* ===== verification/Index_Factory.thy ===== *)
theory Index_Factory
  imports Vecodex_Index
begin

text \<open>
  \<open>CreateIndex\<close> of \<open>index/baselines/IndexFactory.h\<close>: an index from its JSON description. The JSON
  library is a parameter, a record of the calls the program makes.
\<close>

section \<open>The JSON library\<close>

text \<open>
  \<open>js_at\<close> is \<open>operator[]\<close> on an object that is not changed, \<open>js_get_\<dots>\<close> are the instances of
  \<open>get\<close>, \<open>js_items\<close> the values that a range-based \<open>for\<close> visits, \<open>js_set\<close> assignment to
  \<open>operator[]\<close>, \<open>js_null\<close> the value of a new variable, \<open>js_parse\<close> parses a text.
\<close>

record 'j json_lib =
  js_at :: "'j \<Rightarrow> string \<Rightarrow> 'j outcome"
  js_get_string :: "'j \<Rightarrow> string outcome"
  js_get_int :: "'j \<Rightarrow> int outcome"
  js_get_bool :: "'j \<Rightarrow> bool outcome"
  js_items :: "'j \<Rightarrow> 'j list"
  js_set :: "'j \<Rightarrow> string \<Rightarrow> 'j \<Rightarrow> 'j outcome"
  js_of_string :: "string \<Rightarrow> 'j"
  js_null :: 'j
  js_parse :: "string \<Rightarrow> 'j outcome"

definition json_string :: "'j json_lib \<Rightarrow> 'j \<Rightarrow> string \<Rightarrow> string outcome" where
  "json_string J j key = bindR (js_at J j key) (js_get_string J)"

definition json_int :: "'j json_lib \<Rightarrow> 'j \<Rightarrow> string \<Rightarrow> int outcome" where
  "json_int J j key = bindR (js_at J j key) (js_get_int J)"

definition json_bool :: "'j json_lib \<Rightarrow> 'j \<Rightarrow> string \<Rightarrow> bool outcome" where
  "json_bool J j key = bindR (js_at J j key) (js_get_bool J)"

section \<open>The code\<close>

definition faissFlat :: string where
  "faissFlat = ''faissFlat''"

definition faissHNSWFlat :: string where
  "faissHNSWFlat = ''faissHNSWFlat''"

definition faiss_metric_map :: "(string \<times> MetricType) list" where
  "faiss_metric_map = [(''L1'', METRIC_L1), (''L2'', METRIC_L2), (''Linf'', METRIC_Linf)]"

definition metric_at :: "string \<Rightarrow> MetricType outcome" where
  "metric_at metric = (case map_of faiss_metric_map metric of None \<Rightarrow> Inl OutOfRange | Some m \<Rightarrow> Inr m)"

definition CreateIndex ::
  "('b, 'f) faiss_lib \<Rightarrow> 'j json_lib \<Rightarrow> 'j \<Rightarrow> rng \<Rightarrow> (('b, 'id) FaissIndex Index \<times> rng) outcome" where
  "CreateIndex F J json g =
     bindR (json_string J json ''type'') (\<lambda>type.
     bindR (json_string J json ''library'') (\<lambda>lib.
     bindR (json_int J json ''dim'') (\<lambda>dim.
     bindR (json_int J json ''threshold'') (\<lambda>threshold.
     bindR (json_string J json ''metric'') (\<lambda>metric.
     bindR (json_bool J json ''enable_merge'') (\<lambda>enable_merge.
       if lib = ''faiss'' then
         bindR (metric_at metric) (\<lambda>metric_type.
           if type = faissFlat then
             Inr (index_new dim threshold enable_merge (faiss_factory F (FlatArgs dim metric_type)) g)
           else if type = faissHNSWFlat then
             bindR (json_int J json ''M'') (\<lambda>M.
               Inr (index_new dim threshold enable_merge (faiss_factory F (HNSWFlatArgs dim M metric_type)) g))
           else Inl (RuntimeError (''Doesn't support index type '' @ type)))
       else Inl (RuntimeError (''Doesn't support such library as '' @ lib))))))))"

section \<open>What it creates\<close>

text \<open>A description with all the fields, and the FAISS constructor arguments it stands for.\<close>

definition describes ::
  "'j json_lib \<Rightarrow> 'j \<Rightarrow> string \<Rightarrow> string \<Rightarrow> int \<Rightarrow> int \<Rightarrow> string \<Rightarrow> bool \<Rightarrow> bool" where
  "describes J json type lib dim threshold metric enable_merge \<longleftrightarrow>
     json_string J json ''type'' = Inr type \<and> json_string J json ''library'' = Inr lib \<and>
     json_int J json ''dim'' = Inr dim \<and> json_int J json ''threshold'' = Inr threshold \<and>
     json_string J json ''metric'' = Inr metric \<and> json_bool J json ''enable_merge'' = Inr enable_merge"

definition created_args :: "'j json_lib \<Rightarrow> 'j \<Rightarrow> string \<Rightarrow> string \<Rightarrow> int \<Rightarrow> string \<Rightarrow> faiss_args outcome" where
  "created_args J json type lib dim metric =
     (if lib \<noteq> ''faiss'' then Inl (RuntimeError (''Doesn't support such library as '' @ lib))
      else if metric \<notin> {''L1'', ''L2'', ''Linf''} then Inl OutOfRange
      else
        let m = (if metric = ''L1'' then METRIC_L1 else if metric = ''L2'' then METRIC_L2 else METRIC_Linf) in
        if type = ''faissFlat'' then Inr (FlatArgs dim m)
        else if type = ''faissHNSWFlat'' then bindR (json_int J json ''M'') (\<lambda>M. Inr (HNSWFlatArgs dim M m))
        else Inl (RuntimeError (''Doesn't support index type '' @ type)))"

lemma metric_at_simps:
  "metric_at metric = (if metric \<notin> {''L1'', ''L2'', ''Linf''} then Inl OutOfRange
     else Inr (if metric = ''L1'' then METRIC_L1 else if metric = ''L2'' then METRIC_L2 else METRIC_Linf))"
  by (auto simp: metric_at_def faiss_metric_map_def)

lemma CreateIndex_described:
  assumes "describes J json type lib dim threshold metric enable_merge"
  shows "CreateIndex F J json g = bindR (created_args J json type lib dim metric)
    (\<lambda>args. Inr (index_new dim threshold enable_merge (faiss_factory F args) g))"
  using assms
  by (auto simp: CreateIndex_def describes_def created_args_def metric_at_simps faissFlat_def faissHNSWFlat_def
      Let_def bindR_assoc)

text \<open>An index as the constructor leaves it: one empty segment, the one being filled.\<close>

definition fresh_index :: "nat \<Rightarrow> 'x Index \<Rightarrow> bool" where
  "fresh_index n ix \<longleftrightarrow>
     ix_store ix = [\<lparr>seg_index = sf_index (ix_factory ix), seg_id = n, seg_type = sf_type (ix_factory ix)\<rparr>] \<and>
     ix_segments ix = [] \<and> ix_last ix = 0 \<and> levels (ix_storage ix) = []"

lemma CreateIndex_ok:
  fixes F :: "('b, 'f::{linorder, zero}) faiss_lib" and it :: "(int \<times> 'id::linorder) list \<Rightarrow> _"
  assumes "faiss_contract F vecs dist" and "reorders it" and "inj g"
    and "describes J json type lib dim threshold metric enable_merge"
    and "0 < threshold" "threshold < 2 ^ 31" and "0 \<le> dim" "dim < 2 ^ 31"
    and args: "created_args J json type lib dim metric = Inr args" and dim: "fx_d F (fx_make F args) = nat dim"
  shows "\<exists>ix g'. CreateIndex F J json g = Inr (ix, g') \<and> faiss_index_inv F vecs dist it ix \<and>
    faiss_index_docs vecs ix = {#} \<and> index_known faiss_known ix = {} \<and>
    fresh_rng (seg_id ` set (ix_store ix)) g' \<and> ix_factory ix = faiss_factory F args \<and> ix_threshold ix = nat threshold \<and>
    ix_enable_merge ix = enable_merge \<and> \<not> ix_callback ix \<and> g' = (\<lambda>i. g (Suc i)) \<and>
    fresh_index (g 0) ix"
proof -
  let ?f = "faiss_factory F args :: ('b, 'id) FaissIndex SegmentFactory"
  obtain ix g' where new: "index_new dim threshold enable_merge ?f g = (ix, g')" by fastforce
  have empty: "faiss_docs vecs (sf_index ?f) = []" "faiss_known (sf_index ?f) = {}"
    by (simp_all add: faiss_docs_def faiss_known_def faiss_new_def)
  note ok = faiss.index_new_ok [OF faiss_factory_ok(1) [OF assms(1,2)] empty _ assms(5,6) new assms(3)]
  have "ix_threshold ix = nat threshold" "ix_enable_merge ix = enable_merge" "\<not> ix_callback ix"
    using new assms(5,6) by (auto simp: index_new_def Let_def case_prod_unfold)
  moreover have "g' = (\<lambda>i. g (Suc i))" "fresh_index (g 0) ix"
    using new by (auto simp: fresh_index_def index_new_def Let_def factory_create_def segment_new_def rand_def)
  moreover have "CreateIndex F J json g = Inr (ix, g')"
    by (simp add: CreateIndex_described [OF assms(4)] args new)
  ultimately show ?thesis using ok dim assms(7,8) by (auto simp: faiss_index_inv_def)
qed

text \<open>
  C25. \<open>CreateIndex\<close> on a complete description with a positive threshold. For the library \<open>faiss\<close>, the
  metrics \<open>L1\<close>, \<open>L2\<close> and \<open>Linf\<close> and the types \<open>faissFlat\<close> and \<open>faissHNSWFlat\<close> it returns an index without
  documents whose segments are FAISS indexes of that type, dimension and metric, for HNSW with the
  described \<open>M\<close>. It has the described threshold and merging policy and satisfies the invariant on which
  searching, adding, erasing, merging and pushing rely. An unknown library or type is a \<open>runtime_error\<close>
  that names it, an unknown metric an \<open>out_of_range\<close>, and without a readable \<open>M\<close> the exception of the
  JSON library is passed on.
\<close>

theorem create_index_invariant:
  fixes F :: "('b, 'f::{linorder, zero}) faiss_lib" and it :: "(int \<times> 'id::linorder) list \<Rightarrow> _"
  assumes "faiss_contract F vecs dist" and "reorders it" and "inj g"
    and "describes J json type lib dim threshold metric enable_merge"
    and "0 < threshold" "threshold < 2 ^ 31" and "0 \<le> dim" "dim < 2 ^ 31"
    and "\<forall>m M. fx_d F (fx_make F (FlatArgs dim m)) = nat dim \<and> fx_d F (fx_make F (HNSWFlatArgs dim M m)) = nat dim"
  shows "(lib \<noteq> ''faiss'' \<longrightarrow> CreateIndex F J json g = (Inl (RuntimeError (''Doesn't support such library as '' @ lib))
      :: (('b, 'id) FaissIndex Index \<times> rng) outcome)) \<and>
    (lib = ''faiss'' \<and> metric \<notin> {''L1'', ''L2'', ''Linf''} \<longrightarrow>
      CreateIndex F J json g = (Inl OutOfRange :: (('b, 'id) FaissIndex Index \<times> rng) outcome)) \<and>
    (lib = ''faiss'' \<and> metric \<in> {''L1'', ''L2'', ''Linf''} \<and> type \<notin> {''faissFlat'', ''faissHNSWFlat''} \<longrightarrow>
      CreateIndex F J json g = (Inl (RuntimeError (''Doesn't support index type '' @ type))
        :: (('b, 'id) FaissIndex Index \<times> rng) outcome)) \<and>
    (\<forall>e. lib = ''faiss'' \<and> metric \<in> {''L1'', ''L2'', ''Linf''} \<and> type = ''faissHNSWFlat'' \<and>
      json_int J json ''M'' = Inl e \<longrightarrow> CreateIndex F J json g = (Inl e :: (('b, 'id) FaissIndex Index \<times> rng) outcome)) \<and>
    (\<forall>m M args. lib = ''faiss'' \<and> (metric, m) \<in> {(''L1'', METRIC_L1), (''L2'', METRIC_L2), (''Linf'', METRIC_Linf)} \<and>
      (type = ''faissFlat'' \<and> args = FlatArgs dim m \<or>
       type = ''faissHNSWFlat'' \<and> json_int J json ''M'' = Inr M \<and> args = HNSWFlatArgs dim M m) \<longrightarrow>
      (\<exists>ix g'. CreateIndex F J json g = Inr (ix, g') \<and> faiss_index_inv F vecs dist it ix \<and>
        ix_factory ix = faiss_factory F args \<and>
        faiss_index_docs vecs ix = {#} \<and> fresh_rng (seg_id ` set (ix_store ix)) g' \<and>
        faiss_index_dim F ix = nat dim \<and> ix_threshold ix = nat threshold \<and>
        ix_enable_merge ix = enable_merge \<and> \<not> ix_callback ix))"
proof (intro conjI impI allI; (elim conjE)?)
  note created = CreateIndex_described [OF assms(4), of F g] created_args_def
  show "CreateIndex F J json g = (Inl (RuntimeError (''Doesn't support such library as '' @ lib))
      :: (('b, 'id) FaissIndex Index \<times> rng) outcome)" if "lib \<noteq> ''faiss''"
    using that by (simp add: created)
  show "CreateIndex F J json g = (Inl OutOfRange :: (('b, 'id) FaissIndex Index \<times> rng) outcome)"
    if "lib = ''faiss''" "metric \<notin> {''L1'', ''L2'', ''Linf''}"
    using that by (simp add: created)
  show "CreateIndex F J json g = (Inl (RuntimeError (''Doesn't support index type '' @ type))
      :: (('b, 'id) FaissIndex Index \<times> rng) outcome)"
    if "lib = ''faiss''" "metric \<in> {''L1'', ''L2'', ''Linf''}" "type \<notin> {''faissFlat'', ''faissHNSWFlat''}"
    using that by (auto simp: created)
  show "CreateIndex F J json g = (Inl e :: (('b, 'id) FaissIndex Index \<times> rng) outcome)"
    if "lib = ''faiss''" "metric \<in> {''L1'', ''L2'', ''Linf''}" "type = ''faissHNSWFlat''" "json_int J json ''M'' = Inl e" for e
    using that by (auto simp: created)
next
  fix m M args
  assume "lib = ''faiss''" and "(metric, m) \<in> {(''L1'', METRIC_L1), (''L2'', METRIC_L2), (''Linf'', METRIC_Linf)}"
    and "type = ''faissFlat'' \<and> args = FlatArgs dim m \<or>
       type = ''faissHNSWFlat'' \<and> json_int J json ''M'' = Inr M \<and> args = HNSWFlatArgs dim M m"
  then have args: "created_args J json type lib dim metric = Inr args" and dim: "fx_d F (fx_make F args) = nat dim"
    using assms(9) by (auto simp: created_args_def)
  from CreateIndex_ok [OF assms(1-8) args dim] dim
  show "\<exists>ix g'. CreateIndex F J json g = Inr (ix, g') \<and> faiss_index_inv F vecs dist it ix \<and>
      ix_factory ix = faiss_factory F args \<and>
      faiss_index_docs vecs ix = {#} \<and> fresh_rng (seg_id ` set (ix_store ix)) g' \<and>
      faiss_index_dim F ix = nat dim \<and> ix_threshold ix = nat threshold \<and>
      ix_enable_merge ix = enable_merge \<and> \<not> ix_callback ix"
    by fastforce
qed

text \<open>A JSON library of objects with string, number and boolean fields, and a description.\<close>

datatype ref_json =
    JNull
  | JString string
  | JInt int
  | JBool bool
  | JArray "ref_json list"
  | JObject "(string \<times> ref_json) list"

definition ref_json_lib :: "ref_json json_lib" where
  "ref_json_lib = \<lparr>
     js_at = (\<lambda>j key. case j of JObject fs \<Rightarrow> Inr (case map_of fs key of Some v \<Rightarrow> v | None \<Rightarrow> JNull)
       | _ \<Rightarrow> Inl (LibraryError ''type_error'')),
     js_get_string = (\<lambda>j. case j of JString s \<Rightarrow> Inr s | _ \<Rightarrow> Inl (LibraryError ''type_error'')),
     js_get_int = (\<lambda>j. case j of JInt i \<Rightarrow> Inr i | _ \<Rightarrow> Inl (LibraryError ''type_error'')),
     js_get_bool = (\<lambda>j. case j of JBool b \<Rightarrow> Inr b | _ \<Rightarrow> Inl (LibraryError ''type_error'')),
     js_items = (\<lambda>j. case j of JArray js \<Rightarrow> js | JObject fs \<Rightarrow> map snd fs | JNull \<Rightarrow> [] | _ \<Rightarrow> [j]),
     js_set = (\<lambda>j key v. case j of JObject fs \<Rightarrow> Inr (JObject (AList.update key v fs))
       | JNull \<Rightarrow> Inr (JObject [(key, v)]) | _ \<Rightarrow> Inl (LibraryError ''type_error'')),
     js_of_string = JString,
     js_null = JNull,
     js_parse = (\<lambda>s. if s = ''{}'' then Inr (JObject []) else Inl (LibraryError ''parse_error''))\<rparr>"

definition demo_description :: ref_json where
  "demo_description = JObject [(''type'', JString ''faissFlat''), (''library'', JString ''faiss''),
     (''dim'', JInt 2), (''threshold'', JInt 3), (''metric'', JString ''L1''), (''enable_merge'', JBool True)]"

lemma demo_describes:
  "describes ref_json_lib demo_description ''faissFlat'' ''faiss'' 2 3 ''L1'' True"
  by (simp add: describes_def json_string_def json_int_def json_bool_def ref_json_lib_def demo_description_def)

theorem create_index_invariant_witness:
  "(\<exists>(ix :: (ref_base, nat) FaissIndex Index) g'.
    CreateIndex ref_faiss ref_json_lib demo_description (\<lambda>n. n) = Inr (ix, g') \<and>
    faiss_index_inv ref_faiss ref_vecs ref_dist rev ix \<and> ix_factory ix = faiss_factory ref_faiss (FlatArgs 2 METRIC_L1) \<and>
    faiss_index_docs ref_vecs ix = {#} \<and> fresh_rng (seg_id ` set (ix_store ix)) g' \<and>
    faiss_index_dim ref_faiss ix = nat 2 \<and> ix_threshold ix = nat 3 \<and> ix_enable_merge ix = True \<and> \<not> ix_callback ix) \<and>
    CreateIndex ref_faiss ref_json_lib (JObject [(''type'', JString ''annoy''), (''library'', JString ''faiss''),
      (''dim'', JInt 2), (''threshold'', JInt 3), (''metric'', JString ''L1''), (''enable_merge'', JBool True)]) (\<lambda>n. n) =
      (Inl (RuntimeError ''Doesn't support index type annoy'') :: ((ref_base, nat) FaissIndex Index \<times> rng) outcome)"
proof -
  let ?annoy = "JObject [(''type'', JString ''annoy''), (''library'', JString ''faiss''),
      (''dim'', JInt 2), (''threshold'', JInt 3), (''metric'', JString ''L1''), (''enable_merge'', JBool True)]"
  have g: "inj (\<lambda>n :: nat. n)" by simp
  have d: "describes ref_json_lib ?annoy ''annoy'' ''faiss'' 2 3 ''L1'' True"
    by (simp add: describes_def json_string_def json_int_def json_bool_def ref_json_lib_def)
  have bounds: "(0::int) < 3" "(3::int) < 2 ^ 31" "(0::int) \<le> 2" "(2::int) < 2 ^ 31"
    "\<forall>m M. fx_d ref_faiss (fx_make ref_faiss (FlatArgs 2 m)) = nat 2 \<and> fx_d ref_faiss (fx_make ref_faiss (HNSWFlatArgs 2 M m)) = nat 2"
    by (simp_all add: ref_make_dim)
  note C = create_index_invariant [where F = ref_faiss and it = "rev :: (int \<times> nat) list \<Rightarrow> _", OF ref_faiss_contract reorders_rev g]
  note flat = C [OF demo_describes bounds, THEN conjunct2, THEN conjunct2, THEN conjunct2, THEN conjunct2]
  note unknown = C [OF d bounds, THEN conjunct2, THEN conjunct2, THEN conjunct1]
  show ?thesis
    using flat [THEN spec, of METRIC_L1, THEN spec, of 0, THEN spec, of "FlatArgs 2 METRIC_L1"] unknown by simp
qed

end
