(* ===== verification/Index_Ids.thy ===== *)
theory Index_Ids
  imports Index_Model
begin

text \<open>
  Where the identifiers of segments come from: \<open>Index::add\<close> and the merging it triggers take them from
  the random numbers one after the other, so several indexes that share the source of random numbers
  keep different identifiers.
\<close>

definition seg_ids :: "'x Index \<Rightarrow> nat set" where
  "seg_ids ix = seg_id ` set (ix_store ix)"

text \<open>\<open>(ix', g')\<close> comes from \<open>(ix, g)\<close> by drawing identifiers.\<close>

definition draws :: "'x Index \<Rightarrow> rng \<Rightarrow> 'x Index \<Rightarrow> rng \<Rightarrow> bool" where
  "draws ix g ix' g' \<longleftrightarrow> range g' \<subseteq> range g \<and> seg_ids ix' \<subseteq> seg_ids ix \<union> range g"

lemma draws_refl: "seg_ids ix' \<subseteq> seg_ids ix \<Longrightarrow> draws ix g ix' g"
  by (auto simp: draws_def)

lemma draws_trans: "draws ix g ix' g' \<Longrightarrow> draws ix' g' ix'' g'' \<Longrightarrow> draws ix g ix'' g''"
  unfolding draws_def by blast

lemma seg_ids_update:
  "seg_ids (ix\<lparr>ix_store := (ix_store ix)[p := s]\<rparr>) \<subseteq> insert (seg_id s) (seg_ids ix)"
  using set_update_subset_insert [of "ix_store ix" p s] by (auto simp: seg_ids_def)

lemma merge_step_draws:
  assumes "merge_step V i j c = Inr c'"
  shows "draws (mc_ix c) (mc_rng c) (mc_ix c') (mc_rng c')"
proof (cases "c' = c")
  case True
  then show ?thesis by (simp add: draws_refl)
next
  case False
  with assms obtain p q where "merge_pair V i j p q c = Inr c'"
    by (auto simp: merge_step_def split: option.splits if_splits)
  then show ?thesis
    using set_update_subset_insert [of "ix_store (mc_ix c)" p]
    by (fastforce simp: merge_pair_def Let_def rand_def bindR_eq_Inr draws_def seg_ids_def)
qed

lemma merge_steps_draws:
  "foldR (merge_step V i) js c = Inr c' \<Longrightarrow> draws (mc_ix c) (mc_rng c) (mc_ix c') (mc_rng c')"
proof (induction js arbitrary: c)
  case Nil
  then show ?case by (simp add: draws_refl)
next
  case (Cons j js)
  then obtain d where "merge_step V i j c = Inr d" "foldR (merge_step V i) js d = Inr c'"
    by (auto simp: bindR_eq_Inr)
  then show ?case using Cons.IH merge_step_draws draws_trans by blast
qed

lemma merge_publish_draws:
  "mc_rng (merge_publish c) = mc_rng c" "seg_ids (mc_ix (merge_publish c)) = seg_ids (mc_ix c)"
  by (simp_all add: merge_publish_def Let_def seg_ids_def)

lemma merge_levels_draws:
  "merge_levels V i c = Inr c' \<Longrightarrow> draws (mc_ix c) (mc_rng c) (mc_ix c') (mc_rng c')"
proof (induction V i c rule: merge_levels.induct)
  case (1 V i c)
  show ?case
  proof (cases "0 < mc_amount c \<and> i < length (mc_levels c)")
    case True
    with "1.prems" obtain d where d: "merge_level V i c = Inr d" "merge_levels V (i + 1) d = Inr c'"
      by (auto simp: merge_levels.simps [of V i c] bindR_eq_Inr)
    from d(1) obtain e where "foldR (merge_step V i) [0..<length (mc_levels c ! i) - 1] c = Inr e" "d = merge_publish e"
      by (auto simp: merge_level_def bindR_eq_Inr)
    then have "draws (mc_ix c) (mc_rng c) (mc_ix d) (mc_rng d)"
      using merge_steps_draws by (fastforce simp: draws_def merge_publish_draws)
    from this "1.IH" [OF True d] show ?thesis by (rule draws_trans)
  next
    case False
    with "1.prems" show ?thesis by (auto simp: merge_levels.simps [of V i c] draws_refl)
  qed
qed

lemma storage_merge_draws:
  assumes "storage_merge V amount ix g = Inr (ix', g', ev)"
  shows "draws ix g ix' g'"
proof -
  from assms obtain c where c: "merge_levels V 0 \<lparr>mc_ix = ix, mc_rng = g, mc_amount = amount, mc_erased = [],
      mc_inserted = [], mc_events = []\<rparr> = Inr c" "ix_store ix' = ix_store (mc_ix c)" "g' = mc_rng c"
    by (auto simp: storage_merge_def bindR_eq_Inr)
  from merge_levels_draws [OF c(1)] show ?thesis by (simp add: c(2,3) draws_def seg_ids_def)
qed

lemma index_seal_draws:
  "index_seal V ix g = Inr (ix', g') \<Longrightarrow> draws ix g ix' g'"
  by (auto simp: index_seal_def bindR_eq_Inr Let_def factory_create_def segment_new_def rand_def draws_def seg_ids_def)

lemma seg_addVectorBatch_id:
  "seg_addVectorBatch V s n ids vs = Inr s' \<Longrightarrow> seg_id s' = seg_id s"
  by (auto simp: seg_addVectorBatch_def bindR_eq_Inr)

lemma index_add_loop_draws:
  "index_add_loop V n ids vs ix g ins = Inr (ix', g', ins') \<Longrightarrow> ix_last ix < length (ix_store ix) \<Longrightarrow> draws ix g ix' g'"
proof (induction V n ids vs ix g ins rule: index_add_loop.induct)
  case (1 V n ids vs ix g ins)
  show ?case
  proof (cases "n = 0")
    case True
    with "1.prems" show ?thesis by (auto simp: index_add_loop.simps [of V 0] draws_refl)
  next
    case False
    let ?batch = "min n (size_sub (ix_threshold ix) (seg_size V (seg_at ix (ix_last ix))))"
    have b: "?batch \<noteq> 0"
    proof
      assume "?batch = 0"
      with "1.prems"(1) False show False by (simp add: index_add_loop.simps [of V n] Let_def)
    qed
    with "1.prems"(1) False obtain s
      where s: "seg_addVectorBatch V (seg_at ix (ix_last ix)) ?batch ids vs = Inr s"
      by (auto simp: index_add_loop.simps [of V n] Let_def bindR_eq_Inr)
    let ?ix = "ix\<lparr>ix_store := (ix_store ix)[ix_last ix := s]\<rparr>"
    have one: "draws ix g ?ix g"
      using seg_ids_update [of ix "ix_last ix" s] seg_addVectorBatch_id [OF s] "1.prems"(2)
      by (intro draws_refl) (auto simp: seg_ids_def)
    show ?thesis
    proof (cases "seg_size V s = ix_threshold ?ix")
      case True
      with "1.prems"(1) False b s obtain ix1 g1 where
        seal: "index_seal V ?ix g = Inr (ix1, g1)" and
        rest: "index_add_loop V (n - ?batch) (drop ?batch ids) (drop (?batch * to_size_t (ix_d ?ix)) vs) ix1 g1
          (ins @ [ix_last ix]) = Inr (ix', g', ins')"
        by (auto simp: index_add_loop.simps [of V n] Let_def bindR_eq_Inr)
      have "ix_last ix1 < length (ix_store ix1)"
        using seal by (auto simp: index_seal_def bindR_eq_Inr Let_def factory_create_def segment_new_def rand_def)
      with "1.IH"(1) [OF False refl refl b s refl refl refl True seal refl] rest
      have "draws ix1 g1 ix' g'" by simp
      then show ?thesis using one index_seal_draws [OF seal] draws_trans by blast
    next
      case False2: False
      with "1.prems"(1) False b s have
        rest: "index_add_loop V (n - ?batch) (drop ?batch ids) (drop (?batch * to_size_t (ix_d ?ix)) vs) ?ix g ins =
          Inr (ix', g', ins')"
        by (auto simp: index_add_loop.simps [of V n] Let_def)
      with "1.IH"(2) [OF False refl refl b s refl refl refl False2] "1.prems"(2) have "draws ?ix g ix' g'" by simp
      then show ?thesis using one draws_trans by blast
    qed
  qed
qed

lemma index_add_draws:
  assumes "index_add V n ids vs ix g = Inr (ix', g', ev)" and "ix_last ix < length (ix_store ix)"
  shows "draws ix g ix' g'"
proof -
  from assms(1) obtain ix1 g1 ins where l: "index_add_loop V n ids vs ix g [] = Inr (ix1, g1, ins)"
    and r: "(ix', g') = (ix1, g1) \<or> (\<exists>ev'. storage_merge V 200 ix1 g1 = Inr (ix', g', ev'))"
    by (auto simp: index_add_def Let_def bindR_eq_Inr split: if_splits)
  from index_add_loop_draws [OF l assms(2)] r storage_merge_draws draws_trans show ?thesis by blast
qed

end
