(* ===== verification/Binary_IO.thy ===== *)
theory Binary_IO
  imports Vecodex_Prelude "HOL-Library.Sublist"
begin

text \<open>
  \<open>writeBinary\<close> and \<open>readBinary\<close> of \<open>index/baselines/io.h\<close>. A file is its list of bytes; reading
  returns the rest of the file. Numbers are stored in the little-endian representation of the
  machine, a \<open>std::string\<close> as its size followed by its characters. Neither function looks at the
  result of \<open>fread\<close>: at the end of the file the variable keeps its value, and an element that is
  cut off is indeterminate. The locale \<open>binary_codec\<close> is what a user of the two functions relies on.
\<close>

section \<open>Bytes\<close>

fun le_bytes :: "nat \<Rightarrow> nat \<Rightarrow> string" where
  "le_bytes 0 n = []"
| "le_bytes (Suc w) n = char_of (n mod 256) # le_bytes w (n div 256)"

fun le_value :: "string \<Rightarrow> nat" where
  "le_value [] = 0"
| "le_value (c # s) = of_char c + 256 * le_value s"

lemma length_le_bytes [simp]: "length (le_bytes w n) = w"
  by (induction w arbitrary: n) auto

lemma le_value_bytes [simp]: "le_value (le_bytes w n) = n mod 256 ^ w"
proof (induction w arbitrary: n)
  case (Suc w)
  have "n mod 256 ^ Suc w = n mod 256 + 256 * (n div 256 mod 256 ^ w)"
    using mod_mult2_eq [of n 256 "256 ^ w"] by simp
  with Suc show ?case by simp
qed simp

section \<open>The code\<close>

text \<open>
  \<open>std::fread(&value, w, 1, fd)\<close> into a variable of \<open>w\<close> bytes whose value before the call is
  \<open>old\<close> (None: not initialised).
\<close>

definition fread :: "nat \<Rightarrow> nat option \<Rightarrow> string \<Rightarrow> (nat \<times> string) outcome" where
  "fread w old s =
     (if w \<le> length s then Inr (le_value (take w s), drop w s)
      else if s = [] then (case old of None \<Rightarrow> Inl Indeterminate | Some v \<Rightarrow> Inr (v, []))
      else Inl Indeterminate)"

text \<open>Numbers of \<open>w\<close> bytes: unsigned, and signed in two's complement.\<close>

definition write_unsigned :: "nat \<Rightarrow> nat \<Rightarrow> string" where
  "write_unsigned w n = le_bytes w n"

definition write_signed :: "nat \<Rightarrow> int \<Rightarrow> string" where
  "write_signed w i = le_bytes w (nat (i mod 256 ^ w))"

definition to_signed :: "nat \<Rightarrow> nat \<Rightarrow> int" where
  "to_signed w n = (if 2 * int n < 256 ^ w then int n else int n - 256 ^ w)"

definition read_unsigned :: "nat \<Rightarrow> nat option \<Rightarrow> string \<Rightarrow> (nat \<times> string) outcome" where
  "read_unsigned w old s = fread w old s"

definition read_signed :: "nat \<Rightarrow> int option \<Rightarrow> string \<Rightarrow> (int \<times> string) outcome" where
  "read_signed w old s =
     bindR (fread w (map_option (\<lambda>i. nat (i mod 256 ^ w)) old) s) (\<lambda>(n, r). Inr (to_signed w n, r))"

text \<open>
  The instances that the code uses: \<open>size_t\<close> (8 bytes), \<open>int\<close> (4 bytes), \<open>faiss::idx_t\<close> (8 bytes,
  signed), \<open>std::string\<close>. Strings are always read into a new, empty variable.
\<close>

definition writeBinary_size :: "nat \<Rightarrow> string" where
  "writeBinary_size = write_unsigned 8"

definition readBinary_size :: "nat option \<Rightarrow> string \<Rightarrow> (nat \<times> string) outcome" where
  "readBinary_size = read_unsigned 8"

definition writeBinary_int :: "int \<Rightarrow> string" where
  "writeBinary_int = write_signed 4"

definition readBinary_int :: "int option \<Rightarrow> string \<Rightarrow> (int \<times> string) outcome" where
  "readBinary_int = read_signed 4"

definition writeBinary_idx :: "int \<Rightarrow> string" where
  "writeBinary_idx = write_signed 8"

definition readBinary_idx :: "int option \<Rightarrow> string \<Rightarrow> (int \<times> string) outcome" where
  "readBinary_idx = read_signed 8"

definition string_max_size :: nat where
  "string_max_size = 2 ^ 63 - 2"

definition writeBinary_string :: "string \<Rightarrow> string" where
  "writeBinary_string v = write_unsigned 8 (length v) @ v"

definition readBinary_string :: "string \<Rightarrow> (string \<times> string) outcome" where
  "readBinary_string s =
     bindR (fread 8 (Some 0) s) (\<lambda>(sz, r).
       if string_max_size < sz then Inl LengthError
       else Inr (take sz r @ replicate (sz - length r) (CHR 0x00), drop sz r))"

section \<open>The interface\<close>

text \<open>
  \<open>put x\<close> is what is written for \<open>x\<close>, and reading it gives \<open>rep x\<close> and the rest of the file,
  whatever that is. When the file ends too early, the read fails or leaves nothing to read.
\<close>

definition cut_short :: "('a \<times> string) outcome \<Rightarrow> bool" where
  "cut_short m \<longleftrightarrow> m = Inl Indeterminate \<or> (\<exists>y. m = Inr (y, []))"

lemma cut_short_bind:
  "cut_short m \<Longrightarrow> (\<And>y. cut_short (f (y, []))) \<Longrightarrow> cut_short (bindR m f)"
  unfolding cut_short_def by (metis bindR_simps)

lemma cut_short_simps [simp]: "cut_short (Inr (y, []))" "cut_short (Inl Indeterminate)"
  by (simp_all add: cut_short_def)

locale binary_codec =
  fixes put :: "'a \<Rightarrow> string" and get :: "string \<Rightarrow> ('b \<times> string) outcome"
    and valid :: "'a \<Rightarrow> bool" and rep :: "'a \<Rightarrow> 'b"
  assumes get_put: "valid x \<Longrightarrow> get (put x @ r) = Inr (rep x, r)"
    and get_cut: "valid x \<Longrightarrow> strict_prefix s (put x) \<Longrightarrow> cut_short (get s)"
    and get_empty: "cut_short (get [])"
begin

text \<open>A file cut somewhere before its end: either inside this value or after it.\<close>

lemma bind_prefix:
  assumes "valid x" and "strict_prefix s (put x @ r)"
    and "\<And>s'. strict_prefix s' r \<Longrightarrow> P (f (rep x, s'))"
    and "\<And>y. P (f (y, []))" and "P (Inl Indeterminate)"
  shows "P (bindR (get s) f)"
proof (cases "prefix (put x) s")
  case True
  then obtain s' where s: "s = put x @ s'" by (auto elim: prefixE)
  with assms(1,2,3) show ?thesis by (simp add: get_put strict_prefix_def)
next
  case False
  with assms(2) have "strict_prefix s (put x)"
    by (metis prefix_order.less_imp_le prefix_def prefix_same_cases prefix_order.le_less)
  from get_cut [OF assms(1) this] assms(4,5) show ?thesis by (auto simp: cut_short_def)
qed

text \<open>
  A chain of reads on a file that ends too early, or that was already at its end: it fails with an
  indeterminate value or reads to the end.
\<close>

lemma bind_cut_short:
  assumes "valid x" and "strict_prefix s (put x @ r) \<or> s = []"
    and "\<And>y s'. strict_prefix s' r \<or> s' = [] \<Longrightarrow> cut_short (f (y, s'))"
  shows "cut_short (bindR (get s) f)"
  using assms(2)
proof
  assume "strict_prefix s (put x @ r)"
  then show ?thesis by (rule bind_prefix [OF assms(1)]) (auto intro: assms(3))
next
  assume "s = []"
  then show ?thesis by (auto intro: cut_short_bind get_empty assms(3))
qed

end

text \<open>Two values after one another, and a count followed by that many values, each inserted
  into a container.\<close>

definition get_pair ::
  "(string \<Rightarrow> ('a \<times> string) outcome) \<Rightarrow> (string \<Rightarrow> ('b \<times> string) outcome) \<Rightarrow>
    string \<Rightarrow> (('a \<times> 'b) \<times> string) outcome" where
  "get_pair get1 get2 s = bindR (get1 s) (\<lambda>(a, s). bindR (get2 s) (\<lambda>(b, s). Inr ((a, b), s)))"

fun read_loop ::
  "(string \<Rightarrow> ('a \<times> string) outcome) \<Rightarrow> ('a \<Rightarrow> 'm \<Rightarrow> 'm) \<Rightarrow> nat \<Rightarrow> 'm \<Rightarrow> string \<Rightarrow> ('m \<times> string) outcome" where
  "read_loop get ins 0 m s = Inr (m, s)"
| "read_loop get ins (Suc n) m s = bindR (get s) (\<lambda>(x, s). read_loop get ins n (ins x m) s)"

definition write_entries :: "('a \<Rightarrow> string) \<Rightarrow> 'a list \<Rightarrow> string" where
  "write_entries put xs = writeBinary_size (length xs) @ concat (map put xs)"

definition read_entries ::
  "(string \<Rightarrow> ('a \<times> string) outcome) \<Rightarrow> ('a \<Rightarrow> 'b list \<Rightarrow> 'b list) \<Rightarrow> string \<Rightarrow> ('b list \<times> string) outcome" where
  "read_entries get ins s = bindR (readBinary_size (Some 0) s) (\<lambda>(n, s). read_loop get ins n [] s)"

section \<open>Round trips\<close>

lemma fread_written:
  "n < 256 ^ w \<Longrightarrow> fread w old (le_bytes w n @ r) = Inr (n, r)"
  by (simp add: fread_def)

lemma fread_cut: "length s < w \<or> s = [] \<Longrightarrow> cut_short (fread w old s)"
  by (auto simp: fread_def cut_short_def split: option.split)

lemma strict_prefix_length: "strict_prefix s t \<Longrightarrow> length s < length t"
  by (rule prefix_length_less)

definition signed_range :: "nat \<Rightarrow> int \<Rightarrow> bool" where
  "signed_range w i \<longleftrightarrow> - (256 ^ w) \<le> 2 * i \<and> 2 * i < 256 ^ w"

lemma to_signed_mod:
  assumes "signed_range w i"
  shows "to_signed w (nat (i mod 256 ^ w)) = i"
proof (cases "0 \<le> i")
  case True
  with assms have "i mod 256 ^ w = i" by (simp add: signed_range_def)
  with True assms show ?thesis by (simp add: to_signed_def signed_range_def)
next
  case False
  have "i mod 256 ^ w = (i + 256 ^ w) mod 256 ^ w" by simp
  also have "\<dots> = i + 256 ^ w" using False assms by (intro mod_pos_pos_trivial) (auto simp: signed_range_def)
  finally have m: "i mod 256 ^ w = i + 256 ^ w" .
  have "\<not> 2 * (i + 256 ^ w) < 256 ^ w" using assms by (simp add: signed_range_def)
  moreover have "0 \<le> i + 256 ^ w" using m by (metis pos_mod_sign zero_less_numeral zero_less_power)
  ultimately show ?thesis by (simp add: m to_signed_def)
qed

lemma unsigned_codec: "binary_codec (write_unsigned w) (read_unsigned w old) (\<lambda>n. n < 256 ^ w) (\<lambda>n. n)"
proof
  fix n :: nat and r assume "n < 256 ^ w"
  then show "read_unsigned w old (write_unsigned w n @ r) = Inr (n, r)"
    by (simp add: read_unsigned_def write_unsigned_def fread_written)
next
  fix n :: nat and s assume "strict_prefix s (write_unsigned w n)"
  then show "cut_short (read_unsigned w old s)"
    by (metis fread_cut length_le_bytes read_unsigned_def strict_prefix_length write_unsigned_def)
qed (simp add: read_unsigned_def fread_cut)

lemma signed_codec: "binary_codec (write_signed w) (read_signed w old) (signed_range w) (\<lambda>i. i)"
proof
  fix i r assume "signed_range w i"
  moreover have "nat (i mod 256 ^ w) < 256 ^ w" by (simp add: nat_less_iff)
  ultimately show "read_signed w old (write_signed w i @ r) = Inr (i, r)"
    by (simp add: read_signed_def write_signed_def fread_written to_signed_mod)
next
  fix i s assume "strict_prefix s (write_signed w i)"
  then have "length s < w" by (metis length_le_bytes strict_prefix_length write_signed_def)
  then show "cut_short (read_signed w old s)"
    unfolding read_signed_def by (intro cut_short_bind fread_cut) simp_all
next
  show "cut_short (read_signed w old [])"
    unfolding read_signed_def by (intro cut_short_bind fread_cut) simp_all
qed

interpretation size_codec: binary_codec writeBinary_size "readBinary_size old" "\<lambda>n. n < 256 ^ 8" "\<lambda>n. n" for old
  unfolding writeBinary_size_def readBinary_size_def by (rule unsigned_codec)

interpretation int_codec: binary_codec writeBinary_int "readBinary_int old" "signed_range 4" "\<lambda>i. i" for old
  unfolding writeBinary_int_def readBinary_int_def by (rule signed_codec)

interpretation idx_codec: binary_codec writeBinary_idx "readBinary_idx old" "signed_range 8" "\<lambda>i. i" for old
  unfolding writeBinary_idx_def readBinary_idx_def by (rule signed_codec)

lemma readBinary_string_short:
  assumes "length s < 8" shows "cut_short (readBinary_string s)"
proof -
  have "fread 8 (Some 0) s = Inl Indeterminate \<or> fread 8 (Some 0) s = Inr (0, [])"
    using assms by (auto simp: fread_def)
  then show ?thesis by (auto simp: readBinary_string_def cut_short_def)
qed

interpretation string_codec:
  binary_codec writeBinary_string readBinary_string "\<lambda>v. length v \<le> string_max_size" "\<lambda>v. v"
proof
  fix v r :: string assume v: "length v \<le> string_max_size"
  then have "length v < 256 ^ 8" by (simp add: string_max_size_def)
  with v show "readBinary_string (writeBinary_string v @ r) = Inr (v, r)"
    by (simp add: readBinary_string_def writeBinary_string_def write_unsigned_def fread_written)
next
  fix v s :: string assume v: "length v \<le> string_max_size" and cut: "strict_prefix s (writeBinary_string v)"
  then have len: "length v < 256 ^ 8" by (simp add: string_max_size_def)
  show "cut_short (readBinary_string s)"
  proof (cases "length s < 8")
    case False
    from cut obtain t where t: "le_bytes 8 (length v) @ v = s @ t" "t \<noteq> []"
      by (auto simp: writeBinary_string_def write_unsigned_def strict_prefix_def elim!: prefixE)
    have "take 8 (le_bytes 8 (length v) @ v) = take 8 (s @ t)"
      and "length (le_bytes 8 (length v) @ v) = length (s @ t)" by (simp_all only: t(1))
    with False t(2) have "take 8 s = le_bytes 8 (length v)" "length (drop 8 s) < length v"
      by (cases t; simp)+
    then obtain s' where s: "s = le_bytes 8 (length v) @ s'" and s': "length s' < length v"
      by (metis append_take_drop_id)
    from s' len v show ?thesis by (simp add: s readBinary_string_def fread_written)
  qed (rule readBinary_string_short)
qed (simp add: readBinary_string_short)

section \<open>Composed values\<close>

lemma pair_codec:
  fixes get1 :: "string \<Rightarrow> ('c \<times> string) outcome" and get2 :: "string \<Rightarrow> ('d \<times> string) outcome"
  assumes "binary_codec put1 get1 valid1 rep1" and "binary_codec put2 get2 valid2 rep2"
  shows "binary_codec (\<lambda>(a, b). put1 a @ put2 b) (get_pair get1 get2)
    (\<lambda>(a, b). valid1 a \<and> valid2 b) (\<lambda>(a, b). (rep1 a, rep2 b))"
proof (rule binary_codec.intro, goal_cases)
  case (1 x r)
  then show ?case
    by (cases x) (simp add: get_pair_def binary_codec.get_put [OF assms(1)] binary_codec.get_put [OF assms(2)])
next
  case (2 x s)
  obtain a b where x: "x = (a, b)" by (cases x)
  have rest: "cut_short (bindR (get2 s') (\<lambda>(b, s). Inr ((y, b), s)))"
    if "strict_prefix s' (put2 b) \<or> s' = []" for y :: 'c and s'
    using that 2 binary_codec.get_cut [OF assms(2)] binary_codec.get_empty [OF assms(2)]
    by (auto simp: x intro!: cut_short_bind)
  from 2 show ?case
    unfolding get_pair_def x prod.case
    by (intro binary_codec.bind_prefix [OF assms(1), where x = a and r = "put2 b" and P = cut_short])
      (auto simp: x intro: rest)
next
  case 3
  show ?case
    unfolding get_pair_def
    using binary_codec.get_empty [OF assms(1)] binary_codec.get_empty [OF assms(2)]
    by (auto intro!: cut_short_bind)
qed

lemma read_loop_empty:
  assumes "binary_codec put get valid rep"
  shows "cut_short (read_loop get ins n m [])"
  by (induction n arbitrary: m) (auto intro!: cut_short_bind binary_codec.get_empty [OF assms])

lemma entries_codec:
  assumes "binary_codec put get valid rep"
  shows "binary_codec (write_entries put) (read_entries get ins)
    (\<lambda>xs. length xs < 256 ^ 8 \<and> list_all valid xs) (\<lambda>xs. fold ins (map rep xs) [])"
proof -
  have loop: "read_loop get ins (length xs) m (concat (map put xs) @ r) = Inr (fold ins (map rep xs) m, r)"
    if "list_all valid xs" for xs m r
    using that by (induction xs arbitrary: m) (simp_all add: binary_codec.get_put [OF assms])
  have cut: "cut_short (read_loop get ins (length xs) m s)"
    if "list_all valid xs" "strict_prefix s (concat (map put xs))" for xs m s
    using that
  proof (induction xs arbitrary: m s)
    case (Cons x xs)
    then show ?case
      by (auto intro!: binary_codec.bind_prefix [OF assms, where x = x and P = cut_short]
          read_loop_empty [OF assms])
  qed simp
  show ?thesis
    unfolding write_entries_def read_entries_def
  proof (rule binary_codec.intro, goal_cases)
    case (1 xs r)
    then show ?case by (simp add: size_codec.get_put loop)
  next
    case (2 xs s)
    then show ?case
      by (auto intro!: size_codec.bind_prefix [where x = "length xs" and P = cut_short] cut
          read_loop_empty [OF assms])
  next
    case 3
    show ?case by (auto intro!: cut_short_bind size_codec.get_empty read_loop_empty [OF assms])
  qed
qed

end
