(* ===== verification/Segment_File.thy ===== *)
theory Segment_File
  imports Faiss_Reference Vecodex_Segment Binary_IO
begin

text \<open>
  Segments as files: \<open>FaissIndex::serialize_index\<close> and its constructor from a file
  (\<open>index/baselines/faiss.h\<close>), \<open>Segment::serialize\<close> and its constructor from a file
  (\<open>index/include/Segment.h\<close>), \<open>SerializeSegment\<close> and \<open>DeserealizeSegment\<close>
  (\<open>index/baselines/IndexFactory.h\<close>). The instance of \<open>writeBinary\<close> and \<open>readBinary\<close> for the type
  of the identifiers is an argument, as are the orders in which the hash containers are iterated.
\<close>

section \<open>The code\<close>

record 'id file_order =
  fo_ids :: "('id \<times> int) list \<Rightarrow> ('id \<times> int) list"
  fo_inv :: "(int \<times> 'id) list \<Rightarrow> (int \<times> 'id) list"
  fo_erased :: "int list \<Rightarrow> int list"

definition file_order_ok :: "'id file_order \<Rightarrow> bool" where
  "file_order_ok ord \<longleftrightarrow> reorders (fo_ids ord) \<and> reorders (fo_inv ord) \<and> reorders (fo_erased ord)"

text \<open>
  A file starts with what FAISS writes; the maps of the class follow. When it is read, \<open>next_id\<close>
  starts as 0; the variables for the entries of the maps and of the set are not initialised.
\<close>

definition faiss_write_maps :: "('id \<Rightarrow> string) \<Rightarrow> 'id file_order \<Rightarrow> ('b, 'id) FaissIndex \<Rightarrow> string" where
  "faiss_write_maps put_id ord x =
     writeBinary_idx (fi_next_id x) @
     write_entries (\<lambda>(k, v). put_id k @ writeBinary_idx v) (fo_ids ord (fi_ids x)) @
     write_entries (\<lambda>(k, v). writeBinary_idx k @ put_id v) (fo_inv ord (fi_inv_ids x)) @
     write_entries writeBinary_idx (fo_erased ord (fi_erased x))"

definition faiss_serialize_index ::
  "('b, 'f) faiss_lib \<Rightarrow> ('id \<Rightarrow> string) \<Rightarrow> 'id file_order \<Rightarrow> ('b, 'id) FaissIndex \<Rightarrow> string" where
  "faiss_serialize_index F put_id ord x = fx_write_index F (fi_index x) @ faiss_write_maps put_id ord x"

definition faiss_read_maps ::
  "(string \<Rightarrow> ('id \<times> string) outcome) \<Rightarrow> base_kind \<Rightarrow> 'b \<Rightarrow> string \<Rightarrow>
    (('b, 'id) FaissIndex \<times> string) outcome" where
  "faiss_read_maps get_id kind index fd =
     bindR (readBinary_idx (Some 0) fd) (\<lambda>(next_id, fd).
     bindR (read_entries (get_pair get_id (readBinary_idx None)) (\<lambda>(k, v). AList.update k v) fd) (\<lambda>(ids, fd).
     bindR (read_entries (get_pair (readBinary_idx None) get_id) (\<lambda>(k, v). AList.update k v) fd) (\<lambda>(inv_ids, fd).
     bindR (read_entries (readBinary_idx None) List.insert fd) (\<lambda>(erased, fd).
       Inr (\<lparr>fi_kind = kind, fi_index = index, fi_next_id = next_id, fi_ids = ids,
             fi_inv_ids = inv_ids, fi_erased = erased\<rparr>, fd)))))"

definition faiss_from_file ::
  "('b, 'f) faiss_lib \<Rightarrow> (string \<Rightarrow> ('id \<times> string) outcome) \<Rightarrow> base_kind \<Rightarrow> string \<Rightarrow>
    (('b, 'id) FaissIndex \<times> string) outcome" where
  "faiss_from_file F get_id kind fd =
     bindR (fx_read_index F fd) (\<lambda>(index, fd). faiss_read_maps get_id kind index fd)"

definition seg_serialize :: "('x, 'id, 'f) IBaseIndex \<Rightarrow> 'x Segment \<Rightarrow> string" where
  "seg_serialize V s = serialize_index V (seg_index s) @ writeBinary_size (seg_id s)"

text \<open>The constructor of a segment leaves \<open>seg_id\<close> uninitialised before it is read.\<close>

definition segment_from_file ::
  "('b, 'f) faiss_lib \<Rightarrow> (string \<Rightarrow> ('id \<times> string) outcome) \<Rightarrow> base_kind \<Rightarrow> string \<Rightarrow>
    (('b, 'id) FaissIndex Segment \<times> string) outcome" where
  "segment_from_file F get_id kind fd =
     bindR (faiss_from_file F get_id kind fd) (\<lambda>(x, fd).
     bindR (readBinary_size None fd) (\<lambda>(r, fd).
       Inr (\<lparr>seg_index = x, seg_id = r, seg_type = get_segment_type kind\<rparr>, fd)))"

definition SerializeSegment :: "('x, 'id, 'f) IBaseIndex \<Rightarrow> 'x Segment \<Rightarrow> string" where
  "SerializeSegment V segment = writeBinary_int (seg_type segment) @ seg_serialize V segment"

text \<open>Both classes of HNSW indexes are stored under one number; the reader takes \<open>IndexHNSW\<close>.\<close>

definition DeserealizeSegment ::
  "('b, 'f) faiss_lib \<Rightarrow> (string \<Rightarrow> ('id \<times> string) outcome) \<Rightarrow> string \<Rightarrow>
    (('b, 'id) FaissIndex Segment option \<times> string) outcome" where
  "DeserealizeSegment F get_id fd =
     bindR (readBinary_int (Some 0) fd) (\<lambda>(ty, fd).
       if ty = 0 then bindR (segment_from_file F get_id IndexFlat fd) (\<lambda>(s, fd). Inr (Some s, fd))
       else if ty = 1 then bindR (segment_from_file F get_id IndexHNSW fd) (\<lambda>(s, fd). Inr (Some s, fd))
       else Inr (None, fd))"

section \<open>Reading back what was written\<close>

text \<open>
  What FAISS documents about \<open>write_index\<close> and \<open>read_index\<close>: the index read has the vectors and
  the dimension of the one written, and the file is left behind the index.
\<close>

definition faiss_files :: "('b, 'f) faiss_lib \<Rightarrow> ('b \<Rightarrow> 'f list list) \<Rightarrow> bool" where
  "faiss_files F vecs \<longleftrightarrow>
     (\<forall>b r. \<exists>b'. fx_read_index F (fx_write_index F b @ r) = Inr (b', r) \<and>
        vecs b' = vecs b \<and> fx_d F b' = fx_d F b)"

text \<open>The index that the constructor makes of the written maps.\<close>

definition faiss_reload :: "base_kind \<Rightarrow> 'b \<Rightarrow> 'id file_order \<Rightarrow> ('b, 'id) FaissIndex \<Rightarrow> ('b, 'id) FaissIndex" where
  "faiss_reload kind b ord x =
     \<lparr>fi_kind = kind, fi_index = b, fi_next_id = fi_next_id x, fi_ids = fo_ids ord (fi_ids x),
      fi_inv_ids = fo_inv ord (fi_inv_ids x), fi_erased = rev (fo_erased ord (fi_erased x))\<rparr>"

lemma fold_insert_rev:
  "distinct (xs @ ys) \<Longrightarrow> fold List.insert xs ys = rev xs @ ys"
  by (induction xs arbitrary: ys) (auto simp: List.insert_def)

lemma reorders_distinct_fst:
  "reorders it \<Longrightarrow> distinct (map fst (it xs)) \<longleftrightarrow> distinct (map fst xs)"
  by (metis mset_eq_imp_distinct_iff mset_map reorders_mset)

lemma reorders_distinct: "reorders it \<Longrightarrow> distinct (it xs) \<longleftrightarrow> distinct xs"
  by (metis mset_eq_imp_distinct_iff reorders_mset)

text \<open>The sizes and labels of an index fit their types when \<open>next_id\<close> does.\<close>

definition file_fits :: "('id \<Rightarrow> bool) \<Rightarrow> ('b, 'id) FaissIndex \<Rightarrow> bool" where
  "file_fits valid_id x \<longleftrightarrow> fi_next_id x < 2 ^ 63 \<and> (\<forall>i \<in> faiss_known x. valid_id i)"

lemma file_fits_maps:
  assumes wf: "faiss_wf x" and fits: "file_fits valid_id x"
  shows "signed_range 8 (fi_next_id x)"
    and "length (fi_ids x) < 256 ^ 8" and "length (fi_inv_ids x) < 256 ^ 8" and "length (fi_erased x) < 256 ^ 8"
    and "\<And>i l. (i, l) \<in> set (fi_ids x) \<Longrightarrow> valid_id i \<and> signed_range 8 l"
    and "\<And>i l. (l, i) \<in> set (fi_inv_ids x) \<Longrightarrow> valid_id i \<and> signed_range 8 l"
    and "\<And>l. l \<in> set (fi_erased x) \<Longrightarrow> signed_range 8 l"
proof -
  note D = faiss_wfD [OF wf]
  have next_id: "fi_next_id x < 2 ^ 63" using fits by (simp add: file_fits_def)
  have range: "signed_range 8 l" if "l \<in> {0..<fi_next_id x}" for l
    using that next_id by (simp add: signed_range_def)
  show "signed_range 8 (fi_next_id x)" using next_id D(1) by (simp add: signed_range_def)
  have bound: "length xs < 256 ^ 8" if "distinct xs" "set xs \<subseteq> {0..<fi_next_id x}" for xs :: "int list"
  proof -
    have "length xs \<le> nat (fi_next_id x)"
      using distinct_card [OF that(1)] card_mono [OF _ that(2)] by simp
    moreover have "nat (fi_next_id x) < 2 ^ 63" using next_id by (simp add: nat_less_iff)
    ultimately show ?thesis by simp
  qed
  have inv: "length (fi_inv_ids x) < 256 ^ 8"
    using bound [of "map fst (fi_inv_ids x)"] D(3,4) by simp
  then show "length (fi_inv_ids x) < 256 ^ 8" .
  have "card (fst ` set (fi_ids x)) \<le> length (fi_inv_ids x)"
    unfolding D(6) [symmetric] by (metis card_length image_set length_map)
  then have "length (fi_ids x) \<le> length (fi_inv_ids x)"
    using distinct_card [OF D(2)] by simp
  with inv show "length (fi_ids x) < 256 ^ 8" by linarith
  show "length (fi_erased x) < 256 ^ 8" using D(7,8) by (rule bound)
  show "valid_id i \<and> signed_range 8 l" if "(l, i) \<in> set (fi_inv_ids x)" for i l
  proof
    from that have "l \<in> fst ` set (fi_inv_ids x)" and i: "i \<in> snd ` set (fi_inv_ids x)" by force+
    then show "signed_range 8 l" unfolding D(4) by (intro range)
    from i show "valid_id i" unfolding D(6) using fits by (auto simp: file_fits_def faiss_known_def)
  qed
  then show "valid_id i \<and> signed_range 8 l" if "(i, l) \<in> set (fi_ids x)" for i l
    using D(5) [OF that] by blast
  show "signed_range 8 l" if "l \<in> set (fi_erased x)" for l using that D(8) by (intro range) auto
qed

lemma fold_update_distinct:
  "distinct (map fst xs) \<Longrightarrow> fold (\<lambda>(k, v). AList.update k v) xs [] = xs"
  using fold_AList_update_distinct [of xs "[]"] by simp

text \<open>The parts of a file after the FAISS index, as one list of codecs.\<close>

lemma ids_codec:
  assumes "binary_codec put_id get_id valid_id (\<lambda>i. i)"
  shows "binary_codec (write_entries (\<lambda>(k, v). put_id k @ writeBinary_idx v))
    (read_entries (get_pair get_id (readBinary_idx None)) ins)
    (\<lambda>xs. length xs < 256 ^ 8 \<and> list_all (\<lambda>(i, l). valid_id i \<and> signed_range 8 l) xs) (\<lambda>xs. fold ins xs [])"
  using entries_codec [OF pair_codec [OF assms idx_codec.binary_codec_axioms]] by simp

lemma inv_ids_codec:
  assumes "binary_codec put_id get_id valid_id (\<lambda>i. i)"
  shows "binary_codec (write_entries (\<lambda>(k, v). writeBinary_idx k @ put_id v))
    (read_entries (get_pair (readBinary_idx None) get_id) ins)
    (\<lambda>xs. length xs < 256 ^ 8 \<and> list_all (\<lambda>(l, i). signed_range 8 l \<and> valid_id i) xs) (\<lambda>xs. fold ins xs [])"
  using entries_codec [OF pair_codec [OF idx_codec.binary_codec_axioms assms]] by simp

lemma erased_codec:
  "binary_codec (write_entries writeBinary_idx) (read_entries (readBinary_idx None) ins)
    (\<lambda>xs. length xs < 256 ^ 8 \<and> list_all (signed_range 8) xs) (\<lambda>xs. fold ins xs [])"
  using entries_codec [OF idx_codec.binary_codec_axioms] by simp

lemma file_parts_valid:
  assumes wf: "faiss_wf x" and fits: "file_fits valid_id x" and ord: "file_order_ok ord"
  shows "length (fo_ids ord (fi_ids x)) < 256 ^ 8 \<and>
      list_all (\<lambda>(i, l). valid_id i \<and> signed_range 8 l) (fo_ids ord (fi_ids x))"
    and "length (fo_inv ord (fi_inv_ids x)) < 256 ^ 8 \<and>
      list_all (\<lambda>(l, i). signed_range 8 l \<and> valid_id i) (fo_inv ord (fi_inv_ids x))"
    and "length (fo_erased ord (fi_erased x)) < 256 ^ 8 \<and>
      list_all (signed_range 8) (fo_erased ord (fi_erased x))"
  using ord file_fits_maps [OF wf fits]
  by (auto simp: file_order_ok_def reorders_length reorders_set list_all_iff)

lemma file_parts_read:
  assumes wf: "faiss_wf x" and ord: "file_order_ok ord"
  shows "fold (\<lambda>(k, v). AList.update k v) (fo_ids ord (fi_ids x)) [] = fo_ids ord (fi_ids x)"
    and "fold (\<lambda>(k, v). AList.update k v) (fo_inv ord (fi_inv_ids x)) [] = fo_inv ord (fi_inv_ids x)"
    and "fold List.insert (fo_erased ord (fi_erased x)) [] = rev (fo_erased ord (fi_erased x))"
  using ord faiss_wfD [OF wf]
  by (simp_all add: file_order_ok_def fold_update_distinct reorders_distinct_fst fold_insert_rev reorders_distinct)

lemma maps_codec:
  assumes codec: "binary_codec put_id get_id valid_id (\<lambda>i. i)" and ord: "file_order_ok ord"
  shows "binary_codec (faiss_write_maps put_id ord) (faiss_read_maps get_id kind b)
    (\<lambda>x. faiss_wf x \<and> file_fits valid_id x) (faiss_reload kind b ord)"
proof (rule binary_codec.intro, goal_cases)
  case (1 x r)
  then have wf: "faiss_wf x" and fits: "file_fits valid_id x" by simp_all
  from file_parts_valid [OF wf fits ord] file_fits_maps(1) [OF wf fits] show ?case
    by (simp add: faiss_write_maps_def faiss_read_maps_def idx_codec.get_put
        binary_codec.get_put [OF ids_codec [OF codec]] binary_codec.get_put [OF inv_ids_codec [OF codec]]
        binary_codec.get_put [OF erased_codec] file_parts_read [OF wf ord] faiss_reload_def)
next
  case (2 x s)
  then have wf: "faiss_wf x" and fits: "file_fits valid_id x" by simp_all
  note valid = file_parts_valid [OF wf fits ord]
  from 2 have start: "strict_prefix s (writeBinary_idx (fi_next_id x) @ drop 8 (faiss_write_maps put_id ord x)) \<or> s = []"
    by (simp add: faiss_write_maps_def writeBinary_idx_def write_signed_def)
  have maps: "drop 8 (faiss_write_maps put_id ord x) =
      write_entries (\<lambda>(k, v). put_id k @ writeBinary_idx v) (fo_ids ord (fi_ids x)) @
      write_entries (\<lambda>(k, v). writeBinary_idx k @ put_id v) (fo_inv ord (fi_inv_ids x)) @
      write_entries writeBinary_idx (fo_erased ord (fi_erased x)) @ []"
    by (simp add: faiss_write_maps_def writeBinary_idx_def write_signed_def)
  show ?case
    unfolding faiss_read_maps_def
    apply (rule idx_codec.bind_cut_short [OF file_fits_maps(1) [OF wf fits] start])
    apply (unfold maps prod.case)
    apply (rule binary_codec.bind_cut_short [OF ids_codec [OF codec] valid(1)], assumption)
    apply (unfold prod.case)
    apply (rule binary_codec.bind_cut_short [OF inv_ids_codec [OF codec] valid(2)], assumption)
    apply (unfold prod.case)
    apply (rule binary_codec.bind_cut_short [OF erased_codec valid(3)], assumption)
    apply auto
    done
next
  case 3
  show ?case
    unfolding faiss_read_maps_def
    by (auto intro!: cut_short_bind idx_codec.get_empty binary_codec.get_empty [OF ids_codec [OF codec]]
        binary_codec.get_empty [OF inv_ids_codec [OF codec]] binary_codec.get_empty [OF erased_codec])
qed

section \<open>The reloaded index\<close>

lemma faiss_wf_reload:
  assumes "faiss_wf x" and "file_order_ok ord"
  shows "faiss_wf (faiss_reload kind b ord x)"
  using faiss_wfD [OF assms(1)] assms(2)
  by (intro faiss_wfI)
    (simp_all add: faiss_reload_def file_order_ok_def reorders_set reorders_distinct_fst reorders_distinct)

lemma faiss_inv_reload:
  assumes inv: "faiss_inv F vecs x" and ord: "file_order_ok ord" and b: "vecs b = vecs (fi_index x)"
  shows "faiss_inv F vecs (faiss_reload kind b ord x)"
proof -
  have "reorders (fo_inv ord)" using ord by (simp add: file_order_ok_def)
  then have "mset (map snd (fo_inv ord (fi_inv_ids x))) = mset (map snd (fi_inv_ids x))"
    by (metis mset_map reorders_mset)
  then have "distinct (map snd (fo_inv ord (fi_inv_ids x)))"
    using inv by (metis faiss_inv_def mset_eq_imp_distinct_iff)
  then show ?thesis
    using inv faiss_wf_reload [OF _ ord, of x kind b] b by (simp add: faiss_inv_def faiss_reload_def)
qed

lemma faiss_docs_reload:
  assumes "file_order_ok ord" and "vecs b = vecs (fi_index x)"
  shows "mset (faiss_docs vecs (faiss_reload kind b ord x)) = mset (faiss_docs vecs x)"
    and "faiss_known (faiss_reload kind b ord x) = faiss_known x"
  using assms
  by (simp_all add: faiss_docs_def faiss_known_def faiss_reload_def file_order_ok_def reorders_set
      mset_filter reorders_mset)

section \<open>Segment files\<close>

text \<open>The class of a segment that is read from a file.\<close>

definition reload_kind :: "base_kind \<Rightarrow> base_kind" where
  "reload_kind kind = (if kind = IndexFlat then IndexFlat else IndexHNSW)"

definition segment_file_ok ::
  "('b, 'f) faiss_lib \<Rightarrow> ('b \<Rightarrow> 'f list list) \<Rightarrow> ('id \<Rightarrow> bool) \<Rightarrow> ('b, 'id) FaissIndex Segment \<Rightarrow> bool" where
  "segment_file_ok F vecs valid_id s \<longleftrightarrow> faiss_inv F vecs (seg_index s) \<and> file_fits valid_id (seg_index s) \<and>
     seg_type s = get_segment_type (fi_kind (seg_index s)) \<and> seg_id s < 2 ^ 64"

lemma DeserealizeSegment_type:
  "DeserealizeSegment F get_id (writeBinary_int (get_segment_type kind) @ fd) =
    bindR (segment_from_file F get_id (reload_kind kind) fd) (\<lambda>(s, fd). Inr (Some s, fd))"
proof -
  have "signed_range 4 (get_segment_type kind)" by (simp add: get_segment_type_def signed_range_def)
  then show ?thesis
    by (simp add: DeserealizeSegment_def int_codec.get_put reload_kind_def) (simp add: get_segment_type_def)
qed

lemma DeserealizeSegment_written:
  assumes codec: "binary_codec put_id get_id valid_id (\<lambda>i. i)" and files: "faiss_files F vecs"
    and ord: "file_order_ok ord" and ok: "segment_file_ok F vecs valid_id s"
    and ser: "serialize_index V = faiss_serialize_index F put_id ord"
  shows "\<exists>b. DeserealizeSegment F get_id (SerializeSegment V s @ r) =
      Inr (Some \<lparr>seg_index = faiss_reload (reload_kind (fi_kind (seg_index s))) b ord (seg_index s),
        seg_id = seg_id s, seg_type = seg_type s\<rparr>, r) \<and>
    vecs b = vecs (fi_index (seg_index s)) \<and> fx_d F b = fx_d F (fi_index (seg_index s))"
proof -
  let ?x = "seg_index s"
  let ?maps = "faiss_write_maps put_id ord ?x @ writeBinary_size (seg_id s) @ r"
  from files obtain b where b: "fx_read_index F (fx_write_index F (fi_index ?x) @ ?maps) = Inr (b, ?maps)"
    "vecs b = vecs (fi_index ?x)" "fx_d F b = fx_d F (fi_index ?x)"
    unfolding faiss_files_def by meson
  have x: "faiss_wf ?x \<and> file_fits valid_id ?x" using ok by (simp add: segment_file_ok_def faiss_inv_def)
  have ty: "seg_type s = get_segment_type (fi_kind ?x)" "seg_id s < 256 ^ 8"
    using ok by (simp_all add: segment_file_ok_def)
  have "get_segment_type (reload_kind k) = get_segment_type k" for k
    by (simp add: get_segment_type_def reload_kind_def)
  then have "DeserealizeSegment F get_id (SerializeSegment V s @ r) =
      Inr (Some \<lparr>seg_index = faiss_reload (reload_kind (fi_kind ?x)) b ord ?x,
        seg_id = seg_id s, seg_type = seg_type s\<rparr>, r)"
    using b(1) ty
    by (simp add: SerializeSegment_def seg_serialize_def ser DeserealizeSegment_type segment_from_file_def
        faiss_from_file_def faiss_serialize_index_def binary_codec.get_put [OF maps_codec [OF codec ord] x]
        size_codec.get_put)
  with b show ?thesis by blast
qed

text \<open>
  C22. A segment survives the way through a file. What \<open>SerializeSegment\<close> writes, with the hash
  containers in any order and anything behind it in the file, \<open>DeserealizeSegment\<close> reads back as a
  segment with the same identifier and type tag, the same documents, the same known identifiers and
  dimension, that satisfies the invariant of its class again. Only the class differs: an
  \<open>IndexHNSWFlat\<close> comes back as an \<open>IndexHNSW\<close>.
\<close>

theorem segment_file_roundtrip:
  fixes F :: "('b, 'f::{linorder, zero}) faiss_lib" and s :: "('b, string) FaissIndex Segment"
  assumes "faiss_files F vecs" and "file_order_ok ord"
    and "segment_file_ok F vecs (\<lambda>i. length i \<le> string_max_size) s"
  shows "\<exists>s'. DeserealizeSegment F readBinary_string
      (SerializeSegment (faiss_vtable F it (faiss_serialize_index F writeBinary_string ord)) s @ r) = Inr (Some s', r) \<and>
    seg_id s' = seg_id s \<and> seg_type s' = seg_type s \<and> faiss_inv F vecs (seg_index s') \<and>
    mset (faiss_docs vecs (seg_index s')) = mset (faiss_docs vecs (seg_index s)) \<and>
    faiss_known (seg_index s') = faiss_known (seg_index s) \<and>
    faiss_shape F (seg_index s') =
      (if fi_kind (seg_index s) = IndexFlat then IndexFlat else IndexHNSW, fx_d F (fi_index (seg_index s)))"
proof -
  let ?V = "faiss_vtable F it (faiss_serialize_index F writeBinary_string ord)"
  have "serialize_index ?V = faiss_serialize_index F writeBinary_string ord" by (simp add: faiss_vtable_def)
  from DeserealizeSegment_written [OF string_codec.binary_codec_axioms assms(1,2,3) this, of r] obtain b
    where b: "DeserealizeSegment F readBinary_string (SerializeSegment ?V s @ r) =
      Inr (Some \<lparr>seg_index = faiss_reload (reload_kind (fi_kind (seg_index s))) b ord (seg_index s),
        seg_id = seg_id s, seg_type = seg_type s\<rparr>, r)"
      and vecs: "vecs b = vecs (fi_index (seg_index s))" "fx_d F b = fx_d F (fi_index (seg_index s))" by blast
  have inv: "faiss_inv F vecs (seg_index s)" using assms(3) by (simp add: segment_file_ok_def)
  show ?thesis
    using b faiss_inv_reload [where vecs = vecs, OF inv assms(2) vecs(1)]
      faiss_docs_reload [where vecs = vecs, OF assms(2) vecs(1)] vecs(2)
    by (simp add: faiss_shape_def faiss_reload_def reload_kind_def)
qed

lemma ref_faiss_files: "faiss_files ref_faiss ref_vecs"
  by (simp add: faiss_files_def ref_faiss_def ref_read_write)

definition demo_string_faiss :: "(ref_base, string) FaissIndex" where
  "demo_string_faiss = faiss_erase_ids [''b''] (faiss_assign_ids [''a'', ''b'', ''c'']
     ((faiss_new ref_faiss (HNSWFlatArgs 2 8 METRIC_L2))\<lparr>fi_index := (2, [[0, 1], [0, 2], [3, 0]])\<rparr>))"

definition demo_string_segment :: "(ref_base, string) FaissIndex Segment" where
  "demo_string_segment = \<lparr>seg_index = demo_string_faiss, seg_id = 7, seg_type = 1\<rparr>"

definition demo_order :: "string file_order" where
  "demo_order = \<lparr>fo_ids = rev, fo_inv = rev, fo_erased = (\<lambda>xs. xs)\<rparr>"

lemma demo_order_ok: "file_order_ok demo_order"
  by (simp add: file_order_ok_def demo_order_def reorders_rev reorders_id)

lemma demo_string_inv: "faiss_inv ref_faiss ref_vecs demo_string_faiss"
  unfolding demo_string_faiss_def
  by (intro faiss_inv_erase faiss_inv_assign [where vs = "[[0, 1], [0, 2], [3, 0]]"]
      faiss_inv_new [OF ref_faiss_contract])
    (simp_all add: ref_vecs_def faiss_new_def ref_faiss_def faiss_known_def)

lemma demo_string_fields:
  "fi_index demo_string_faiss = (2, [[0, 1], [0, 2], [3, 0]])" "fi_erased demo_string_faiss = [1]"
  "fi_inv_ids demo_string_faiss = [(0, ''a''), (1, ''b''), (2, ''c'')]" "fi_kind demo_string_faiss = IndexHNSWFlat"
  "fi_ids demo_string_faiss = [(''a'', 0), (''b'', 1), (''c'', 2)]" "fi_next_id demo_string_faiss = 3"
  by (simp_all add: demo_string_faiss_def faiss_new_def)

lemma demo_string_segment_ok:
  "segment_file_ok ref_faiss ref_vecs (\<lambda>i. length i \<le> string_max_size) demo_string_segment"
  by (simp add: segment_file_ok_def demo_string_segment_def demo_string_inv file_fits_def
      demo_string_fields faiss_known_def get_segment_type_def string_max_size_def)

theorem segment_file_roundtrip_witness:
  "\<exists>s'. DeserealizeSegment ref_faiss readBinary_string
      (SerializeSegment (faiss_vtable ref_faiss rev (faiss_serialize_index ref_faiss writeBinary_string demo_order))
        demo_string_segment @ ''rest'') = Inr (Some s', ''rest'') \<and>
    seg_id s' = 7 \<and> mset (faiss_docs ref_vecs (seg_index s')) = {#(''a'', [0, 1]), (''c'', [3, 0])#} \<and>
    faiss_shape ref_faiss (seg_index s') = (IndexHNSW, 2)"
proof -
  have "faiss_docs ref_vecs demo_string_faiss = [(''a'', [0, 1]), (''c'', [3, 0])]"
    by (simp add: faiss_docs_def demo_string_fields ref_vecs_def)
  moreover have "fx_d ref_faiss (fi_index demo_string_faiss) = 2"
    by (simp add: demo_string_fields ref_faiss_def)
  ultimately show ?thesis
    using segment_file_roundtrip [OF ref_faiss_files demo_order_ok demo_string_segment_ok, of rev "''rest''"]
    by (auto simp: demo_string_segment_def demo_string_fields)
qed

text \<open>
  C37. No file that is cut off behind the FAISS index is recognised as damaged. Wherever the rest of
  a segment file ends too early, reading goes on with the values at hand and always ends with a
  variable that was never given a value (the segment's identifier at the latest), instead of an
  error: \<open>readBinary\<close> does not check the result of \<open>fread\<close>.
\<close>

theorem segment_file_truncated:
  fixes F :: "('b, 'f::{linorder, zero}) faiss_lib" and s :: "('b, string) FaissIndex Segment"
  assumes "faiss_files F vecs" and "file_order_ok ord"
    and "segment_file_ok F vecs (\<lambda>i. length i \<le> string_max_size) s"
    and "SerializeSegment (faiss_vtable F it (faiss_serialize_index F writeBinary_string ord)) s =
      writeBinary_int (seg_type s) @ fx_write_index F (fi_index (seg_index s)) @ tail_bytes"
    and "strict_prefix t tail_bytes"
  shows "DeserealizeSegment F readBinary_string
    (writeBinary_int (seg_type s) @ fx_write_index F (fi_index (seg_index s)) @ t) = Inl Indeterminate"
proof -
  let ?x = "seg_index s"
  have t: "strict_prefix t (faiss_write_maps writeBinary_string ord ?x @ writeBinary_size (seg_id s))"
    using assms(4,5)
    by (simp add: SerializeSegment_def seg_serialize_def faiss_vtable_def faiss_serialize_index_def)
  have x: "faiss_wf ?x \<and> file_fits (\<lambda>i. length i \<le> string_max_size) ?x"
    using assms(3) by (simp add: segment_file_ok_def faiss_inv_def)
  have seg_id: "readBinary_size None t' = Inl Indeterminate"
    if "strict_prefix t' (writeBinary_size (seg_id s)) \<or> t' = []" for t'
  proof -
    have "length t' < 8"
      using that strict_prefix_length [of t' "writeBinary_size (seg_id s)"]
      by (auto simp: writeBinary_size_def write_unsigned_def)
    then show ?thesis by (simp add: readBinary_size_def read_unsigned_def fread_def)
  qed
  from assms(1) obtain b where "fx_read_index F (fx_write_index F (fi_index ?x) @ t) = Inr (b, t)"
    unfolding faiss_files_def by meson
  moreover have "bindR (faiss_read_maps readBinary_string kind b t) (\<lambda>(x, fd).
      bindR (readBinary_size None fd) (\<lambda>(r, fd).
        Inr (\<lparr>seg_index = x, seg_id = r, seg_type = get_segment_type kind\<rparr>, fd))) = Inl Indeterminate" for kind
    by (rule binary_codec.bind_prefix [OF maps_codec [OF string_codec.binary_codec_axioms assms(2)] x t])
      (simp_all add: seg_id)
  moreover have "seg_type s = get_segment_type (fi_kind ?x)" using assms(3) by (simp add: segment_file_ok_def)
  ultimately show ?thesis
    by (simp add: DeserealizeSegment_type segment_from_file_def faiss_from_file_def)
qed

theorem segment_file_truncated_witness:
  "DeserealizeSegment ref_faiss readBinary_string (writeBinary_int 1 @ ref_write (2, [[0, 1], [0, 2], [3, 0]])) =
    Inl Indeterminate"
proof -
  let ?tail = "faiss_write_maps writeBinary_string demo_order demo_string_faiss @ writeBinary_size 7"
  have "?tail \<noteq> []" by (simp add: writeBinary_size_def write_unsigned_def flip: length_0_conv)
  then have "strict_prefix [] ?tail" by (simp add: strict_prefix_def)
  then show ?thesis
    using segment_file_truncated [OF ref_faiss_files demo_order_ok demo_string_segment_ok, of rev ?tail "[]"]
    by (simp add: demo_string_segment_def SerializeSegment_def seg_serialize_def faiss_vtable_def
        faiss_serialize_index_def demo_string_fields) (simp add: ref_faiss_def)
qed

section \<open>Files given by name\<close>

text \<open>
  The variants that take the name of a file: \<open>fopen\<close> with \<open>w\<close> makes the file or empties it, with \<open>r\<close> it gives
  a null pointer for a file that does not exist.
\<close>

definition faiss_serialize_named ::
  "('b, 'f) faiss_lib \<Rightarrow> ('id \<Rightarrow> string) \<Rightarrow> 'id file_order \<Rightarrow> string \<Rightarrow> ('b, 'id) FaissIndex \<Rightarrow> (string \<rightharpoonup> string) \<Rightarrow> (string \<rightharpoonup> string)" where
  "faiss_serialize_named F put_id ord filename x files = files(filename \<mapsto> faiss_serialize_index F put_id ord x)"

definition seg_serialize_named :: "('x, 'id, 'f) IBaseIndex \<Rightarrow> string \<Rightarrow> 'x Segment \<Rightarrow> (string \<rightharpoonup> string) \<Rightarrow> (string \<rightharpoonup> string)" where
  "seg_serialize_named V filename s files = files(filename \<mapsto> seg_serialize V s)"

definition SerializeSegment_named :: "('x, 'id, 'f) IBaseIndex \<Rightarrow> string \<Rightarrow> 'x Segment \<Rightarrow> (string \<rightharpoonup> string) \<Rightarrow> (string \<rightharpoonup> string)" where
  "SerializeSegment_named V filename segment files = files(filename \<mapsto> SerializeSegment V segment)"

definition DeserealizeSegment_named ::
  "('b, 'f) faiss_lib \<Rightarrow> (string \<Rightarrow> ('id \<times> string) outcome) \<Rightarrow> string \<Rightarrow> (string \<rightharpoonup> string) \<Rightarrow> ('b, 'id) FaissIndex Segment option outcome" where
  "DeserealizeSegment_named F get_id filename files =
     (case files filename of
        None \<Rightarrow> Inl NullPointer
      | Some fd \<Rightarrow> bindR (DeserealizeSegment F get_id fd) (\<lambda>(res, fd). Inr res))"

text \<open>A segment written under a name is read back under that name, whatever other files are written in between.\<close>

lemma named_roundtrip:
  fixes F :: "('b, 'f::{linorder, zero}) faiss_lib" and s :: "('b, string) FaissIndex Segment"
  assumes "faiss_files F vecs" and "file_order_ok ord" and "segment_file_ok F vecs (\<lambda>i. length i \<le> string_max_size) s"
    and V: "V = faiss_vtable F it (faiss_serialize_index F writeBinary_string ord)" and "name \<noteq> name'"
  shows "\<exists>s'. DeserealizeSegment_named F readBinary_string name
      (SerializeSegment_named V name' t (SerializeSegment_named V name s files)) = Inr (Some s') \<and>
    seg_id s' = seg_id s \<and> mset (faiss_docs vecs (seg_index s')) = mset (faiss_docs vecs (seg_index s))"
proof -
  have ser: "serialize_index V = faiss_serialize_index F writeBinary_string ord" by (simp add: V faiss_vtable_def)
  from DeserealizeSegment_written [OF string_codec.binary_codec_axioms assms(1-3) ser, of "[]"] obtain b
    where b: "DeserealizeSegment F readBinary_string (SerializeSegment V s) =
      Inr (Some \<lparr>seg_index = faiss_reload (reload_kind (fi_kind (seg_index s))) b ord (seg_index s),
        seg_id = seg_id s, seg_type = seg_type s\<rparr>, [])"
      and vecs: "vecs b = vecs (fi_index (seg_index s))" by auto
  show ?thesis
    using assms(5) faiss_docs_reload [where vecs = vecs, OF assms(2) vecs]
    by (simp add: DeserealizeSegment_named_def SerializeSegment_named_def b)
qed

end
