(* ===== verification/Effects.thy ===== *)
theory Effects
  imports Vecodex_Prelude
begin

text \<open>
  Stateful code that can throw: a computation takes the state and returns an outcome together with
  the state it leaves behind, also when it throws. The servers and their clients are written with
  the combinators of this theory.
\<close>

type_synonym ('s, 'a) proc = "'s \<Rightarrow> 'a outcome \<times> 's"

definition returnP :: "'a \<Rightarrow> ('s, 'a) proc" where
  "returnP x s = (Inr x, s)"

definition throwP :: "cxx_error \<Rightarrow> ('s, 'a) proc" where
  "throwP e s = (Inl e, s)"

definition liftP :: "'a outcome \<Rightarrow> ('s, 'a) proc" where
  "liftP m s = (m, s)"

definition bindP :: "('s, 'a) proc \<Rightarrow> ('a \<Rightarrow> ('s, 'b) proc) \<Rightarrow> ('s, 'b) proc" where
  "bindP m f s = (case m s of (Inl e, s') \<Rightarrow> (Inl e, s') | (Inr x, s') \<Rightarrow> f x s')"

definition thenP :: "('s, 'a) proc \<Rightarrow> ('s, 'b) proc \<Rightarrow> ('s, 'b) proc" where
  "thenP m m' = bindP m (\<lambda>_. m')"

definition readP :: "('s \<Rightarrow> 'a) \<Rightarrow> ('s, 'a) proc" where
  "readP f s = (Inr (f s), s)"

definition modifyP :: "('s \<Rightarrow> 's) \<Rightarrow> ('s, unit) proc" where
  "modifyP h s = (Inr (), h s)"

text \<open>
  What \<open>catch (const std::exception&)\<close> catches: the exceptions, not undefined behaviour or a failed
  assertion, from which there is no way back.
\<close>

fun is_exception :: "cxx_error \<Rightarrow> bool" where
  "is_exception (RuntimeError _) = True"
| "is_exception (InvalidArgument _) = True"
| "is_exception OutOfRange = True"
| "is_exception LengthError = True"
| "is_exception (LibraryError _) = True"
| "is_exception StdException = True"
| "is_exception _ = False"

definition catchP :: "('s, 'a) proc \<Rightarrow> (cxx_error \<Rightarrow> ('s, 'a) proc) \<Rightarrow> ('s, 'a) proc" where
  "catchP m h s = (case m s of (Inl e, s') \<Rightarrow> if is_exception e then h e s' else (Inl e, s') | r \<Rightarrow> r)"

text \<open>A destructor that runs when the scope is left, normally or by an exception.\<close>

definition finallyP :: "('s, 'a) proc \<Rightarrow> ('s \<Rightarrow> 's) \<Rightarrow> ('s, 'a) proc" where
  "finallyP m d s = (case m s of (r, s') \<Rightarrow> (r, d s'))"

text \<open>A loop over a list, collecting the results.\<close>

fun mapP :: "('a \<Rightarrow> ('s, 'b) proc) \<Rightarrow> 'a list \<Rightarrow> ('s, 'b list) proc" where
  "mapP f [] = returnP []"
| "mapP f (x # xs) = bindP (f x) (\<lambda>y. bindP (mapP f xs) (\<lambda>ys. returnP (y # ys)))"

fun forP :: "('a \<Rightarrow> ('s, unit) proc) \<Rightarrow> 'a list \<Rightarrow> ('s, unit) proc" where
  "forP f [] = returnP ()"
| "forP f (x # xs) = bindP (f x) (\<lambda>_. forP f xs)"

text \<open>A computation on a part of the state.\<close>

definition partP :: "('s \<Rightarrow> 't) \<Rightarrow> ('t \<Rightarrow> 's \<Rightarrow> 's) \<Rightarrow> ('t, 'a) proc \<Rightarrow> ('s, 'a) proc" where
  "partP get put m s = (case m (get s) of (r, t) \<Rightarrow> (r, put t s))"

section \<open>Laws\<close>

lemma proc_simps [simp]:
  "returnP x s = (Inr x, s)"
  "throwP e s = (Inl e, s)"
  "liftP m s = (m, s)"
  "readP f s = (Inr (f s), s)"
  "modifyP h s = (Inr (), h s)"
  by (simp_all add: returnP_def throwP_def liftP_def readP_def modifyP_def)

lemmas proc_defs = bindP_def thenP_def catchP_def finallyP_def partP_def

lemma bindP_return [simp]: "bindP (returnP x) f = f x"
  by (rule ext) (simp add: bindP_def)

lemma bindP_eq_Inr:
  "bindP m f s = (Inr y, s'') \<longleftrightarrow> (\<exists>x s'. m s = (Inr x, s') \<and> f x s' = (Inr y, s''))"
  by (auto simp: bindP_def split: prod.splits sum.splits)

text \<open>A loop whose body preserves an invariant and does not throw.\<close>

lemma forP_invariant:
  assumes "P s" and "\<And>x s. x \<in> set xs \<Longrightarrow> P s \<Longrightarrow> \<exists>s'. f x s = (Inr (), s') \<and> P s'"
  shows "\<exists>s'. forP f xs s = (Inr (), s') \<and> P s'"
  using assms
proof (induction xs arbitrary: s)
  case (Cons x xs)
  from Cons.prems(1) Cons.prems(2) [of x s] obtain s' where "f x s = (Inr (), s')" and "P s'" by auto
  with Cons.IH [of s'] Cons.prems(2) show ?case by (auto simp: bindP_def)
qed simp

lemma forP_append: "forP f (xs @ ys) = bindP (forP f xs) (\<lambda>_. forP f ys)"
  by (induction xs) (auto simp: bindP_def fun_eq_iff split: prod.splits sum.splits)

end
