(* ===== verification/Float_Rounding.thy ===== *)
theory Float_Rounding
  imports Vecodex_Prelude Complex_Main
begin

text \<open>
  \<open>double\<close> arithmetic (IEEE 754 binary64, rounding to nearest, ties to even) on rational numbers:
  every operation computes the exact result and rounds it to 53 significant bits. The exponent is
  not bounded; the values of this program (scores between 0 and a few units, response times in
  seconds) are far from overflow and underflow. The locale \<open>rounding\<close> collects what the other
  theories use of it.
\<close>

section \<open>The interface\<close>

locale rounding =
  fixes rnd :: "rat \<Rightarrow> rat"
  assumes rnd_mono: "x \<le> y \<Longrightarrow> rnd x \<le> rnd y"
    and rnd_int: "\<bar>i\<bar> \<le> 2 ^ 53 \<Longrightarrow> rnd (of_int i) = of_int i"
    and rnd_half: "rnd (x / 2) = rnd x / 2"
    and rnd_idem: "rnd (rnd x) = rnd x"
    and rnd_error: "\<bar>rnd x - x\<bar> \<le> \<bar>x\<bar> / 2 ^ 53"
begin

lemma rnd_0 [simp]: "rnd 0 = 0"
  using rnd_int [of 0] by simp

lemma rnd_nonneg: "0 \<le> x \<Longrightarrow> 0 \<le> rnd x"
  using rnd_mono [of 0 x] by simp

lemma rnd_nat: "n \<le> 2 ^ 53 \<Longrightarrow> rnd (of_nat n) = of_nat n"
  using rnd_int [of "int n"] by simp

lemma rnd_pos:
  assumes "0 < x"
  shows "0 < rnd x"
proof -
  have "\<bar>rnd x - x\<bar> \<le> x / 2 ^ 53" using rnd_error [of x] assms by simp
  moreover have "x / 2 ^ 53 < x" using assms by (simp add: field_simps)
  ultimately show ?thesis by linarith
qed

end

section \<open>Exponents\<close>

fun int_log2 :: "int \<Rightarrow> nat" where
  "int_log2 n = (if n < 2 then 0 else Suc (int_log2 (n div 2)))"

declare int_log2.simps [simp del]

lemma int_log2_bounds: "0 < n \<Longrightarrow> 2 ^ int_log2 n \<le> n \<and> n < 2 ^ Suc (int_log2 n)"
proof (induction n rule: int_log2.induct)
  case (1 n)
  show ?case
  proof (cases "n < 2")
    case True
    with 1 show ?thesis by (simp add: int_log2.simps [of n])
  next
    case False
    with 1 have "2 ^ int_log2 (n div 2) \<le> n div 2 \<and> n div 2 < 2 ^ Suc (int_log2 (n div 2))" by simp
    with False show ?thesis by (subst (1 2) int_log2.simps [of n]) auto
  qed
qed

text \<open>The exponent of a positive rational: the \<open>e\<close> with \<open>2 ^ e \<le> x < 2 ^ (e + 1)\<close>.\<close>

definition rat_exp :: "rat \<Rightarrow> int" where
  "rat_exp x =
     (let (n, d) = quotient_of x; e = int (int_log2 n) - int (int_log2 d) in
      if 2 powi e \<le> x then e else e - 1)"

lemma powi_2_mono: "a \<le> b \<Longrightarrow> (2 :: rat) powi a \<le> 2 powi b"
  by (simp add: power_int_increasing)

lemma rat_exp_bounds:
  assumes "0 < x"
  shows "2 powi rat_exp x \<le> x" and "x < 2 powi (rat_exp x + 1)"
proof -
  obtain n d where q: "quotient_of x = (n, d)" by fastforce
  have d: "0 < d" using quotient_of_denom_pos [OF q] .
  have x: "x = of_int n / of_int d" using quotient_of_div [OF q] .
  have n: "0 < n" using assms d by (simp add: x zero_less_divide_iff)
  let ?a = "int_log2 n" and ?b = "int_log2 d"
  let ?e = "int ?a - int ?b"
  have pow: "(of_int (2 ^ k) :: rat) = 2 ^ k" for k by simp
  have a: "(2 :: rat) ^ ?a \<le> of_int n" "of_int n < (2 :: rat) ^ Suc ?a"
    unfolding pow [symmetric] of_int_le_iff of_int_less_iff using int_log2_bounds [OF n] by simp_all
  have b: "(2 :: rat) ^ ?b \<le> of_int d" "of_int d < (2 :: rat) ^ Suc ?b"
    unfolding pow [symmetric] of_int_le_iff of_int_less_iff using int_log2_bounds [OF d] by simp_all
  have pos: "(0 :: rat) < of_int n" "(0 :: rat) < of_int d" using n d by simp_all
  have lower: "2 powi (?e - 1) \<le> x"
  proof -
    have "2 powi (?e - 1) = (2 :: rat) ^ ?a / 2 ^ Suc ?b"
      by (simp add: power_int_diff)
    also have "\<dots> \<le> of_int n / of_int d"
      using a(1) b(2) pos by (intro frac_le) auto
    finally show ?thesis by (simp add: x)
  qed
  have upper: "x < 2 powi (?e + 1)"
  proof -
    have "x < 2 ^ Suc ?a / 2 ^ ?b"
      unfolding x using a(2) b(1) pos by (intro frac_less) auto
    also have "\<dots> = 2 powi (?e + 1)"
      by (simp add: power_int_diff power_int_add)
    finally show ?thesis .
  qed
  show "2 powi rat_exp x \<le> x" "x < 2 powi (rat_exp x + 1)"
    using lower upper by (auto simp: rat_exp_def q Let_def)
qed

lemma rat_exp_unique:
  assumes "2 powi e \<le> x" and "x < 2 powi (e + 1)"
  shows "rat_exp x = e"
proof -
  have pos: "0 < x" using assms(1) by (meson order_less_le_trans zero_less_numeral zero_less_power_int)
  note b = rat_exp_bounds [OF pos]
  have "\<not> rat_exp x < e" "\<not> e < rat_exp x"
    using assms b powi_2_mono [of "rat_exp x + 1" e] powi_2_mono [of "e + 1" "rat_exp x"] by force+
  then show ?thesis by simp
qed

section \<open>Rounding to an integer\<close>

definition round_even :: "rat \<Rightarrow> int" where
  "round_even x =
     (let f = \<lfloor>x\<rfloor>; r = x - of_int f in
      if r < 1 / 2 then f else if 1 / 2 < r then f + 1 else if even f then f else f + 1)"

lemma round_even_error: "\<bar>of_int (round_even x) - x\<bar> \<le> 1 / 2"
  using floor_correct [of x] by (auto simp: round_even_def Let_def)

lemma round_even_int [simp]: "round_even (of_int i) = i"
  by (simp add: round_even_def)

lemma round_even_mono:
  assumes "x \<le> y"
  shows "round_even x \<le> round_even y"
proof (cases "\<lfloor>x\<rfloor> = \<lfloor>y\<rfloor>")
  case True
  with assms show ?thesis by (auto simp: round_even_def Let_def)
next
  case False
  with floor_mono [OF assms] have "\<lfloor>x\<rfloor> + 1 \<le> \<lfloor>y\<rfloor>" by simp
  moreover have "round_even x \<le> \<lfloor>x\<rfloor> + 1" "\<lfloor>y\<rfloor> \<le> round_even y" by (simp_all add: round_even_def Let_def)
  ultimately show ?thesis by simp
qed

lemma round_even_ge: "of_int i \<le> x \<Longrightarrow> i \<le> round_even x"
  using round_even_mono [of "of_int i" x] by simp

lemma round_even_le: "x \<le> of_int i \<Longrightarrow> round_even x \<le> i"
  using round_even_mono [of x "of_int i"] by simp

section \<open>Rounding to a double\<close>

text \<open>\<open>ulp x\<close> is the distance of neighbouring doubles at \<open>x > 0\<close>.\<close>

definition ulp :: "rat \<Rightarrow> rat" where
  "ulp x = 2 powi (rat_exp x - 52)"

definition rnd_pos64 :: "rat \<Rightarrow> rat" where
  "rnd_pos64 x = of_int (round_even (x / ulp x)) * ulp x"

definition rnd64 :: "rat \<Rightarrow> rat" where
  "rnd64 x = (if x = 0 then 0 else if 0 < x then rnd_pos64 x else - rnd_pos64 (- x))"

lemma ulp_pos [simp]: "0 < ulp x"
  by (simp add: ulp_def)

lemma ulp_power: "ulp x * 2 ^ 52 = 2 powi rat_exp x" "ulp x * 2 ^ 53 = 2 powi (rat_exp x + 1)"
proof -
  show "ulp x * 2 ^ 52 = 2 powi rat_exp x"
    unfolding ulp_def using power_int_add [of "2 :: rat" "rat_exp x - 52" 52] by simp
  show "ulp x * 2 ^ 53 = 2 powi (rat_exp x + 1)"
    unfolding ulp_def using power_int_add [of "2 :: rat" "rat_exp x - 52" 53] by (simp add: add.commute)
qed

lemma rnd_pos64_bounds:
  assumes "0 < x"
  shows "2 powi rat_exp x \<le> rnd_pos64 x" and "rnd_pos64 x \<le> 2 powi (rat_exp x + 1)"
proof -
  note b = rat_exp_bounds [OF assms]
  have "of_int (2 ^ 52) \<le> x / ulp x"
    using b(1) unfolding ulp_power(1) [symmetric] by (simp add: pos_le_divide_eq mult.commute)
  then have "2 ^ 52 \<le> round_even (x / ulp x)" by (rule round_even_ge)
  then have "of_int (2 ^ 52) * ulp x \<le> of_int (round_even (x / ulp x)) * ulp x"
    by (intro mult_right_mono) (simp_all only: of_int_le_iff less_imp_le ulp_pos)
  moreover have "of_int (2 ^ 52) * ulp x = 2 powi rat_exp x"
    using ulp_power(1) [of x] by (simp add: mult.commute)
  ultimately show "2 powi rat_exp x \<le> rnd_pos64 x" by (simp only: rnd_pos64_def)
  have "x / ulp x \<le> of_int (2 ^ 53)"
    using less_imp_le [OF b(2)] unfolding ulp_power(2) [symmetric] by (simp add: pos_divide_le_eq mult.commute)
  then have "round_even (x / ulp x) \<le> 2 ^ 53" by (rule round_even_le)
  then have "of_int (round_even (x / ulp x)) * ulp x \<le> of_int (2 ^ 53) * ulp x"
    by (intro mult_right_mono) (simp_all only: of_int_le_iff less_imp_le ulp_pos)
  moreover have "of_int (2 ^ 53) * ulp x = 2 powi (rat_exp x + 1)"
    using ulp_power(2) [of x] by (simp add: mult.commute)
  ultimately show "rnd_pos64 x \<le> 2 powi (rat_exp x + 1)" by (simp only: rnd_pos64_def)
qed

lemma rat_exp_mono:
  assumes "0 < x" and "x \<le> y"
  shows "rat_exp x \<le> rat_exp y"
proof (rule ccontr)
  assume "\<not> rat_exp x \<le> rat_exp y"
  then have "(2 :: rat) powi (rat_exp y + 1) \<le> 2 powi rat_exp x" by (intro powi_2_mono) simp
  with rat_exp_bounds [of x] rat_exp_bounds [of y] assms show False by linarith
qed

lemma rnd_pos64_mono:
  assumes "0 < x" and "x \<le> y"
  shows "rnd_pos64 x \<le> rnd_pos64 y"
proof (cases "rat_exp x = rat_exp y")
  case True
  then have u: "ulp x = ulp y" by (simp add: ulp_def)
  have "round_even (x / ulp y) \<le> round_even (y / ulp y)"
    using assms(2) by (intro round_even_mono divide_right_mono) (auto intro: less_imp_le)
  then show ?thesis unfolding rnd_pos64_def u
    by (intro mult_right_mono) (simp_all add: less_imp_le)
next
  case False
  with rat_exp_mono [OF assms] have "rat_exp x + 1 \<le> rat_exp y" by simp
  then have "(2 :: rat) powi (rat_exp x + 1) \<le> 2 powi rat_exp y" by (rule powi_2_mono)
  with rnd_pos64_bounds [of x] rnd_pos64_bounds [of y] assms show ?thesis by linarith
qed

lemma rnd_pos64_pos: "0 < x \<Longrightarrow> 0 < rnd_pos64 x"
  using rnd_pos64_bounds(1) [of x] by (meson order_less_le_trans zero_less_numeral zero_less_power_int)

lemma rnd64_mono: "x \<le> y \<Longrightarrow> rnd64 x \<le> rnd64 y"
  using rnd_pos64_mono [of x y] rnd_pos64_mono [of "- y" "- x"] rnd_pos64_pos [of y] rnd_pos64_pos [of "- x"]
  by (auto simp: rnd64_def)

lemma rnd_pos64_error:
  assumes "0 < x"
  shows "\<bar>rnd_pos64 x - x\<bar> \<le> x / 2 ^ 53"
proof -
  have "\<bar>of_int (round_even (x / ulp x)) - x / ulp x\<bar> * ulp x \<le> 1 / 2 * ulp x"
    by (intro mult_right_mono round_even_error) (simp add: less_imp_le)
  moreover have "\<bar>of_int (round_even (x / ulp x)) - x / ulp x\<bar> * ulp x = \<bar>rnd_pos64 x - x\<bar>"
    using abs_mult_pos [of "ulp x" "of_int (round_even (x / ulp x)) - x / ulp x"] ulp_pos [of x]
    by (simp add: rnd_pos64_def left_diff_distrib less_imp_le less_imp_neq [THEN not_sym])
  ultimately have "\<bar>rnd_pos64 x - x\<bar> \<le> ulp x / 2" by simp
  moreover have "ulp x * 2 ^ 52 \<le> x" using rat_exp_bounds(1) [OF assms] by (simp only: ulp_power)
  then have "ulp x / 2 \<le> x / 2 ^ 53" by (simp add: field_simps)
  ultimately show ?thesis by linarith
qed

lemma rnd64_error: "\<bar>rnd64 x - x\<bar> \<le> \<bar>x\<bar> / 2 ^ 53"
  using rnd_pos64_error [of x] rnd_pos64_error [of "- x"]
  by (auto simp: rnd64_def abs_if split: if_splits)

text \<open>A number with at most 53 significant bits is not changed.\<close>

lemma multiple_ulp:
  assumes "0 < x" and x: "x = of_int m * 2 powi k" and k: "rat_exp x - 52 \<le> k"
  shows "rnd_pos64 x = x"
proof -
  have "x / ulp x = of_int m * 2 powi (k - (rat_exp x - 52))"
    by (subst x) (simp add: ulp_def power_int_diff)
  also have "\<dots> = of_int (m * 2 ^ nat (k - (rat_exp x - 52)))" using k by (simp add: power_int_def)
  finally have int: "x / ulp x = of_int (m * 2 ^ nat (k - (rat_exp x - 52)))" .
  then have "x = of_int (m * 2 ^ nat (k - (rat_exp x - 52))) * ulp x"
    using ulp_pos [of x] by (metis less_irrefl nonzero_eq_divide_eq)
  then show ?thesis unfolding rnd_pos64_def int round_even_int by simp
qed

lemma rnd_pos64_significand:
  assumes m: "0 < m" "m \<le> 2 ^ 53" and x: "x = of_int m * 2 powi k"
  shows "rnd_pos64 x = x"
proof (cases "m = 2 ^ 53")
  case True
  then have x': "x = of_int 1 * 2 powi (k + 53)" by (simp add: x power_int_add)
  have "rat_exp x = k + 53" by (rule rat_exp_unique) (simp_all add: x' power_int_add)
  then show ?thesis by (intro multiple_ulp [OF _ x']) (simp_all add: x')
next
  case False
  with m have "of_int m < (of_int (2 ^ 53) :: rat)" by (simp only: of_int_less_iff)
  then have "x < of_int (2 ^ 53) * 2 powi k" unfolding x by (intro mult_strict_right_mono) simp_all
  then have up: "x < 2 powi (k + 53)" by (simp add: power_int_add mult.commute)
  have pos: "0 < x" using m(1) by (simp add: x)
  have "\<not> k + 53 \<le> rat_exp x"
    using up rat_exp_bounds(1) [OF pos] powi_2_mono [of "k + 53" "rat_exp x"] by linarith
  then show ?thesis by (intro multiple_ulp [OF pos x]) simp
qed

lemma rnd64_int: "\<bar>i\<bar> \<le> 2 ^ 53 \<Longrightarrow> rnd64 (of_int i) = of_int i"
  using rnd_pos64_significand [of i "of_int i" 0] rnd_pos64_significand [of "- i" "- of_int i" 0]
  by (auto simp: rnd64_def)

lemma rnd_pos64_idem:
  assumes "0 < x"
  shows "rnd_pos64 (rnd_pos64 x) = rnd_pos64 x"
proof (rule rnd_pos64_significand)
  show "rnd_pos64 x = of_int (round_even (x / ulp x)) * 2 powi (rat_exp x - 52)"
    by (simp add: rnd_pos64_def ulp_def)
  have "x / ulp x \<le> of_int (2 ^ 53)"
    using less_imp_le [OF rat_exp_bounds(2) [OF assms]] unfolding ulp_power(2) [symmetric]
    by (simp add: pos_divide_le_eq mult.commute)
  then show "round_even (x / ulp x) \<le> 2 ^ 53" by (rule round_even_le)
  show "0 < round_even (x / ulp x)"
    using rnd_pos64_pos [OF assms] ulp_pos [of x] by (auto simp: rnd_pos64_def zero_less_mult_iff)
qed

lemma rnd64_idem: "rnd64 (rnd64 x) = rnd64 x"
  using rnd_pos64_idem [of x] rnd_pos64_idem [of "- x"] rnd_pos64_pos [of x] rnd_pos64_pos [of "- x"]
  by (auto simp: rnd64_def)

lemma rnd_pos64_half:
  assumes "0 < x"
  shows "rnd_pos64 (x / 2) = rnd_pos64 x / 2"
proof -
  note b = rat_exp_bounds [OF assms]
  have "rat_exp (x / 2) = rat_exp x - 1"
    by (rule rat_exp_unique) (use b in \<open>simp_all add: power_int_diff power_int_add\<close>)
  then have half: "ulp (x / 2) = ulp x / 2" by (simp add: ulp_def power_int_diff)
  have "x / 2 / (ulp x / 2) = x / ulp x" by simp
  then show ?thesis unfolding rnd_pos64_def half by simp
qed

lemma rnd64_half: "rnd64 (x / 2) = rnd64 x / 2"
  using rnd_pos64_half [of x] rnd_pos64_half [of "- x"] by (auto simp: rnd64_def)

interpretation double: rounding rnd64
  by unfold_locales (fact rnd64_mono rnd64_int rnd64_half rnd64_idem rnd64_error)+

end
