(* ===== verification/Number_Text.thy ===== *)
theory Number_Text
  imports Float_Rounding "HOL-Library.Char_ord" "HOL-Library.List_Lexorder"
begin

text \<open>
  Numbers as text, from the standard library: \<open>std::to_string\<close> of an unsigned number and of a
  double (\<open>%f\<close>: six digits after the point, rounded to nearest, ties to even), \<open>std::hex\<close> output,
  and \<open>std::stod\<close>. Hexadecimal numbers, infinities and NaNs as input of \<open>stod\<close> are left out: the
  program only reads what \<open>to_string\<close> has written. Strings are ordered as \<open>std::string\<close> is.
\<close>

section \<open>Digits\<close>

definition digit_char :: "nat \<Rightarrow> char" where
  "digit_char n = ''0123456789abcdef'' ! n"

definition is_digit :: "char \<Rightarrow> bool" where
  "is_digit c \<longleftrightarrow> 48 \<le> (of_char c :: nat) \<and> (of_char c :: nat) \<le> 57"

definition digit_value :: "char \<Rightarrow> nat" where
  "digit_value c = of_char c - 48"

function radix :: "nat \<Rightarrow> nat \<Rightarrow> string" where
  "radix b n = (if b \<le> 1 \<or> n < b then [digit_char n] else radix b (n div b) @ [digit_char (n mod b)])"
  by pat_completeness auto
termination
  by (relation "measure snd") auto

declare radix.simps [simp del]

fun fixed_digits :: "nat \<Rightarrow> nat \<Rightarrow> string" where
  "fixed_digits 0 n = []"
| "fixed_digits (Suc w) n = fixed_digits w (n div 10) @ [digit_char (n mod 10)]"

definition digits_value :: "string \<Rightarrow> nat" where
  "digits_value s = foldl (\<lambda>a c. 10 * a + digit_value c) 0 s"

section \<open>The functions\<close>

definition to_string_size :: "nat \<Rightarrow> string" where
  "to_string_size n = radix 10 n"

definition hex_string :: "nat \<Rightarrow> string" where
  "hex_string n = radix 16 n"

definition to_string_double :: "rat \<Rightarrow> string" where
  "to_string_double x =
     (let r = nat (round_even (\<bar>x\<bar> * 10 ^ 6)) in
      (if x < 0 then ''-'' else []) @ radix 10 (r div 10 ^ 6) @ ''.'' @ fixed_digits 6 (r mod 10 ^ 6))"

text \<open>The exponent of a decimal number, if there is one.\<close>

definition scan_sign :: "string \<Rightarrow> bool \<times> string" where
  "scan_sign s = (case s of c # r \<Rightarrow> if c = CHR ''-'' then (True, r) else if c = CHR ''+'' then (False, r) else (False, s)
     | [] \<Rightarrow> (False, s))"

definition scan_exponent :: "string \<Rightarrow> int" where
  "scan_exponent s =
     (case s of [] \<Rightarrow> 0
      | c # r \<Rightarrow>
          if c = CHR ''e'' \<or> c = CHR ''E'' then
            let (neg, r) = scan_sign r; ds = takeWhile is_digit r in
            if ds = [] then 0 else if neg then - int (digits_value ds) else int (digits_value ds)
          else 0)"

definition is_space :: "char \<Rightarrow> bool" where
  "is_space c \<longleftrightarrow> c = CHR '' '' \<or> (9 \<le> (of_char c :: nat) \<and> (of_char c :: nat) \<le> 13)"

definition stod :: "string \<Rightarrow> rat outcome" where
  "stod s =
     (let (neg, s) = scan_sign (dropWhile is_space s);
          ip = takeWhile is_digit s; s = dropWhile is_digit s;
          (fp, s) = (case s of c # r \<Rightarrow> if c = CHR ''.'' then (takeWhile is_digit r, dropWhile is_digit r) else ([], s)
            | [] \<Rightarrow> ([], s))
      in if ip = [] \<and> fp = [] then Inl (InvalidArgument ''stod'')
         else
           let e = scan_exponent s - int (length fp);
               v = of_nat (digits_value (ip @ fp)) * (if 0 \<le> e then 10 ^ nat e else 1 / 10 ^ nat (- e));
               v = (if neg then - v else v)
           in if 2 ^ 1024 \<le> \<bar>rnd64 v\<bar> then Inl OutOfRange else Inr (rnd64 v))"

section \<open>Digits and values\<close>

lemma is_digit_char: "n < 10 \<Longrightarrow> is_digit (digit_char n) \<and> digit_value (digit_char n) = n"
proof -
  assume "n < 10"
  then have "n \<in> set [0..<10]" by simp
  moreover have "\<forall>n \<in> set [0..<10]. is_digit (digit_char n) \<and> digit_value (digit_char n) = n" by code_simp
  ultimately show ?thesis by blast
qed

lemma digits_value_simps [simp]:
  "digits_value [] = 0"
  "digits_value (s @ [c]) = 10 * digits_value s + digit_value c"
  by (simp_all add: digits_value_def)

lemma digits_value_append: "digits_value (s @ t) = digits_value s * 10 ^ length t + digits_value t"
proof (induction t rule: rev_induct)
  case (snoc c t)
  have "digits_value (s @ t @ [c]) = 10 * digits_value (s @ t) + digit_value c"
    using digits_value_simps(2) [of "s @ t" c] by simp
  with snoc show ?case by (simp add: algebra_simps)
qed simp

lemma radix_digits: "list_all is_digit (radix 10 n) \<and> digits_value (radix 10 n) = n \<and> radix 10 n \<noteq> []"
proof (induction n rule: less_induct)
  case (less n)
  show ?case
  proof (cases "n < 10")
    case True
    then show ?thesis
      using is_digit_char [of n] digits_value_simps(2) [of "[]" "digit_char n"] by (simp add: radix.simps [of 10 n])
  next
    case False
    with less [of "n div 10"] is_digit_char [of "n mod 10"] show ?thesis
      by (simp add: radix.simps [of 10 n])
  qed
qed

lemma fixed_digits_value:
  "list_all is_digit (fixed_digits w n) \<and> length (fixed_digits w n) = w \<and> digits_value (fixed_digits w n) = n mod 10 ^ w"
proof (induction w arbitrary: n)
  case (Suc w)
  have "n mod 10 ^ Suc w = 10 * (n div 10 mod 10 ^ w) + n mod 10"
    using mod_mult2_eq [of n 10 "10 ^ w"] by simp
  with Suc [of "n div 10"] is_digit_char [of "n mod 10"] show ?case by simp
qed simp

lemma to_string_size_inj: "to_string_size m = to_string_size n \<longleftrightarrow> m = n"
  unfolding to_string_size_def using radix_digits by metis

section \<open>Reading a printed double\<close>

lemma takeWhile_digits:
  "list_all is_digit ds \<Longrightarrow> r = [] \<or> \<not> is_digit (hd r) \<Longrightarrow>
    takeWhile is_digit (ds @ r) = ds \<and> dropWhile is_digit (ds @ r) = r"
  by (induction ds) (cases r; simp)+

lemma digit_head:
  assumes "list_all is_digit ds" and "ds \<noteq> []"
  shows "dropWhile is_space (ds @ r) = ds @ r" and "scan_sign (ds @ r) = (False, ds @ r)"
proof -
  obtain c ds' where ds: "ds = c # ds'" using assms(2) by (cases ds) auto
  with assms(1) have c: "48 \<le> (of_char c :: nat)" "(of_char c :: nat) \<le> 57" by (simp_all add: is_digit_def)
  then have "c \<noteq> CHR '' ''" "c \<noteq> CHR ''-''" "c \<noteq> CHR ''+''" by auto
  with c show "dropWhile is_space (ds @ r) = ds @ r" "scan_sign (ds @ r) = (False, ds @ r)"
    by (simp_all add: ds is_space_def scan_sign_def)
qed

lemma point_not_digit: "\<not> is_digit (CHR ''.'')"
  by (simp add: is_digit_def)

text \<open>What comes back is the value rounded to six digits and then to a double.\<close>

definition printed_double :: "rat \<Rightarrow> rat" where
  "printed_double x = rnd64 (of_int (round_even (x * 10 ^ 6)) / 10 ^ 6)"

lemma stod_to_string:
  assumes "0 \<le> x" and "\<bar>printed_double x\<bar> < 2 ^ 1024"
  shows "stod (to_string_double x) = Inr (printed_double x)"
proof -
  define r where "r = nat (round_even (x * 10 ^ 6))"
  define ip where "ip = radix 10 (r div 10 ^ 6)"
  define fp where "fp = fixed_digits 6 (r mod 10 ^ 6)"
  have shown: "to_string_double x = ip @ CHR ''.'' # fp"
    using assms(1) by (simp add: to_string_double_def Let_def r_def ip_def fp_def)
  note ip = radix_digits [of "r div 10 ^ 6", folded ip_def]
  note fp = fixed_digits_value [of 6 "r mod 10 ^ 6", folded fp_def]
  have scan: "takeWhile is_digit (ip @ CHR ''.'' # fp) = ip" "dropWhile is_digit (ip @ CHR ''.'' # fp) = CHR ''.'' # fp"
    using takeWhile_digits [of ip "CHR ''.'' # fp"] ip point_not_digit by simp_all
  have frac: "takeWhile is_digit fp = fp" "dropWhile is_digit fp = []"
    using takeWhile_digits [of fp "[]"] fp by simp_all
  have "digits_value (ip @ fp) = r div 10 ^ 6 * 10 ^ 6 + r mod 10 ^ 6 mod 10 ^ 6"
    unfolding digits_value_append using ip fp by simp
  then have number: "digits_value (ip @ fp) = r" by simp
  have "0 \<le> round_even (x * 10 ^ 6)" using assms(1) round_even_ge [of 0 "x * 10 ^ 6"] by simp
  then have "of_nat r = (of_int (round_even (x * 10 ^ 6)) :: rat)" by (simp add: r_def)
  then have "rnd64 (of_nat (digits_value (ip @ fp)) * (1 / 10 ^ 6)) = printed_double x"
    by (simp add: number printed_double_def)
  then show ?thesis
    using assms(2) ip fp
    by (simp add: stod_def shown digit_head scan frac scan_exponent_def Let_def)
qed

lemma printed_double_error:
  assumes "0 \<le> x" and "x \<le> 2 ^ 32"
  shows "\<bar>printed_double x - x\<bar> \<le> 1 / 10 ^ 6" and "\<bar>printed_double x\<bar> < 2 ^ 1024" and "0 \<le> printed_double x"
proof -
  define z where "z = (of_int (round_even (x * 10 ^ 6)) / 10 ^ 6 :: rat)"
  have "\<bar>of_int (round_even (x * 10 ^ 6)) - x * 10 ^ 6\<bar> \<le> 1 / 2" by (rule round_even_error)
  moreover have "of_int (round_even (x * 10 ^ 6)) = z * 10 ^ 6" by (simp add: z_def)
  ultimately have "z * 10 ^ 6 - x * 10 ^ 6 \<le> 1 / 2" "x * 10 ^ 6 - z * 10 ^ 6 \<le> 1 / 2" by linarith+
  then have zx: "\<bar>z - x\<bar> \<le> 1 / (2 * 10 ^ 6)" unfolding abs_le_iff by (simp add: field_simps)
  have "0 \<le> round_even (x * 10 ^ 6)" using assms(1) round_even_ge [of 0 "x * 10 ^ 6"] by simp
  then have z: "0 \<le> z" by (simp add: z_def)
  have "\<bar>rnd64 z - z\<bar> \<le> z / 2 ^ 53" using rnd64_error [of z] z by simp
  moreover have "z \<le> 2 ^ 32 + 1" using zx [unfolded abs_le_iff] assms(2) by simp
  then have "z / 2 ^ 53 \<le> 1 / (2 * 10 ^ 6)" by simp
  ultimately have "\<bar>rnd64 z - z\<bar> \<le> 1 / (2 * 10 ^ 6)" by linarith
  with zx show err: "\<bar>printed_double x - x\<bar> \<le> 1 / 10 ^ 6"
    unfolding printed_double_def z_def [symmetric] abs_le_iff by simp
  show "0 \<le> printed_double x"
    unfolding printed_double_def z_def [symmetric] using z by (rule double.rnd_nonneg)
  have "(2 :: rat) ^ 33 < 2 ^ 1024" by (rule power_strict_increasing) simp_all
  moreover have "\<bar>printed_double x\<bar> \<le> 2 ^ 33" using err assms unfolding abs_le_iff by simp
  ultimately show "\<bar>printed_double x\<bar> < 2 ^ 1024" by linarith
qed

end
