(* ===== verification/Etcd_Client.thy ===== *)
theory Etcd_Client
  imports Effects Number_Text "HOL-Library.Sublist"
begin

text \<open>
  \<open>EtcdClient\<close> (\<open>app/src/EtcdClient.cpp\<close>): the registry of searchers and of their response times.
  The etcd service is a parameter, a record of the four calls the class makes; \<open>etcd_contract\<close> says
  what etcd documents about them. A response that is not ok is \<open>Inl\<close> of its error message.
\<close>

section \<open>The etcd service\<close>

record 'e etcd_lib =
  et_ls :: "'e \<Rightarrow> string \<Rightarrow> string + (string \<times> string) list"
  et_keys :: "'e \<Rightarrow> string \<Rightarrow> string + string list"
  et_set :: "'e \<Rightarrow> string \<Rightarrow> string \<Rightarrow> (string + unit) \<times> 'e"
  et_rm :: "'e \<Rightarrow> string \<Rightarrow> (string + unit) \<times> 'e"

text \<open>
  \<open>ls\<close> and \<open>keys\<close> list the keys that start with the given string, in ascending order; removing a key
  that does not exist is an error.
\<close>

definition keys_below :: "(string \<rightharpoonup> string) \<Rightarrow> string \<Rightarrow> string list" where
  "keys_below m p = sorted_list_of_set {k \<in> dom m. prefix p k}"

definition etcd_contract :: "'e etcd_lib \<Rightarrow> ('e \<Rightarrow> string \<rightharpoonup> string) \<Rightarrow> bool" where
  "etcd_contract E kv \<longleftrightarrow>
     (\<forall>e. finite (dom (kv e))) \<and>
     (\<forall>e p. et_ls E e p = Inr (map (\<lambda>k. (k, the (kv e k))) (keys_below (kv e) p))) \<and>
     (\<forall>e p. et_keys E e p = Inr (keys_below (kv e) p)) \<and>
     (\<forall>e k v. fst (et_set E e k v) = Inr () \<and> kv (snd (et_set E e k v)) = (kv e)(k \<mapsto> v)) \<and>
     (\<forall>e k. (case kv e k of
        None \<Rightarrow> (\<exists>msg. et_rm E e k = (Inl msg, e))
      | Some _ \<Rightarrow> fst (et_rm E e k) = Inr () \<and> kv (snd (et_rm E e k)) = (kv e)(k := None)))"

section \<open>The code\<close>

text \<open>
  Every method turns a response that is not ok into a \<open>runtime_error\<close>, catches it as a
  \<open>std::exception\<close> and throws that by name, so that only the base class is left. An exception that
  the etcd client throws itself takes the same way.
\<close>

definition rethrow_sliced :: "('s, 'a) proc \<Rightarrow> ('s, 'a) proc" where
  "rethrow_sliced m = catchP m (\<lambda>e. throwP StdException)"

definition GetAllValues :: "'e etcd_lib \<Rightarrow> string \<Rightarrow> ('e, string list) proc" where
  "GetAllValues E path = rethrow_sliced (\<lambda>e.
     case et_ls E e path of
       Inl msg \<Rightarrow> throwP (RuntimeError (''Error while listing keys. etcd response: '' @ msg)) e
     | Inr kvs \<Rightarrow> returnP (map snd kvs) e)"

text \<open>\<open>boost::algorithm::split\<close> at every slash; \<open>n\<close> slashes give \<open>n + 1\<close> parts.\<close>

fun split_path :: "string \<Rightarrow> string list" where
  "split_path [] = [[]]"
| "split_path (c # s) =
     (if c = CHR ''/'' then [] # split_path s else (c # hd (split_path s)) # tl (split_path s))"

definition ListAllKeys :: "'e etcd_lib \<Rightarrow> string \<Rightarrow> nat \<Rightarrow> ('e, string list) proc" where
  "ListAllKeys E path nesting_level = rethrow_sliced (\<lambda>e.
     case et_keys E e path of
       Inl msg \<Rightarrow> throwP (RuntimeError (''Error while listing keys. etcd response: '' @ msg)) e
     | Inr ks \<Rightarrow>
         if \<exists>k \<in> set ks. length (split_path k) \<le> nesting_level
         then throwP (RuntimeError ''Nesting level provided exceeded path length'') e
         else returnP (sorted_list_of_set (set (map (\<lambda>k. split_path k ! nesting_level) ks))) e)"

definition AddElement :: "'e etcd_lib \<Rightarrow> string \<Rightarrow> string \<Rightarrow> ('e, unit) proc" where
  "AddElement E path value = rethrow_sliced (\<lambda>e.
     case et_set E e path value of
       (Inl msg, e) \<Rightarrow> throwP (RuntimeError (''Error while adding searcher. etcd response: '' @ msg)) e
     | (Inr _, e) \<Rightarrow> returnP () e)"

definition RemoveElement :: "'e etcd_lib \<Rightarrow> string \<Rightarrow> ('e, unit) proc" where
  "RemoveElement E path = rethrow_sliced (\<lambda>e.
     case et_rm E e path of
       (Inl msg, e) \<Rightarrow> throwP (RuntimeError (''Error while removing searcher. etcd response: '' @ msg)) e
     | (Inr _, e) \<Rightarrow> returnP () e)"

definition ListSearcherHosts :: "'e etcd_lib \<Rightarrow> string \<Rightarrow> string option \<Rightarrow> ('e, string list) proc" where
  "ListSearcherHosts E index_id shard_id =
     GetAllValues E (index_id @ ''/searchers'' @
       (case shard_id of Some s \<Rightarrow> ''/'' @ s @ ''/hosts'' | None \<Rightarrow> []))"

definition AddSearcherHost :: "'e etcd_lib \<Rightarrow> string \<Rightarrow> string \<Rightarrow> string \<Rightarrow> ('e, unit) proc" where
  "AddSearcherHost E index_id shard_id searcher_addr =
     AddElement E (index_id @ ''/searchers/'' @ shard_id @ ''/hosts/'' @ searcher_addr) searcher_addr"

definition RemoveSearcherHost :: "'e etcd_lib \<Rightarrow> string \<Rightarrow> string \<Rightarrow> string \<Rightarrow> ('e, unit) proc" where
  "RemoveSearcherHost E index_id shard_id searcher_addr =
     RemoveElement E (index_id @ ''/searchers/'' @ shard_id @ ''/hosts/'' @ searcher_addr)"

definition ListShardIds :: "'e etcd_lib \<Rightarrow> string \<Rightarrow> ('e, string list) proc" where
  "ListShardIds E index_id = ListAllKeys E (index_id @ ''/searchers'') 2"

definition GetSearcherAverageResponseTime :: "'e etcd_lib \<Rightarrow> string \<Rightarrow> string \<Rightarrow> ('e, rat) proc" where
  "GetSearcherAverageResponseTime E index_id shard_id =
     bindP (GetAllValues E (index_id @ ''/searchers/'' @ shard_id @ ''/stats/average_response_time'')) (\<lambda>result.
       if result = [] then returnP 0 else liftP (stod (hd result)))"

definition UpdateAverageResponseTime :: "'e etcd_lib \<Rightarrow> string \<Rightarrow> string \<Rightarrow> rat \<Rightarrow> ('e, unit) proc" where
  "UpdateAverageResponseTime E index_id shard_id updated_value =
     AddElement E (index_id @ ''/searchers/'' @ shard_id @ ''/stats/average_response_time'')
       (to_string_double updated_value)"

text \<open>\<open>DebugPrintEverything\<close>, without the output: it can still fail.\<close>

definition DebugPrintEverything :: "'e etcd_lib \<Rightarrow> ('e, unit) proc" where
  "DebugPrintEverything E = rethrow_sliced (\<lambda>e.
     case et_keys E e [] of
       Inl msg \<Rightarrow> throwP (RuntimeError (''Error while printing etcd debug info. etcd response: '' @ msg)) e
     | Inr ks \<Rightarrow> returnP () e)"

section \<open>Paths\<close>

text \<open>
  The keys of the registry. Index and shard identifiers are the first and the third component of a
  key, so they must not contain a slash themselves.
\<close>

definition no_slash :: "string \<Rightarrow> bool" where
  "no_slash s \<longleftrightarrow> CHR ''/'' \<notin> set s"

definition host_key :: "string \<Rightarrow> string \<Rightarrow> string \<Rightarrow> string" where
  "host_key i s a = i @ ''/searchers/'' @ s @ ''/hosts/'' @ a"

definition time_key :: "string \<Rightarrow> string \<Rightarrow> string" where
  "time_key i s = i @ ''/searchers/'' @ s @ ''/stats/average_response_time''"

lemma slash_split:
  assumes "no_slash i" and "no_slash j"
  shows "i @ CHR ''/'' # x = j @ CHR ''/'' # y \<longleftrightarrow> i = j \<and> x = y"
  using assms
proof (induction i arbitrary: j)
  case Nil
  then show ?case by (cases j) (auto simp: no_slash_def)
next
  case (Cons c i)
  then show ?case by (cases j) (auto simp: no_slash_def)
qed

lemma prefix_slash_split:
  assumes "no_slash i" and "no_slash j"
  shows "prefix (i @ CHR ''/'' # x) (j @ CHR ''/'' # y) \<longleftrightarrow> i = j \<and> prefix x y"
  using slash_split [OF assms(2,1)] by (auto simp: prefix_def)

lemma split_path_component:
  "no_slash i \<Longrightarrow> split_path (i @ CHR ''/'' # r) = i # split_path r"
  by (induction i) (auto simp: no_slash_def)

lemma host_key_eq:
  assumes "no_slash i" "no_slash s" "no_slash j" "no_slash t"
  shows "host_key i s a = host_key j t b \<longleftrightarrow> i = j \<and> s = t \<and> a = b"
  using slash_split [OF assms(1,3)] slash_split [OF assms(2,4)] by (simp add: host_key_def)

lemma time_key_eq:
  assumes "no_slash i" "no_slash s" "no_slash j" "no_slash t"
  shows "time_key i s = time_key j t \<longleftrightarrow> i = j \<and> s = t"
  using slash_split [OF assms(1,3)] slash_split [OF assms(2,4)] by (simp add: time_key_def)

lemma host_key_time_key:
  assumes "no_slash i" "no_slash s" "no_slash j" "no_slash t"
  shows "host_key i s a \<noteq> time_key j t"
  using slash_split [OF assms(1,3)] slash_split [OF assms(2,4)] by (simp add: time_key_def host_key_def)

lemma prefix_hosts:
  assumes "no_slash i" "no_slash s" "no_slash j" "no_slash t"
  shows "prefix (i @ ''/searchers/'' @ s @ ''/hosts'') (host_key j t a) \<longleftrightarrow> i = j \<and> s = t"
    and "\<not> prefix (i @ ''/searchers/'' @ s @ ''/hosts'') (time_key j t)"
  using prefix_slash_split [OF assms(1,3)] prefix_slash_split [OF assms(2,4)]
  by (simp_all add: host_key_def time_key_def)

lemma prefix_time:
  assumes "no_slash i" "no_slash s" "no_slash j" "no_slash t"
  shows "\<not> prefix (time_key i s) (host_key j t a)"
    and "prefix (time_key i s) (time_key j t) \<longleftrightarrow> i = j \<and> s = t"
  using prefix_slash_split [OF assms(1,3)] prefix_slash_split [OF assms(2,4)]
  by (simp_all add: host_key_def time_key_def)

lemma prefix_index:
  assumes "no_slash i" "no_slash j"
  shows "prefix (i @ ''/searchers'') (host_key j t a) \<longleftrightarrow> i = j"
    and "prefix (i @ ''/searchers'') (time_key j t) \<longleftrightarrow> i = j"
  using prefix_slash_split [OF assms] by (simp_all add: host_key_def time_key_def)

lemma split_host_key:
  assumes "no_slash i" "no_slash s"
  shows "2 < length (split_path (host_key i s a))" and "split_path (host_key i s a) ! 2 = s"
proof -
  have "no_slash ''searchers''" "no_slash ''hosts''" by (simp_all add: no_slash_def)
  then have "split_path (host_key i s a) = [i, ''searchers'', s, ''hosts''] @ split_path a"
    using assms split_path_component [of i "''searchers/'' @ s @ ''/hosts/'' @ a"]
      split_path_component [of "''searchers''" "s @ ''/hosts/'' @ a"] split_path_component [of s "''hosts/'' @ a"]
      split_path_component [of "''hosts''" a]
    by (simp add: host_key_def)
  then show "2 < length (split_path (host_key i s a))" "split_path (host_key i s a) ! 2 = s" by simp_all
qed

lemma split_time_key:
  assumes "no_slash i" "no_slash s"
  shows "2 < length (split_path (time_key i s))" and "split_path (time_key i s) ! 2 = s"
proof -
  have "no_slash ''searchers''" "no_slash ''stats''" by (simp_all add: no_slash_def)
  then have "split_path (time_key i s) = [i, ''searchers'', s, ''stats''] @ split_path ''average_response_time''"
    using assms split_path_component [of i "''searchers/'' @ s @ ''/stats/average_response_time''"]
      split_path_component [of "''searchers''" "s @ ''/stats/average_response_time''"]
      split_path_component [of s "''stats/average_response_time''"]
      split_path_component [of "''stats''" "''average_response_time''"]
    by (simp add: time_key_def del: split_path.simps)
  then show "2 < length (split_path (time_key i s))" "split_path (time_key i s) ! 2 = s"
    by (simp_all del: split_path.simps)
qed

section \<open>The registry\<close>

text \<open>
  What the servers see in etcd: which addresses serve which shard of which index, and the text
  stored as the response time of a shard.
\<close>

record registry =
  reg_hosts :: "(string \<times> string \<times> string) set"
  reg_times :: "string \<times> string \<rightharpoonup> string"

definition hosts_of :: "registry \<Rightarrow> string \<Rightarrow> string \<Rightarrow> string set" where
  "hosts_of R i s = {a. (i, s, a) \<in> reg_hosts R}"

definition shards_of :: "registry \<Rightarrow> string \<Rightarrow> string set" where
  "shards_of R i = {s. (\<exists>a. (i, s, a) \<in> reg_hosts R) \<or> (i, s) \<in> dom (reg_times R)}"

definition add_host :: "string \<Rightarrow> string \<Rightarrow> string \<Rightarrow> registry \<Rightarrow> registry" where
  "add_host i s a R = R\<lparr>reg_hosts := insert (i, s, a) (reg_hosts R)\<rparr>"

definition remove_host :: "string \<Rightarrow> string \<Rightarrow> string \<Rightarrow> registry \<Rightarrow> registry" where
  "remove_host i s a R = R\<lparr>reg_hosts := reg_hosts R - {(i, s, a)}\<rparr>"

definition set_time :: "string \<Rightarrow> string \<Rightarrow> rat \<Rightarrow> registry \<Rightarrow> registry" where
  "set_time i s t R = R\<lparr>reg_times := (reg_times R)((i, s) \<mapsto> to_string_double t)\<rparr>"

text \<open>The promise of a client of the registry.\<close>

locale searcher_registry =
  fixes add remove :: "string \<Rightarrow> string \<Rightarrow> string \<Rightarrow> ('e, unit) proc"
    and update_time :: "string \<Rightarrow> string \<Rightarrow> rat \<Rightarrow> ('e, unit) proc"
    and list_hosts :: "string \<Rightarrow> string option \<Rightarrow> ('e, string list) proc"
    and list_shards :: "string \<Rightarrow> ('e, string list) proc"
    and get_time :: "string \<Rightarrow> string \<Rightarrow> ('e, rat) proc"
    and holds :: "'e \<Rightarrow> registry \<Rightarrow> bool"
  assumes add_holds: "\<lbrakk>holds e R; no_slash i; no_slash s\<rbrakk> \<Longrightarrow>
      \<exists>e'. add i s a e = (Inr (), e') \<and> holds e' (add_host i s a R)"
    and remove_holds: "\<lbrakk>holds e R; no_slash i; no_slash s; a \<in> hosts_of R i s\<rbrakk> \<Longrightarrow>
      \<exists>e'. remove i s a e = (Inr (), e') \<and> holds e' (remove_host i s a R)"
    and remove_missing: "\<lbrakk>holds e R; no_slash i; no_slash s; a \<notin> hosts_of R i s\<rbrakk> \<Longrightarrow>
      remove i s a e = (Inl StdException, e)"
    and update_holds: "\<lbrakk>holds e R; no_slash i; no_slash s\<rbrakk> \<Longrightarrow>
      \<exists>e'. update_time i s t e = (Inr (), e') \<and> holds e' (set_time i s t R)"
    and hosts_listed: "\<lbrakk>holds e R; no_slash i; no_slash s\<rbrakk> \<Longrightarrow>
      list_hosts i (Some s) e = (Inr (sorted_list_of_set (hosts_of R i s)), e)"
    and shards_listed: "\<lbrakk>holds e R; no_slash i\<rbrakk> \<Longrightarrow>
      list_shards i e = (Inr (sorted_list_of_set (shards_of R i)), e)"
    and time_read: "\<lbrakk>holds e R; no_slash i; no_slash s\<rbrakk> \<Longrightarrow>
      get_time i s e = ((case reg_times R (i, s) of None \<Rightarrow> Inr 0 | Some t \<Rightarrow> stod t), e)"
    and finite_hosts: "holds e R \<Longrightarrow> finite (reg_hosts R)"
    and finite_shards: "holds e R \<Longrightarrow> finite (shards_of R i)"
begin

lemma finite_hosts_of: "holds e R \<Longrightarrow> finite (hosts_of R i s)"
proof -
  assume "holds e R"
  then have "finite ((\<lambda>(_, _, a). a) ` reg_hosts R)" by (simp add: finite_hosts)
  moreover have "hosts_of R i s \<subseteq> (\<lambda>(_, _, a). a) ` reg_hosts R" by (force simp: hosts_of_def)
  ultimately show ?thesis by (rule finite_subset [rotated])
qed

text \<open>Registering, then listing; and unregistering, then listing.\<close>

lemma added_listed:
  assumes "holds e R" "no_slash i" "no_slash s"
  shows "\<exists>e' hosts shards. add i s a e = (Inr (), e') \<and> list_hosts i (Some s) e' = (Inr hosts, e') \<and>
    set hosts = insert a (hosts_of R i s) \<and> list_shards i e' = (Inr shards, e') \<and> s \<in> set shards"
proof -
  from add_holds [OF assms] obtain e' where e': "add i s a e = (Inr (), e')" "holds e' (add_host i s a R)" by blast
  have "hosts_of (add_host i s a R) i s = insert a (hosts_of R i s)" "s \<in> shards_of (add_host i s a R) i"
    by (auto simp: hosts_of_def shards_of_def add_host_def)
  then show ?thesis
    using e' hosts_listed [OF e'(2) assms(2,3)] shards_listed [OF e'(2) assms(2)]
      finite_hosts_of [OF e'(2), of i s] finite_shards [OF e'(2), of i] by (simp add: set_insort_key)
qed

lemma removed_not_listed:
  assumes "holds e R" "no_slash i" "no_slash s"
  shows "\<exists>hosts. list_hosts i (Some s) (snd (remove i s a e)) = (Inr hosts, snd (remove i s a e)) \<and>
    set hosts = hosts_of R i s - {a}"
proof (cases "a \<in> hosts_of R i s")
  case True
  from remove_holds [OF assms this] obtain e' where e': "remove i s a e = (Inr (), e')" "holds e' (remove_host i s a R)"
    by blast
  have "hosts_of (remove_host i s a R) i s = hosts_of R i s - {a}" by (auto simp: hosts_of_def remove_host_def)
  then show ?thesis using e' hosts_listed [OF e'(2) assms(2,3)] finite_hosts_of [OF e'(2), of i s] by simp
next
  case False
  with remove_missing [OF assms False] hosts_listed [OF assms] finite_hosts_of [OF assms(1)] show ?thesis by simp
qed

text \<open>A stored response time is read back up to a millionth of a second.\<close>

lemma time_roundtrip:
  assumes "holds e R" "no_slash i" "no_slash s" and "0 \<le> t" "t \<le> 2 ^ 32"
  shows "\<exists>e' t'. update_time i s t e = (Inr (), e') \<and> get_time i s e' = (Inr t', e') \<and> \<bar>t' - t\<bar> \<le> 1 / 10 ^ 6"
proof -
  from update_holds [OF assms(1-3)] obtain e' where e': "update_time i s t e = (Inr (), e')" "holds e' (set_time i s t R)"
    by blast
  have "stod (to_string_double t) = Inr (printed_double t)"
    using printed_double_error(2) [OF assms(4,5)] by (intro stod_to_string assms(4))
  then have "get_time i s e' = (Inr (printed_double t), e')"
    using time_read [OF e'(2) assms(2,3)] by (simp add: set_time_def)
  with e'(1) printed_double_error(1) [OF assms(4,5)] show ?thesis by blast
qed

end

section \<open>The client keeps the promise\<close>

definition registry_rep :: "(string \<rightharpoonup> string) \<Rightarrow> registry \<Rightarrow> bool" where
  "registry_rep m R \<longleftrightarrow>
     finite (dom m) \<and>
     (\<forall>i s a. (i, s, a) \<in> reg_hosts R \<longrightarrow> no_slash i \<and> no_slash s) \<and>
     (\<forall>i s. (i, s) \<in> dom (reg_times R) \<longrightarrow> no_slash i \<and> no_slash s) \<and>
     (\<forall>k v. m k = Some v \<longleftrightarrow>
        (\<exists>i s. (i, s, v) \<in> reg_hosts R \<and> k = host_key i s v) \<or>
        (\<exists>i s. reg_times R (i, s) = Some v \<and> k = time_key i s))"

lemma registry_repD:
  assumes "registry_rep m R"
  shows "finite (dom m)" and "(i, s, a) \<in> reg_hosts R \<Longrightarrow> no_slash i \<and> no_slash s"
    and "reg_times R (i, s) = Some v \<Longrightarrow> no_slash i \<and> no_slash s"
    and "m k = Some v \<longleftrightarrow> (\<exists>i s. (i, s, v) \<in> reg_hosts R \<and> k = host_key i s v) \<or>
        (\<exists>i s. reg_times R (i, s) = Some v \<and> k = time_key i s)"
  using assms unfolding registry_rep_def by (blast+)

lemma registry_repI:
  assumes "finite (dom m)" and "\<And>i s a. (i, s, a) \<in> reg_hosts R \<Longrightarrow> no_slash i \<and> no_slash s"
    and "\<And>i s v. reg_times R (i, s) = Some v \<Longrightarrow> no_slash i \<and> no_slash s"
    and "\<And>k v. m k = Some v \<longleftrightarrow> (\<exists>i s. (i, s, v) \<in> reg_hosts R \<and> k = host_key i s v) \<or>
        (\<exists>i s. reg_times R (i, s) = Some v \<and> k = time_key i s)"
  shows "registry_rep m R"
  unfolding registry_rep_def using assms by blast

lemma registry_rep_dom:
  assumes "registry_rep m R"
  shows "k \<in> dom m \<longleftrightarrow> (\<exists>i s a. (i, s, a) \<in> reg_hosts R \<and> k = host_key i s a) \<or>
    (\<exists>i s. (i, s) \<in> dom (reg_times R) \<and> k = time_key i s)"
  unfolding dom_def mem_Collect_eq not_None_eq registry_repD(4) [OF assms] by blast

lemma rep_add_host:
  assumes rep: "registry_rep m R" and ids: "no_slash i" "no_slash s"
  shows "registry_rep (m(host_key i s a \<mapsto> a)) (add_host i s a R)"
proof -
  note D = registry_repD [OF rep]
  have "(m(host_key i s a \<mapsto> a)) k = Some v \<longleftrightarrow>
      (\<exists>j t. (j, t, v) \<in> insert (i, s, a) (reg_hosts R) \<and> k = host_key j t v) \<or>
      (\<exists>j t. reg_times R (j, t) = Some v \<and> k = time_key j t)" for k v
  proof (cases "k = host_key i s a")
    case True
    have "k \<noteq> time_key j t" if "reg_times R (j, t) = Some v" for j t
      using D(3) [OF that] host_key_time_key [OF ids] True by metis
    moreover have "v = a" if "(j, t, v) \<in> insert (i, s, a) (reg_hosts R)" "k = host_key j t v" for j t
    proof -
      have "no_slash j" "no_slash t" using that(1) D(2) [of j t v] ids by auto
      from host_key_eq [OF ids this] that(2) True show ?thesis by simp
    qed
    ultimately show ?thesis using True by auto
  next
    case False
    then show ?thesis using D(4) [of k v] by auto
  qed
  then show ?thesis
    using D(1) D(2,3) ids by (intro registry_repI) (auto simp: add_host_def split: if_splits)
qed

lemma rep_remove_host:
  assumes rep: "registry_rep m R" and ids: "no_slash i" "no_slash s"
  shows "registry_rep (m(host_key i s a := None)) (remove_host i s a R)"
proof -
  note D = registry_repD [OF rep]
  have "(m(host_key i s a := None)) k = Some v \<longleftrightarrow>
      (\<exists>j t. (j, t, v) \<in> reg_hosts R - {(i, s, a)} \<and> k = host_key j t v) \<or>
      (\<exists>j t. reg_times R (j, t) = Some v \<and> k = time_key j t)" for k v
  proof (cases "k = host_key i s a")
    case True
    have "k \<noteq> time_key j t" if "reg_times R (j, t) = Some v" for j t
      using D(3) [OF that] host_key_time_key [OF ids] True by metis
    moreover have "(j, t, v) = (i, s, a)" if "(j, t, v) \<in> reg_hosts R" "k = host_key j t v" for j t
    proof -
      have "no_slash j" "no_slash t" using D(2) [OF that(1)] by simp_all
      from host_key_eq [OF ids this] that(2) True show ?thesis by simp
    qed
    ultimately show ?thesis using True by auto
  next
    case False
    then show ?thesis using D(4) [of k v] by auto
  qed
  then show ?thesis
    using D(1) D(2,3) ids by (intro registry_repI) (auto simp: remove_host_def split: if_splits)
qed

lemma rep_set_time:
  assumes rep: "registry_rep m R" and ids: "no_slash i" "no_slash s"
  shows "registry_rep (m(time_key i s \<mapsto> to_string_double t)) (set_time i s t R)"
proof -
  note D = registry_repD [OF rep]
  let ?T = "(reg_times R)((i, s) \<mapsto> to_string_double t)"
  have "(m(time_key i s \<mapsto> to_string_double t)) k = Some v \<longleftrightarrow>
      (\<exists>j u. (j, u, v) \<in> reg_hosts R \<and> k = host_key j u v) \<or>
      (\<exists>j u. ?T (j, u) = Some v \<and> k = time_key j u)" for k v
  proof (cases "k = time_key i s")
    case True
    have "k \<noteq> host_key j u v" if "(j, u, v) \<in> reg_hosts R" for j u
      using D(2) [OF that] host_key_time_key [OF _ _ ids] True by metis
    moreover have "?T (j, u) = Some v \<and> k = time_key j u \<longleftrightarrow> (j, u) = (i, s) \<and> v = to_string_double t" for j u
    proof (cases "(j, u) = (i, s)")
      case False
      then have "\<not> (?T (j, u) = Some v \<and> k = time_key j u)"
        using D(3) [of j u v] time_key_eq [OF ids, of j u] True by auto
      with False show ?thesis by blast
    qed (use True in auto)
    ultimately show ?thesis using True by auto
  next
    case False
    then have "?T (j, u) = Some v \<and> k = time_key j u \<longleftrightarrow> reg_times R (j, u) = Some v \<and> k = time_key j u" for j u
      by auto
    then show ?thesis using D(4) [of k v] False by simp
  qed
  then show ?thesis
    using D(1) D(2,3) ids by (intro registry_repI) (auto simp: set_time_def split: if_splits)
qed

section \<open>Listings\<close>

lemma append_less_append: "p @ x < p @ (y :: string) \<longleftrightarrow> x < y"
  by (induction p) auto

lemma sorted_list_of_set_image:
  fixes f :: "'a::linorder \<Rightarrow> 'b::linorder"
  assumes "finite A" and "\<And>x y. x < y \<Longrightarrow> f x < f y"
  shows "sorted_list_of_set (f ` A) = map f (sorted_list_of_set A)"
proof (rule sorted_distinct_set_unique)
  have "strict_mono f" using assms(2) by (rule strict_monoI)
  then show "sorted (map f (sorted_list_of_set A))" "distinct (map f (sorted_list_of_set A))"
    by (auto simp: sorted_map distinct_map strict_mono_less_eq strict_mono_eq inj_on_def)
qed (use assms(1) in simp_all)

lemma keys_below_hosts:
  assumes rep: "registry_rep m R" and ids: "no_slash i" "no_slash s"
  shows "map (\<lambda>k. the (m k)) (keys_below m (i @ ''/searchers/'' @ s @ ''/hosts'')) = sorted_list_of_set (hosts_of R i s)"
proof -
  note D = registry_repD [OF rep]
  let ?p = "i @ ''/searchers/'' @ s @ ''/hosts''"
  have "k \<in> dom m \<and> prefix ?p k \<longleftrightarrow> k \<in> host_key i s ` hosts_of R i s" for k
  proof
    assume k: "k \<in> dom m \<and> prefix ?p k"
    then consider j t a where "(j, t, a) \<in> reg_hosts R" "k = host_key j t a"
      | j t where "(j, t) \<in> dom (reg_times R)" "k = time_key j t"
      unfolding registry_rep_dom [OF rep] by blast
    then show "k \<in> host_key i s ` hosts_of R i s"
    proof cases
      case 1
      then show ?thesis using k D(2) [OF 1(1)] prefix_hosts(1) [OF ids] by (auto simp: hosts_of_def)
    next
      case 2
      then have "no_slash j" "no_slash t" using D(3) by auto
      then show ?thesis using k 2 prefix_hosts(2) [OF ids] by blast
    qed
  next
    assume "k \<in> host_key i s ` hosts_of R i s"
    then show "k \<in> dom m \<and> prefix ?p k"
      using registry_rep_dom [OF rep] prefix_hosts(1) [OF ids ids] by (auto simp: hosts_of_def)
  qed
  then have "{k \<in> dom m. prefix ?p k} = host_key i s ` hosts_of R i s" by blast
  moreover have "finite (hosts_of R i s)"
  proof (rule finite_imageD)
    show "finite (host_key i s ` hosts_of R i s)"
      using D(1) \<open>{k \<in> dom m. prefix ?p k} = _\<close> by (metis (no_types, lifting) finite_subset mem_Collect_eq subsetI)
  qed (auto simp: inj_on_def host_key_def)
  moreover have "host_key i s a < host_key i s b" if "a < b" for a b
    using append_less_append [of "i @ ''/searchers/'' @ s @ ''/hosts/''"] that by (simp add: host_key_def)
  ultimately have keys: "keys_below m ?p = map (host_key i s) (sorted_list_of_set (hosts_of R i s))"
    by (simp add: keys_below_def sorted_list_of_set_image)
  have "m (host_key i s a) = Some a" if "a \<in> hosts_of R i s" for a
    using that D(4) by (auto simp: hosts_of_def)
  then show ?thesis
    unfolding keys map_map using \<open>finite (hosts_of R i s)\<close> by (intro map_idI) simp
qed

lemma keys_below_index:
  assumes rep: "registry_rep m R" and i: "no_slash i"
  shows "\<forall>k \<in> set (keys_below m (i @ ''/searchers'')). 2 < length (split_path k)"
    and "(\<lambda>k. split_path k ! 2) ` set (keys_below m (i @ ''/searchers'')) = shards_of R i"
proof -
  note D = registry_repD [OF rep]
  have set_keys: "set (keys_below m (i @ ''/searchers'')) = {k \<in> dom m. prefix (i @ ''/searchers'') k}"
    using D(1) by (simp add: keys_below_def)
  have cases: "(\<exists>s a. (i, s, a) \<in> reg_hosts R \<and> k = host_key i s a \<and> no_slash s) \<or>
      (\<exists>s. (i, s) \<in> dom (reg_times R) \<and> k = time_key i s \<and> no_slash s)"
    if "k \<in> dom m" "prefix (i @ ''/searchers'') k" for k
    using that(1) unfolding registry_rep_dom [OF rep]
  proof (elim disjE exE conjE)
    fix j s a assume h: "(j, s, a) \<in> reg_hosts R" "k = host_key j s a"
    then have "no_slash j" "no_slash s" using D(2) by blast+
    with h that(2) prefix_index(1) [OF i] show ?thesis by blast
  next
    fix j s assume t: "(j, s) \<in> dom (reg_times R)" "k = time_key j s"
    then have "no_slash j" "no_slash s" using D(3) by auto
    with t that(2) prefix_index(2) [OF i] show ?thesis by blast
  qed
  show "\<forall>k \<in> set (keys_below m (i @ ''/searchers'')). 2 < length (split_path k)"
    using cases split_host_key(1) [OF i] split_time_key(1) [OF i] unfolding set_keys by blast
  show "(\<lambda>k. split_path k ! 2) ` set (keys_below m (i @ ''/searchers'')) = shards_of R i"
  proof (intro equalityI subsetI)
    fix s assume "s \<in> (\<lambda>k. split_path k ! 2) ` set (keys_below m (i @ ''/searchers''))"
    then obtain k where "k \<in> dom m" "prefix (i @ ''/searchers'') k" "s = split_path k ! 2"
      unfolding set_keys by blast
    from cases [OF this(1,2)] this(3) show "s \<in> shards_of R i"
      unfolding shards_of_def
      by (elim disjE exE conjE) (simp_all add: split_host_key(2) [OF i] split_time_key(2) [OF i], blast+)
  next
    fix s assume "s \<in> shards_of R i"
    then consider a where "(i, s, a) \<in> reg_hosts R" | "(i, s) \<in> dom (reg_times R)"
      unfolding shards_of_def by blast
    then show "s \<in> (\<lambda>k. split_path k ! 2) ` set (keys_below m (i @ ''/searchers''))"
    proof cases
      case 1
      then have "no_slash s" using D(2) by blast
      then have "split_path (host_key i s a) ! 2 = s" by (rule split_host_key(2) [OF i])
      moreover have "host_key i s a \<in> dom m" using 1 registry_rep_dom [OF rep] by blast
      moreover have "prefix (i @ ''/searchers'') (host_key i s a)" by (simp add: prefix_index(1) [OF i i])
      ultimately show ?thesis unfolding set_keys by force
    next
      case 2
      then have "no_slash s" using D(3) by auto
      then have "split_path (time_key i s) ! 2 = s" by (rule split_time_key(2) [OF i])
      moreover have "time_key i s \<in> dom m" using 2 registry_rep_dom [OF rep] by blast
      moreover have "prefix (i @ ''/searchers'') (time_key i s)" by (simp add: prefix_index(2) [OF i i])
      ultimately show ?thesis unfolding set_keys by force
    qed
  qed
qed

lemma keys_below_time:
  assumes rep: "registry_rep m R" and ids: "no_slash i" "no_slash s"
  shows "map (\<lambda>k. the (m k)) (keys_below m (time_key i s)) =
    (case reg_times R (i, s) of None \<Rightarrow> [] | Some t \<Rightarrow> [t])"
proof -
  note D = registry_repD [OF rep]
  have "{k \<in> dom m. prefix (time_key i s) k} = (if (i, s) \<in> dom (reg_times R) then {time_key i s} else {})"
  proof (intro set_eqI iffI)
    fix k assume "k \<in> {k \<in> dom m. prefix (time_key i s) k}"
    then have k: "k \<in> dom m" "prefix (time_key i s) k" by simp_all
    from k(1) show "k \<in> (if (i, s) \<in> dom (reg_times R) then {time_key i s} else {})"
      unfolding registry_rep_dom [OF rep]
    proof (elim disjE exE conjE)
      fix j u a assume h: "(j, u, a) \<in> reg_hosts R" "k = host_key j u a"
      then have "no_slash j" "no_slash u" using D(2) by blast+
      with h k(2) prefix_time(1) [OF ids] show ?thesis by blast
    next
      fix j u assume t: "(j, u) \<in> dom (reg_times R)" "k = time_key j u"
      then have "no_slash j" "no_slash u" using D(3) by auto
      with t k(2) prefix_time(2) [OF ids] show ?thesis by simp
    qed
  next
    fix k assume "k \<in> (if (i, s) \<in> dom (reg_times R) then {time_key i s} else {})"
    then have "k = time_key i s" "(i, s) \<in> dom (reg_times R)" by (simp_all split: if_splits)
    then show "k \<in> {k \<in> dom m. prefix (time_key i s) k}"
      using registry_rep_dom [OF rep] by blast
  qed
  then have "keys_below m (time_key i s) = (if (i, s) \<in> dom (reg_times R) then [time_key i s] else [])"
    by (simp add: keys_below_def)
  moreover have "m (time_key i s) = Some t" if "reg_times R (i, s) = Some t" for t
    using that D(4) by blast
  ultimately show ?thesis by (auto split: option.split)
qed

definition etcd_holds :: "'e etcd_lib \<Rightarrow> ('e \<Rightarrow> string \<rightharpoonup> string) \<Rightarrow> 'e \<Rightarrow> registry \<Rightarrow> bool" where
  "etcd_holds E kv e R \<longleftrightarrow> etcd_contract E kv \<and> registry_rep (kv e) R"

lemma etcd_contractD:
  assumes "etcd_contract E kv"
  shows "et_ls E e p = Inr (map (\<lambda>k. (k, the (kv e k))) (keys_below (kv e) p))"
    and "et_keys E e p = Inr (keys_below (kv e) p)"
    and "\<exists>e'. et_set E e k v = (Inr (), e') \<and> kv e' = (kv e)(k \<mapsto> v)"
    and "kv e k = Some u \<Longrightarrow> \<exists>e'. et_rm E e k = (Inr (), e') \<and> kv e' = (kv e)(k := None)"
    and "kv e k = None \<Longrightarrow> \<exists>msg. et_rm E e k = (Inl msg, e)"
proof -
  note D = assms [unfolded etcd_contract_def]
  show "et_ls E e p = Inr (map (\<lambda>k. (k, the (kv e k))) (keys_below (kv e) p))"
    and "et_keys E e p = Inr (keys_below (kv e) p)" using D by simp_all
  have "fst (et_set E e k v) = Inr () \<and> kv (snd (et_set E e k v)) = (kv e)(k \<mapsto> v)" using D by blast
  then show "\<exists>e'. et_set E e k v = (Inr (), e') \<and> kv e' = (kv e)(k \<mapsto> v)" by (simp add: prod_eq_iff)
  have rm: "case kv e k of None \<Rightarrow> (\<exists>msg. et_rm E e k = (Inl msg, e))
      | Some _ \<Rightarrow> fst (et_rm E e k) = Inr () \<and> kv (snd (et_rm E e k)) = (kv e)(k := None)" using D by blast
  show "\<exists>e'. et_rm E e k = (Inr (), e') \<and> kv e' = (kv e)(k := None)" if "kv e k = Some u"
    using rm that by (simp add: prod_eq_iff)
  show "\<exists>msg. et_rm E e k = (Inl msg, e)" if "kv e k = None" using rm that by simp
qed

lemma rep_no_host:
  assumes rep: "registry_rep m R" and ids: "no_slash i" "no_slash s" and a: "a \<notin> hosts_of R i s"
  shows "m (host_key i s a) = None"
proof -
  note D = registry_repD [OF rep]
  have "m (host_key i s a) \<noteq> Some v" for v
  proof
    assume "m (host_key i s a) = Some v"
    then consider j t where "(j, t, v) \<in> reg_hosts R" "host_key i s a = host_key j t v"
      | j t where "reg_times R (j, t) = Some v" "host_key i s a = time_key j t" using D(4) by blast
    then show False
    proof cases
      case 1
      then show False using D(2) [OF 1(1)] host_key_eq [OF ids] a by (simp add: hosts_of_def)
    next
      case 2
      then show False using D(3) [OF 2(1)] host_key_time_key [OF ids] by blast
    qed
  qed
  then show ?thesis by blast
qed

lemma rep_finite_hosts:
  assumes rep: "registry_rep m R"
  shows "finite (reg_hosts R)"
proof -
  note D = registry_repD [OF rep]
  have "(\<lambda>(i, s, a). host_key i s a) ` reg_hosts R \<subseteq> dom m"
    unfolding subset_iff registry_rep_dom [OF rep] by (auto simp: image_iff)
  then have "finite ((\<lambda>(i, s, a). host_key i s a) ` reg_hosts R)" using D(1) finite_subset by blast
  moreover have "inj_on (\<lambda>(i, s, a). host_key i s a) (reg_hosts R)"
  proof (rule inj_onI)
    fix x y assume xy: "x \<in> reg_hosts R" "y \<in> reg_hosts R"
      and eq: "(\<lambda>(i, s, a). host_key i s a) x = (\<lambda>(i, s, a). host_key i s a) y"
    obtain i s a j t b where x: "x = (i, s, a)" and y: "y = (j, t, b)" by (metis prod_cases3)
    with xy have "no_slash i" "no_slash s" "no_slash j" "no_slash t" using D(2) by blast+
    from host_key_eq [OF this] eq show "x = y" by (simp add: x y)
  qed
  ultimately show ?thesis by (rule finite_imageD)
qed

lemma rep_finite_times:
  assumes rep: "registry_rep m R"
  shows "finite (dom (reg_times R))"
proof -
  note D = registry_repD [OF rep]
  have "time_key i s \<in> dom m" if "(i, s) \<in> dom (reg_times R)" for i s
    unfolding registry_rep_dom [OF rep] using that by blast
  then have "(\<lambda>(i, s). time_key i s) ` dom (reg_times R) \<subseteq> dom m" by (simp add: image_subset_iff split_paired_all)
  then have "finite ((\<lambda>(i, s). time_key i s) ` dom (reg_times R))" using D(1) finite_subset by blast
  moreover have "inj_on (\<lambda>(i, s). time_key i s) (dom (reg_times R))"
  proof (rule inj_onI)
    fix x y assume xy: "x \<in> dom (reg_times R)" "y \<in> dom (reg_times R)"
      and eq: "(\<lambda>(i, s). time_key i s) x = (\<lambda>(i, s). time_key i s) y"
    obtain i s j t where x: "x = (i, s)" and y: "y = (j, t)" by (metis surj_pair)
    with xy have "no_slash i" "no_slash s" "no_slash j" "no_slash t" using D(3) by blast+
    from time_key_eq [OF this] eq show "x = y" by (simp add: x y)
  qed
  ultimately show ?thesis by (rule finite_imageD)
qed

lemma rep_finite_shards:
  assumes "registry_rep m R"
  shows "finite (shards_of R i)"
proof -
  have "shards_of R i \<subseteq> (\<lambda>(_, s, _). s) ` reg_hosts R \<union> snd ` dom (reg_times R)" by (force simp: shards_of_def)
  then show ?thesis using rep_finite_hosts [OF assms] rep_finite_times [OF assms] by (meson finite_Un finite_imageI finite_subset)
qed

lemma host_path: "index_id @ ''/searchers/'' @ shard_id @ ''/hosts/'' @ a = host_key index_id shard_id a"
  by (simp add: host_key_def)

interpretation etcd: searcher_registry "AddSearcherHost E" "RemoveSearcherHost E" "UpdateAverageResponseTime E"
  "ListSearcherHosts E" "ListShardIds E" "GetSearcherAverageResponseTime E" "etcd_holds E kv"
  for E :: "'e etcd_lib" and kv
proof
  fix e R i s a
  assume "etcd_holds E kv e R" and ids: "no_slash i" "no_slash s"
  then have E: "etcd_contract E kv" and rep: "registry_rep (kv e) R" by (simp_all add: etcd_holds_def)
  from etcd_contractD(3) [OF E, of e "host_key i s a" a] obtain e'
    where "et_set E e (host_key i s a) a = (Inr (), e')" "kv e' = (kv e)(host_key i s a \<mapsto> a)" by blast
  then show "\<exists>e'. AddSearcherHost E i s a e = (Inr (), e') \<and> etcd_holds E kv e' (add_host i s a R)"
    using E rep_add_host [OF rep ids] unfolding AddSearcherHost_def host_path AddElement_def rethrow_sliced_def
    by (auto simp: etcd_holds_def proc_defs)
next
  fix e R i s a
  assume "etcd_holds E kv e R" and ids: "no_slash i" "no_slash s" and a: "a \<in> hosts_of R i s"
  then have E: "etcd_contract E kv" and rep: "registry_rep (kv e) R" by (simp_all add: etcd_holds_def)
  have "kv e (host_key i s a) = Some a" using a registry_repD(4) [OF rep] by (auto simp: hosts_of_def)
  from etcd_contractD(4) [OF E this] obtain e'
    where "et_rm E e (host_key i s a) = (Inr (), e')" "kv e' = (kv e)(host_key i s a := None)" by blast
  then show "\<exists>e'. RemoveSearcherHost E i s a e = (Inr (), e') \<and> etcd_holds E kv e' (remove_host i s a R)"
    using E rep_remove_host [OF rep ids] unfolding RemoveSearcherHost_def host_path RemoveElement_def rethrow_sliced_def
    by (auto simp: etcd_holds_def proc_defs)
next
  fix e R i s a
  assume "etcd_holds E kv e R" and ids: "no_slash i" "no_slash s" and a: "a \<notin> hosts_of R i s"
  then have E: "etcd_contract E kv" and rep: "registry_rep (kv e) R" by (simp_all add: etcd_holds_def)
  from rep_no_host [OF rep ids a] have "kv e (host_key i s a) = None" .
  from etcd_contractD(5) [OF E this] obtain msg where "et_rm E e (host_key i s a) = (Inl msg, e)" by blast
  then show "RemoveSearcherHost E i s a e = (Inl StdException, e)"
    unfolding RemoveSearcherHost_def host_path RemoveElement_def rethrow_sliced_def by (simp add: proc_defs)
next
  fix e R i s t
  assume "etcd_holds E kv e R" and ids: "no_slash i" "no_slash s"
  then have E: "etcd_contract E kv" and rep: "registry_rep (kv e) R" by (simp_all add: etcd_holds_def)
  from etcd_contractD(3) [OF E, of e "time_key i s" "to_string_double t"] obtain e'
    where "et_set E e (time_key i s) (to_string_double t) = (Inr (), e')"
      "kv e' = (kv e)(time_key i s \<mapsto> to_string_double t)" by blast
  then show "\<exists>e'. UpdateAverageResponseTime E i s t e = (Inr (), e') \<and> etcd_holds E kv e' (set_time i s t R)"
    using E rep_set_time [OF rep ids]
    unfolding UpdateAverageResponseTime_def time_key_def [symmetric] AddElement_def rethrow_sliced_def
    by (auto simp: etcd_holds_def proc_defs)
next
  fix e R i s
  assume "etcd_holds E kv e R" and ids: "no_slash i" "no_slash s"
  then have E: "etcd_contract E kv" and rep: "registry_rep (kv e) R" by (simp_all add: etcd_holds_def)
  show "ListSearcherHosts E i (Some s) e = (Inr (sorted_list_of_set (hosts_of R i s)), e)"
    using keys_below_hosts [OF rep ids]
    by (simp add: ListSearcherHosts_def GetAllValues_def rethrow_sliced_def proc_defs etcd_contractD(1) [OF E] comp_def)
next
  fix e R i
  assume "etcd_holds E kv e R" and i: "no_slash i"
  then have E: "etcd_contract E kv" and rep: "registry_rep (kv e) R" by (simp_all add: etcd_holds_def)
  have "\<not> (\<exists>k \<in> set (keys_below (kv e) (i @ ''/searchers'')). length (split_path k) \<le> 2)"
    using keys_below_index(1) [OF rep i] by (auto simp: not_le)
  then show "ListShardIds E i e = (Inr (sorted_list_of_set (shards_of R i)), e)"
    using keys_below_index(2) [OF rep i]
    by (simp add: ListShardIds_def ListAllKeys_def rethrow_sliced_def proc_defs etcd_contractD(2) [OF E])
next
  fix e R i s
  assume "etcd_holds E kv e R" and ids: "no_slash i" "no_slash s"
  then have E: "etcd_contract E kv" and rep: "registry_rep (kv e) R" by (simp_all add: etcd_holds_def)
  have "GetAllValues E (time_key i s) e = (Inr (case reg_times R (i, s) of None \<Rightarrow> [] | Some t \<Rightarrow> [t]), e)"
    using keys_below_time [OF rep ids]
    by (simp add: GetAllValues_def rethrow_sliced_def proc_defs etcd_contractD(1) [OF E] comp_def)
  then show "GetSearcherAverageResponseTime E i s e =
      ((case reg_times R (i, s) of None \<Rightarrow> Inr 0 | Some t \<Rightarrow> stod t), e)"
    unfolding GetSearcherAverageResponseTime_def time_key_def [symmetric] by (simp add: proc_defs split: option.split)
next
  fix e R and i :: string
  assume "etcd_holds E kv e R"
  then have "registry_rep (kv e) R" by (simp add: etcd_holds_def)
  from rep_finite_hosts [OF this] rep_finite_shards [OF this] show "finite (reg_hosts R)" "finite (shards_of R i)" .
qed

text \<open>The identifiers in a registry are the ones the paths can tell apart.\<close>

lemma etcd_holds_no_slash:
  assumes "etcd_holds E kv e R" and "s \<in> shards_of R i"
  shows "no_slash i \<and> no_slash s"
  using assms registry_repD(2,3) [of "kv e" R] by (auto simp: etcd_holds_def shards_of_def)

section \<open>A small etcd\<close>

text \<open>An etcd that is a finite association list: it satisfies the contract.\<close>

definition ref_etcd :: "(string \<times> string) list etcd_lib" where
  "ref_etcd = \<lparr>
     et_ls = (\<lambda>e p. Inr (map (\<lambda>k. (k, the (map_of e k))) (keys_below (map_of e) p))),
     et_keys = (\<lambda>e p. Inr (keys_below (map_of e) p)),
     et_set = (\<lambda>e k v. (Inr (), AList.update k v e)),
     et_rm = (\<lambda>e k. case map_of e k of None \<Rightarrow> (Inl ''Key not found'', e) | Some _ \<Rightarrow> (Inr (), AList.delete k e))\<rparr>"

lemma ref_etcd_contract: "etcd_contract ref_etcd map_of"
  unfolding etcd_contract_def ref_etcd_def
  by (auto simp: finite_dom_map_of update_conv' delete_conv' restrict_map_def fun_eq_iff split: option.split)

definition empty_registry :: registry where
  "empty_registry = \<lparr>reg_hosts = {}, reg_times = Map.empty\<rparr>"

lemma ref_etcd_empty: "etcd_holds ref_etcd map_of [] empty_registry"
  by (simp add: etcd_holds_def ref_etcd_contract registry_rep_def empty_registry_def)

section \<open>Properties\<close>

text \<open>
  C26. Registering a searcher: after \<open>AddSearcherHost\<close> the address is listed for its shard together
  with those registered before, and the shard is listed for its index; after \<open>RemoveSearcherHost\<close>
  the address, and only it, is not listed any more. Index and shard identifiers must not contain a
  slash.
\<close>

theorem registered_host_listed:
  assumes "etcd_holds E kv e R" and "no_slash i" and "no_slash s"
  shows "(\<exists>e' hosts shards. AddSearcherHost E i s a e = (Inr (), e') \<and>
      ListSearcherHosts E i (Some s) e' = (Inr hosts, e') \<and> set hosts = insert a (hosts_of R i s) \<and>
      ListShardIds E i e' = (Inr shards, e') \<and> s \<in> set shards) \<and>
    (\<exists>hosts. ListSearcherHosts E i (Some s) (snd (RemoveSearcherHost E i s a e)) =
      (Inr hosts, snd (RemoveSearcherHost E i s a e)) \<and> set hosts = hosts_of R i s - {a})"
  using etcd.added_listed [OF assms] etcd.removed_not_listed [OF assms] by blast

theorem registered_host_listed_witness:
  "\<exists>e' hosts shards. AddSearcherHost ref_etcd ''0'' ''1'' ''searcher_1:44400'' [] = (Inr (), e') \<and>
    ListSearcherHosts ref_etcd ''0'' (Some ''1'') e' = (Inr hosts, e') \<and> set hosts = {''searcher_1:44400''} \<and>
    ListShardIds ref_etcd ''0'' e' = (Inr shards, e') \<and> ''1'' \<in> set shards"
  using registered_host_listed [OF ref_etcd_empty, of "''0''" "''1''" "''searcher_1:44400''"]
  by (auto simp: no_slash_def hosts_of_def empty_registry_def)

text \<open>
  C27. A response time survives the way through etcd up to a millionth: what the coordinator stores
  with \<open>UpdateAverageResponseTime\<close>, printed with six digits, the writer reads back with
  \<open>GetSearcherAverageResponseTime\<close> without failure.
\<close>

theorem response_time_roundtrip:
  assumes "etcd_holds E kv e R" and "no_slash i" and "no_slash s" and "0 \<le> t" and "t \<le> 2 ^ 32"
  shows "\<exists>e' t'. UpdateAverageResponseTime E i s t e = (Inr (), e') \<and>
    GetSearcherAverageResponseTime E i s e' = (Inr t', e') \<and> \<bar>t' - t\<bar> \<le> 1 / 10 ^ 6"
  using etcd.time_roundtrip [OF assms] .

theorem response_time_roundtrip_witness:
  "\<exists>e' t'. UpdateAverageResponseTime ref_etcd ''0'' ''1'' (1 / 3) [] = (Inr (), e') \<and>
    GetSearcherAverageResponseTime ref_etcd ''0'' ''1'' e' = (Inr t', e') \<and> \<bar>t' - 1 / 3\<bar> \<le> 1 / 10 ^ 6"
  using response_time_roundtrip [OF ref_etcd_empty, of "''0''" "''1''" "1 / 3"] by (simp add: no_slash_def)

text \<open>
  A shard never disappears by itself: once a response time was stored for it, the shard stays
  listed for its index after its last searcher was removed. The writer goes on assigning documents
  to it although no searcher serves it.
\<close>

theorem shard_stays_listed:
  assumes "etcd_holds E kv e R" and "no_slash i" and "no_slash s"
    and "hosts_of R i s = {a}" and "(i, s) \<in> dom (reg_times R)"
  shows "\<exists>e' shards. RemoveSearcherHost E i s a e = (Inr (), e') \<and>
    ListSearcherHosts E i (Some s) e' = (Inr [], e') \<and> ListShardIds E i e' = (Inr shards, e') \<and> s \<in> set shards"
proof -
  have "a \<in> hosts_of R i s" using assms(4) by simp
  from etcd.remove_holds [OF assms(1-3) this] obtain e'
    where e': "RemoveSearcherHost E i s a e = (Inr (), e')" "etcd_holds E kv e' (remove_host i s a R)" by blast
  have "hosts_of (remove_host i s a R) i s = {}" "s \<in> shards_of (remove_host i s a R) i"
    using assms(4,5) by (auto simp: hosts_of_def remove_host_def shards_of_def)
  then show ?thesis
    using e' etcd.hosts_listed [OF e'(2) assms(2,3)] etcd.shards_listed [OF e'(2) assms(2)]
      etcd.finite_shards [OF e'(2), of i] by simp
qed

theorem shard_stays_listed_witness:
  "\<exists>e e' shards. RemoveSearcherHost ref_etcd ''0'' ''1'' ''a'' e = (Inr (), e') \<and>
    ListSearcherHosts ref_etcd ''0'' (Some ''1'') e' = (Inr [], e') \<and>
    ListShardIds ref_etcd ''0'' e' = (Inr shards, e') \<and> ''1'' \<in> set shards"
proof -
  have ids: "no_slash ''0''" "no_slash ''1''" by (simp_all add: no_slash_def)
  from etcd.add_holds [OF ref_etcd_empty ids, of "''a''"] obtain e1
    where "etcd_holds ref_etcd map_of e1 (add_host ''0'' ''1'' ''a'' empty_registry)" by blast
  from etcd.update_holds [OF this ids, of 1] obtain e2
    where e2: "etcd_holds ref_etcd map_of e2 (set_time ''0'' ''1'' 1 (add_host ''0'' ''1'' ''a'' empty_registry))" by blast
  then show ?thesis
    using shard_stays_listed [OF e2 ids, of "''a''"]
    by (auto simp: hosts_of_def set_time_def add_host_def empty_registry_def)
qed

end
