(* ===== verification/Prometheus_Exposer.thy ===== *)
theory Prometheus_Exposer
  imports Effects Float_Rounding
begin

text \<open>
  \<open>PrometheusExposer\<close> (\<open>app/include/utils/PrometheusExposer.h\<close>): named counters and gauges with
  labels, registered on first use. The Prometheus client library is a parameter: \<open>prom_contract\<close>
  says what it documents. The mutex of the class is taken and released around each access and never
  held across a call of another method, so it does not appear.
\<close>

type_synonym labels = "(string \<times> string) list"

section \<open>The Prometheus library\<close>

text \<open>
  \<open>pl_expose\<close> starts the HTTP exposer with a new registry, \<open>pl_\<dots>_family\<close> registers a family in a
  registry, \<open>pl_\<dots>_add\<close> is \<open>Family::Add\<close>, which creates the series of the labels unless it exists,
  and the other calls act on the series it returns.
\<close>

record ('p, 'cf, 'gf) prom_lib =
  pl_expose :: "string \<Rightarrow> 'p outcome"
  pl_counter_family :: "'p \<Rightarrow> string \<Rightarrow> string \<Rightarrow> ('cf \<times> 'p) outcome"
  pl_counter_add :: "'p \<Rightarrow> 'cf \<Rightarrow> labels \<Rightarrow> 'p outcome"
  pl_counter_increment :: "'p \<Rightarrow> 'cf \<Rightarrow> labels \<Rightarrow> rat \<Rightarrow> 'p"
  pl_counter_value :: "'p \<Rightarrow> 'cf \<Rightarrow> labels \<Rightarrow> rat"
  pl_gauge_family :: "'p \<Rightarrow> string \<Rightarrow> string \<Rightarrow> ('gf \<times> 'p) outcome"
  pl_gauge_add :: "'p \<Rightarrow> 'gf \<Rightarrow> labels \<Rightarrow> 'p outcome"
  pl_gauge_set :: "'p \<Rightarrow> 'gf \<Rightarrow> labels \<Rightarrow> rat \<Rightarrow> 'p"
  pl_gauge_value :: "'p \<Rightarrow> 'gf \<Rightarrow> labels \<Rightarrow> rat"

section \<open>The code\<close>

record ('p, 'cf, 'gf) PrometheusExposer =
  registry_ptr :: 'p
  counter_families :: "(string \<times> 'cf) list"
  gauge_families :: "(string \<times> 'gf) list"

definition exposer_new ::
  "('p, 'cf, 'gf) prom_lib \<Rightarrow> string \<Rightarrow> ('p, 'cf, 'gf) PrometheusExposer outcome" where
  "exposer_new P bind_address = bindR (pl_expose P bind_address) (\<lambda>p.
     Inr \<lparr>registry_ptr = p, counter_families = [], gauge_families = []\<rparr>)"

text \<open>A call of the library that changes the registry.\<close>

definition registry_call ::
  "('p \<Rightarrow> ('a \<times> 'p) outcome) \<Rightarrow> (('p, 'cf, 'gf) PrometheusExposer, 'a) proc" where
  "registry_call f s =
     (case f (registry_ptr s) of Inl e \<Rightarrow> (Inl e, s) | Inr (x, p) \<Rightarrow> (Inr x, s\<lparr>registry_ptr := p\<rparr>))"

definition registry_update ::
  "('p \<Rightarrow> 'p outcome) \<Rightarrow> (('p, 'cf, 'gf) PrometheusExposer, unit) proc" where
  "registry_update f = registry_call (\<lambda>p. bindR (f p) (\<lambda>p. Inr ((), p)))"

definition CreateCounterFamily ::
  "('p, 'cf, 'gf) prom_lib \<Rightarrow> string \<Rightarrow> string \<Rightarrow> (('p, 'cf, 'gf) PrometheusExposer, 'cf) proc" where
  "CreateCounterFamily P name help = registry_call (\<lambda>p. pl_counter_family P p name help)"

definition CreateGaugeFamily ::
  "('p, 'cf, 'gf) prom_lib \<Rightarrow> string \<Rightarrow> string \<Rightarrow> (('p, 'cf, 'gf) PrometheusExposer, 'gf) proc" where
  "CreateGaugeFamily P name help = registry_call (\<lambda>p. pl_gauge_family P p name help)"

definition AddCounter ::
  "('p, 'cf, 'gf) prom_lib \<Rightarrow> string \<Rightarrow> string \<Rightarrow> labels \<Rightarrow> (('p, 'cf, 'gf) PrometheusExposer, unit) proc" where
  "AddCounter P name help ls = bindP (readP (\<lambda>s. map_of (counter_families s) name)) (\<lambda>found.
     if found = None then
       bindP (CreateCounterFamily P name help) (\<lambda>family.
       thenP (modifyP (\<lambda>s. s\<lparr>counter_families := AList.update name family (counter_families s)\<rparr>))
         (registry_update (\<lambda>p. pl_counter_add P p family ls)))
     else returnP ())"

definition increment_family ::
  "('p, 'cf, 'gf) prom_lib \<Rightarrow> 'cf \<Rightarrow> labels \<Rightarrow> rat \<Rightarrow> (('p, 'cf, 'gf) PrometheusExposer, unit) proc" where
  "increment_family P family ls value = registry_update (\<lambda>p.
     bindR (pl_counter_add P p family ls) (\<lambda>p. Inr (pl_counter_increment P p family ls value)))"

text \<open>The null pointer is what \<open>operator[]\<close> would insert for a name that is still missing.\<close>

definition IncrementCounter ::
  "('p, 'cf, 'gf) prom_lib \<Rightarrow> string \<Rightarrow> rat \<Rightarrow> labels \<Rightarrow> (('p, 'cf, 'gf) PrometheusExposer, unit) proc" where
  "IncrementCounter P name value ls = bindP (readP (\<lambda>s. map_of (counter_families s) name)) (\<lambda>found.
     case found of
       Some family \<Rightarrow> increment_family P family ls value
     | None \<Rightarrow> thenP (AddCounter P name [] ls) (bindP (readP (\<lambda>s. map_of (counter_families s) name)) (\<lambda>found.
         case found of Some family \<Rightarrow> increment_family P family ls value | None \<Rightarrow> throwP NullPointer)))"

text \<open>
  Reading a value also creates its series. The result is converted to the type the caller asks for;
  \<open>catch (...)\<close> turns every exception into \<open>nullopt\<close>.
\<close>

definition GetCounterValue ::
  "('p, 'cf, 'gf) prom_lib \<Rightarrow> (rat \<Rightarrow> 'v outcome) \<Rightarrow> string \<Rightarrow> labels \<Rightarrow>
    (('p, 'cf, 'gf) PrometheusExposer, 'v option) proc" where
  "GetCounterValue P convert name ls = bindP (readP (\<lambda>s. map_of (counter_families s) name)) (\<lambda>it.
     case it of
       None \<Rightarrow> returnP None
     | Some family \<Rightarrow> catchP
         (thenP (registry_update (\<lambda>p. pl_counter_add P p family ls))
           (bindP (readP (\<lambda>s. pl_counter_value P (registry_ptr s) family ls)) (\<lambda>v.
             bindP (liftP (convert v)) (\<lambda>v. returnP (Some v)))))
         (\<lambda>_. returnP None))"

definition AddGauge ::
  "('p, 'cf, 'gf) prom_lib \<Rightarrow> string \<Rightarrow> string \<Rightarrow> labels \<Rightarrow> (('p, 'cf, 'gf) PrometheusExposer, unit) proc" where
  "AddGauge P name help ls = bindP (readP (\<lambda>s. map_of (gauge_families s) name)) (\<lambda>found.
     if found = None then
       bindP (CreateGaugeFamily P name help) (\<lambda>family.
       thenP (modifyP (\<lambda>s. s\<lparr>gauge_families := AList.update name family (gauge_families s)\<rparr>))
         (registry_update (\<lambda>p. pl_gauge_add P p family ls)))
     else returnP ())"

definition set_family ::
  "('p, 'cf, 'gf) prom_lib \<Rightarrow> 'gf \<Rightarrow> labels \<Rightarrow> rat \<Rightarrow> (('p, 'cf, 'gf) PrometheusExposer, unit) proc" where
  "set_family P family ls value = registry_update (\<lambda>p.
     bindR (pl_gauge_add P p family ls) (\<lambda>p. Inr (pl_gauge_set P p family ls value)))"

definition SetGauge ::
  "('p, 'cf, 'gf) prom_lib \<Rightarrow> string \<Rightarrow> rat \<Rightarrow> labels \<Rightarrow> (('p, 'cf, 'gf) PrometheusExposer, unit) proc" where
  "SetGauge P name value ls = bindP (readP (\<lambda>s. map_of (gauge_families s) name)) (\<lambda>found.
     case found of
       Some family \<Rightarrow> set_family P family ls value
     | None \<Rightarrow> thenP (AddGauge P name [] ls) (bindP (readP (\<lambda>s. map_of (gauge_families s) name)) (\<lambda>found.
         case found of Some family \<Rightarrow> set_family P family ls value | None \<Rightarrow> throwP NullPointer)))"

definition GetGaugeValue ::
  "('p, 'cf, 'gf) prom_lib \<Rightarrow> (rat \<Rightarrow> 'v outcome) \<Rightarrow> string \<Rightarrow> labels \<Rightarrow>
    (('p, 'cf, 'gf) PrometheusExposer, 'v option) proc" where
  "GetGaugeValue P convert name ls = bindP (readP (\<lambda>s. map_of (gauge_families s) name)) (\<lambda>it.
     case it of
       None \<Rightarrow> returnP None
     | Some family \<Rightarrow> catchP
         (thenP (registry_update (\<lambda>p. pl_gauge_add P p family ls))
           (bindP (readP (\<lambda>s. pl_gauge_value P (registry_ptr s) family ls)) (\<lambda>v.
             bindP (liftP (convert v)) (\<lambda>v. returnP (Some v)))))
         (\<lambda>_. returnP None))"

text \<open>The conversions of a double to \<open>double\<close> and to \<open>size_t\<close>.\<close>

definition as_double :: "rat \<Rightarrow> rat outcome" where
  "as_double x = Inr x"

definition as_size_t :: "rat \<Rightarrow> nat outcome" where
  "as_size_t x = (if -1 < x \<and> x < 2 ^ 64 then Inr (nat \<lfloor>x\<rfloor>) else Inl ConversionOverflow)"

section \<open>What the library documents\<close>

text \<open>
  \<open>cv p n ls\<close> and \<open>gv p n ls\<close> are the values of a series, zero before it exists; \<open>cn f\<close> and
  \<open>gn f\<close> the name of a family. \<open>cnames\<close> and \<open>gnames\<close> are the names used for counters and for
  gauges: a name that is not valid, or is used for both, is rejected by the library.
\<close>

definition labels_ok :: "labels \<Rightarrow> bool" where
  "labels_ok ls \<longleftrightarrow> fst ` set ls \<subseteq> {''index_id'', ''shard_id''}"

definition prom_contract ::
  "('p, 'cf, 'gf) prom_lib \<Rightarrow> string set \<Rightarrow> string set \<Rightarrow> ('p \<Rightarrow> string \<Rightarrow> labels \<Rightarrow> rat) \<Rightarrow>
    ('p \<Rightarrow> string \<Rightarrow> labels \<Rightarrow> rat) \<Rightarrow> ('cf \<Rightarrow> string) \<Rightarrow> ('gf \<Rightarrow> string) \<Rightarrow> bool" where
  "prom_contract P cnames gnames cv gv cn gn \<longleftrightarrow>
     (\<forall>p n h. n \<in> cnames \<longrightarrow> (\<exists>f p'. pl_counter_family P p n h = Inr (f, p') \<and> cn f = n \<and> cv p' = cv p \<and> gv p' = gv p)) \<and>
     (\<forall>p n h. n \<in> gnames \<longrightarrow> (\<exists>f p'. pl_gauge_family P p n h = Inr (f, p') \<and> gn f = n \<and> cv p' = cv p \<and> gv p' = gv p)) \<and>
     (\<forall>p f ls. labels_ok ls \<longrightarrow> (\<exists>p'. pl_counter_add P p f ls = Inr p' \<and> cv p' = cv p \<and> gv p' = gv p)) \<and>
     (\<forall>p f ls. labels_ok ls \<longrightarrow> (\<exists>p'. pl_gauge_add P p f ls = Inr p' \<and> cv p' = cv p \<and> gv p' = gv p)) \<and>
     (\<forall>p f ls v. 0 \<le> v \<longrightarrow>
        cv (pl_counter_increment P p f ls v) = (cv p)(cn f := (cv p (cn f))(ls := rnd64 (cv p (cn f) ls + v))) \<and>
        gv (pl_counter_increment P p f ls v) = gv p) \<and>
     (\<forall>p f ls v. cv (pl_gauge_set P p f ls v) = cv p \<and>
        gv (pl_gauge_set P p f ls v) = (gv p)(gn f := (gv p (gn f))(ls := v))) \<and>
     (\<forall>p f ls. pl_counter_value P p f ls = cv p (cn f) ls) \<and>
     (\<forall>p f ls. pl_gauge_value P p f ls = gv p (gn f) ls)"

lemma prom_contractD:
  assumes "prom_contract P cnames gnames cv gv cn gn"
  shows "n \<in> cnames \<Longrightarrow> \<exists>f p'. pl_counter_family P p n h = Inr (f, p') \<and> cn f = n \<and> cv p' = cv p \<and> gv p' = gv p"
    and "n \<in> gnames \<Longrightarrow> \<exists>f p'. pl_gauge_family P p n h = Inr (f, p') \<and> gn f = n \<and> cv p' = cv p \<and> gv p' = gv p"
    and "labels_ok ls \<Longrightarrow> \<exists>p'. pl_counter_add P p f ls = Inr p' \<and> cv p' = cv p \<and> gv p' = gv p"
    and "labels_ok ls \<Longrightarrow> \<exists>p'. pl_gauge_add P p g ls = Inr p' \<and> cv p' = cv p \<and> gv p' = gv p"
    and "0 \<le> v \<Longrightarrow> cv (pl_counter_increment P p f ls v) = (cv p)(cn f := (cv p (cn f))(ls := rnd64 (cv p (cn f) ls + v)))"
    and "0 \<le> v \<Longrightarrow> gv (pl_counter_increment P p f ls v) = gv p"
    and "cv (pl_gauge_set P p g ls v) = cv p"
    and "gv (pl_gauge_set P p g ls v) = (gv p)(gn g := (gv p (gn g))(ls := v))"
    and "pl_counter_value P p f ls = cv p (cn f) ls" and "pl_gauge_value P p g ls = gv p (gn g) ls"
  using assms unfolding prom_contract_def by simp_all

section \<open>The interface\<close>

text \<open>
  What the servers see of their metrics: the values of counters and gauges, and for which names
  there is a family of gauges.
\<close>

record metrics =
  mv_counter :: "string \<Rightarrow> labels \<Rightarrow> rat"
  mv_gauge :: "string \<Rightarrow> labels \<Rightarrow> rat"
  mv_counters :: "string set"
  mv_gauges :: "string set"

definition count_up :: "string \<Rightarrow> rat \<Rightarrow> labels \<Rightarrow> metrics \<Rightarrow> metrics" where
  "count_up n v ls M = M\<lparr>
     mv_counter := (mv_counter M)(n := (mv_counter M n)(ls := rnd64 (mv_counter M n ls + v))),
     mv_counters := insert n (mv_counters M)\<rparr>"

definition put_gauge :: "string \<Rightarrow> rat \<Rightarrow> labels \<Rightarrow> metrics \<Rightarrow> metrics" where
  "put_gauge n v ls M = M\<lparr>
     mv_gauge := (mv_gauge M)(n := (mv_gauge M n)(ls := v)),
     mv_gauges := insert n (mv_gauges M)\<rparr>"

locale metric_store =
  fixes inc set_gauge :: "string \<Rightarrow> rat \<Rightarrow> labels \<Rightarrow> ('m, unit) proc"
    and get_counter :: "string \<Rightarrow> labels \<Rightarrow> ('m, rat option) proc"
    and get_gauge :: "string \<Rightarrow> labels \<Rightarrow> ('m, rat option) proc"
    and cnames gnames :: "string set"
    and holds :: "'m \<Rightarrow> metrics \<Rightarrow> bool"
  assumes inc_holds: "\<lbrakk>holds m M; n \<in> cnames; labels_ok ls; 0 \<le> v\<rbrakk> \<Longrightarrow>
      \<exists>m'. inc n v ls m = (Inr (), m') \<and> holds m' (count_up n v ls M)"
    and set_holds: "\<lbrakk>holds m M; n \<in> gnames; labels_ok ls\<rbrakk> \<Longrightarrow>
      \<exists>m'. set_gauge n v ls m = (Inr (), m') \<and> holds m' (put_gauge n v ls M)"
    and counter_read: "\<lbrakk>holds m M; labels_ok ls\<rbrakk> \<Longrightarrow>
      \<exists>m'. get_counter n ls m = (Inr (if n \<in> mv_counters M then Some (mv_counter M n ls) else None), m') \<and> holds m' M"
    and gauge_read: "\<lbrakk>holds m M; labels_ok ls\<rbrakk> \<Longrightarrow>
      \<exists>m'. get_gauge n ls m = (Inr (if n \<in> mv_gauges M then Some (mv_gauge M n ls) else None), m') \<and> holds m' M"
begin

text \<open>A counter that is increased by one again and again.\<close>

lemma inc_counts:
  assumes "holds m M" and "n \<in> cnames" and "labels_ok ls" and "mv_counter M n ls = of_nat c"
    and "c + length xs \<le> 2 ^ 53"
  shows "\<exists>m' M'. forP (\<lambda>_. inc n 1 ls) xs m = (Inr (), m') \<and> holds m' M' \<and>
    mv_counter M' n ls = of_nat (c + length xs) \<and> (xs \<noteq> [] \<longrightarrow> n \<in> mv_counters M') \<and>
    mv_gauge M' = mv_gauge M \<and> mv_counters M \<subseteq> mv_counters M' \<and>
    (\<forall>n' ls'. (n', ls') \<noteq> (n, ls) \<longrightarrow> mv_counter M' n' ls' = mv_counter M n' ls')"
  using assms
proof (induction xs arbitrary: m M c)
  case (Cons x xs)
  from inc_holds [OF Cons.prems(1,2,3), of 1] obtain m1
    where m1: "inc n 1 ls m = (Inr (), m1)" "holds m1 (count_up n 1 ls M)" by auto
  have "rnd64 (of_nat c + 1) = of_nat (Suc c)"
    using double.rnd_nat [of "Suc c"] Cons.prems(5) by (simp add: add.commute)
  then have "mv_counter (count_up n 1 ls M) n ls = of_nat (Suc c)"
    using Cons.prems(4) by (simp add: count_up_def)
  from Cons.IH [OF m1(2) Cons.prems(2,3) this] Cons.prems(5) obtain m' M' where
    IH: "forP (\<lambda>_. inc n 1 ls) xs m1 = (Inr (), m')" "holds m' M'" "mv_counter M' n ls = of_nat (Suc c + length xs)"
      "mv_gauge M' = mv_gauge (count_up n 1 ls M)" "mv_counters (count_up n 1 ls M) \<subseteq> mv_counters M'"
      "\<forall>n' ls'. (n', ls') \<noteq> (n, ls) \<longrightarrow> mv_counter M' n' ls' = mv_counter (count_up n 1 ls M) n' ls'" by auto
  have "forP (\<lambda>_. inc n 1 ls) (x # xs) m = (Inr (), m')" using m1(1) IH(1) by (simp add: proc_defs)
  moreover have "mv_counter M' n' ls' = mv_counter M n' ls'" if "(n', ls') \<noteq> (n, ls)" for n' ls'
    using IH(6) that by (auto simp: count_up_def)
  ultimately show ?case using IH(2-5) by (auto simp: count_up_def)
qed auto

end

section \<open>The class implements it\<close>

definition prom_holds ::
  "('p, 'cf, 'gf) prom_lib \<Rightarrow> string set \<Rightarrow> string set \<Rightarrow> ('p \<Rightarrow> string \<Rightarrow> labels \<Rightarrow> rat) \<Rightarrow>
    ('p \<Rightarrow> string \<Rightarrow> labels \<Rightarrow> rat) \<Rightarrow> ('cf \<Rightarrow> string) \<Rightarrow> ('gf \<Rightarrow> string) \<Rightarrow>
    ('p, 'cf, 'gf) PrometheusExposer \<Rightarrow> metrics \<Rightarrow> bool" where
  "prom_holds P cnames gnames cv gv cn gn s M \<longleftrightarrow>
     prom_contract P cnames gnames cv gv cn gn \<and>
     (\<forall>n f. map_of (counter_families s) n = Some f \<longrightarrow> cn f = n) \<and>
     (\<forall>n f. map_of (gauge_families s) n = Some f \<longrightarrow> gn f = n) \<and>
     mv_counter M = cv (registry_ptr s) \<and> mv_gauge M = gv (registry_ptr s) \<and>
     mv_counters M = dom (map_of (counter_families s)) \<and> mv_gauges M = dom (map_of (gauge_families s))"

lemma registry_update_Inr:
  "f (registry_ptr s) = Inr p \<Longrightarrow> registry_update f s = (Inr (), s\<lparr>registry_ptr := p\<rparr>)"
  by (simp add: registry_update_def registry_call_def)

lemma increment_family_holds:
  assumes h: "prom_holds P cnames gnames cv gv cn gn s M" and ok: "labels_ok ls" "0 \<le> v"
    and f: "map_of (counter_families s) n = Some f"
  shows "\<exists>s'. increment_family P f ls v s = (Inr (), s') \<and> prom_holds P cnames gnames cv gv cn gn s' (count_up n v ls M)"
proof -
  have con: "prom_contract P cnames gnames cv gv cn gn" and fn: "cn f = n" using h f by (simp_all add: prom_holds_def)
  from prom_contractD(3) [OF con ok(1)] obtain p' where p': "pl_counter_add P (registry_ptr s) f ls = Inr p'"
    "cv p' = cv (registry_ptr s)" "gv p' = gv (registry_ptr s)" by blast
  have "increment_family P f ls v s = (Inr (), s\<lparr>registry_ptr := pl_counter_increment P p' f ls v\<rparr>)"
    unfolding increment_family_def by (rule registry_update_Inr) (simp add: p')
  moreover have "n \<in> dom (map_of (counter_families s))" using f by blast
  ultimately show ?thesis
    using h p' prom_contractD(5,6) [OF con ok(2)] fn by (simp add: prom_holds_def count_up_def insert_absorb)
qed

lemma set_family_holds:
  assumes h: "prom_holds P cnames gnames cv gv cn gn s M" and ok: "labels_ok ls"
    and f: "map_of (gauge_families s) n = Some f"
  shows "\<exists>s'. set_family P f ls v s = (Inr (), s') \<and> prom_holds P cnames gnames cv gv cn gn s' (put_gauge n v ls M)"
proof -
  have con: "prom_contract P cnames gnames cv gv cn gn" and fn: "gn f = n" using h f by (simp_all add: prom_holds_def)
  from prom_contractD(4) [OF con ok] obtain p' where p': "pl_gauge_add P (registry_ptr s) f ls = Inr p'"
    "cv p' = cv (registry_ptr s)" "gv p' = gv (registry_ptr s)" by blast
  have "set_family P f ls v s = (Inr (), s\<lparr>registry_ptr := pl_gauge_set P p' f ls v\<rparr>)"
    unfolding set_family_def by (rule registry_update_Inr) (simp add: p')
  moreover have "n \<in> dom (map_of (gauge_families s))" using f by blast
  ultimately show ?thesis
    using h p' prom_contractD(7,8) [OF con] fn by (simp add: prom_holds_def put_gauge_def insert_absorb)
qed

lemma AddCounter_holds:
  assumes h: "prom_holds P cnames gnames cv gv cn gn s M" and ok: "labels_ok ls" "n \<in> cnames"
    and new: "map_of (counter_families s) n = None"
  shows "\<exists>s' f. AddCounter P n help ls s = (Inr (), s') \<and> map_of (counter_families s') n = Some f \<and>
    prom_holds P cnames gnames cv gv cn gn s' (M\<lparr>mv_counters := insert n (mv_counters M)\<rparr>)"
proof -
  have con: "prom_contract P cnames gnames cv gv cn gn" using h by (simp add: prom_holds_def)
  from prom_contractD(1) [OF con ok(2)] obtain f p where p: "pl_counter_family P (registry_ptr s) n help = Inr (f, p)"
    "cn f = n" "cv p = cv (registry_ptr s)" "gv p = gv (registry_ptr s)" by blast
  from prom_contractD(3) [OF con ok(1)] obtain p' where p': "pl_counter_add P p f ls = Inr p'"
    "cv p' = cv p" "gv p' = gv p" by blast
  let ?s = "s\<lparr>registry_ptr := p, counter_families := AList.update n f (counter_families s)\<rparr>"
  have "CreateCounterFamily P n help s = (Inr f, s\<lparr>registry_ptr := p\<rparr>)"
    by (simp add: CreateCounterFamily_def registry_call_def p)
  moreover have "registry_update (\<lambda>p. pl_counter_add P p f ls) ?s = (Inr (), ?s\<lparr>registry_ptr := p'\<rparr>)"
    by (rule registry_update_Inr) (simp add: p')
  ultimately have "AddCounter P n help ls s = (Inr (), ?s\<lparr>registry_ptr := p'\<rparr>)"
    by (simp add: AddCounter_def proc_defs new)
  then show ?thesis
    using h p p' by (auto simp: prom_holds_def update_conv')
qed

lemma AddGauge_holds:
  assumes h: "prom_holds P cnames gnames cv gv cn gn s M" and ok: "labels_ok ls" "n \<in> gnames"
    and new: "map_of (gauge_families s) n = None"
  shows "\<exists>s' f. AddGauge P n help ls s = (Inr (), s') \<and> map_of (gauge_families s') n = Some f \<and>
    prom_holds P cnames gnames cv gv cn gn s' (M\<lparr>mv_gauges := insert n (mv_gauges M)\<rparr>)"
proof -
  have con: "prom_contract P cnames gnames cv gv cn gn" using h by (simp add: prom_holds_def)
  from prom_contractD(2) [OF con ok(2)] obtain f p where p: "pl_gauge_family P (registry_ptr s) n help = Inr (f, p)"
    "gn f = n" "cv p = cv (registry_ptr s)" "gv p = gv (registry_ptr s)" by blast
  from prom_contractD(4) [OF con ok(1)] obtain p' where p': "pl_gauge_add P p f ls = Inr p'"
    "cv p' = cv p" "gv p' = gv p" by blast
  let ?s = "s\<lparr>registry_ptr := p, gauge_families := AList.update n f (gauge_families s)\<rparr>"
  have "CreateGaugeFamily P n help s = (Inr f, s\<lparr>registry_ptr := p\<rparr>)"
    by (simp add: CreateGaugeFamily_def registry_call_def p)
  moreover have "registry_update (\<lambda>p. pl_gauge_add P p f ls) ?s = (Inr (), ?s\<lparr>registry_ptr := p'\<rparr>)"
    by (rule registry_update_Inr) (simp add: p')
  ultimately have "AddGauge P n help ls s = (Inr (), ?s\<lparr>registry_ptr := p'\<rparr>)"
    by (simp add: AddGauge_def proc_defs new)
  then show ?thesis
    using h p p' by (auto simp: prom_holds_def update_conv')
qed

interpretation prom: metric_store "IncrementCounter P" "SetGauge P" "GetCounterValue P as_double"
  "GetGaugeValue P as_double" cnames gnames "prom_holds P cnames gnames cv gv cn gn"
  for P :: "('p, 'cf, 'gf) prom_lib" and cnames gnames cv gv cn gn
proof (unfold_locales, goal_cases)
  case (1 s M n ls v)
  show ?case
  proof (cases "map_of (counter_families s) n")
    case None
    from AddCounter_holds [OF 1(1,3,2) None, of "[]"] obtain s1 f where s1: "AddCounter P n [] ls s = (Inr (), s1)"
      "map_of (counter_families s1) n = Some f"
      "prom_holds P cnames gnames cv gv cn gn s1 (M\<lparr>mv_counters := insert n (mv_counters M)\<rparr>)" by blast
    from increment_family_holds [OF s1(3) 1(3,4) s1(2)] show ?thesis
      using s1 None by (auto simp: IncrementCounter_def proc_defs count_up_def)
  next
    case (Some f)
    from increment_family_holds [OF 1(1,3,4) Some] show ?thesis by (simp add: IncrementCounter_def proc_defs Some)
  qed
next
  case (2 s M n ls v)
  show ?case
  proof (cases "map_of (gauge_families s) n")
    case None
    from AddGauge_holds [OF 2(1,3,2) None, of "[]"] obtain s1 f where s1: "AddGauge P n [] ls s = (Inr (), s1)"
      "map_of (gauge_families s1) n = Some f"
      "prom_holds P cnames gnames cv gv cn gn s1 (M\<lparr>mv_gauges := insert n (mv_gauges M)\<rparr>)" by blast
    from set_family_holds [OF s1(3) 2(3) s1(2), of v] show ?thesis
      using s1 None by (auto simp: SetGauge_def proc_defs put_gauge_def)
  next
    case (Some f)
    from set_family_holds [OF 2(1,3) Some] show ?thesis by (simp add: SetGauge_def proc_defs Some)
  qed
next
  case (3 s M ls n)
  show ?case
  proof (cases "map_of (counter_families s) n")
    case None
    with 3 show ?thesis by (auto simp: GetCounterValue_def proc_defs prom_holds_def)
  next
    case (Some f)
    have con: "prom_contract P cnames gnames cv gv cn gn" and fn: "cn f = n"
      using 3(1) Some by (simp_all add: prom_holds_def)
    from prom_contractD(3) [OF con 3(2)] obtain p' where p': "pl_counter_add P (registry_ptr s) f ls = Inr p'"
      "cv p' = cv (registry_ptr s)" "gv p' = gv (registry_ptr s)" by blast
    have "registry_update (\<lambda>p. pl_counter_add P p f ls) s = (Inr (), s\<lparr>registry_ptr := p'\<rparr>)"
      by (rule registry_update_Inr) (rule p')
    then show ?thesis
      using 3(1) Some p' fn prom_contractD(9) [OF con] by (auto simp: GetCounterValue_def proc_defs as_double_def prom_holds_def)
  qed
next
  case (4 s M ls n)
  show ?case
  proof (cases "map_of (gauge_families s) n")
    case None
    with 4 show ?thesis by (auto simp: GetGaugeValue_def proc_defs prom_holds_def)
  next
    case (Some f)
    have con: "prom_contract P cnames gnames cv gv cn gn" and fn: "gn f = n"
      using 4(1) Some by (simp_all add: prom_holds_def)
    from prom_contractD(4) [OF con 4(2)] obtain p' where p': "pl_gauge_add P (registry_ptr s) f ls = Inr p'"
      "cv p' = cv (registry_ptr s)" "gv p' = gv (registry_ptr s)" by blast
    have "registry_update (\<lambda>p. pl_gauge_add P p f ls) s = (Inr (), s\<lparr>registry_ptr := p'\<rparr>)"
      by (rule registry_update_Inr) (rule p')
    then show ?thesis
      using 4(1) Some p' fn prom_contractD(10) [OF con] by (auto simp: GetGaugeValue_def proc_defs as_double_def prom_holds_def)
  qed
qed

text \<open>What a server needs to know of its exposer: no call of it fails.\<close>

definition metrics_ok ::
  "('p, 'cf, 'gf) prom_lib \<Rightarrow> string set \<Rightarrow> string set \<Rightarrow> ('p, 'cf, 'gf) PrometheusExposer \<Rightarrow> bool" where
  "metrics_ok P cnames gnames s \<longleftrightarrow> (\<exists>cv gv cn gn M. prom_holds P cnames gnames cv gv cn gn s M)"

lemma metrics_ok_IncrementCounter:
  assumes "metrics_ok P cnames gnames s" and "n \<in> cnames" and "labels_ok ls" and "0 \<le> v"
  shows "\<exists>s'. IncrementCounter P n v ls s = (Inr (), s') \<and> metrics_ok P cnames gnames s'"
  using assms prom.inc_holds [of P cnames gnames _ _ _ _ s _ n ls v] unfolding metrics_ok_def by metis

lemma metrics_ok_SetGauge:
  assumes "metrics_ok P cnames gnames s" and "n \<in> gnames" and "labels_ok ls"
  shows "\<exists>s'. SetGauge P n v ls s = (Inr (), s') \<and> metrics_ok P cnames gnames s'"
  using assms prom.set_holds [of P cnames gnames _ _ _ _ s _ n ls v] unfolding metrics_ok_def by metis

section \<open>Properties\<close>

text \<open>
  C31. The metrics count. A counter that starts at zero and is increased by one in \<open>k\<close> requests reads
  \<open>k\<close> afterwards, no increment fails, and no gauge and no other series changes. A gauge reads what it
  was set to last, whether its family existed or not, and no counter and no other gauge changes.
\<close>

theorem metrics_count:
  assumes "prom_holds P cnames gnames cv gv cn gn s M" and "labels_ok ls"
  shows "(n \<in> cnames \<and> mv_counter M n ls = 0 \<and> 0 < k \<and> k \<le> 2 ^ 53 \<longrightarrow>
      (\<exists>s' s'' M'. forP (\<lambda>_. IncrementCounter P n 1 ls) [0..<k] s = (Inr (), s') \<and>
        GetCounterValue P as_double n ls s' = (Inr (Some (of_nat k)), s'') \<and>
        prom_holds P cnames gnames cv gv cn gn s'' M' \<and> mv_gauge M' = mv_gauge M \<and>
        (\<forall>n' ls'. (n', ls') \<noteq> (n, ls) \<longrightarrow> mv_counter M' n' ls' = mv_counter M n' ls'))) \<and>
    (n \<in> gnames \<longrightarrow>
      (\<exists>s' s'' M'. SetGauge P n v ls s = (Inr (), s') \<and> GetGaugeValue P as_double n ls s' = (Inr (Some v), s'') \<and>
        prom_holds P cnames gnames cv gv cn gn s'' M' \<and> mv_counter M' = mv_counter M \<and>
        (\<forall>n' ls'. (n', ls') \<noteq> (n, ls) \<longrightarrow> mv_gauge M' n' ls' = mv_gauge M n' ls')))"
proof (intro conjI impI)
  assume c: "n \<in> cnames \<and> mv_counter M n ls = 0 \<and> 0 < k \<and> k \<le> 2 ^ 53"
  with prom.inc_counts [OF assms(1) _ assms(2), of n 0 "[0..<k]"] obtain s' M'
    where s': "forP (\<lambda>_. IncrementCounter P n 1 ls) [0..<k] s = (Inr (), s')" "prom_holds P cnames gnames cv gv cn gn s' M'"
      "mv_counter M' n ls = of_nat k" "n \<in> mv_counters M'" "mv_gauge M' = mv_gauge M"
      "\<forall>n' ls'. (n', ls') \<noteq> (n, ls) \<longrightarrow> mv_counter M' n' ls' = mv_counter M n' ls'" by auto
  from prom.counter_read [OF s'(2) assms(2), of n] s' show "\<exists>s' s'' M'.
      forP (\<lambda>_. IncrementCounter P n 1 ls) [0..<k] s = (Inr (), s') \<and>
      GetCounterValue P as_double n ls s' = (Inr (Some (of_nat k)), s'') \<and>
      prom_holds P cnames gnames cv gv cn gn s'' M' \<and> mv_gauge M' = mv_gauge M \<and>
      (\<forall>n' ls'. (n', ls') \<noteq> (n, ls) \<longrightarrow> mv_counter M' n' ls' = mv_counter M n' ls')" by auto
next
  assume "n \<in> gnames"
  from prom.set_holds [OF assms(1) this assms(2), of v] obtain s'
    where s': "SetGauge P n v ls s = (Inr (), s')" "prom_holds P cnames gnames cv gv cn gn s' (put_gauge n v ls M)" by blast
  from prom.gauge_read [OF s'(2) assms(2), of n] s'(1) show "\<exists>s' s'' M'. SetGauge P n v ls s = (Inr (), s') \<and>
      GetGaugeValue P as_double n ls s' = (Inr (Some v), s'') \<and>
      prom_holds P cnames gnames cv gv cn gn s'' M' \<and> mv_counter M' = mv_counter M \<and>
      (\<forall>n' ls'. (n', ls') \<noteq> (n, ls) \<longrightarrow> mv_gauge M' n' ls' = mv_gauge M n' ls')"
    by (fastforce simp: put_gauge_def)
qed

text \<open>A registry that is a table of values.\<close>

type_synonym ref_registry = "(string \<Rightarrow> labels \<Rightarrow> rat) \<times> (string \<Rightarrow> labels \<Rightarrow> rat)"

definition ref_prom :: "(ref_registry, string, string) prom_lib" where
  "ref_prom = \<lparr>
     pl_expose = (\<lambda>_. Inr (\<lambda>_ _. 0, \<lambda>_ _. 0)),
     pl_counter_family = (\<lambda>p n h. Inr (n, p)),
     pl_counter_add = (\<lambda>p f ls. Inr p),
     pl_counter_increment = (\<lambda>p f ls v. ((fst p)(f := (fst p f)(ls := rnd64 (fst p f ls + v))), snd p)),
     pl_counter_value = (\<lambda>p f ls. fst p f ls),
     pl_gauge_family = (\<lambda>p n h. Inr (n, p)),
     pl_gauge_add = (\<lambda>p f ls. Inr p),
     pl_gauge_set = (\<lambda>p f ls v. (fst p, (snd p)(f := (snd p f)(ls := v)))),
     pl_gauge_value = (\<lambda>p f ls. snd p f ls)\<rparr>"

lemma ref_prom_contract: "prom_contract ref_prom cnames gnames fst snd (\<lambda>n. n) (\<lambda>n. n)"
  by (simp add: prom_contract_def ref_prom_def)

definition no_metrics :: metrics where
  "no_metrics = \<lparr>mv_counter = (\<lambda>_ _. 0), mv_gauge = (\<lambda>_ _. 0), mv_counters = {}, mv_gauges = {}\<rparr>"

definition ref_exposer :: "(ref_registry, string, string) PrometheusExposer" where
  "ref_exposer = \<lparr>registry_ptr = (\<lambda>_ _. 0, \<lambda>_ _. 0), counter_families = [], gauge_families = []\<rparr>"

lemma ref_exposer_new: "exposer_new ref_prom addr = Inr ref_exposer"
  by (simp add: exposer_new_def ref_prom_def ref_exposer_def)

lemma ref_exposer_holds: "prom_holds ref_prom cnames gnames fst snd (\<lambda>n. n) (\<lambda>n. n) ref_exposer no_metrics"
  by (simp add: prom_holds_def ref_prom_contract ref_exposer_def no_metrics_def)

lemma ref_exposer_ok: "metrics_ok ref_prom cnames gnames ref_exposer"
  unfolding metrics_ok_def using ref_exposer_holds by blast

theorem metrics_count_witness:
  "\<exists>s' s''. forP (\<lambda>_. IncrementCounter ref_prom ''requests_count'' 1 []) [0..<3] ref_exposer = (Inr (), s') \<and>
    GetCounterValue ref_prom as_double ''requests_count'' [] s' = (Inr (Some 3), s'')"
  using metrics_count [OF ref_exposer_holds [where cnames = "{''requests_count''}" and gnames = "{}"],
      of "[]" "''requests_count''" 3 0]
  by (auto simp: labels_ok_def no_metrics_def)

end
