(* ===== verification/Rank_Merging.thy ===== *)
theory Rank_Merging
  imports Float_Rounding
begin

text \<open>
  \<open>MergeSearcherAnswers\<close> of \<open>app/include/Merging.h\<close>: reciprocal rank fusion of the answers of
  several searchers. Scores are doubles. \<open>std::sort\<close> compares scores only, so the order of equal
  scores is open: the sort is an argument that returns some permutation in descending order of
  score, as is the iteration order of the hash map.
\<close>

section \<open>The code\<close>

type_synonym score_map = "(string \<times> rat) list"

definition RFF_CONST :: rat where
  "RFF_CONST = 60"

definition GetScore :: "nat \<Rightarrow> rat" where
  "GetScore i = rnd64 (1 / rnd64 (rnd64 (RFF_CONST + rnd64 (of_nat i)) + 1))"

definition add_score :: "string \<Rightarrow> rat \<Rightarrow> score_map \<Rightarrow> score_map" where
  "add_score i score doc_to_score =
     (case map_of doc_to_score i of
        Some s \<Rightarrow> AList.update i (rnd64 (s + score)) doc_to_score
      | None \<Rightarrow> AList.update i score doc_to_score)"

fun add_response :: "nat \<Rightarrow> string list \<Rightarrow> score_map \<Rightarrow> score_map" where
  "add_response n [] doc_to_score = doc_to_score"
| "add_response n (i # ids) doc_to_score = add_response (Suc n) ids (add_score i (GetScore n) doc_to_score)"

definition MergeSearcherAnswers ::
  "(score_map \<Rightarrow> score_map) \<Rightarrow> (score_map \<Rightarrow> score_map) \<Rightarrow> string list list \<Rightarrow> nat \<Rightarrow> string list" where
  "MergeSearcherAnswers it srt responses num_requested =
     (let doc_to_score = fold (add_response 0) responses [];
          sorted = srt (it doc_to_score)
      in map fst (take num_requested sorted))"

text \<open>What \<open>std::sort\<close> promises for the comparison \<open>first.second > second.second\<close>.\<close>

definition sorts_by_score :: "(score_map \<Rightarrow> score_map) \<Rightarrow> bool" where
  "sorts_by_score srt \<longleftrightarrow>
     (\<forall>xs. mset (srt xs) = mset xs \<and> sorted_wrt (\<lambda>a b. snd b \<le> snd a) (srt xs))"

section \<open>The score of a document\<close>

text \<open>
  What the code adds up for one document, in the order of the responses, and the sum with a rounding
  after every addition.
\<close>

definition merge_contributions :: "string list list \<Rightarrow> string \<Rightarrow> rat list" where
  "merge_contributions responses i =
     concat (map (\<lambda>r. map GetScore (filter (\<lambda>n. r ! n = i) [0..<length r])) responses)"

fun sum64 :: "rat list \<Rightarrow> rat" where
  "sum64 [] = 0"
| "sum64 (c # cs) = fold (\<lambda>c s. rnd64 (s + c)) cs c"

definition merge_score :: "string list list \<Rightarrow> string \<Rightarrow> rat" where
  "merge_score responses i = sum64 (merge_contributions responses i)"

definition all_ids :: "string list list \<Rightarrow> string set" where
  "all_ids responses = (\<Union>r \<in> set responses. set r)"

section \<open>The map holds the scores\<close>

text \<open>All additions in order, as pairs of an identifier and a score.\<close>

definition additions :: "nat \<Rightarrow> string list \<Rightarrow> (string \<times> rat) list" where
  "additions n r = map (\<lambda>j. (r ! j, GetScore (n + j))) [0..<length r]"

lemma add_response_additions: "add_response n r m = fold (\<lambda>(i, s). add_score i s) (additions n r) m"
proof (induction r arbitrary: n m)
  case Nil
  then show ?case by (simp add: additions_def)
next
  case (Cons i r)
  have "additions n (i # r) = (i, GetScore n) # additions (Suc n) r"
    unfolding additions_def by (simp add: upt_conv_Cons map_Suc_upt [symmetric] del: upt_Suc)
  then show ?case by (simp add: Cons.IH)
qed

lemma fold_add_response:
  "fold (add_response 0) rs m = fold (\<lambda>(i, s). add_score i s) (concat (map (additions 0) rs)) m"
  by (induction rs arbitrary: m) (simp_all add: add_response_additions)

lemma add_score_lookup:
  "map_of (add_score i s m) j =
     (if i = j then Some (case map_of m i of Some t \<Rightarrow> rnd64 (t + s) | None \<Rightarrow> s) else map_of m j)"
  by (auto simp: add_score_def update_conv' split: option.splits)

lemma distinct_add_score: "distinct (map fst m) \<Longrightarrow> distinct (map fst (add_score i s m))"
  by (auto simp: add_score_def distinct_update split: option.splits)

lemma distinct_fold_add: "distinct (map fst m) \<Longrightarrow> distinct (map fst (fold (\<lambda>(i, s). add_score i s) xs m))"
  by (induction xs arbitrary: m) (auto simp: distinct_add_score)

lemma fold_add_lookup:
  "map_of (fold (\<lambda>(i, s). add_score i s) xs m) j =
     (let cs = map snd (filter (\<lambda>x. fst x = j) xs) in
      case map_of m j of
        Some t \<Rightarrow> Some (fold (\<lambda>c s. rnd64 (s + c)) cs t)
      | None \<Rightarrow> (if cs = [] then None else Some (sum64 cs)))"
proof (induction xs arbitrary: m)
  case Nil
  then show ?case by (simp split: option.splits)
next
  case (Cons x xs)
  then show ?case
    by (cases x) (auto simp: Let_def add_score_lookup split: option.splits)
qed

lemma additions_filter:
  "map snd (filter (\<lambda>x. fst x = j) (concat (map (additions 0) rs))) = merge_contributions rs j"
  by (induction rs) (simp_all add: merge_contributions_def additions_def filter_map comp_def)

lemma ranks_empty: "filter (\<lambda>n. r ! n = j) [0..<length r] = [] \<longleftrightarrow> j \<notin> set r"
  by (auto simp: filter_empty_conv in_set_conv_nth)

lemma merge_contributions_empty: "merge_contributions rs j = [] \<longleftrightarrow> j \<notin> all_ids rs"
  by (auto simp: merge_contributions_def all_ids_def ranks_empty)

lemma merged_scores:
  "map_of (fold (add_response 0) rs []) j = (if j \<in> all_ids rs then Some (merge_score rs j) else None)"
  by (simp add: fold_add_response fold_add_lookup additions_filter Let_def merge_contributions_empty merge_score_def)

lemma distinct_merged: "distinct (map fst (fold (add_response 0) rs []))"
  by (simp add: fold_add_response distinct_fold_add)

lemma set_merged: "set (fold (add_response 0) rs []) = (\<lambda>j. (j, merge_score rs j)) ` all_ids rs"
proof -
  let ?m = "fold (add_response 0) rs []"
  have "(j, s) \<in> set ?m \<longleftrightarrow> map_of ?m j = Some s" for j s
    using map_of_eq_Some_iff [OF distinct_merged, of rs j s] by blast
  then show ?thesis by (auto simp: merged_scores split: if_splits)
qed

section \<open>The merged answer\<close>

lemma sorts_by_scoreD:
  assumes "sorts_by_score srt"
  shows "mset (srt xs) = mset xs" and "sorted_wrt (\<lambda>a b. snd b \<le> snd a) (srt xs)"
    and "set (srt xs) = set xs" and "distinct (map fst xs) \<Longrightarrow> distinct (map fst (srt xs))"
proof -
  show m: "mset (srt xs) = mset xs" and "sorted_wrt (\<lambda>a b. snd b \<le> snd a) (srt xs)"
    using assms by (simp_all add: sorts_by_score_def)
  show "set (srt xs) = set xs" using m by (metis set_mset_mset)
  show "distinct (map fst xs) \<Longrightarrow> distinct (map fst (srt xs))"
    using m by (metis mset_eq_imp_distinct_iff mset_map)
qed

text \<open>The list that is sorted, and its order.\<close>

lemma sorted_answers:
  fixes rs :: "string list list"
  assumes "sorts_by_score srt" and "reorders it"
  defines "s \<equiv> srt (it (fold (add_response 0) rs []))"
  shows "distinct (map fst s)" and "set (map fst s) = all_ids rs" and "s = map (\<lambda>j. (j, merge_score rs j)) (map fst s)"
    and "sorted_wrt (\<lambda>i j. merge_score rs j \<le> merge_score rs i) (map fst s)"
proof -
  note S = sorts_by_scoreD [OF assms(1)]
  have set: "set s = (\<lambda>j. (j, merge_score rs j)) ` all_ids rs"
    by (simp add: s_def S(3) reorders_set [OF assms(2)] set_merged)
  have "mset (map fst (it (fold (add_response 0) rs []))) = mset (map fst (fold (add_response 0) rs []))"
    by (simp add: reorders_mset [OF assms(2)])
  then have "distinct (map fst (it (fold (add_response 0) rs [])))"
    using distinct_merged by (metis mset_eq_imp_distinct_iff)
  then show "distinct (map fst s)" unfolding s_def by (rule S(4))
  show "set (map fst s) = all_ids rs" using set by (simp add: image_image)
  have pair: "x = (fst x, merge_score rs (fst x))" if "x \<in> set s" for x using that set by auto
  then show "s = map (\<lambda>j. (j, merge_score rs j)) (map fst s)" by (simp add: map_idI comp_def)
  have "sorted_wrt (\<lambda>a b. snd b \<le> snd a) s" unfolding s_def by (rule S(2))
  then have "sorted_wrt (\<lambda>a b. merge_score rs (fst b) \<le> merge_score rs (fst a)) s"
    by (rule sorted_wrt_mono_rel [rotated]) (metis pair snd_conv)
  then show "sorted_wrt (\<lambda>i j. merge_score rs j \<le> merge_score rs i) (map fst s)" by (simp add: sorted_wrt_map)
qed

lemma sorted_wrt_take_drop:
  "sorted_wrt P xs \<Longrightarrow> x \<in> set (take k xs) \<Longrightarrow> y \<in> set (drop k xs) \<Longrightarrow> P x y"
  by (metis append_take_drop_id sorted_wrt_append)

lemma merged_answer:
  fixes rs :: "string list list" and k :: nat
  assumes "sorts_by_score srt" and "reorders it"
  defines "res \<equiv> MergeSearcherAnswers it srt rs k"
  shows "distinct res" and "set res \<subseteq> all_ids rs" and "length res = min k (card (all_ids rs))"
    and "sorted_wrt (\<lambda>i j. merge_score rs j \<le> merge_score rs i) res"
    and "\<lbrakk>i \<in> set res; j \<in> all_ids rs - set res\<rbrakk> \<Longrightarrow> merge_score rs j \<le> merge_score rs i"
proof -
  let ?s = "srt (it (fold (add_response 0) rs []))"
  note S = sorted_answers [OF assms(1,2), of rs]
  have res: "res = take k (map fst ?s)" by (simp add: res_def MergeSearcherAnswers_def Let_def take_map)
  show "distinct res" using S(1) by (simp add: res)
  show "set res \<subseteq> all_ids rs" unfolding res S(2) [symmetric] by (rule set_take_subset)
  have "length (map fst ?s) = card (all_ids rs)" using distinct_card [OF S(1)] S(2) by simp
  then show "length res = min k (card (all_ids rs))" by (simp add: res)
  show "sorted_wrt (\<lambda>i j. merge_score rs j \<le> merge_score rs i) res" unfolding res by (rule sorted_wrt_take [OF S(4)])
  assume i: "i \<in> set res" and j: "j \<in> all_ids rs - set res"
  then have "j \<in> set (drop k (map fst ?s))"
    unfolding res S(2) [symmetric] by (metis DiffE Un_iff append_take_drop_id set_append)
  with sorted_wrt_take_drop [OF S(4)] i show "merge_score rs j \<le> merge_score rs i" unfolding res by blast
qed

section \<open>Reference: reciprocal rank fusion\<close>

text \<open>
  The score by its formula, independently of the code: the exact sum of \<open>1 / (60 + position + 1)\<close> over
  all positions at which the responses list a document, and the same sum in doubles, each reciprocal and
  each partial sum rounded once.
\<close>

definition reciprocals :: "string list list \<Rightarrow> string \<Rightarrow> rat list" where
  "reciprocals responses i =
     concat (map (\<lambda>r. map (\<lambda>n. 1 / (60 + of_nat n + 1)) (filter (\<lambda>n. r ! n = i) [0..<length r])) responses)"

definition rrf_exact :: "string list list \<Rightarrow> string \<Rightarrow> rat" where
  "rrf_exact responses i = sum_list (reciprocals responses i)"

definition rrf_score :: "string list list \<Rightarrow> string \<Rightarrow> rat" where
  "rrf_score responses i = sum64 (map rnd64 (reciprocals responses i))"

lemma rank_exact:
  assumes "n < 2 ^ 52"
  shows "rnd64 (rnd64 (RFF_CONST + rnd64 (of_nat n)) + 1) = 61 + of_nat n"
proof -
  have "rnd64 (of_nat n) = of_nat n" using assms by (intro double.rnd_nat) simp
  moreover have "rnd64 (of_nat (60 + n)) = of_nat (60 + n)" using assms by (intro double.rnd_nat) simp
  moreover have "rnd64 (of_nat (61 + n)) = of_nat (61 + n)" using assms by (intro double.rnd_nat) simp
  ultimately show ?thesis by (simp add: RFF_CONST_def add.commute)
qed

lemma GetScore_reciprocal: "n < 2 ^ 52 \<Longrightarrow> GetScore n = rnd64 (1 / (60 + of_nat n + 1))"
  using rank_exact [of n] by (simp add: GetScore_def)

lemma merge_score_rrf:
  assumes "\<forall>r \<in> set rs. length r \<le> 2 ^ 52"
  shows "merge_score rs i = rrf_score rs i"
proof -
  have "merge_contributions rs i = map rnd64 (reciprocals rs i)"
    using assms
  proof (induction rs)
    case Nil
    then show ?case by (simp add: merge_contributions_def reciprocals_def)
  next
    case (Cons r rs)
    then have "map GetScore (filter (\<lambda>n. r ! n = i) [0..<length r]) =
        map rnd64 (map (\<lambda>n. 1 / (60 + of_nat n + 1)) (filter (\<lambda>n. r ! n = i) [0..<length r]))"
      by (auto simp: GetScore_reciprocal)
    with Cons show ?case by (simp add: merge_contributions_def reciprocals_def)
  qed
  then show ?thesis by (simp add: merge_score_def rrf_score_def)
qed

text \<open>Rounding changes a score by a factor of at most \<open>1 \<plusminus> 2 ^ - 53\<close> per document and response.\<close>

lemma rnd64_bounds:
  assumes "0 \<le> x"
  shows "(1 - 1 / 2 ^ 53) * x \<le> rnd64 x" and "rnd64 x \<le> (1 + 1 / 2 ^ 53) * x"
proof -
  have "rnd64 x - x \<le> x / 2 ^ 53 \<and> x - rnd64 x \<le> x / 2 ^ 53"
    using rnd64_error [of x] assms unfolding abs_le_iff by simp
  then show "(1 - 1 / 2 ^ 53) * x \<le> rnd64 x" and "rnd64 x \<le> (1 + 1 / 2 ^ 53) * x"
    by (simp_all add: left_diff_distrib distrib_right)
qed

lemma fold_rounded_bounds:
  fixes e :: rat
  assumes "e = 1 / 2 ^ 53" and "\<forall>x \<in> set xs. 0 \<le> x" and "0 \<le> T" "(1 - e) ^ Suc n * T \<le> t" "t \<le> (1 + e) ^ Suc n * T"
  shows "(1 - e) ^ (Suc n + length xs) * (T + sum_list xs) \<le> fold (\<lambda>c s. rnd64 (s + c)) (map rnd64 xs) t"
    and "fold (\<lambda>c s. rnd64 (s + c)) (map rnd64 xs) t \<le> (1 + e) ^ (Suc n + length xs) * (T + sum_list xs)"
proof -
  have "(1 - e) ^ (Suc n + length xs) * (T + sum_list xs) \<le> fold (\<lambda>c s. rnd64 (s + c)) (map rnd64 xs) t \<and>
    fold (\<lambda>c s. rnd64 (s + c)) (map rnd64 xs) t \<le> (1 + e) ^ (Suc n + length xs) * (T + sum_list xs)"
    using assms(2-)
  proof (induction xs arbitrary: t T n)
    case Nil
    then show ?case by simp
  next
    case (Cons x xs)
    have e: "0 < e" "e < 1" by (simp_all add: assms(1))
    have x: "0 \<le> x" "(1 - e) * x \<le> rnd64 x" "rnd64 x \<le> (1 + e) * x" using Cons.prems(1) rnd64_bounds [of x] by (simp_all add: assms(1))
    have p: "(1 - e) ^ Suc n \<le> 1 - e" "1 + e \<le> (1 + e) ^ Suc n" "0 \<le> (1 - e) ^ Suc n"
      using e mult_left_le [of "(1 - e) ^ n" "1 - e"] mult_left_mono [of 1 "(1 + e) ^ n" "1 + e"] one_le_power [of "1 + e" n]
      by (auto simp: power_le_one)
    have lo: "(1 - e) ^ Suc n * (T + x) \<le> t + rnd64 x"
      using Cons.prems(3) order_trans [OF mult_right_mono [OF p(1) x(1)] x(2)] by (simp only: distrib_left add_mono)
    have hi: "t + rnd64 x \<le> (1 + e) ^ Suc n * (T + x)"
      using Cons.prems(4) order_trans [OF x(3) mult_right_mono [OF p(2) x(1)]] by (simp only: distrib_left add_mono)
    have nn: "0 \<le> t + rnd64 x" using lo p(3) Cons.prems(2) x(1) by (meson add_nonneg_nonneg mult_nonneg_nonneg order_trans)
    note r = rnd64_bounds [OF nn, folded assms(1)]
    have "(1 - e) ^ Suc (Suc n) * (T + x) \<le> rnd64 (t + rnd64 x)"
      using order_trans [OF mult_left_mono [OF lo, of "1 - e"] r(1)] e by (simp add: mult.assoc)
    moreover have "rnd64 (t + rnd64 x) \<le> (1 + e) ^ Suc (Suc n) * (T + x)"
      using order_trans [OF r(2) mult_left_mono [OF hi, of "1 + e"]] e by (simp add: mult.assoc)
    ultimately show ?case
      using Cons.IH [of "T + x" "Suc n" "rnd64 (t + rnd64 x)"] Cons.prems(1,2) x(1) by (simp add: add.assoc)
  qed
  then show "(1 - e) ^ (Suc n + length xs) * (T + sum_list xs) \<le> fold (\<lambda>c s. rnd64 (s + c)) (map rnd64 xs) t"
    and "fold (\<lambda>c s. rnd64 (s + c)) (map rnd64 xs) t \<le> (1 + e) ^ (Suc n + length xs) * (T + sum_list xs)" by blast+
qed

lemma length_reciprocals: "length (reciprocals rs i) = count_list (concat rs) i"
proof (induction rs)
  case Nil
  then show ?case by (simp add: reciprocals_def)
next
  case (Cons r rs)
  have "length (filter (\<lambda>n. r ! n = i) [0..<length r]) = length (filter (\<lambda>x. x = i) (map ((!) r) [0..<length r]))"
    by (simp add: filter_map comp_def)
  also have "\<dots> = count_list r i" unfolding map_nth by (induction r) auto
  finally show ?case using Cons by (simp add: reciprocals_def)
qed

lemma rrf_score_bounds:
  "(1 - 1 / 2 ^ 53) ^ count_list (concat rs) i * rrf_exact rs i \<le> rrf_score rs i"
  "rrf_score rs i \<le> (1 + 1 / 2 ^ 53) ^ count_list (concat rs) i * rrf_exact rs i"
proof -
  have pos: "\<forall>x \<in> set (reciprocals rs i). 0 \<le> x" by (auto simp: reciprocals_def)
  have "(1 - 1 / 2 ^ 53) ^ length (reciprocals rs i) * rrf_exact rs i \<le> rrf_score rs i \<and>
      rrf_score rs i \<le> (1 + 1 / 2 ^ 53) ^ length (reciprocals rs i) * rrf_exact rs i"
  proof (cases "reciprocals rs i")
    case Nil
    then show ?thesis by (simp add: rrf_exact_def rrf_score_def)
  next
    case (Cons x xs)
    with pos have x: "0 \<le> x" "\<forall>x \<in> set xs. 0 \<le> x" by simp_all
    from fold_rounded_bounds [OF refl x(2,1), of 0 "rnd64 x"] rnd64_bounds [OF x(1)] Cons
    show ?thesis by (simp add: rrf_exact_def rrf_score_def)
  qed
  then show "(1 - 1 / 2 ^ 53) ^ count_list (concat rs) i * rrf_exact rs i \<le> rrf_score rs i"
    and "rrf_score rs i \<le> (1 + 1 / 2 ^ 53) ^ count_list (concat rs) i * rrf_exact rs i" by (simp_all add: length_reciprocals)
qed

text \<open>
  C20. Merging the answers of several searchers is reciprocal rank fusion: the response lists distinct
  identifiers that some searcher answered, as many as requested or all there are, in descending order of
  their score, and no identifier left out has a higher score than one listed. The score is the sum of
  \<open>1 / (60 + position + 1)\<close> over the positions of the identifier in the responses, computed in doubles; it
  differs from the exact sum at most by a factor of \<open>1 \<plusminus> 2 ^ - 53\<close> for every position.
\<close>

theorem merge_answers_by_score:
  assumes "sorts_by_score srt" and "reorders it" and "\<forall>r \<in> set responses. length r \<le> 2 ^ 52"
  shows "distinct (MergeSearcherAnswers it srt responses k) \<and>
    set (MergeSearcherAnswers it srt responses k) \<subseteq> all_ids responses \<and>
    length (MergeSearcherAnswers it srt responses k) = min k (card (all_ids responses)) \<and>
    sorted_wrt (\<lambda>i j. rrf_score responses j \<le> rrf_score responses i) (MergeSearcherAnswers it srt responses k) \<and>
    (\<forall>i \<in> set (MergeSearcherAnswers it srt responses k).
       \<forall>j \<in> all_ids responses - set (MergeSearcherAnswers it srt responses k).
         rrf_score responses j \<le> rrf_score responses i) \<and>
    (\<forall>i. (1 - 1 / 2 ^ 53) ^ count_list (concat responses) i * rrf_exact responses i \<le> rrf_score responses i \<and>
       rrf_score responses i \<le> (1 + 1 / 2 ^ 53) ^ count_list (concat responses) i * rrf_exact responses i)"
proof -
  note M = merged_answer [OF assms(1,2), where rs = responses and k = k, unfolded merge_score_rrf [OF assms(3)]]
  show ?thesis by (intro conjI ballI allI) (rule M rrf_score_bounds; assumption)+
qed

text \<open>A sort that satisfies the specification.\<close>

definition demo_sort :: "score_map \<Rightarrow> score_map" where
  "demo_sort xs = rev (sort_key snd xs)"

lemma demo_sort_ok: "sorts_by_score demo_sort"
proof -
  have "sorted_wrt (\<lambda>a b. snd b \<le> snd a) (rev (sort_key snd xs))" for xs :: score_map
  proof -
    have "sorted (map snd (sort_key snd xs))" by simp
    then show ?thesis by (simp add: sorted_wrt_rev sorted_wrt_map)
  qed
  then show ?thesis by (simp add: sorts_by_score_def demo_sort_def)
qed

theorem merge_answers_by_score_witness:
  "distinct (MergeSearcherAnswers rev demo_sort [[''0'', ''1'', ''2''], [''1'', ''2'', ''3'']] 2) \<and>
    set (MergeSearcherAnswers rev demo_sort [[''0'', ''1'', ''2''], [''1'', ''2'', ''3'']] 2) \<subseteq> {''0'', ''1'', ''2'', ''3''} \<and>
    length (MergeSearcherAnswers rev demo_sort [[''0'', ''1'', ''2''], [''1'', ''2'', ''3'']] 2) = 2 \<and>
    (1 - 1 / 2 ^ 53) ^ 2 * (1 / 62 + 1 / 61) \<le> rrf_score [[''0'', ''1'', ''2''], [''1'', ''2'', ''3'']] ''1''"
proof -
  let ?rs = "[[''0'', ''1'', ''2''], [''1'', ''2'', ''3'']]"
  have len: "\<forall>r \<in> set ?rs. length r \<le> 2 ^ 52" by simp
  have all: "all_ids ?rs = {''0'', ''1'', ''2'', ''3''}" by (auto simp: all_ids_def)
  have c: "count_list (concat ?rs) ''1'' = 2" by simp
  have x: "rrf_exact ?rs ''1'' = 1 / 62 + 1 / 61" by (simp add: rrf_exact_def reciprocals_def upt_conv_Cons)
  note C = merge_answers_by_score [OF demo_sort_ok reorders_rev len, of 2, unfolded all]
  note B = C [THEN conjunct2, THEN conjunct2, THEN conjunct2, THEN conjunct2, THEN conjunct2, THEN spec, of "''1''", unfolded c x]
  have "min 2 (card {''0'', ''1'', ''2'', ''3''}) = 2" by simp
  with C [THEN conjunct2, THEN conjunct2, THEN conjunct1] have "length (MergeSearcherAnswers rev demo_sort ?rs 2) = 2" by (simp only:)
  then show ?thesis
    by (intro conjI C [THEN conjunct1] C [THEN conjunct2, THEN conjunct1] B [THEN conjunct1])
qed

section \<open>Ranks and scores\<close>

lemma GetScore_double: "rnd64 (GetScore n) = GetScore n"
  by (simp add: GetScore_def rnd64_idem)

lemma denominator_mono:
  "m \<le> n \<Longrightarrow> rnd64 (rnd64 (RFF_CONST + rnd64 (of_nat m)) + 1) \<le> rnd64 (rnd64 (RFF_CONST + rnd64 (of_nat n)) + 1)"
  by (intro rnd64_mono add_right_mono add_left_mono) simp

lemma denominator_pos: "0 < rnd64 (rnd64 (RFF_CONST + rnd64 (of_nat n)) + 1)"
proof -
  have "0 < 61 + (of_nat 0 :: rat)" by simp
  also have "\<dots> \<le> rnd64 (rnd64 (RFF_CONST + rnd64 (of_nat n)) + 1)"
    unfolding rank_exact [of 0, simplified, symmetric] using denominator_mono [of 0 n] rank_exact [of 0] by simp
  finally show ?thesis .
qed

lemma GetScore_antimono: "m \<le> n \<Longrightarrow> GetScore n \<le> GetScore m"
  unfolding GetScore_def using denominator_mono [of m n] denominator_pos [of m]
  by (intro rnd64_mono [OF frac_le]) auto


text \<open>For ranks below \<open>2 ^ 50\<close> a better rank has a strictly higher score in spite of rounding.\<close>

lemma GetScore_strict:
  assumes "m < n" and "n < 2 ^ 50"
  shows "GetScore n < GetScore m"
proof -
  define a b e :: rat where "a = 61 + of_nat m" and "b = 61 + of_nat n" and "e = 1 / 2 ^ 53"
  have s: "GetScore m = rnd64 (1 / a)" "GetScore n = rnd64 (1 / b)"
    using assms by (simp_all add: GetScore_def rank_exact a_def b_def)
  have "of_nat (Suc m) \<le> (of_nat n :: rat)" using assms(1) by (simp only: of_nat_le_iff Suc_leI)
  then have ab: "0 < a" "0 < b" "a + 1 \<le> b" by (simp_all add: a_def b_def)
  have "of_nat m \<le> (2 ^ 50 :: rat)" "of_nat n \<le> (2 ^ 50 :: rat)"
    using assms by (metis less_imp_le less_trans of_nat_le_iff of_nat_numeral of_nat_power)+
  then have small: "e * (a + b) < 1" by (simp add: field_simps a_def b_def e_def)
  have "rnd64 (1 / b) \<le> 1 / b + 1 / b * e" "1 / a - 1 / a * e \<le> rnd64 (1 / a)"
    using rnd64_error [of "1 / b"] rnd64_error [of "1 / a"] ab by (simp_all add: abs_le_iff e_def)
  moreover have "a * (1 + e) < b * (1 - e)" using small ab(3) by (simp add: algebra_simps)
  then have "(1 + e) / b < (1 - e) / a"
    using ab by (simp add: pos_divide_less_eq pos_less_divide_eq mult.commute)
  then have "1 / b + 1 / b * e < 1 / a - 1 / a * e" by (simp add: add_divide_distrib diff_divide_distrib)
  ultimately show ?thesis unfolding s by linarith
qed

section \<open>Better ranks win\<close>

definition rank :: "string list \<Rightarrow> string \<Rightarrow> nat" where
  "rank r i = length (takeWhile (\<lambda>x. x \<noteq> i) r)"

definition rank_score :: "string list \<Rightarrow> string \<Rightarrow> rat" where
  "rank_score r i = (if i \<in> set r then GetScore (rank r i) else 0)"

lemma rank_nth: "i \<in> set r \<Longrightarrow> rank r i < length r \<and> r ! rank r i = i"
proof -
  assume "i \<in> set r"
  then have "dropWhile (\<lambda>x. x \<noteq> i) r \<noteq> []" by (auto simp: dropWhile_eq_Nil_conv)
  then have "rank r i < length r"
    unfolding rank_def by (metis append_Nil2 length_append length_greater_0_conv less_add_same_cancel1 takeWhile_dropWhile_id)
  then show ?thesis using nth_length_takeWhile [of "\<lambda>x. x \<noteq> i" r] by (simp add: rank_def)
qed

lemma filter_upt_eq: "m < n \<Longrightarrow> filter (\<lambda>i. i = m) [0..<n] = [m]"
  by (induction n) (auto simp: less_Suc_eq filter_empty_conv)

lemma ranks_distinct:
  assumes "distinct r" and "i \<in> set r"
  shows "filter (\<lambda>n. r ! n = i) [0..<length r] = [rank r i]"
proof -
  note rank = rank_nth [OF assms(2)]
  have "filter (\<lambda>n. r ! n = i) [0..<length r] = filter (\<lambda>n. n = rank r i) [0..<length r]"
    using rank assms(1) by (intro filter_cong) (auto simp: nth_eq_iff_index_eq)
  also have "\<dots> = [rank r i]" using rank by (intro filter_upt_eq) simp
  finally show ?thesis .
qed

text \<open>On responses without repetition the score is the rounded sum over the responses.\<close>

lemma merge_score_fold:
  assumes "\<forall>r \<in> set rs. distinct r"
  shows "merge_score rs i = fold (\<lambda>r s. rnd64 (s + rank_score r i)) rs 0"
proof -
  have sum: "fold (\<lambda>c s. rnd64 (s + c)) (merge_contributions rs i) t = fold (\<lambda>r s. rnd64 (s + rank_score r i)) rs t"
    if "rnd64 t = t" for t
    using assms that
  proof (induction rs arbitrary: t)
    case Nil
    then show ?case by (simp add: merge_contributions_def)
  next
    case (Cons r rs)
    have "fold (\<lambda>c s. rnd64 (s + c)) (map GetScore (filter (\<lambda>n. r ! n = i) [0..<length r])) t = rnd64 (t + rank_score r i)"
    proof (cases "i \<in> set r")
      case True
      with Cons.prems(1) show ?thesis by (simp add: ranks_distinct rank_score_def)
    next
      case False
      then have "filter (\<lambda>n. r ! n = i) [0..<length r] = []" by (simp only: ranks_empty not_False_eq_True)
      with False Cons.prems(2) show ?thesis by (simp add: rank_score_def)
    qed
    with Cons.IH [of "rnd64 (t + rank_score r i)"] Cons.prems(1) show ?case
      by (simp add: merge_contributions_def rnd64_idem)
  qed
  have first: "sum64 cs = fold (\<lambda>c s. rnd64 (s + c)) cs 0" if "\<forall>c \<in> set cs. rnd64 c = c" for cs
    using that by (cases cs) simp_all
  have "\<forall>c \<in> set (merge_contributions rs i). rnd64 c = c" by (auto simp: merge_contributions_def GetScore_double)
  from first [OF this] sum [of 0] show ?thesis by (simp add: merge_score_def)
qed




text \<open>
  The answer of a single searcher passes through unchanged: for one response without
  repetition, of fewer than \<open>2 ^ 50\<close> identifiers, the merged answer is its first \<open>k\<close> identifiers in
  their order, whichever way the sort treats equal scores and the hash map is iterated, because
  rounding keeps the scores of different ranks different.
\<close>

theorem merge_single_answer:
  assumes "sorts_by_score srt" and "reorders it" and "distinct r" and "length r \<le> 2 ^ 50"
  shows "MergeSearcherAnswers it srt [r] k = take k r"
proof -
  let ?s = "map fst (srt (it (fold (add_response 0) [r] [])))"
  note S = sorted_answers [OF assms(1,2), of "[r]"]
  have score: "merge_score [r] i = GetScore (rank r i)" if "i \<in> set r" for i
    using that assms(3) by (simp add: merge_score_fold rank_score_def GetScore_double)
  have rank: "rank r (r ! n) = n" if "n < length r" for n
    using rank_nth [of "r ! n" r] that assms(3) nth_eq_iff_index_eq by fastforce
  have nth: "merge_score [r] (r ! n) = GetScore n" if "n < length r" for n
    using score [of "r ! n"] rank that by simp
  have down: "map (merge_score [r]) r = map GetScore [0..<length r]"
    by (rule nth_equalityI) (simp_all add: nth)
  have "inj_on GetScore {0..<length r}"
  proof (rule inj_onI)
    fix m n assume "m \<in> {0..<length r}" "n \<in> {0..<length r}" and eq: "GetScore m = GetScore n"
    then have "m < 2 ^ 50" "n < 2 ^ 50" using assms(4) by auto
    with eq GetScore_strict [of m n] GetScore_strict [of n m] show "m = n" by (cases m n rule: linorder_cases) auto
  qed
  then have inj: "distinct (map GetScore [0..<length r])" by (simp add: distinct_map)
  have "mset ?s = mset r" using set_eq_iff_mset_eq_distinct [OF S(1) assms(3)] S(2) by (simp add: all_ids_def)
  then have "mset (map (merge_score [r]) ?s) = mset (map (merge_score [r]) r)" by (simp only: mset_map)
  moreover have "sorted_wrt (\<lambda>x y. y \<le> x) (map GetScore [0..<length r])"
    using GetScore_antimono by (auto simp: sorted_wrt_iff_nth_less)
  then have "sorted (rev (map (merge_score [r]) ?s))" "sorted (rev (map (merge_score [r]) r))"
    using S(4) unfolding down by (simp_all add: sorted_wrt_rev sorted_wrt_map)
  ultimately have "rev (map (merge_score [r]) ?s) = rev (map (merge_score [r]) r)"
    by (metis mset_rev properties_for_sort sorted_sort_id)
  then have eq: "map (merge_score [r]) ?s = map (merge_score [r]) r" by simp
  have "inj_on (merge_score [r]) (set r)"
    using inj unfolding down [symmetric] by (simp add: distinct_map)
  moreover have "set ?s \<union> set r = set r" unfolding S(2) by (simp add: all_ids_def)
  ultimately have "inj_on (merge_score [r]) (set ?s \<union> set r)" by (simp only:)
  from inj_on_map_eq_map [OF this] eq have "?s = r" by blast
  then show ?thesis unfolding MergeSearcherAnswers_def Let_def take_map [symmetric] by (rule arg_cong)
qed

theorem merge_single_answer_witness:
  "MergeSearcherAnswers rev demo_sort [[''7'', ''3'', ''5'']] 2 = [''7'', ''3'']"
  using merge_single_answer [OF demo_sort_ok reorders_rev, of "[''7'', ''3'', ''5'']" 2] by simp

end
