(* ===== verification/Response_Stats.thy ===== *)
theory Response_Stats
  imports Float_Rounding
begin

text \<open>
  \<open>StatsManager\<close> and its \<open>ResponseStatsCollector\<close> (\<open>app/include/utils/Stats.h\<close>): per shard, the
  coordinator counts responses and errors and keeps an average response time. A collector reports
  once, in its destructor, with the time since its creation.
\<close>

section \<open>The code\<close>

record StatsManager =
  average_response_time :: rat
  responses_cnt :: nat
  errors_cnt :: nat

definition stats_new :: StatsManager where
  "stats_new = \<lparr>average_response_time = 0, responses_cnt = 0, errors_cnt = 0\<rparr>"

text \<open>
  The collector: when it was created (\<open>steady_clock\<close> counts nanoseconds), and whether \<open>SetError\<close>
  was called.
\<close>

record ResponseStatsCollector =
  time_start :: int
  is_error :: bool

definition CreateResponseData :: "int \<Rightarrow> ResponseStatsCollector" where
  "CreateResponseData now = \<lparr>time_start = now, is_error = False\<rparr>"

definition SetError :: "ResponseStatsCollector \<Rightarrow> ResponseStatsCollector" where
  "SetError c = c\<lparr>is_error := True\<rparr>"

definition AggregateStats :: "StatsManager \<Rightarrow> bool \<Rightarrow> rat \<Rightarrow> StatsManager" where
  "AggregateStats man failed response_time =
     (let man = man\<lparr>responses_cnt := size_add (responses_cnt man) 1\<rparr> in
      if failed then man\<lparr>errors_cnt := size_add (errors_cnt man) 1\<rparr>
      else
        let n = responses_cnt man;
            sum = rnd64 (rnd64 (average_response_time man * rnd64 (of_nat n)) + response_time)
        in man\<lparr>average_response_time := rnd64 (sum / rnd64 (of_nat (size_add n 1)))\<rparr>)"

text \<open>
  The destructor, at the time \<open>now\<close>: the elapsed nanoseconds are converted to seconds in a double.
\<close>

definition elapsed_seconds :: "int \<Rightarrow> int \<Rightarrow> rat" where
  "elapsed_seconds start now = rnd64 (rnd64 (of_int (now - start)) / 10 ^ 9)"

definition collector_done :: "int \<Rightarrow> ResponseStatsCollector \<Rightarrow> StatsManager \<Rightarrow> StatsManager" where
  "collector_done now c man = AggregateStats man (is_error c) (elapsed_seconds (time_start c) now)"

definition GetErrorsCount :: "StatsManager \<Rightarrow> nat" where
  "GetErrorsCount man = errors_cnt man"

definition GetSuccessCount :: "StatsManager \<Rightarrow> nat outcome" where
  "GetSuccessCount man =
     (if responses_cnt man > errors_cnt man then Inr (responses_cnt man - errors_cnt man) else Inl AssertFailed)"

definition GetResponsesCount :: "StatsManager \<Rightarrow> nat" where
  "GetResponsesCount man = responses_cnt man"

definition GetAverageResponseTime :: "StatsManager \<Rightarrow> rat" where
  "GetAverageResponseTime man = average_response_time man"

section \<open>Counting\<close>

text \<open>A sequence of reports: failed or not, and the response time.\<close>

definition stats_run :: "(bool \<times> rat) list \<Rightarrow> StatsManager \<Rightarrow> StatsManager" where
  "stats_run = fold (\<lambda>(failed, t) man. AggregateStats man failed t)"

lemma AggregateStats_counts [simp]:
  "responses_cnt (AggregateStats man failed t) = size_add (responses_cnt man) 1"
  "errors_cnt (AggregateStats man failed t) = (if failed then size_add (errors_cnt man) 1 else errors_cnt man)"
  by (simp_all add: AggregateStats_def Let_def)

lemma stats_run_counts:
  assumes "responses_cnt man + length rs < 2 ^ 64" and "errors_cnt man \<le> responses_cnt man"
  shows "responses_cnt (stats_run rs man) = responses_cnt man + length rs \<and>
    errors_cnt (stats_run rs man) = errors_cnt man + length (filter fst rs)"
  using assms
proof (induction rs arbitrary: man)
  case (Cons r rs)
  obtain failed t where r: "r = (failed, t)" by (cases r)
  let ?man = "AggregateStats man failed t"
  have step: "stats_run ((failed, t) # rs) man = stats_run rs ?man" by (simp add: stats_run_def)
  have one: "responses_cnt ?man = responses_cnt man + 1"
    "errors_cnt ?man = errors_cnt man + (if failed then 1 else 0)"
    using Cons.prems by (simp_all add: size_add_def)
  show ?case using Cons.IH [of ?man] Cons.prems one by (simp add: r step split: if_splits)
qed (simp_all add: stats_run_def)

text \<open>
  C36. The counters after any sequence of reports: all responses, the failed ones, and their
  difference. \<open>GetSuccessCount\<close> returns the difference only when at least one response succeeded;
  before that, its assertion (which demands strictly more responses than errors) stops the program.
\<close>

theorem stats_counters:
  assumes "length rs < 2 ^ 64"
  shows "GetResponsesCount (stats_run rs stats_new) = length rs \<and>
    GetErrorsCount (stats_run rs stats_new) = length (filter fst rs) \<and>
    GetSuccessCount (stats_run rs stats_new) =
      (if list_all fst rs then Inl AssertFailed else Inr (length (filter (Not \<circ> fst) rs)))"
proof -
  have split: "length (filter fst rs) + length (filter (Not \<circ> fst) rs) = length rs"
    using sum_length_filter_compl [of fst rs] by (simp add: comp_def)
  have none: "list_all fst rs \<longleftrightarrow> length (filter (Not \<circ> fst) rs) = 0"
    by (simp add: filter_empty_conv list_all_iff)
  have counts: "responses_cnt (stats_run rs stats_new) = length rs"
    "errors_cnt (stats_run rs stats_new) = length (filter fst rs)"
    using stats_run_counts [of stats_new rs] assms by (simp_all add: stats_new_def)
  show ?thesis
    unfolding none GetResponsesCount_def GetErrorsCount_def GetSuccessCount_def counts
    using split by (cases "filter (Not \<circ> fst) rs") auto
qed

theorem stats_counters_witness:
  "GetResponsesCount (stats_run [(False, 8), (True, 3)] stats_new) = 2 \<and>
   GetErrorsCount (stats_run [(False, 8), (True, 3)] stats_new) = 1 \<and>
   GetSuccessCount (stats_run [(False, 8), (True, 3)] stats_new) = Inr 1"
  using stats_counters [of "[(False, 8), (True, 3)]"] by simp

section \<open>The average\<close>

lemma errors_keep_average:
  "list_all fst rs \<Longrightarrow> average_response_time (stats_run rs man) = average_response_time man"
  by (induction rs arbitrary: man) (auto simp: stats_run_def AggregateStats_def Let_def)

text \<open>
  The average of one response time is not that time. After \<open>n\<close> failed responses and one
  successful response of time \<open>t\<close> the reported average is \<open>t / (n + 2)\<close>: the counter is increased
  before it is used as the number of previous responses, and it counts failures too. With no failure
  the first response time is halved.
\<close>

theorem stats_first_average:
  assumes "rnd64 t = t" and "list_all fst rs" and "length rs + 2 \<le> 2 ^ 53"
  shows "GetAverageResponseTime (stats_run (rs @ [(False, t)]) stats_new) = rnd64 (t / (of_nat (length rs) + 2))"
proof -
  have avg: "average_response_time (stats_run rs stats_new) = 0"
    using errors_keep_average [OF assms(2)] by (simp add: stats_new_def)
  have "rnd64 (of_nat (length rs + 2)) = of_nat (length rs + 2)" using assms(3) by (rule double.rnd_nat)
  moreover have "stats_run (rs @ [(False, t)]) stats_new = AggregateStats (stats_run rs stats_new) False t"
    by (simp add: stats_run_def)
  ultimately show ?thesis
    using assms avg stats_run_counts [of stats_new rs]
    by (simp add: GetAverageResponseTime_def AggregateStats_def Let_def stats_new_def size_add_def add.commute)
qed

theorem stats_first_average_witness:
  "GetAverageResponseTime (stats_run [(False, 8)] stats_new) = 4"
  using stats_first_average [of 8 "[]"] double.rnd_int [of 8] double.rnd_int [of 4] by simp

end
