(* ===== verification/Coordinator.thy ===== *)
theory Coordinator
  imports Etcd_Client Prometheus_Exposer Rank_Merging Response_Stats
begin

text \<open>
  \<open>CoordinatorImpl\<close> (\<open>app/src/Coordinator.cpp\<close>) with its client \<open>BaseClient\<close> of a searcher
  (\<open>app/src/BaseClient.cpp\<close>). The coordinator asks all searchers of an index and merges their
  answers. Remote calls are a parameter: \<open>rpc\<close> takes the address, the request and the state of the
  other processes and returns a status code (0: ok) and a response. The mutex is held during the
  whole request, so requests do not interleave.
\<close>

section \<open>State\<close>

record 'f SearchRequest =
  rq_vector :: "'f list"
  rq_k :: int
  rq_index_id :: string
  rq_shard_id :: "string option"

type_synonym ('f, 'w) search_rpc = "string \<Rightarrow> 'f SearchRequest \<Rightarrow> 'w \<Rightarrow> (nat \<times> string list) \<times> 'w"

record SearcherClient =
  cl_address :: string

record ('e, 'p, 'cf, 'gf, 'w) CoordinatorImpl =
  searchers_map :: "(string \<times> (string \<times> SearcherClient list) list) list"
  searchers_stats :: "(string \<times> (string \<times> StatsManager) list) list"
  co_etcd :: 'e
  co_prom :: "('p, 'cf, 'gf) PrometheusExposer"
  co_world :: 'w
  co_clock :: "nat \<Rightarrow> int"

text \<open>Nested hash maps: \<open>m[i][s] = v\<close>, and \<open>m[i][s]\<close> with a default for missing entries.\<close>

definition nested_put :: "string \<Rightarrow> string \<Rightarrow> 'v \<Rightarrow> (string \<times> (string \<times> 'v) list) list \<Rightarrow> (string \<times> (string \<times> 'v) list) list" where
  "nested_put i s v m =
     AList.update i (AList.update s v (case map_of m i of None \<Rightarrow> [] | Some m' \<Rightarrow> m')) m"

definition nested_get :: "string \<Rightarrow> string \<Rightarrow> 'v \<Rightarrow> (string \<times> (string \<times> 'v) list) list \<Rightarrow> 'v" where
  "nested_get i s d m =
     (case map_of m i of None \<Rightarrow> d | Some m' \<Rightarrow> (case map_of m' s of None \<Rightarrow> d | Some v \<Rightarrow> v))"

section \<open>The code\<close>

subsection \<open>The client\<close>

definition CreateSearcherClient :: "string \<Rightarrow> SearcherClient" where
  "CreateSearcherClient addr = \<lparr>cl_address = addr\<rparr>"

definition GetAddress :: "SearcherClient \<Rightarrow> string" where
  "GetAddress client = cl_address client"

definition getProcessedDocuments ::
  "('f, 'w) search_rpc \<Rightarrow> SearcherClient \<Rightarrow> 'f SearchRequest \<Rightarrow> ('w, string list) proc" where
  "getProcessedDocuments rpc client request w =
     (case rpc (cl_address client) request w of ((code, response), w) \<Rightarrow>
        if code \<noteq> 0
        then throwP (RuntimeError (''Error while processing request. gRPC status code: '' @ to_string_size code)) w
        else returnP response w)"

subsection \<open>The coordinator\<close>

definition kRequestsToNextUpdate :: nat where
  "kRequestsToNextUpdate = 1"

definition kHostErrorsLimit :: nat where
  "kHostErrorsLimit = 1"

definition on_etcd :: "('e, 'a) proc \<Rightarrow> (('e, 'p, 'cf, 'gf, 'w) CoordinatorImpl, 'a) proc" where
  "on_etcd = partP co_etcd (\<lambda>e s. s\<lparr>co_etcd := e\<rparr>)"

definition on_prom ::
  "(('p, 'cf, 'gf) PrometheusExposer, 'a) proc \<Rightarrow> (('e, 'p, 'cf, 'gf, 'w) CoordinatorImpl, 'a) proc" where
  "on_prom = partP co_prom (\<lambda>p s. s\<lparr>co_prom := p\<rparr>)"

definition on_world :: "('w, 'a) proc \<Rightarrow> (('e, 'p, 'cf, 'gf, 'w) CoordinatorImpl, 'a) proc" where
  "on_world = partP co_world (\<lambda>w s. s\<lparr>co_world := w\<rparr>)"

definition clock_now :: "(('e, 'p, 'cf, 'gf, 'w) CoordinatorImpl, int) proc" where
  "clock_now s = (Inr (co_clock s 0), s\<lparr>co_clock := \<lambda>n. co_clock s (Suc n)\<rparr>)"

definition coordinator_new ::
  "'e etcd_lib \<Rightarrow> ('p, 'cf, 'gf) prom_lib \<Rightarrow> 'e \<Rightarrow> 'w \<Rightarrow> (nat \<Rightarrow> int) \<Rightarrow>
    ('e, 'p, 'cf, 'gf, 'w) CoordinatorImpl outcome" where
  "coordinator_new E P e w clock =
     bindR (exposer_new P ''0.0.0.0:8080'') (\<lambda>prom.
       case DebugPrintEverything E e of
         (Inl err, _) \<Rightarrow> Inl err
       | (Inr _, e) \<Rightarrow> Inr \<lparr>searchers_map = [], searchers_stats = [], co_etcd = e, co_prom = prom,
           co_world = w, co_clock = clock\<rparr>)"

text \<open>The lambda of \<open>UpdateSearchersState\<close>.\<close>

definition update_with_index_shard_info ::
  "'e etcd_lib \<Rightarrow> string \<Rightarrow> string \<Rightarrow> (('e, 'p, 'cf, 'gf, 'w) CoordinatorImpl, unit) proc" where
  "update_with_index_shard_info E index_id shard_id =
     bindP (on_etcd (ListSearcherHosts E index_id (Some shard_id))) (\<lambda>hosts.
       modifyP (\<lambda>s. s\<lparr>
         searchers_map := nested_put index_id shard_id (map CreateSearcherClient hosts) (searchers_map s),
         searchers_stats :=
           (if map_of (searchers_stats s) index_id = None
            then nested_put index_id shard_id stats_new (searchers_stats s)
            else searchers_stats s)\<rparr>))"

definition UpdateSearchersState ::
  "'e etcd_lib \<Rightarrow> 'f SearchRequest \<Rightarrow> (('e, 'p, 'cf, 'gf, 'w) CoordinatorImpl, unit) proc" where
  "UpdateSearchersState E request =
     (case rq_shard_id request of
        Some shard_id \<Rightarrow> update_with_index_shard_info E (rq_index_id request) shard_id
      | None \<Rightarrow> bindP (on_etcd (ListShardIds E (rq_index_id request))) (\<lambda>shards.
          forP (update_with_index_shard_info E (rq_index_id request)) shards))"

text \<open>
  The collector is passed by reference: it comes back with the error flag set when the call threw.
\<close>

definition AskSingleSearcher ::
  "('f, 'w) search_rpc \<Rightarrow> SearcherClient \<Rightarrow> 'f SearchRequest \<Rightarrow> ResponseStatsCollector \<Rightarrow>
    (('e, 'p, 'cf, 'gf, 'w) CoordinatorImpl, string list option \<times> ResponseStatsCollector) proc" where
  "AskSingleSearcher rpc client request collector =
     catchP (bindP (on_world (getProcessedDocuments rpc client request)) (\<lambda>tmp. returnP (Some tmp, collector)))
       (\<lambda>e. returnP (None, SetError collector))"

definition UpdateStateIfNeeded ::
  "'e etcd_lib \<Rightarrow> ('p, 'cf, 'gf) prom_lib \<Rightarrow> string \<Rightarrow> string \<Rightarrow> SearcherClient \<Rightarrow> StatsManager \<Rightarrow>
    (('e, 'p, 'cf, 'gf, 'w) CoordinatorImpl, unit) proc" where
  "UpdateStateIfNeeded E P index_id shard_id client stats =
     (if kHostErrorsLimit \<le> GetErrorsCount stats then
        catchP (on_etcd (RemoveSearcherHost E index_id shard_id (GetAddress client))) (\<lambda>e. returnP ())
      else if GetResponsesCount stats mod kRequestsToNextUpdate = 0 then
        (let labels = [(''index_id'', index_id), (''shard_id'', shard_id)] in
         thenP (on_prom (SetGauge P ''requests_shard_count'' (rnd64 (of_nat (GetResponsesCount stats))) labels))
        (thenP (on_prom (SetGauge P ''errors_count'' (rnd64 (of_nat (GetErrorsCount stats))) labels))
        (thenP (on_prom (SetGauge P ''request_latency_avg'' (GetAverageResponseTime stats) labels))
          (on_etcd (UpdateAverageResponseTime E index_id shard_id (GetAverageResponseTime stats))))))
      else returnP ())"

text \<open>
  One round of the inner loop. \<open>UpdateStateIfNeeded\<close> sees the statistics before this request: the
  collector reports in its destructor, when the round ends, normally or by an exception.
\<close>

definition ask_client ::
  "'e etcd_lib \<Rightarrow> ('p, 'cf, 'gf) prom_lib \<Rightarrow> ('f, 'w) search_rpc \<Rightarrow> 'f SearchRequest \<Rightarrow> string \<times> SearcherClient \<Rightarrow>
    (('e, 'p, 'cf, 'gf, 'w) CoordinatorImpl, string list option) proc" where
  "ask_client E P rpc request = (\<lambda>(shard_id, client).
     let index_id = rq_index_id request in
     thenP (modifyP (\<lambda>s. s\<lparr>searchers_stats := nested_put index_id shard_id
         (nested_get index_id shard_id stats_new (searchers_stats s)) (searchers_stats s)\<rparr>))
     (bindP clock_now (\<lambda>now.
      bindP (AskSingleSearcher rpc client request (CreateResponseData now)) (\<lambda>(response, collector).
        finallyP
          (bindP (readP (\<lambda>s. nested_get index_id shard_id stats_new (searchers_stats s))) (\<lambda>stats.
           thenP (UpdateStateIfNeeded E P index_id shard_id client stats) (returnP response)))
          (\<lambda>s. s\<lparr>searchers_stats := nested_put index_id shard_id
              (collector_done (co_clock s 0) collector (nested_get index_id shard_id stats_new (searchers_stats s)))
              (searchers_stats s),
            co_clock := \<lambda>n. co_clock s (Suc n)\<rparr>)))))"

text \<open>
  \<open>it\<close> is the iteration order of \<open>searchers_map[index_id]\<close>; \<open>it'\<close> and \<open>srt\<close> are the arguments of
  the merging. The result is the content of the response; the status is always OK.
\<close>

definition coordinator_ProcessSearchRequest ::
  "'e etcd_lib \<Rightarrow> ('p, 'cf, 'gf) prom_lib \<Rightarrow> ('f, 'w) search_rpc \<Rightarrow>
    ((string \<times> SearcherClient list) list \<Rightarrow> (string \<times> SearcherClient list) list) \<Rightarrow>
    (score_map \<Rightarrow> score_map) \<Rightarrow> (score_map \<Rightarrow> score_map) \<Rightarrow> 'f SearchRequest \<Rightarrow>
    (('e, 'p, 'cf, 'gf, 'w) CoordinatorImpl, string list) proc" where
  "coordinator_ProcessSearchRequest E P rpc it it' srt request =
     thenP (on_prom (IncrementCounter P ''requests_count'' 1 []))
     (thenP (UpdateSearchersState E request)
     (thenP (modifyP (\<lambda>s. s\<lparr>searchers_map :=
         AList.update (rq_index_id request)
           (case map_of (searchers_map s) (rq_index_id request) of None \<Rightarrow> [] | Some m \<Rightarrow> m) (searchers_map s)\<rparr>))
     (bindP (readP (\<lambda>s. case map_of (searchers_map s) (rq_index_id request) of None \<Rightarrow> [] | Some m \<Rightarrow> m)) (\<lambda>shards.
      bindP (mapP (ask_client E P rpc request)
          (concat (map (\<lambda>(shard_id, searchers). map (\<lambda>client. (shard_id, client)) searchers) (it shards)))) (\<lambda>responses.
        returnP (MergeSearcherAnswers it' srt (List.map_filter (\<lambda>r. r) responses) (to_size_t (rq_k request))))))))"

section \<open>Invariant\<close>

definition coordinator_counters :: "string set" where
  "coordinator_counters = {''requests_count''}"

definition coordinator_gauges :: "string set" where
  "coordinator_gauges = {''requests_shard_count'', ''errors_count'', ''request_latency_avg''}"

text \<open>
  etcd holds the registry \<open>R\<close>, the metrics work, and the cached shards have distinct names that
  can be part of a path.
\<close>

definition cache_ok :: "(string \<times> (string \<times> SearcherClient list) list) list \<Rightarrow> bool" where
  "cache_ok m \<longleftrightarrow> (\<forall>i m'. map_of m i = Some m' \<longrightarrow> distinct (map fst m') \<and> (\<forall>s \<in> fst ` set m'. no_slash s))"

definition coordinator_ok ::
  "'e etcd_lib \<Rightarrow> ('e \<Rightarrow> string \<rightharpoonup> string) \<Rightarrow> ('p, 'cf, 'gf) prom_lib \<Rightarrow>
    ('e, 'p, 'cf, 'gf, 'w) CoordinatorImpl \<Rightarrow> registry \<Rightarrow> bool" where
  "coordinator_ok E kv P st R \<longleftrightarrow>
     etcd_holds E kv (co_etcd st) R \<and> metrics_ok P coordinator_counters coordinator_gauges (co_prom st) \<and>
     cache_ok (searchers_map st)"

lemma nested_get_put [simp]:
  "nested_get i s d (nested_put j t v m) = (if i = j \<and> s = t then v else nested_get i s d m)"
  by (auto simp: nested_get_def nested_put_def update_conv' split: option.split)

lemma cache_ok_shards:
  fixes i :: string
  assumes "cache_ok m"
  defines "m' \<equiv> (case map_of m i of None \<Rightarrow> [] | Some m' \<Rightarrow> m')"
  shows "distinct (map fst m') \<and> (\<forall>s \<in> fst ` set m'. no_slash s)"
proof -
  have "distinct (map fst x) \<and> (\<forall>s \<in> fst ` set x. no_slash s)" if "map_of m i = Some x" for x
    using assms(1) that unfolding cache_ok_def by blast
  then show ?thesis by (cases "map_of m i") (simp_all add: m'_def)
qed

lemma cache_ok_put:
  assumes "cache_ok m" and "no_slash s"
  shows "cache_ok (nested_put i s v m)"
proof -
  define m' where "m' = (case map_of m i of None \<Rightarrow> [] | Some m' \<Rightarrow> m')"
  have "distinct (map fst m') \<and> (\<forall>s \<in> fst ` set m'. no_slash s)"
    unfolding m'_def by (rule cache_ok_shards [OF assms(1)])
  then have "distinct (map fst (AList.update s v m')) \<and> (\<forall>u \<in> fst ` set (AList.update s v m'). no_slash u)"
    using assms(2) by (simp add: distinct_update dom_update)
  then show ?thesis
    using assms(1) by (simp add: cache_ok_def nested_put_def update_conv' m'_def)
qed

lemma shard_labels_ok: "labels_ok [(''index_id'', i), (''shard_id'', s)]" "labels_ok []"
  by (simp_all add: labels_ok_def)

text \<open>The effect on the registry: the host of the client is removed once the shard has an error.\<close>

definition registry_after :: "StatsManager \<Rightarrow> string \<Rightarrow> string \<Rightarrow> SearcherClient \<Rightarrow> registry \<Rightarrow> registry" where
  "registry_after stats i s client R =
     (if 1 \<le> errors_cnt stats then remove_host i s (cl_address client) R
      else set_time i s (average_response_time stats) R)"

lemma registry_after_new: "registry_after stats_new i s client R = set_time i s 0 R"
  by (simp add: registry_after_def stats_new_def)

lemma UpdateStateIfNeeded_ok:
  assumes ok: "coordinator_ok E kv P st R" and ids: "no_slash i" "no_slash s"
  shows "\<exists>e p. UpdateStateIfNeeded E P i s client stats st = (Inr (), st\<lparr>co_etcd := e, co_prom := p\<rparr>) \<and>
    coordinator_ok E kv P (st\<lparr>co_etcd := e, co_prom := p\<rparr>) (registry_after stats i s client R)"
proof (cases "1 \<le> errors_cnt stats")
  case True
  have etcd: "etcd_holds E kv (co_etcd st) R" using ok by (simp add: coordinator_ok_def)
  have "\<exists>e r. RemoveSearcherHost E i s (cl_address client) (co_etcd st) = (r, e) \<and>
      (r = Inr () \<or> r = Inl StdException) \<and> etcd_holds E kv e (remove_host i s (cl_address client) R)"
  proof (cases "cl_address client \<in> hosts_of R i s")
    case True
    with etcd.remove_holds [OF etcd ids] show ?thesis by blast
  next
    case False
    then have "remove_host i s (cl_address client) R = R" by (simp add: remove_host_def hosts_of_def)
    with etcd.remove_missing [OF etcd ids False] etcd show ?thesis by auto
  qed
  then obtain e r where "RemoveSearcherHost E i s (cl_address client) (co_etcd st) = (r, e)"
    "r = Inr () \<or> r = Inl StdException" "etcd_holds E kv e (remove_host i s (cl_address client) R)" by blast
  then show ?thesis
    using True ok
    by (intro exI [of _ e] exI [of _ "co_prom st"])
      (auto simp: UpdateStateIfNeeded_def kHostErrorsLimit_def GetErrorsCount_def GetAddress_def on_etcd_def
        proc_defs registry_after_def coordinator_ok_def)
next
  case False
  have etcd: "etcd_holds E kv (co_etcd st) R"
    and prom: "metrics_ok P coordinator_counters coordinator_gauges (co_prom st)"
    using ok by (simp_all add: coordinator_ok_def)
  let ?ls = "[(''index_id'', i), (''shard_id'', s)]"
  note set = metrics_ok_SetGauge [where ls = ?ls, OF _ _ shard_labels_ok(1)]
  from set [OF prom, of "''requests_shard_count''" "rnd64 (of_nat (responses_cnt stats))"] obtain p1
    where p1: "SetGauge P ''requests_shard_count'' (rnd64 (of_nat (responses_cnt stats))) ?ls (co_prom st) = (Inr (), p1)"
      "metrics_ok P coordinator_counters coordinator_gauges p1" by (auto simp: coordinator_gauges_def)
  from set [OF p1(2), of "''errors_count''" "rnd64 (of_nat (errors_cnt stats))"] obtain p2
    where p2: "SetGauge P ''errors_count'' (rnd64 (of_nat (errors_cnt stats))) ?ls p1 = (Inr (), p2)"
      "metrics_ok P coordinator_counters coordinator_gauges p2" by (auto simp: coordinator_gauges_def)
  from set [OF p2(2), of "''request_latency_avg''" "average_response_time stats"] obtain p3
    where p3: "SetGauge P ''request_latency_avg'' (average_response_time stats) ?ls p2 = (Inr (), p3)"
      "metrics_ok P coordinator_counters coordinator_gauges p3" by (auto simp: coordinator_gauges_def)
  from etcd.update_holds [OF etcd ids, of "average_response_time stats"] obtain e
    where e: "UpdateAverageResponseTime E i s (average_response_time stats) (co_etcd st) = (Inr (), e)"
      "etcd_holds E kv e (set_time i s (average_response_time stats) R)" by blast
  show ?thesis
    using False ok p1(1) p2(1) p3 e
    by (intro exI [of _ e] exI [of _ p3])
      (simp add: UpdateStateIfNeeded_def kHostErrorsLimit_def kRequestsToNextUpdate_def GetErrorsCount_def
        GetResponsesCount_def GetAverageResponseTime_def on_etcd_def on_prom_def proc_defs Let_def
        registry_after_def coordinator_ok_def)
qed

section \<open>One searcher\<close>

text \<open>
  What asking one client does, for every answer of the remote call: the request goes on, the
  statistics of the shard are updated after the registry was.
\<close>

lemma ask_client_ok:
  assumes ok: "coordinator_ok E kv P st R" and ids: "no_slash (rq_index_id request)" "no_slash s"
    and rpc: "rpc (cl_address client) request (co_world st) = ((code, ids), w)"
  defines "stats \<equiv> nested_get (rq_index_id request) s stats_new (searchers_stats st)"
  shows "\<exists>st' t. ask_client E P rpc request (s, client) st = (Inr (if code = 0 then Some ids else None), st') \<and>
    coordinator_ok E kv P st' (registry_after stats (rq_index_id request) s client R) \<and>
    searchers_map st' = searchers_map st \<and> co_world st' = w \<and>
    (\<forall>j u. nested_get j u stats_new (searchers_stats st') =
      (if j = rq_index_id request \<and> u = s then AggregateStats stats (code \<noteq> 0) t
       else nested_get j u stats_new (searchers_stats st)))"
proof -
  let ?i = "rq_index_id request"
  define st1 where "st1 = st\<lparr>searchers_stats := nested_put ?i s stats (searchers_stats st),
    co_clock := \<lambda>n. co_clock st (Suc n), co_world := w\<rparr>"
  define c where "c = (if code = 0 then CreateResponseData (co_clock st 0) else SetError (CreateResponseData (co_clock st 0)))"
  have ok1: "coordinator_ok E kv P st1 R" using ok by (simp add: coordinator_ok_def st1_def)
  from UpdateStateIfNeeded_ok [OF ok1 ids, of client stats] obtain e p
    where upd: "UpdateStateIfNeeded E P ?i s client stats st1 = (Inr (), st1\<lparr>co_etcd := e, co_prom := p\<rparr>)"
      and ok2: "coordinator_ok E kv P (st1\<lparr>co_etcd := e, co_prom := p\<rparr>) (registry_after stats ?i s client R)" by blast
  define st2 where "st2 = st1\<lparr>co_etcd := e, co_prom := p\<rparr>"
  let ?t = "elapsed_seconds (co_clock st 0) (co_clock st 1)"
  have ask: "AskSingleSearcher rpc client request (CreateResponseData (co_clock st 0))
      (st1\<lparr>co_world := co_world st\<rparr>) = (Inr (if code = 0 then Some ids else None, c), st1)"
    using rpc by (auto simp: AskSingleSearcher_def getProcessedDocuments_def on_world_def proc_defs st1_def c_def)
  have collected: "collector_done t c man = AggregateStats man (code \<noteq> 0) (elapsed_seconds (co_clock st 0) t)" for t man
    by (simp add: c_def collector_done_def CreateResponseData_def SetError_def)
  define st3 where "st3 = st2\<lparr>
    searchers_stats := nested_put ?i s (AggregateStats stats (code \<noteq> 0) ?t) (searchers_stats st2),
    co_clock := \<lambda>n. co_clock st2 (Suc n)\<rparr>"
  have "ask_client E P rpc request (s, client) st = (Inr (if code = 0 then Some ids else None), st3)"
    using ask upd
    by (simp add: ask_client_def proc_defs clock_now_def Let_def stats_def [symmetric] st1_def st2_def st3_def collected)
  moreover have "coordinator_ok E kv P st3 (registry_after stats ?i s client R)"
    using ok2 by (simp add: coordinator_ok_def st2_def st3_def)
  moreover have "nested_get j u stats_new (searchers_stats st3) =
      (if j = ?i \<and> u = s then AggregateStats stats (code \<noteq> 0) ?t else nested_get j u stats_new (searchers_stats st))" for j u
    by (simp add: st1_def st2_def st3_def)
  ultimately show ?thesis by (intro exI [of _ st3] exI [of _ ?t]) (simp add: st1_def st2_def st3_def)
qed

section \<open>All searchers of an index\<close>

lemma update_info_ok:
  assumes ok: "coordinator_ok E kv P st R" and ids: "no_slash i" "no_slash s"
  shows "\<exists>st'. update_with_index_shard_info E i s st = (Inr (), st') \<and> coordinator_ok E kv P st' R \<and>
    (\<forall>j u. nested_get j u [] (searchers_map st') =
      (if j = i \<and> u = s then map CreateSearcherClient (sorted_list_of_set (hosts_of R i s))
       else nested_get j u [] (searchers_map st))) \<and>
    (\<forall>j u. nested_get j u stats_new (searchers_stats st') = nested_get j u stats_new (searchers_stats st)) \<and>
    co_world st' = co_world st"
proof -
  have etcd: "etcd_holds E kv (co_etcd st) R" using ok by (simp add: coordinator_ok_def)
  let ?cs = "map CreateSearcherClient (sorted_list_of_set (hosts_of R i s))"
  define st' where "st' = st\<lparr>searchers_map := nested_put i s ?cs (searchers_map st),
    searchers_stats := (if map_of (searchers_stats st) i = None then nested_put i s stats_new (searchers_stats st)
      else searchers_stats st)\<rparr>"
  have "update_with_index_shard_info E i s st = (Inr (), st')"
    by (simp add: update_with_index_shard_info_def on_etcd_def proc_defs etcd.hosts_listed [OF etcd ids] st'_def)
  moreover have "coordinator_ok E kv P st' R"
    using ok cache_ok_put [OF _ ids(2)] by (simp add: coordinator_ok_def st'_def)
  moreover have "nested_get j u stats_new (searchers_stats st') = nested_get j u stats_new (searchers_stats st)" for j u
    by (auto simp: st'_def) (simp add: nested_get_def)
  ultimately show ?thesis by (intro exI [of _ st']) (simp add: st'_def)
qed

text \<open>Which shards a request refreshes, and which clients are asked afterwards.\<close>

definition refreshed_shards :: "'f SearchRequest \<Rightarrow> registry \<Rightarrow> string set" where
  "refreshed_shards request R =
     (case rq_shard_id request of Some s \<Rightarrow> {s} | None \<Rightarrow> shards_of R (rq_index_id request))"

definition asked_clients ::
  "'f SearchRequest \<Rightarrow> registry \<Rightarrow> ('e, 'p, 'cf, 'gf, 'w) CoordinatorImpl \<Rightarrow> string \<Rightarrow> SearcherClient list" where
  "asked_clients request R st s =
     (if s \<in> refreshed_shards request R
      then map CreateSearcherClient (sorted_list_of_set (hosts_of R (rq_index_id request) s))
      else nested_get (rq_index_id request) s [] (searchers_map st))"

lemma update_all_ok:
  assumes "coordinator_ok E kv P st R" and "no_slash i" and "\<forall>s \<in> set shards. no_slash s"
  shows "\<exists>st'. forP (update_with_index_shard_info E i) shards st = (Inr (), st') \<and> coordinator_ok E kv P st' R \<and>
    (\<forall>s. nested_get i s [] (searchers_map st') =
      (if s \<in> set shards then map CreateSearcherClient (sorted_list_of_set (hosts_of R i s))
       else nested_get i s [] (searchers_map st))) \<and>
    (\<forall>j u. nested_get j u stats_new (searchers_stats st') = nested_get j u stats_new (searchers_stats st)) \<and>
    co_world st' = co_world st"
  using assms
proof (induction shards arbitrary: st)
  case (Cons s shards)
  from update_info_ok [OF Cons.prems(1,2), of s] Cons.prems(3) obtain st1
    where st1: "update_with_index_shard_info E i s st = (Inr (), st1)" "coordinator_ok E kv P st1 R"
      "\<And>j u. nested_get j u [] (searchers_map st1) =
        (if j = i \<and> u = s then map CreateSearcherClient (sorted_list_of_set (hosts_of R i s))
         else nested_get j u [] (searchers_map st))"
      "\<And>j u. nested_get j u stats_new (searchers_stats st1) = nested_get j u stats_new (searchers_stats st)"
      "co_world st1 = co_world st" by auto
  from Cons.IH [OF st1(2) Cons.prems(2)] Cons.prems(3) show ?case by (auto simp: proc_defs st1(1,3,4,5))
qed simp

lemma UpdateSearchersState_ok:
  assumes ok: "coordinator_ok E kv P st R" and i: "no_slash (rq_index_id request)"
    and s: "\<forall>s. rq_shard_id request = Some s \<longrightarrow> no_slash s"
  shows "\<exists>st'. UpdateSearchersState E request st = (Inr (), st') \<and> coordinator_ok E kv P st' R \<and>
    (\<forall>s. nested_get (rq_index_id request) s [] (searchers_map st') = asked_clients request R st s) \<and>
    (\<forall>j u. nested_get j u stats_new (searchers_stats st') = nested_get j u stats_new (searchers_stats st)) \<and>
    co_world st' = co_world st"
proof (cases "rq_shard_id request")
  case None
  have etcd: "etcd_holds E kv (co_etcd st) R" using ok by (simp add: coordinator_ok_def)
  let ?shards = "sorted_list_of_set (shards_of R (rq_index_id request))"
  have set_shards: "set ?shards = refreshed_shards request R"
    using etcd.finite_shards [OF etcd] by (simp add: refreshed_shards_def None)
  then have "\<forall>s \<in> set ?shards. no_slash s"
    using etcd_holds_no_slash [OF etcd] by (auto simp: refreshed_shards_def None)
  from update_all_ok [OF ok i this] show ?thesis
    unfolding set_shards
    by (auto simp: UpdateSearchersState_def None proc_defs on_etcd_def etcd.shards_listed [OF etcd i]
        asked_clients_def)
next
  case (Some t)
  from update_info_ok [OF ok i, of t] s Some show ?thesis
    by (auto simp: UpdateSearchersState_def asked_clients_def refreshed_shards_def)
qed

text \<open>
  The answers of the searchers. Answering a request may change the state of a searcher, but not what
  the searchers answer to it: \<open>I\<close> is an invariant of their state under which the searcher at each
  address of \<open>A\<close> gives its answer.
\<close>

definition answering ::
  "('f, 'w) search_rpc \<Rightarrow> 'f SearchRequest \<Rightarrow> string set \<Rightarrow> (string \<Rightarrow> nat \<times> string list) \<Rightarrow> ('w \<Rightarrow> bool) \<Rightarrow> bool" where
  "answering rpc request A answer I \<longleftrightarrow> (\<forall>a \<in> A. \<forall>w. I w \<longrightarrow> (\<exists>w'. rpc a request w = (answer a, w') \<and> I w'))"

definition useful_answer :: "(string \<Rightarrow> nat \<times> string list) \<Rightarrow> SearcherClient \<Rightarrow> string list option" where
  "useful_answer answer client =
     (if fst (answer (cl_address client)) = 0 then Some (snd (answer (cl_address client))) else None)"

lemma ask_all_ok:
  assumes "coordinator_ok E kv P st R" and "no_slash (rq_index_id request)"
    and "\<forall>(s, c) \<in> set pairs. no_slash s \<and> cl_address c \<in> A" and rpc: "answering rpc request A answer I" and "I (co_world st)"
  shows "\<exists>st' R'. mapP (ask_client E P rpc request) pairs st =
      (Inr (map (\<lambda>(s, c). useful_answer answer c) pairs), st') \<and>
    coordinator_ok E kv P st' R' \<and> I (co_world st') \<and> reg_hosts R' \<subseteq> reg_hosts R \<and>
    ((\<forall>s. errors_cnt (nested_get (rq_index_id request) s stats_new (searchers_stats st)) = 0) \<and>
     (\<forall>(s, c) \<in> set pairs. fst (answer (cl_address c)) = 0) \<longrightarrow>
     reg_hosts R' = reg_hosts R \<and>
     (\<forall>s. errors_cnt (nested_get (rq_index_id request) s stats_new (searchers_stats st')) = 0))"
  using assms(1,3,5)
proof (induction pairs arbitrary: st R)
  case (Cons p pairs)
  obtain s c where p: "p = (s, c)" by (cases p)
  obtain code ids where a: "answer (cl_address c) = (code, ids)" by fastforce
  let ?i = "rq_index_id request"
  let ?stats = "nested_get ?i s stats_new (searchers_stats st)"
  let ?R = "registry_after ?stats ?i s c R"
  have "no_slash s" and A: "cl_address c \<in> A" using Cons.prems(2) by (simp_all add: p)
  from rpc A Cons.prems(3) a obtain w where w: "rpc (cl_address c) request (co_world st) = ((code, ids), w)" "I w"
    unfolding answering_def by fastforce
  from ask_client_ok [where rpc = rpc, OF Cons.prems(1) assms(2) \<open>no_slash s\<close> w(1)] obtain st1 t
    where st1: "ask_client E P rpc request (s, c) st = (Inr (if code = 0 then Some ids else None), st1)"
      "coordinator_ok E kv P st1 ?R"
      "\<And>j u. nested_get j u stats_new (searchers_stats st1) =
        (if j = ?i \<and> u = s then AggregateStats ?stats (code \<noteq> 0) t else nested_get j u stats_new (searchers_stats st))"
      "co_world st1 = w"
    by auto
  have answer1: "useful_answer answer c = (if code = 0 then Some ids else None)" by (simp add: useful_answer_def a)
  have sub: "reg_hosts ?R \<subseteq> reg_hosts R" by (auto simp: registry_after_def remove_host_def set_time_def)
  have "\<forall>(s, c) \<in> set pairs. no_slash s \<and> cl_address c \<in> A" "I (co_world st1)" using Cons.prems(2) w(2) by (simp_all add: st1(4))
  from Cons.IH [OF st1(2) this] obtain st' R' where
    IH: "mapP (ask_client E P rpc request) pairs st1 = (Inr (map (\<lambda>(s, c). useful_answer answer c) pairs), st')"
      "coordinator_ok E kv P st' R'" "reg_hosts R' \<subseteq> reg_hosts ?R" "I (co_world st')"
      "(\<forall>s. errors_cnt (nested_get ?i s stats_new (searchers_stats st1)) = 0) \<and>
       (\<forall>(s, c) \<in> set pairs. fst (answer (cl_address c)) = 0) \<longrightarrow>
       reg_hosts R' = reg_hosts ?R \<and> (\<forall>s. errors_cnt (nested_get ?i s stats_new (searchers_stats st')) = 0)" by blast
  have "mapP (ask_client E P rpc request) (p # pairs) st =
      (Inr (map (\<lambda>(s, c). useful_answer answer c) (p # pairs)), st')"
    using IH(1) by (simp add: p proc_defs st1(1) answer1)
  moreover have "reg_hosts R' = reg_hosts R \<and> (\<forall>s. errors_cnt (nested_get ?i s stats_new (searchers_stats st')) = 0)"
    if no_errors: "\<forall>s. errors_cnt (nested_get ?i s stats_new (searchers_stats st)) = 0"
      and all_ok: "\<forall>(s, c) \<in> set (p # pairs). fst (answer (cl_address c)) = 0"
  proof -
    have "code = 0" using all_ok by (simp add: p a)
    then have "\<forall>s. errors_cnt (nested_get ?i s stats_new (searchers_stats st1)) = 0"
      using no_errors by (simp add: st1(3))
    moreover have "reg_hosts ?R = reg_hosts R" using no_errors by (simp add: registry_after_def set_time_def)
    ultimately show ?thesis using IH(5) all_ok by simp
  qed
  ultimately show ?case using IH(2,3,4) sub by blast
qed auto

lemma map_filter_useful:
  "List.map_filter (\<lambda>r. r) (map (\<lambda>(s, c). useful_answer answer c) pairs) =
    map (\<lambda>c. snd (answer (cl_address c))) (filter (\<lambda>c. fst (answer (cl_address c)) = 0) (map snd pairs))"
  by (induction pairs) (auto simp: List.map_filter_simps useful_answer_def)

lemma reorders_distinct_fst_it: "reorders it \<Longrightarrow> distinct (map fst (it xs)) \<longleftrightarrow> distinct (map fst xs)"
  by (metis mset_eq_imp_distinct_iff mset_map reorders_mset)

lemma pairs_of_cache:
  assumes "distinct (map fst m)" and "reorders it"
  shows "concat (map (\<lambda>(s, cs). map (\<lambda>c. (s, c)) cs) (it m)) =
    concat (map (\<lambda>s. map (Pair s) (case map_of m s of None \<Rightarrow> [] | Some cs \<Rightarrow> cs)) (map fst (it m)))"
proof -
  have "map_of m s = Some cs" if "(s, cs) \<in> set (it m)" for s cs
    using that assms reorders_set [OF assms(2)] by simp
  then have "map (\<lambda>(s, cs). map (\<lambda>c. (s, c)) cs) (it m) =
      map (\<lambda>s. map (Pair s) (case map_of m s of None \<Rightarrow> [] | Some cs \<Rightarrow> cs)) (map fst (it m))"
    by (auto simp: comp_def)
  then show ?thesis by (rule arg_cong [where f = concat])
qed

text \<open>
  The request up to the loop: the cache is refreshed and the loop goes over the clients of all shards,
  shard by shard.
\<close>

lemma coordinator_prepared:
  assumes ok: "coordinator_ok E kv P st R" and i: "no_slash (rq_index_id request)"
    and s: "\<forall>s. rq_shard_id request = Some s \<longrightarrow> no_slash s" and it: "reorders it"
  shows "\<exists>st3 shards. coordinator_ok E kv P st3 R \<and> co_world st3 = co_world st \<and> distinct shards \<and> (\<forall>s \<in> set shards. no_slash s) \<and>
    (\<forall>s. asked_clients request R st s \<noteq> [] \<longrightarrow> s \<in> set shards) \<and>
    (\<forall>s. nested_get (rq_index_id request) s stats_new (searchers_stats st3) =
      nested_get (rq_index_id request) s stats_new (searchers_stats st)) \<and>
    coordinator_ProcessSearchRequest E P rpc it it' srt request st =
      bindP (mapP (ask_client E P rpc request)
          (concat (map (\<lambda>s. map (Pair s) (asked_clients request R st s)) shards))) (\<lambda>responses.
        returnP (MergeSearcherAnswers it' srt (List.map_filter (\<lambda>r. r) responses) (to_size_t (rq_k request)))) st3"
proof -
  let ?i = "rq_index_id request"
  have "metrics_ok P coordinator_counters coordinator_gauges (co_prom st)" using ok by (simp add: coordinator_ok_def)
  from metrics_ok_IncrementCounter [OF this, of "''requests_count''" "[]" 1] obtain p
    where p: "IncrementCounter P ''requests_count'' 1 [] (co_prom st) = (Inr (), p)"
      "metrics_ok P coordinator_counters coordinator_gauges p"
    using shard_labels_ok(2) by (auto simp: coordinator_counters_def)
  define st1 where "st1 = st\<lparr>co_prom := p\<rparr>"
  have ok1: "coordinator_ok E kv P st1 R" using ok p(2) by (simp add: coordinator_ok_def st1_def)
  have same1: "asked_clients request R st1 = asked_clients request R st"
    by (simp add: asked_clients_def st1_def fun_eq_iff)
  from UpdateSearchersState_ok [OF ok1 i s] obtain st2
    where st2: "UpdateSearchersState E request st1 = (Inr (), st2)" "coordinator_ok E kv P st2 R"
      "\<And>s. nested_get ?i s [] (searchers_map st2) = asked_clients request R st s"
      "\<And>j u. nested_get j u stats_new (searchers_stats st2) = nested_get j u stats_new (searchers_stats st)"
      "co_world st2 = co_world st"
    unfolding same1 by (auto simp: st1_def)
  define m where "m = (case map_of (searchers_map st2) ?i of None \<Rightarrow> [] | Some m \<Rightarrow> m)"
  define st3 where "st3 = st2\<lparr>searchers_map := AList.update ?i m (searchers_map st2)\<rparr>"
  have cache: "cache_ok (searchers_map st2)" using st2(2) by (simp add: coordinator_ok_def)
  have m_ok: "distinct (map fst m) \<and> (\<forall>s \<in> fst ` set m. no_slash s)"
    unfolding m_def by (rule cache_ok_shards [OF cache])
  have get_m: "(case map_of m s of None \<Rightarrow> [] | Some cs \<Rightarrow> cs) = asked_clients request R st s" for s
    unfolding st2(3) [symmetric] nested_get_def m_def by (simp split: option.split)
  define shards where "shards = map fst (it m)"
  have pairs: "concat (map (\<lambda>(s, cs). map (\<lambda>c. (s, c)) cs) (it m)) =
      concat (map (\<lambda>s. map (Pair s) (asked_clients request R st s)) shards)"
    unfolding shards_def using pairs_of_cache [OF _ it, of m] m_ok by (simp add: get_m)
  have set_shards: "set shards = fst ` set m" by (simp add: shards_def reorders_set [OF it])
  have "coordinator_ok E kv P st3 R"
    using st2(2) cache m_ok by (simp add: coordinator_ok_def st3_def cache_ok_def update_conv')
  moreover have "co_world st3 = co_world st" by (simp add: st3_def st2(5))
  moreover have "distinct shards" "\<forall>s \<in> set shards. no_slash s"
    using m_ok reorders_distinct_fst_it [OF it] set_shards by (simp_all add: shards_def)
  moreover have "s \<in> set shards" if "asked_clients request R st s \<noteq> []" for s
    using that unfolding get_m [symmetric] set_shards by (force split: option.splits dest: map_of_SomeD)
  moreover have "nested_get ?i s stats_new (searchers_stats st3) = nested_get ?i s stats_new (searchers_stats st)" for s
    by (simp add: st3_def st2(4))
  moreover have "coordinator_ProcessSearchRequest E P rpc it it' srt request st =
      bindP (mapP (ask_client E P rpc request)
          (concat (map (\<lambda>s. map (Pair s) (asked_clients request R st s)) shards))) (\<lambda>responses.
        returnP (MergeSearcherAnswers it' srt (List.map_filter (\<lambda>r. r) responses) (to_size_t (rq_k request)))) st3"
    unfolding pairs [symmetric] using p(1) st2(1)
    by (simp add: coordinator_ProcessSearchRequest_def proc_defs on_prom_def st1_def st3_def m_def [symmetric] update_conv')
  ultimately show ?thesis by blast
qed

text \<open>The whole request: the answers that are merged, and the effect on the registry.\<close>

lemma coordinator_request:
  assumes ok: "coordinator_ok E kv P st R" and i: "no_slash (rq_index_id request)"
    and s: "\<forall>s. rq_shard_id request = Some s \<longrightarrow> no_slash s"
    and it: "reorders it" and rpc: "answering rpc request A answer I" and "I (co_world st)"
    and A: "\<forall>s. cl_address ` set (asked_clients request R st s) \<subseteq> A"
  shows "\<exists>st' R' shards. let clients = concat (map (asked_clients request R st) shards) in
    coordinator_ProcessSearchRequest E P rpc it it' srt request st =
      (Inr (MergeSearcherAnswers it' srt
        (map (\<lambda>c. snd (answer (cl_address c))) (filter (\<lambda>c. fst (answer (cl_address c)) = 0) clients))
        (to_size_t (rq_k request))), st') \<and>
    distinct shards \<and> (\<forall>s. asked_clients request R st s \<noteq> [] \<longrightarrow> s \<in> set shards) \<and>
    coordinator_ok E kv P st' R' \<and> I (co_world st') \<and> reg_hosts R' \<subseteq> reg_hosts R \<and>
    ((\<forall>s. errors_cnt (nested_get (rq_index_id request) s stats_new (searchers_stats st)) = 0) \<and>
     (\<forall>c \<in> set clients. fst (answer (cl_address c)) = 0) \<longrightarrow>
     reg_hosts R' = reg_hosts R \<and>
     (\<forall>s. errors_cnt (nested_get (rq_index_id request) s stats_new (searchers_stats st')) = 0))"
proof -
  let ?i = "rq_index_id request"
  from coordinator_prepared [OF ok i s it, of rpc it' srt] obtain st3 shards where
    st3: "coordinator_ok E kv P st3 R" and world3: "co_world st3 = co_world st" and
    shards: "distinct shards" "\<forall>s \<in> set shards. no_slash s"
      "\<forall>s. asked_clients request R st s \<noteq> [] \<longrightarrow> s \<in> set shards" and
    stats3: "\<And>s. nested_get ?i s stats_new (searchers_stats st3) = nested_get ?i s stats_new (searchers_stats st)" and
    run: "coordinator_ProcessSearchRequest E P rpc it it' srt request st =
      bindP (mapP (ask_client E P rpc request)
          (concat (map (\<lambda>s. map (Pair s) (asked_clients request R st s)) shards))) (\<lambda>responses.
        returnP (MergeSearcherAnswers it' srt (List.map_filter (\<lambda>r. r) responses) (to_size_t (rq_k request)))) st3"
    by blast
  define pairs where "pairs = concat (map (\<lambda>s. map (Pair s) (asked_clients request R st s)) shards)"
  have clients: "map snd pairs = concat (map (asked_clients request R st) shards)"
    by (simp add: pairs_def map_concat comp_def)
  have "\<forall>(s, c) \<in> set pairs. no_slash s \<and> cl_address c \<in> A" using shards(2) A by (auto simp: pairs_def)
  from ask_all_ok [OF st3 i this rpc, unfolded world3, OF assms(6)] obtain st' R'
    where st': "mapP (ask_client E P rpc request) pairs st3 = (Inr (map (\<lambda>(s, c). useful_answer answer c) pairs), st')"
      "coordinator_ok E kv P st' R'" "reg_hosts R' \<subseteq> reg_hosts R" and world: "I (co_world st')" and
    errors: "(\<forall>s. errors_cnt (nested_get ?i s stats_new (searchers_stats st3)) = 0) \<and>
       (\<forall>(s, c) \<in> set pairs. fst (answer (cl_address c)) = 0) \<longrightarrow>
       reg_hosts R' = reg_hosts R \<and> (\<forall>s. errors_cnt (nested_get ?i s stats_new (searchers_stats st')) = 0)" by blast
  have ok_pairs: "(\<forall>(s, c) \<in> set pairs. fst (answer (cl_address c)) = 0) \<longleftrightarrow>
      (\<forall>c \<in> set (map snd pairs). fst (answer (cl_address c)) = 0)" by auto
  have "coordinator_ProcessSearchRequest E P rpc it it' srt request st =
      (Inr (MergeSearcherAnswers it' srt
        (List.map_filter (\<lambda>r. r) (map (\<lambda>(s, c). useful_answer answer c) pairs)) (to_size_t (rq_k request))), st')"
    unfolding run pairs_def [symmetric] using st'(1) by (simp add: proc_defs)
  then show ?thesis
    unfolding Let_def map_filter_useful clients
    using shards(1,3) st'(2,3) world errors [unfolded stats3 ok_pairs clients]
    by (intro exI [of _ st'] exI [of _ R'] exI [of _ shards] conjI) (assumption | blast)+
qed

lemma concat_map_single:
  "distinct xs \<Longrightarrow> x \<in> set xs \<Longrightarrow> (\<And>y. y \<noteq> x \<Longrightarrow> f y = []) \<Longrightarrow> concat (map f xs) = f x"
proof (induction xs)
  case (Cons y xs)
  have "concat (map f xs) = []" if "x \<notin> set xs"
    using that Cons.prems(3) by (auto simp: concat_eq_Nil_conv) metis
  with Cons show ?case by (cases "y = x") auto
qed simp

section \<open>Properties\<close>

text \<open>
  C11. A search request to the coordinator is answered whichever searchers fail. Every searcher that
  etcd lists for the shards of the request (all shards of the index when it names none), and every
  searcher cached for a shard that was not refreshed, is asked once; the response is the merge of the
  answers of those that answered, and the invariant of the coordinator holds again, as does any
  invariant of the searchers under which they answer. No host is added to the registry.
\<close>

theorem coordinator_merges_answers:
  assumes "coordinator_ok E kv P st R" and "no_slash (rq_index_id request)"
    and "\<forall>s. rq_shard_id request = Some s \<longrightarrow> no_slash s" and "reorders it"
    and "answering rpc request A answer I" and "I (co_world st)" and "\<forall>s. cl_address ` set (asked_clients request R st s) \<subseteq> A"
  shows "\<exists>st' R' shards. let clients = concat (map (asked_clients request R st) shards) in
    coordinator_ProcessSearchRequest E P rpc it it' srt request st =
      (Inr (MergeSearcherAnswers it' srt
        (map (\<lambda>c. snd (answer (cl_address c))) (filter (\<lambda>c. fst (answer (cl_address c)) = 0) clients))
        (to_size_t (rq_k request))), st') \<and>
    distinct shards \<and> (\<forall>s. asked_clients request R st s \<noteq> [] \<longrightarrow> s \<in> set shards) \<and>
    coordinator_ok E kv P st' R' \<and> I (co_world st') \<and> reg_hosts R' \<subseteq> reg_hosts R"
  using coordinator_request [OF assms, of it' srt] unfolding Let_def by blast

text \<open>A coordinator that was just started, next to one registered searcher.\<close>

definition demo_coordinator ::
  "(string \<times> string) list \<Rightarrow> ((string \<times> string) list, ref_registry, string, string, unit) CoordinatorImpl" where
  "demo_coordinator e = \<lparr>searchers_map = [], searchers_stats = [], co_etcd = e, co_prom = ref_exposer,
     co_world = (), co_clock = int\<rparr>"

lemma demo_coordinator_new: "coordinator_new ref_etcd ref_prom e () int = Inr (demo_coordinator e)"
  by (simp add: coordinator_new_def ref_exposer_new DebugPrintEverything_def rethrow_sliced_def proc_defs
      ref_etcd_def demo_coordinator_def)

lemma demo_coordinator_ok:
  "etcd_holds ref_etcd map_of e R \<Longrightarrow> coordinator_ok ref_etcd map_of ref_prom (demo_coordinator e) R"
  by (simp add: coordinator_ok_def demo_coordinator_def ref_exposer_ok cache_ok_def)

definition demo_request :: "int SearchRequest" where
  "demo_request = \<lparr>rq_vector = [0, 0], rq_k = 5, rq_index_id = ''0'', rq_shard_id = None\<rparr>"

lemma demo_registered:
  "\<exists>e. etcd_holds ref_etcd map_of e (add_host ''0'' ''1'' ''a:1'' empty_registry) \<and>
    asked_clients demo_request (add_host ''0'' ''1'' ''a:1'' empty_registry) (demo_coordinator e) ''1'' = [\<lparr>cl_address = ''a:1''\<rparr>]"
proof -
  have ids: "no_slash ''0''" "no_slash ''1''" by (simp_all add: no_slash_def)
  from etcd.add_holds [OF ref_etcd_empty ids, of "''a:1''"] obtain e
    where e: "etcd_holds ref_etcd map_of e (add_host ''0'' ''1'' ''a:1'' empty_registry)" by blast
  then show ?thesis
    by (intro exI [of _ e]) (simp add: asked_clients_def refreshed_shards_def demo_request_def shards_of_def hosts_of_def add_host_def
        empty_registry_def CreateSearcherClient_def)
qed

theorem coordinator_merges_answers_witness:
  "\<exists>e st' R' shards. let clients = concat (map (asked_clients demo_request
      (add_host ''0'' ''1'' ''a:1'' empty_registry) (demo_coordinator e)) shards) in
    coordinator_ProcessSearchRequest ref_etcd ref_prom (\<lambda>a rq w. ((0, [''x'', ''y'']), w)) rev rev demo_sort demo_request
      (demo_coordinator e) =
      (Inr (MergeSearcherAnswers rev demo_sort (map (\<lambda>c. [''x'', ''y'']) clients) 5), st') \<and>
    coordinator_ok ref_etcd map_of ref_prom st' R' \<and> ''1'' \<in> set shards"
proof -
  let ?R = "add_host ''0'' ''1'' ''a:1'' empty_registry"
  from demo_registered obtain e where e: "etcd_holds ref_etcd map_of e ?R"
    "asked_clients demo_request ?R (demo_coordinator e) ''1'' = [\<lparr>cl_address = ''a:1''\<rparr>]" by blast
  have ids: "no_slash ''0''" by (simp add: no_slash_def)
  from e(2) have "asked_clients demo_request ?R (demo_coordinator e) ''1'' \<noteq> []" by simp
  with coordinator_merges_answers [OF demo_coordinator_ok [OF e(1)], of demo_request rev
      "\<lambda>a rq w. ((0, [''x'', ''y'']), w)" UNIV "\<lambda>_. (0, [''x'', ''y''])" "\<lambda>_. True" rev demo_sort] ids(1)
  have "\<exists>st' R' shards. let clients = concat (map (asked_clients demo_request ?R (demo_coordinator e)) shards) in
    coordinator_ProcessSearchRequest ref_etcd ref_prom (\<lambda>a rq w. ((0, [''x'', ''y'']), w)) rev rev demo_sort demo_request
      (demo_coordinator e) =
      (Inr (MergeSearcherAnswers rev demo_sort (map (\<lambda>c. [''x'', ''y'']) clients) 5), st') \<and>
    coordinator_ok ref_etcd map_of ref_prom st' R' \<and> ''1'' \<in> set shards"
    by (simp add: demo_request_def reorders_rev Let_def answering_def) blast
  then show ?thesis by blast
qed

text \<open>
  C32. As long as every searcher answers, the coordinator unregisters none of them: starting without
  errors, a request that is answered by all leaves the hosts in etcd as they were and the error
  counts at zero.
\<close>

theorem coordinator_keeps_hosts:
  assumes "coordinator_ok E kv P st R" and "no_slash (rq_index_id request)"
    and "\<forall>s. rq_shard_id request = Some s \<longrightarrow> no_slash s" and "reorders it"
    and "answering rpc request A (\<lambda>a. (0, docs a)) I" and "I (co_world st)" and "\<forall>s. cl_address ` set (asked_clients request R st s) \<subseteq> A"
    and "\<forall>s. errors_cnt (nested_get (rq_index_id request) s stats_new (searchers_stats st)) = 0"
  shows "\<exists>ids st' R'. coordinator_ProcessSearchRequest E P rpc it it' srt request st = (Inr ids, st') \<and>
    coordinator_ok E kv P st' R' \<and> I (co_world st') \<and> reg_hosts R' = reg_hosts R \<and>
    (\<forall>s. errors_cnt (nested_get (rq_index_id request) s stats_new (searchers_stats st')) = 0)"
  using coordinator_request [OF assms(1-7), of it' srt] assms(8)
  unfolding Let_def by auto

theorem coordinator_keeps_hosts_witness:
  "\<exists>e ids st' R'. etcd_holds ref_etcd map_of e (add_host ''0'' ''1'' ''a:1'' empty_registry) \<and>
    asked_clients demo_request (add_host ''0'' ''1'' ''a:1'' empty_registry) (demo_coordinator e) ''1'' = [\<lparr>cl_address = ''a:1''\<rparr>] \<and>
    coordinator_ProcessSearchRequest ref_etcd ref_prom (\<lambda>a rq w. ((0, [''x'', ''y'']), w)) rev rev demo_sort
      demo_request (demo_coordinator e) = (Inr ids, st') \<and>
    coordinator_ok ref_etcd map_of ref_prom st' R' \<and> reg_hosts R' = {(''0'', ''1'', ''a:1'')} \<and>
    (\<forall>s. errors_cnt (nested_get ''0'' s stats_new (searchers_stats st')) = 0)"
proof -
  let ?R = "add_host ''0'' ''1'' ''a:1'' empty_registry"
  from demo_registered obtain e where e: "etcd_holds ref_etcd map_of e ?R"
    "asked_clients demo_request ?R (demo_coordinator e) ''1'' = [\<lparr>cl_address = ''a:1''\<rparr>]" by blast
  have R: "reg_hosts ?R = {(''0'', ''1'', ''a:1'')}" by (simp add: add_host_def empty_registry_def)
  have rq: "rq_index_id demo_request = ''0''" "no_slash (rq_index_id demo_request)"
    "\<forall>s. rq_shard_id demo_request = Some s \<longrightarrow> no_slash s" by (simp_all add: demo_request_def no_slash_def)
  have ans: "answering (\<lambda>a rq w. ((0, [''x'', ''y'']), w)) demo_request UNIV (\<lambda>a. (0, [''x'', ''y''])) (\<lambda>_. True)"
    by (simp add: answering_def)
  have zero: "\<forall>s. errors_cnt (nested_get (rq_index_id demo_request) s stats_new (searchers_stats (demo_coordinator e))) = 0"
    by (simp add: demo_coordinator_def nested_get_def stats_new_def)
  from coordinator_keeps_hosts [OF demo_coordinator_ok [OF e(1)] rq(2,3) reorders_rev ans TrueI _ zero, of rev demo_sort, unfolded R rq(1)] e
  show ?thesis by (metis subset_UNIV)
qed

text \<open>
  C40. The coordinator unregisters the wrong searcher. A shard is served by two hosts; the first one
  fails, the second one answers. After the first request of a new coordinator the failing host is
  still registered and the healthy one is not: the error is counted when the round of the failing
  host is already over, and the next host that is asked is removed, whatever it answered.
\<close>

theorem coordinator_removes_healthy_host:
  assumes "coordinator_ok E kv P st R" and "searchers_map st = []" and "searchers_stats st = []"
    and "no_slash (rq_index_id request)" and "rq_shard_id request = None" and "reorders it"
    and "shards_of R (rq_index_id request) = {s}" and "hosts_of R (rq_index_id request) s = {a, b}" and "a < b"
    and "\<And>x w. rpc x request w = (answer x, w)" and "answer a = (code, docs_a)" "code \<noteq> 0" and "answer b = (0, docs_b)"
  shows "\<exists>st' R'. coordinator_ProcessSearchRequest E P rpc it it' srt request st =
      (Inr (MergeSearcherAnswers it' srt [docs_b] (to_size_t (rq_k request))), st') \<and>
    coordinator_ok E kv P st' R' \<and> hosts_of R' (rq_index_id request) s = {a}"
proof -
  let ?i = "rq_index_id request" and ?a = "\<lparr>cl_address = a\<rparr>" and ?b = "\<lparr>cl_address = b\<rparr>"
  have "sorted_list_of_set {a, b} = [a, b]" using assms(9) by (auto simp: insert_Diff_if)
  then have clients: "asked_clients request R st = (\<lambda>u. if u = s then [?a, ?b] else [])"
    using assms(2,5,7,8)
    by (simp add: asked_clients_def refreshed_shards_def CreateSearcherClient_def nested_get_def fun_eq_iff)
  have "\<forall>s. rq_shard_id request = Some s \<longrightarrow> no_slash s" using assms(5) by simp
  from coordinator_prepared [OF assms(1,4) this assms(6), of rpc it' srt] obtain st3 shards where
    st3: "coordinator_ok E kv P st3 R" and shards: "distinct shards" "\<forall>s \<in> set shards. no_slash s"
      "\<forall>s. asked_clients request R st s \<noteq> [] \<longrightarrow> s \<in> set shards" and
    stats3: "\<forall>s. nested_get ?i s stats_new (searchers_stats st3) = nested_get ?i s stats_new (searchers_stats st)" and
    run: "coordinator_ProcessSearchRequest E P rpc it it' srt request st =
      bindP (mapP (ask_client E P rpc request)
          (concat (map (\<lambda>s. map (Pair s) (asked_clients request R st s)) shards))) (\<lambda>responses.
        returnP (MergeSearcherAnswers it' srt (List.map_filter (\<lambda>r. r) responses) (to_size_t (rq_k request)))) st3"
    by blast
  have s: "s \<in> set shards" using shards(3) by (simp add: clients)
  then have slash: "no_slash s" using shards(2) by blast
  have pairs: "concat (map (\<lambda>s. map (Pair s) (asked_clients request R st s)) shards) = [(s, ?a), (s, ?b)]"
    using concat_map_single [OF shards(1) s, of "\<lambda>s. map (Pair s) (asked_clients request R st s)"] by (simp add: clients)
  have zero: "nested_get ?i s stats_new (searchers_stats st3) = stats_new"
    using stats3 assms(3) by (simp add: nested_get_def)
  from ask_client_ok [where rpc = rpc, OF st3 assms(4) slash, of ?a code docs_a "co_world st3"] assms(10,11,12)
  obtain st4 t where st4: "ask_client E P rpc request (s, ?a) st3 = (Inr None, st4)"
    "coordinator_ok E kv P st4 (set_time ?i s 0 R)"
    "nested_get ?i s stats_new (searchers_stats st4) = AggregateStats stats_new True t"
    by (auto simp: zero registry_after_new)
  have err: "1 \<le> errors_cnt (AggregateStats stats_new True t)"
    by (simp add: AggregateStats_def Let_def stats_new_def size_add_def)
  from ask_client_ok [where rpc = rpc, OF st4(2) assms(4) slash, of ?b 0 docs_b "co_world st4"] assms(10,13)
  obtain st5 where st5: "ask_client E P rpc request (s, ?b) st4 = (Inr (Some docs_b), st5)"
    "coordinator_ok E kv P st5 (remove_host ?i s b (set_time ?i s 0 R))"
    using err by (auto simp: st4(3) registry_after_def)
  have "hosts_of (remove_host ?i s b (set_time ?i s 0 R)) ?i s = {a, b} - {b}"
    using assms(8) by (auto simp: hosts_of_def remove_host_def set_time_def)
  then have "hosts_of (remove_host ?i s b (set_time ?i s 0 R)) ?i s = {a}" using assms(9) by auto
  moreover have "coordinator_ProcessSearchRequest E P rpc it it' srt request st =
      (Inr (MergeSearcherAnswers it' srt [docs_b] (to_size_t (rq_k request))), st5)"
    unfolding run pairs using st4(1) st5(1) by (simp add: proc_defs List.map_filter_simps)
  ultimately show ?thesis using st5(2) by blast
qed

theorem coordinator_removes_healthy_host_witness:
  "\<exists>e st' R'. coordinator_ProcessSearchRequest ref_etcd ref_prom
      (\<lambda>x rq w. (if x = ''a'' then (14, []) else (0, [''doc'']), w)) rev rev demo_sort demo_request (demo_coordinator e) =
      (Inr (MergeSearcherAnswers rev demo_sort [[''doc'']] 5), st') \<and>
    coordinator_ok ref_etcd map_of ref_prom st' R' \<and> hosts_of R' ''0'' ''1'' = {''a''}"
proof -
  have ids: "no_slash ''0''" "no_slash ''1''" by (simp_all add: no_slash_def)
  from etcd.add_holds [OF ref_etcd_empty ids, of "''a''"] obtain e1
    where "etcd_holds ref_etcd map_of e1 (add_host ''0'' ''1'' ''a'' empty_registry)" by blast
  from etcd.add_holds [OF this ids, of "''b''"] obtain e
    where e: "etcd_holds ref_etcd map_of e (add_host ''0'' ''1'' ''b'' (add_host ''0'' ''1'' ''a'' empty_registry))" by blast
  let ?R = "add_host ''0'' ''1'' ''b'' (add_host ''0'' ''1'' ''a'' empty_registry)"
  have R: "shards_of ?R ''0'' = {''1''}" "hosts_of ?R ''0'' ''1'' = {''a'', ''b''}"
    by (auto simp: shards_of_def hosts_of_def add_host_def empty_registry_def)
  have "''a'' < ''b''" by (simp add: less_char_def)
  with coordinator_removes_healthy_host [OF demo_coordinator_ok [OF e], of demo_request rev "''1''" "''a''" "''b''"
      "\<lambda>x rq w. (if x = ''a'' then (14, []) else (0, [''doc'']), w)"
      "\<lambda>x. if x = ''a'' then (14, []) else (0, [''doc''])" 14 "[]" "[''doc'']" rev demo_sort] ids R
  show ?thesis by (auto simp: demo_request_def demo_coordinator_def reorders_rev)
qed

end
