(* ===== verification/Storage_Client.thy ===== *)
theory Storage_Client
  imports Effects Number_Text
begin

text \<open>
  \<open>StorageClient\<close> (\<open>app/src/StorageClient.cpp\<close>): segment files in an S3 service. The service is a
  parameter, a record of the five calls; \<open>s3_contract\<close> says what S3 documents. \<open>std::hash\<close> of a
  string is a parameter too: a function to \<open>size_t\<close>. The files of the process are a map from names
  to contents; creating and writing a file does not fail.
\<close>

section \<open>The S3 service\<close>

record 's s3_lib =
  s3_list_buckets :: "'s \<Rightarrow> bool"
  s3_create_bucket :: "'s \<Rightarrow> string \<Rightarrow> bool \<times> 's"
  s3_put_object :: "'s \<Rightarrow> string \<Rightarrow> string \<Rightarrow> string \<Rightarrow> bool \<times> 's"
  s3_get_object :: "'s \<Rightarrow> string \<Rightarrow> string \<Rightarrow> string option"
  s3_delete_object :: "'s \<Rightarrow> string \<Rightarrow> string \<Rightarrow> bool \<times> 's"

definition s3_contract ::
  "'s s3_lib \<Rightarrow> ('s \<Rightarrow> string set) \<Rightarrow> ('s \<Rightarrow> string \<times> string \<rightharpoonup> string) \<Rightarrow> bool" where
  "s3_contract S buckets objects \<longleftrightarrow>
     (\<forall>s b. b \<in> buckets s \<longrightarrow> s3_create_bucket S s b = (False, s)) \<and>
     (\<forall>s b. b \<notin> buckets s \<longrightarrow> fst (s3_create_bucket S s b) \<and>
        buckets (snd (s3_create_bucket S s b)) = insert b (buckets s) \<and>
        objects (snd (s3_create_bucket S s b)) = objects s) \<and>
     (\<forall>s b k c. b \<in> buckets s \<longrightarrow> fst (s3_put_object S s b k c) \<and>
        buckets (snd (s3_put_object S s b k c)) = buckets s \<and>
        objects (snd (s3_put_object S s b k c)) = (objects s)((b, k) \<mapsto> c)) \<and>
     (\<forall>s b k c. b \<notin> buckets s \<longrightarrow> s3_put_object S s b k c = (False, s)) \<and>
     (\<forall>s b k. s3_get_object S s b k = objects s (b, k)) \<and>
     (\<forall>s b k. b \<in> buckets s \<longrightarrow> fst (s3_delete_object S s b k) \<and>
        buckets (snd (s3_delete_object S s b k)) = buckets s \<and>
        objects (snd (s3_delete_object S s b k)) = (objects s)((b, k) := None))"

section \<open>The code\<close>

type_synonym files = "string \<rightharpoonup> string"

text \<open>The client: the optional \<open>s3Client\<close>, the service behind it and the files of the process.\<close>

record 's StorageClient =
  sc_s3Client :: bool
  sc_s3 :: 's
  sc_files :: files

definition storage_new :: "'s \<Rightarrow> files \<Rightarrow> 's StorageClient" where
  "storage_new s fs = \<lparr>sc_s3Client = False, sc_s3 = s, sc_files = fs\<rparr>"

definition logIn :: "'s s3_lib \<Rightarrow> ('s StorageClient, bool) proc" where
  "logIn S = thenP (modifyP (\<lambda>c. c\<lparr>sc_s3Client := True\<rparr>)) (readP (\<lambda>c. s3_list_buckets S (sc_s3 c)))"

definition makeBucketName :: "(string \<Rightarrow> nat) \<Rightarrow> string \<Rightarrow> string" where
  "makeBucketName hasher name = ''000'' @ hex_string (hasher name)"

text \<open>\<open>s3Client->\<close> on an empty optional is undefined.\<close>

definition with_client :: "('s \<Rightarrow> 'a \<times> 's) \<Rightarrow> ('s StorageClient, 'a) proc" where
  "with_client f c =
     (if \<not> sc_s3Client c then (Inl NullPointer, c)
      else case f (sc_s3 c) of (x, s) \<Rightarrow> (Inr x, c\<lparr>sc_s3 := s\<rparr>))"

definition putObject :: "'s s3_lib \<Rightarrow> (string \<Rightarrow> nat) \<Rightarrow> string \<Rightarrow> string \<Rightarrow> ('s StorageClient, bool) proc" where
  "putObject S hasher bucket_name filename =
     bindP (readP (\<lambda>c. sc_files c filename)) (\<lambda>input_data.
       case input_data of
         None \<Rightarrow> returnP False
       | Some content \<Rightarrow> with_client (\<lambda>s. s3_put_object S s (makeBucketName hasher bucket_name) filename content))"

definition getObject :: "'s s3_lib \<Rightarrow> (string \<Rightarrow> nat) \<Rightarrow> string \<Rightarrow> string \<Rightarrow> ('s StorageClient, bool) proc" where
  "getObject S hasher bucket_name filename =
     bindP (with_client (\<lambda>s. (s3_get_object S s (makeBucketName hasher bucket_name) filename, s))) (\<lambda>outcome.
       case outcome of
         None \<Rightarrow> returnP False
       | Some content \<Rightarrow>
           thenP (modifyP (\<lambda>c. c\<lparr>sc_files := (sc_files c)(filename \<mapsto> content)\<rparr>)) (returnP True))"

definition delObject :: "'s s3_lib \<Rightarrow> (string \<Rightarrow> nat) \<Rightarrow> string \<Rightarrow> string \<Rightarrow> ('s StorageClient, bool) proc" where
  "delObject S hasher bucket_name filename =
     with_client (\<lambda>s. s3_delete_object S s (makeBucketName hasher bucket_name) filename)"

definition createBucket :: "'s s3_lib \<Rightarrow> (string \<Rightarrow> nat) \<Rightarrow> string \<Rightarrow> ('s StorageClient, bool) proc" where
  "createBucket S hasher bucket_name =
     with_client (\<lambda>s. s3_create_bucket S s (makeBucketName hasher bucket_name))"

section \<open>Bucket names\<close>

lemma s3_contractD:
  assumes "s3_contract S buckets objects"
  shows "b \<in> buckets s \<Longrightarrow> s3_create_bucket S s b = (False, s)"
    and "b \<notin> buckets s \<Longrightarrow> \<exists>s'. s3_create_bucket S s b = (True, s') \<and> buckets s' = insert b (buckets s) \<and> objects s' = objects s"
    and "b \<in> buckets s \<Longrightarrow> \<exists>s'. s3_put_object S s b k c = (True, s') \<and> buckets s' = buckets s \<and>
      objects s' = (objects s)((b, k) \<mapsto> c)"
    and "s3_get_object S s b k = objects s (b, k)"
    and "b \<in> buckets s \<Longrightarrow> \<exists>s'. s3_delete_object S s b k = (True, s') \<and> buckets s' = buckets s \<and>
      objects s' = (objects s)((b, k) := None)"
  using assms unfolding s3_contract_def by (simp_all add: prod_eq_iff)

lemma digit_char_inj: "m < 16 \<Longrightarrow> n < 16 \<Longrightarrow> digit_char m = digit_char n \<longleftrightarrow> m = n"
proof -
  assume mn: "m < 16" "n < 16"
  have "\<forall>m \<in> set [0..<16]. \<forall>n \<in> set [0..<16]. digit_char m = digit_char n \<longrightarrow> m = n" by code_simp
  moreover from mn have "m \<in> set [0..<16]" "n \<in> set [0..<16]" by simp_all
  ultimately show ?thesis by blast
qed

lemma hex_string_snoc:
  "hex_string n = (if n < 16 then [digit_char n] else hex_string (n div 16) @ [digit_char (n mod 16)])"
  by (simp add: hex_string_def radix.simps [of 16 n])

lemma hex_string_nonempty: "hex_string n \<noteq> []"
  by (simp add: hex_string_snoc [of n])

lemma hex_string_inj: "hex_string m = hex_string n \<Longrightarrow> m = n"
proof (induction m arbitrary: n rule: less_induct)
  case (less m)
  consider "m < 16" "n < 16" | "\<not> m < 16" "\<not> n < 16" | "m < 16 \<longleftrightarrow> \<not> n < 16" by blast
  then show ?case
  proof cases
    case 1
    with less.prems show ?thesis by (simp add: hex_string_snoc [of m] hex_string_snoc [of n] digit_char_inj)
  next
    case 2
    with less.prems have "hex_string (m div 16) = hex_string (n div 16)" and "m mod 16 = n mod 16"
      by (simp_all add: hex_string_snoc [of m] hex_string_snoc [of n] digit_char_inj)
    with less.IH [of "m div 16" "n div 16"] 2 have "m div 16 = n div 16" by simp
    with \<open>m mod 16 = n mod 16\<close> show ?thesis by (metis div_mult_mod_eq)
  next
    case 3
    then show ?thesis
      using less.prems hex_string_nonempty [of "m div 16"] hex_string_nonempty [of "n div 16"]
      by (auto simp: hex_string_snoc [of m] hex_string_snoc [of n] split: if_splits)
  qed
qed

lemma hex_string_length: "n < 16 ^ Suc w \<Longrightarrow> length (hex_string n) \<le> Suc w"
proof (induction w arbitrary: n)
  case (Suc w)
  then have "n div 16 < 16 ^ Suc w" by (simp add: less_mult_imp_div_less)
  with Suc.IH show ?case by (simp add: hex_string_snoc [of n])
qed (simp add: hex_string_snoc)

lemma hex_string_digits: "set (hex_string n) \<subseteq> set ''0123456789abcdef''"
proof (induction n rule: less_induct)
  case (less n)
  have "digit_char d \<in> set ''0123456789abcdef''" if "d < 16" for d
  proof -
    have "\<forall>d \<in> set [0..<16]. digit_char d \<in> set ''0123456789abcdef''" by code_simp
    moreover from that have "d \<in> set [0..<16]" by simp
    ultimately show ?thesis by blast
  qed
  then show ?case using less [of "n div 16"] by (auto simp: hex_string_snoc [of n])
qed

text \<open>
  Bucket names are valid for S3 and tell indexes apart: \<open>makeBucketName\<close> gives between 4 and 19
  lower-case hexadecimal digits, and two indexes get the same bucket exactly when the hash values of
  their identifiers collide.
\<close>

theorem bucket_names:
  assumes "hasher name < 2 ^ 64"
  shows "4 \<le> length (makeBucketName hasher name) \<and> length (makeBucketName hasher name) \<le> 19 \<and>
    set (makeBucketName hasher name) \<subseteq> set ''0123456789abcdef'' \<and>
    (makeBucketName hasher name = makeBucketName hasher name' \<longleftrightarrow> hasher name = hasher name')"
proof -
  have "length (hex_string (hasher name)) \<le> 16" using hex_string_length [of "hasher name" 15] assms by simp
  moreover have "1 \<le> length (hex_string (hasher name))" using hex_string_nonempty by (simp add: Suc_le_eq)
  ultimately show ?thesis
    using hex_string_digits [of "hasher name"] hex_string_inj [of "hasher name" "hasher name'"]
    by (auto simp: makeBucketName_def)
qed

theorem bucket_names_witness:
  "makeBucketName length ''products'' = ''0008'' \<and> 4 \<le> length (makeBucketName length ''products'')"
  using bucket_names [of length "''products''" "[]"]
  by (simp add: makeBucketName_def hex_string_def radix.simps [of 16] digit_char_def)

section \<open>Objects\<close>

text \<open>
  C30. A file stored by one process is retrieved by another. After \<open>putObject\<close> of an existing file
  into the bucket of an index, \<open>getObject\<close> of any process that is logged in to the same service
  succeeds and leaves the same content under the same name; its other files stay. After
  \<open>delObject\<close> it fails and leaves the files alone.
\<close>

theorem stored_object_retrieved:
  assumes "s3_contract S buckets objects" and "sc_s3Client w" and "sc_s3Client r"
    and "makeBucketName hasher index_id \<in> buckets (sc_s3 w)" and "sc_files w filename = Some content"
  shows "\<exists>w' w''. putObject S hasher index_id filename w = (Inr True, w') \<and> sc_files w' = sc_files w \<and>
    getObject S hasher index_id filename (r\<lparr>sc_s3 := sc_s3 w'\<rparr>) =
      (Inr True, r\<lparr>sc_s3 := sc_s3 w', sc_files := (sc_files r)(filename \<mapsto> content)\<rparr>) \<and>
    delObject S hasher index_id filename w' = (Inr True, w'') \<and>
    getObject S hasher index_id filename (r\<lparr>sc_s3 := sc_s3 w''\<rparr>) = (Inr False, r\<lparr>sc_s3 := sc_s3 w''\<rparr>)"
proof -
  note D = s3_contractD [OF assms(1)]
  let ?b = "makeBucketName hasher index_id"
  from D(3) [OF assms(4), of filename content] obtain s'
    where s': "s3_put_object S (sc_s3 w) ?b filename content = (True, s')" "buckets s' = buckets (sc_s3 w)"
      "objects s' = (objects (sc_s3 w))((?b, filename) \<mapsto> content)" by blast
  from D(5) [of ?b s' filename] s'(2) assms(4) obtain s''
    where s'': "s3_delete_object S s' ?b filename = (True, s'')" "objects s'' = (objects s')((?b, filename) := None)" by auto
  show ?thesis
    using assms(2,3,5) s' s''
    by (intro exI [of _ "w\<lparr>sc_s3 := s'\<rparr>"] exI [of _ "w\<lparr>sc_s3 := s''\<rparr>"])
      (simp add: putObject_def getObject_def delObject_def with_client_def proc_defs D(4))
qed

text \<open>An S3 service with its buckets and objects in tables.\<close>

definition ref_s3 :: "(string set \<times> (string \<times> string \<rightharpoonup> string)) s3_lib" where
  "ref_s3 = \<lparr>
     s3_list_buckets = (\<lambda>_. True),
     s3_create_bucket = (\<lambda>(bs, os) b. if b \<in> bs then (False, (bs, os)) else (True, (insert b bs, os))),
     s3_put_object = (\<lambda>(bs, os) b k c. if b \<in> bs then (True, (bs, os((b, k) \<mapsto> c))) else (False, (bs, os))),
     s3_get_object = (\<lambda>(bs, os) b k. os (b, k)),
     s3_delete_object = (\<lambda>(bs, os) b k. if b \<in> bs then (True, (bs, os((b, k) := None))) else (False, (bs, os)))\<rparr>"

lemma ref_s3_contract: "s3_contract ref_s3 fst snd"
  by (auto simp: s3_contract_def ref_s3_def split: prod.splits)

theorem stored_object_retrieved_witness:
  "\<exists>w'. putObject ref_s3 length ''products'' ''7''
      \<lparr>sc_s3Client = True, sc_s3 = ({''0008''}, Map.empty), sc_files = [''7'' \<mapsto> ''bytes'']\<rparr> = (Inr True, w') \<and>
    getObject ref_s3 length ''products'' ''7'' \<lparr>sc_s3Client = True, sc_s3 = sc_s3 w', sc_files = Map.empty\<rparr> =
      (Inr True, \<lparr>sc_s3Client = True, sc_s3 = sc_s3 w', sc_files = [''7'' \<mapsto> ''bytes'']\<rparr>)"
proof -
  have "makeBucketName length ''products'' = ''0008''"
    by (simp add: makeBucketName_def hex_string_def radix.simps [of 16] digit_char_def)
  then show ?thesis
    using stored_object_retrieved [OF ref_s3_contract,
        of "\<lparr>sc_s3Client = True, sc_s3 = ({''0008''}, Map.empty), sc_files = [''7'' \<mapsto> ''bytes'']\<rparr>"
          "\<lparr>sc_s3Client = True, sc_s3 = ({}, Map.empty), sc_files = Map.empty\<rparr>" length "''products''" "''7''" "''bytes''"]
    by auto
qed

end
