(* ===== verification/Platform.thy ===== *)
theory Platform
  imports Index_Factory Index_Ids Segment_File Coordinator Storage_Client
begin

text \<open>
  What the writer and the searcher run on: the external libraries and services, the hash function and
  the iteration orders of the hash containers, collected in one record, and the virtual method table
  of the index class on it. Identifiers of documents are strings.
\<close>

record ('b, 'f, 'j, 'e, 's, 'p, 'cf, 'gf) platform =
  pf_faiss :: "('b, 'f) faiss_lib"
  pf_json :: "'j json_lib"
  pf_etcd :: "'e etcd_lib"
  pf_s3 :: "'s s3_lib"
  pf_prom :: "('p, 'cf, 'gf) prom_lib"
  pf_hash :: "string \<Rightarrow> nat"
  pf_merge_order :: "(int \<times> string) list \<Rightarrow> (int \<times> string) list"
  pf_result_order :: "(string \<times> 'f) list \<Rightarrow> (string \<times> 'f) list"
  pf_file_order :: "string file_order"

type_synonym ('b, 'f, 'j, 'e, 's, 'p, 'cf, 'gf) pf = "('b, 'f, 'j, 'e, 's, 'p, 'cf, 'gf) platform"

type_synonym 'b shard_index = "('b, string) FaissIndex Index"

text \<open>\<open>shards[index_id][shard_id]\<close>, with empty pointers for the entries that \<open>operator[]\<close> inserts.\<close>

type_synonym 'x shard_map = "(string \<times> (string \<times> 'x option) list) list"

definition platform_vtable ::
  "('b, 'f::{linorder, zero}, 'j, 'e, 's, 'p, 'cf, 'gf) pf \<Rightarrow> (('b, string) FaissIndex, string, 'f) IBaseIndex" where
  "platform_vtable pf = faiss_vtable (pf_faiss pf) (pf_merge_order pf)
     (faiss_serialize_index (pf_faiss pf) writeBinary_string (pf_file_order pf))"

definition shard_at :: "'x shard_map \<Rightarrow> string \<Rightarrow> string \<Rightarrow> 'x option" where
  "shard_at m i s = nested_get i s None m"

definition put_shard :: "string \<Rightarrow> string \<Rightarrow> 'x \<Rightarrow> 'x shard_map \<Rightarrow> 'x shard_map" where
  "put_shard i s x m = nested_put i s (Some x) m"

definition touch_shard :: "string \<Rightarrow> string \<Rightarrow> 'x shard_map \<Rightarrow> 'x shard_map" where
  "touch_shard i s m = nested_put i s (shard_at m i s) m"

text \<open>\<open>shards[index_id]\<close>, which creates an empty map when there is none.\<close>

definition touch_index :: "string \<Rightarrow> 'x shard_map \<Rightarrow> 'x shard_map" where
  "touch_index i m = (case map_of m i of None \<Rightarrow> AList.update i [] m | Some _ \<Rightarrow> m)"

lemma shard_at_simps [simp]:
  "shard_at (put_shard i s x m) j t = (if j = i \<and> t = s then Some x else shard_at m j t)"
  "shard_at (touch_shard i s m) j t = shard_at m j t"
  by (auto simp: shard_at_def put_shard_def touch_shard_def)

text \<open>Keys of a nested map in iteration order.\<close>

definition shard_names ::
  "((string \<times> (string \<times> 'v) list) list \<Rightarrow> (string \<times> (string \<times> 'v) list) list) \<Rightarrow>
    ((string \<times> 'v) list \<Rightarrow> (string \<times> 'v) list) \<Rightarrow> (string \<times> (string \<times> 'v) list) list \<Rightarrow> (string \<times> string) list" where
  "shard_names it it' m = concat (map (\<lambda>(i, m'). map (\<lambda>(s, _). (i, s)) (it' m')) (it m))"

definition nested_wf :: "(string \<times> (string \<times> 'v) list) list \<Rightarrow> bool" where
  "nested_wf m \<longleftrightarrow> distinct (map fst m) \<and> (\<forall>(i, m') \<in> set m. distinct (map fst m'))"

lemma distinct_concat_blocks:
  "distinct (map fst xs) \<Longrightarrow> (\<forall>(i, m') \<in> set xs. distinct (f m')) \<Longrightarrow>
    distinct (concat (map (\<lambda>(i, m'). map (Pair i) (f m')) xs))"
proof (induction xs)
  case (Cons x xs)
  obtain i m' where x: "x = (i, m')" by (cases x)
  have "set (map (Pair i) (f m')) \<inter> set (concat (map (\<lambda>(i, m'). map (Pair i) (f m')) xs)) = {}"
    using Cons.prems(1) by (force simp: x)
  with Cons show ?case by (auto simp: x distinct_map inj_on_def)
qed simp

lemma shard_names_distinct:
  assumes "nested_wf m" and "reorders it" and "reorders it'"
  shows "distinct (shard_names it it' m)"
proof -
  have eq: "shard_names it it' m = concat (map (\<lambda>(i, m'). map (Pair i) (map fst (it' m'))) (it m))"
    unfolding shard_names_def by (intro arg_cong [where f = concat] map_cong) (auto simp: comp_def case_prod_unfold)
  have "distinct (map fst (it m))" using assms by (simp add: nested_wf_def reorders_distinct_fst_it)
  moreover have "\<forall>(i, m') \<in> set (it m). distinct (map fst (it' m'))"
    using assms by (auto simp: nested_wf_def reorders_set reorders_distinct_fst_it)
  ultimately show ?thesis unfolding eq by (rule distinct_concat_blocks)
qed

definition nested_keys :: "(string \<times> (string \<times> 'v) list) list \<Rightarrow> (string \<times> string) set" where
  "nested_keys m = {(i, s). \<exists>m'. map_of m i = Some m' \<and> s \<in> dom (map_of m')}"

lemma set_shard_names:
  assumes "nested_wf m" and "reorders it" and "reorders it'"
  shows "set (shard_names it it' m) = nested_keys m"
proof -
  have "set (shard_names it it' m) = {(i, s) | i s m'. (i, m') \<in> set m \<and> s \<in> fst ` set m'}"
    using assms(2,3) by (force simp: shard_names_def reorders_set image_iff)
  also have "\<dots> = nested_keys m"
    using assms(1) by (auto simp: nested_keys_def nested_wf_def dom_map_of_conv_image_fst)
  finally show ?thesis .
qed

lemma nested_keys_put [simp]: "nested_keys (nested_put i s v m) = insert (i, s) (nested_keys m)"
  by (auto simp: nested_keys_def nested_put_def update_conv' split: option.splits if_splits)

lemma set_update_subset: "set (AList.update k v al) \<subseteq> insert (k, v) (set al)"
  by (induction al) auto

lemma nested_wf_put:
  assumes "nested_wf m"
  shows "nested_wf (nested_put i s v m)"
proof -
  have "distinct (map fst (case map_of m i of None \<Rightarrow> [] | Some m' \<Rightarrow> m'))"
    using assms by (auto simp: nested_wf_def split: option.split dest: map_of_SomeD)
  then show ?thesis
    using assms set_update_subset [of i _ m] by (fastforce simp: nested_wf_def nested_put_def distinct_update)
qed

lemma shard_at_key: "shard_at m i s = Some x \<Longrightarrow> (i, s) \<in> nested_keys m"
  by (auto simp: shard_at_def nested_get_def nested_keys_def split: option.splits)

section \<open>Creating an index\<close>

text \<open>What the configuration of an index comes to: the arguments for FAISS, the threshold, merging.\<close>

type_synonym index_config = "faiss_args \<times> nat \<times> bool"

definition config_ok :: "('b, 'f, 'j, 'e, 's, 'p, 'cf, 'gf) pf \<Rightarrow> 'j \<Rightarrow> index_config \<Rightarrow> bool" where
  "config_ok pf json cf \<longleftrightarrow> (case cf of (args, threshold, enable_merge) \<Rightarrow>
     0 < threshold \<and> threshold < 2 ^ 31 \<and>
     (\<exists>type lib dim metric.
        describes (pf_json pf) json type lib dim (int threshold) metric enable_merge \<and> 0 \<le> dim \<and> dim < 2 ^ 31 \<and>
        created_args (pf_json pf) json type lib dim metric = Inr args \<and>
        fx_d (pf_faiss pf) (fx_make (pf_faiss pf) args) = nat dim))"

text \<open>An index that was made from its configuration.\<close>

definition configured :: "('b, 'f, 'j, 'e, 's, 'p, 'cf, 'gf) pf \<Rightarrow> index_config \<Rightarrow> 'b shard_index \<Rightarrow> bool" where
  "configured pf cf ix \<longleftrightarrow> (case cf of (args, threshold, enable_merge) \<Rightarrow>
     ix_factory ix = faiss_factory (pf_faiss pf) args \<and> ix_threshold ix = threshold \<and> ix_enable_merge ix = enable_merge)"

lemma inj_suffix: "inj g \<Longrightarrow> inj (\<lambda>i :: nat. g (Suc i))"
  by (auto simp: inj_on_def)

lemma platform_CreateIndex:
  fixes pf :: "('b, 'f::{linorder, zero}, 'j, 'e, 's, 'p, 'cf, 'gf) pf"
  assumes "faiss_contract (pf_faiss pf) vecs dst" and "reorders (pf_merge_order pf)" and "inj g" and "config_ok pf json cf"
  shows "\<exists>ix. CreateIndex (pf_faiss pf) (pf_json pf) json g = Inr (ix, \<lambda>i. g (Suc i)) \<and>
    faiss_index_inv (pf_faiss pf) vecs dst (pf_merge_order pf) ix \<and> faiss_index_docs vecs ix = {#} \<and>
    index_known faiss_known ix = {} \<and> configured pf cf ix \<and> \<not> ix_callback ix \<and> seg_ids ix = {g 0} \<and> fresh_index (g 0) ix"
proof -
  obtain args threshold enable_merge where cf: "cf = (args, threshold, enable_merge)" by (cases cf)
  with assms(4) obtain type lib dim metric where d:
    "describes (pf_json pf) json type lib dim (int threshold) metric enable_merge" "0 < int threshold" "int threshold < 2 ^ 31"
    "0 \<le> dim" "dim < 2 ^ 31" "created_args (pf_json pf) json type lib dim metric = Inr args"
    "fx_d (pf_faiss pf) (fx_make (pf_faiss pf) args) = nat dim" unfolding config_ok_def by auto
  from CreateIndex_ok [OF assms(1-3) d] show ?thesis by (auto simp: cf configured_def seg_ids_def fresh_index_def)
qed

section \<open>Indexes up to the identifiers of their segments\<close>

text \<open>
  Every process draws segment identifiers with its own \<open>rand()\<close>, so a segment that a searcher gets
  from the writer may carry an identifier that the searcher has drawn as well. Searching and
  \<open>pushSegment\<close> do not look at identifiers: it is enough that an index satisfies its invariant up to
  them.
\<close>

definition no_ids :: "'x Index \<Rightarrow> 'x Index" where
  "no_ids ix = ix\<lparr>ix_store := map (\<lambda>s. s\<lparr>seg_id := 0\<rparr>) (ix_store ix)\<rparr>"

definition searchable ::
  "('b, 'f::{linorder, zero}, 'j, 'e, 's, 'p, 'cf, 'gf) pf \<Rightarrow> ('b \<Rightarrow> 'f list list) \<Rightarrow> ('f list \<Rightarrow> 'f list \<Rightarrow> 'f) \<Rightarrow>
    'b shard_index \<Rightarrow> bool" where
  "searchable pf vecs dst ix \<longleftrightarrow>
     (\<exists>jx. no_ids jx = no_ids ix \<and> faiss_index_inv (pf_faiss pf) vecs dst (pf_merge_order pf) jx)"

lemma searchableI: "faiss_index_inv (pf_faiss pf) vecs dst (pf_merge_order pf) ix \<Longrightarrow> searchable pf vecs dst ix"
  by (auto simp: searchable_def)

lemma no_ids_fields:
  assumes "no_ids a = no_ids b"
  shows "ix_segments a = ix_segments b" and "ix_last a = ix_last b" and "ix_storage a = ix_storage b"
    and "ix_factory a = ix_factory b" and "length (ix_store a) = length (ix_store b)" and "owners a = owners b"
    and "p < length (ix_store b) \<Longrightarrow> seg_index (seg_at a p) = seg_index (seg_at b p)"
proof -
  show f: "ix_segments a = ix_segments b" "ix_last a = ix_last b" "ix_storage a = ix_storage b" "ix_factory a = ix_factory b"
    using arg_cong [OF assms, of ix_segments] arg_cong [OF assms, of ix_last] arg_cong [OF assms, of ix_storage]
      arg_cong [OF assms, of ix_factory] by (simp_all add: no_ids_def)
  show "owners a = owners b" by (simp add: owners_def f)
  have eq: "map seg_index (ix_store a) = map seg_index (ix_store b)"
    using arg_cong [OF assms, of "\<lambda>ix. map seg_index (ix_store ix)"] by (simp add: no_ids_def comp_def)
  then show len: "length (ix_store a) = length (ix_store b)" by (rule map_eq_imp_length_eq)
  show "seg_index (seg_at a p) = seg_index (seg_at b p)" if "p < length (ix_store b)"
    using arg_cong [OF eq, of "\<lambda>xs. xs ! p"] that len by simp
qed

lemma no_ids_contents:
  assumes "no_ids a = no_ids b" and "index_wf invar shape dm docs known a"
  shows "index_docs docs b = index_docs docs a" and "index_known known b = index_known known a"
proof -
  note F = no_ids_fields [OF assms(1)] and H = heap_wfD(1) [OF index_wfD(4) [OF assms(2)]]
  have "seg_index (seg_at b p) = seg_index (seg_at a p)" if "p \<in> set (owners a)" for p
    using F(5,7) H that by auto
  then show "index_docs docs b = index_docs docs a" "index_known known b = index_known known a"
    unfolding index_docs_def index_known_def heap_docs_def heap_known_def F(6) [symmetric] by simp_all
qed

lemma foldR_cong: "(\<And>x y. x \<in> set xs \<Longrightarrow> f x y = g x y) \<Longrightarrow> foldR f xs s = foldR g xs s"
proof (induction xs arbitrary: s)
  case (Cons x xs)
  then have "foldR f xs = foldR g xs" by (simp add: fun_eq_iff)
  with Cons.prems show ?case by simp
qed simp

lemma no_ids_search:
  assumes "no_ids a = no_ids b" and "index_wf invar shape dm docs known a"
  shows "index_search V it b q k = index_search V it a q k"
proof -
  note F = no_ids_fields [OF assms(1)] and H = heap_wfD(1,2) [OF index_wfD(4) [OF assms(2)]]
  have seg: "index_collect V it q k (seg_at b p) = index_collect V it q k (seg_at a p)"
    if "p \<in> insert (ix_last a) (set (ix_segments a))" for p
    using F(5) F(7) [of p] H that by (auto simp: index_collect_def seg_searchQuery_def owners_def fun_eq_iff)
  then have "foldR (\<lambda>p. index_collect V it q k (seg_at b p)) (ix_segments a) [] =
      foldR (\<lambda>p. index_collect V it q k (seg_at a p)) (ix_segments a) []" by (intro foldR_cong) simp
  with seg show ?thesis by (simp add: index_search_def F(1,2) [symmetric])
qed

lemma no_ids_push:
  assumes "no_ids a = no_ids b" and "seg_index t = seg_index s" "seg_type t = seg_type s"
    and "index_pushSegment V a (Some t) = Inr (a', ev)"
  shows "\<exists>b' ev'. index_pushSegment V b (Some s) = Inr (b', ev') \<and> no_ids a' = no_ids b' \<and>
    same_params b b' \<and> ix_store b' = ix_store b @ [s]"
proof -
  note F = no_ids_fields [OF assms(1)]
  have sz: "seg_size V t = seg_size V s" by (simp add: seg_size_def assms(2))
  from assms(4) obtain st where st: "storage_add (ix_storage a) (length (ix_store a)) (seg_size V t) = Inr st"
    and a': "a' = a\<lparr>ix_store := ix_store a @ [t], ix_storage := st, ix_segments := ix_segments a @ [length (ix_store a)]\<rparr>"
    by (auto simp: index_pushSegment_def Let_def bindR_eq_Inr)
  let ?push = "\<lambda>x u. x\<lparr>ix_store := ix_store x @ [u], ix_storage := st, ix_segments := ix_segments x @ [length (ix_store x)]\<rparr>"
  have push: "no_ids (?push x u) = ?push (no_ids x) (u\<lparr>seg_id := 0\<rparr>)" for x :: "'a Index" and u by (simp add: no_ids_def)
  have "t\<lparr>seg_id := 0\<rparr> = s\<lparr>seg_id := 0\<rparr>" using assms(2,3) by simp
  then have "no_ids a' = no_ids (?push b s)" unfolding a' push assms(1) by simp
  moreover have "index_pushSegment V b (Some s) = Inr (?push b s, if ix_callback b then [([], [length (ix_store b)])] else [])"
    using st by (simp add: index_pushSegment_def Let_def F sz)
  ultimately show ?thesis by (auto simp: same_params_def)
qed

section \<open>Searching one shard\<close>

lemma platform_search_exact:
  fixes pf :: "('b, 'f::{linorder, zero}, 'j, 'e, 's, 'p, 'cf, 'gf) pf"
  assumes "faiss_exact (pf_faiss pf) vecs dst" and "reorders (pf_result_order pf)" and "searchable pf vecs dst ix"
    and "faiss_index_dim (pf_faiss pf) ix \<le> length q" and "0 < k" "k < 2 ^ 31"
  shows "\<exists>r. index_search (platform_vtable pf) (pf_result_order pf) ix q k = Inr (map sr_id r) \<and>
    sorted r \<and> distinct (map sr_id r) \<and>
    top_k sr_dist (nat k) (candidates dst (take (faiss_index_dim (pf_faiss pf) ix) q)
      (set_mset (faiss_index_docs vecs ix))) (set r)"
proof -
  from assms(3) obtain jx where jx: "no_ids jx = no_ids ix" "faiss_index_inv (pf_faiss pf) vecs dst (pf_merge_order pf) jx"
    by (auto simp: searchable_def)
  have "faiss_ok_exact (pf_faiss pf) vecs dst (pf_merge_order pf) = faiss_ok (pf_faiss pf) vecs dst (pf_merge_order pf)"
    using assms(1) by (simp add: fun_eq_iff faiss_ok_exact_def)
  with jx(2) have wf: "index_wf (faiss_ok_exact (pf_faiss pf) vecs dst (pf_merge_order pf)) (faiss_shape (pf_faiss pf))
      (\<lambda>x. fx_d (pf_faiss pf) (fi_index x)) (faiss_docs vecs) faiss_known jx"
    by (simp add: faiss_index_inv_def index_inv_def)
  have dim: "faiss_index_dim (pf_faiss pf) jx = faiss_index_dim (pf_faiss pf) ix" by (simp add: no_ids_fields(4) [OF jx(1)])
  from faiss_flat.index_search_exact [OF wf _ assms(5,6,2), of q] assms(4) dim obtain r
    where r: "index_search (platform_vtable pf) (pf_result_order pf) jx q k = Inr (map sr_id r)" "sorted r" "distinct r"
      "top_k sr_dist (nat k) (candidates dst (take (faiss_index_dim (pf_faiss pf) ix) q)
        (set_mset (faiss_index_docs vecs jx))) (set r)" unfolding platform_vtable_def by auto
  from r(4) have "set r \<subseteq> candidates dst (take (faiss_index_dim (pf_faiss pf) ix) q) (set_mset (faiss_index_docs vecs jx))"
    by (simp add: top_k_def)
  from faiss_flat.distinct_result_ids [OF wf r(3) this] r show ?thesis
    by (intro exI [of _ r]) (simp add: no_ids_search [OF jx(1) wf] no_ids_contents(1) [OF jx(1) wf])
qed

text \<open>\<open>pushSegment\<close> on such an index.\<close>

lemma platform_pushSegment:
  fixes pf :: "('b, 'f::{linorder, zero}, 'j, 'e, 's, 'p, 'cf, 'gf) pf"
  assumes ix: "searchable pf vecs dst ix" and seg: "faiss_inv (pf_faiss pf) vecs (seg_index seg)"
    and shape: "faiss_shape (pf_faiss pf) (seg_index seg) = faiss_shape (pf_faiss pf) (sf_index (ix_factory ix))"
    and len: "length (faiss_docs vecs (seg_index seg)) \<le> 2 ^ 63"
    and known: "faiss_known (seg_index seg) \<inter> index_known faiss_known ix = {}"
  shows "\<exists>ix' ev. index_pushSegment (platform_vtable pf) ix (Some seg) = Inr (ix', ev) \<and> searchable pf vecs dst ix' \<and>
    same_params ix ix' \<and> faiss_index_docs vecs ix' = faiss_index_docs vecs ix + mset (faiss_docs vecs (seg_index seg)) \<and>
    index_known faiss_known ix' = index_known faiss_known ix \<union> faiss_known (seg_index seg)"
proof -
  let ?F = "pf_faiss pf"
  from ix obtain jx where jx: "no_ids jx = no_ids ix" "faiss_index_inv ?F vecs dst (pf_merge_order pf) jx"
    by (auto simp: searchable_def)
  note inv = jx(2) [unfolded faiss_index_inv_def]
  from inv have wf: "index_wf (faiss_ok ?F vecs dst (pf_merge_order pf)) (faiss_shape ?F) (\<lambda>x. fx_d ?F (fi_index x))
      (faiss_docs vecs) faiss_known jx" by (simp add: index_inv_def)
  note C = no_ids_contents [OF jx(1) wf] and fac = no_ids_fields(4) [OF jx(1)]
  obtain n where n: "n \<notin> seg_id ` set (ix_store jx)" using ex_new_if_finite [of "seg_id ` set (ix_store jx)"] by auto
  have "faiss_ok ?F vecs dst (pf_merge_order pf) (sf_index (ix_factory jx))"
    using wf by (simp add: index_wf_def index_params_def)
  then have "faiss_ok ?F vecs dst (pf_merge_order pf) (seg_index (seg\<lparr>seg_id := n\<rparr>))" using seg by (simp add: faiss_ok_def)
  from faiss.index_pushSegment_ok [OF inv this, of "faiss_serialize_index ?F writeBinary_string (pf_file_order pf)"]
    shape len known n fac C(2) obtain jx' ev
    where push: "index_pushSegment (platform_vtable pf) jx (Some (seg\<lparr>seg_id := n\<rparr>)) = Inr (jx', ev)"
      and jx': "faiss_index_inv ?F vecs dst (pf_merge_order pf) jx'"
      "faiss_index_docs vecs jx' = faiss_index_docs vecs jx + mset (faiss_docs vecs (seg_index seg))"
      "index_known faiss_known jx' = index_known faiss_known jx \<union> faiss_known (seg_index seg)"
    unfolding platform_vtable_def faiss_index_inv_def by auto
  from no_ids_push [OF jx(1) _ _ push, of seg] obtain ix' ev'
    where ix': "index_pushSegment (platform_vtable pf) ix (Some seg) = Inr (ix', ev')" "no_ids jx' = no_ids ix'" "same_params ix ix'"
    by auto
  from jx'(1) have wf': "index_wf (faiss_ok ?F vecs dst (pf_merge_order pf)) (faiss_shape ?F) (\<lambda>x. fx_d ?F (fi_index x))
      (faiss_docs vecs) faiss_known jx'" by (simp add: faiss_index_inv_def index_inv_def)
  have "searchable pf vecs dst ix'" using ix'(2) jx'(1) by (auto simp: searchable_def)
  then show ?thesis using ix' jx' C no_ids_contents [OF ix'(2) wf'] by auto
qed

section \<open>A platform\<close>

definition ref_platform ::
  "(ref_base, int, ref_json, (string \<times> string) list, string set \<times> (string \<times> string \<rightharpoonup> string), ref_registry, string, string) pf" where
  "ref_platform = \<lparr>pf_faiss = ref_faiss, pf_json = ref_json_lib, pf_etcd = ref_etcd, pf_s3 = ref_s3, pf_prom = ref_prom,
     pf_hash = length, pf_merge_order = rev, pf_result_order = rev, pf_file_order = demo_order\<rparr>"

lemma ref_platform_simps [simp]:
  "pf_faiss ref_platform = ref_faiss" "pf_json ref_platform = ref_json_lib" "pf_etcd ref_platform = ref_etcd"
  "pf_s3 ref_platform = ref_s3" "pf_prom ref_platform = ref_prom" "pf_hash ref_platform = length"
  "pf_merge_order ref_platform = rev" "pf_result_order ref_platform = rev" "pf_file_order ref_platform = demo_order"
  by (simp_all add: ref_platform_def)

end
