(* ===== verification/Searcher.thy ===== *)
theory Searcher
  imports Platform
begin

text \<open>
  The searcher server (\<open>app/src/Searcher.cpp\<close>): one index per shard, filled with the segments that
  the writer announces and stores in S3. The state of etcd, of S3 and of the metrics is part of the
  state of the server; the orders in which the hash maps of the shards are iterated are arguments.
\<close>

section \<open>The code\<close>

record UpdateRequest =
  up_added :: "nat list"
  up_deleted :: "nat list"
  up_index_id :: string
  up_shard_id :: string

record ('b, 'e, 's, 'p, 'cf, 'gf) SearcherImpl =
  se_host :: string
  se_port :: string
  se_etcd :: 'e
  se_storage :: "'s StorageClient"
  se_prom :: "('p, 'cf, 'gf) PrometheusExposer"
  se_shards :: "'b shard_index shard_map"
  se_rng :: rng

type_synonym 'x outer_order =
  "(string \<times> (string \<times> 'x option) list) list \<Rightarrow> (string \<times> (string \<times> 'x option) list) list"

type_synonym 'x inner_order = "(string \<times> 'x option) list \<Rightarrow> (string \<times> 'x option) list"

definition searcher_etcd :: "('e, 'a) proc \<Rightarrow> (('b, 'e, 's, 'p, 'cf, 'gf) SearcherImpl, 'a) proc" where
  "searcher_etcd = partP se_etcd (\<lambda>e st. st\<lparr>se_etcd := e\<rparr>)"

definition searcher_storage ::
  "('s StorageClient, 'a) proc \<Rightarrow> (('b, 'e, 's, 'p, 'cf, 'gf) SearcherImpl, 'a) proc" where
  "searcher_storage = partP se_storage (\<lambda>c st. st\<lparr>se_storage := c\<rparr>)"

definition searcher_prom ::
  "(('p, 'cf, 'gf) PrometheusExposer, 'a) proc \<Rightarrow> (('b, 'e, 's, 'p, 'cf, 'gf) SearcherImpl, 'a) proc" where
  "searcher_prom = partP se_prom (\<lambda>c st. st\<lparr>se_prom := c\<rparr>)"

definition searcher_address :: "('b, 'e, 's, 'p, 'cf, 'gf) SearcherImpl \<Rightarrow> string" where
  "searcher_address st = se_host st @ '':'' @ se_port st"

definition searcher_Init ::
  "('b, 'f, 'j, 'e, 's, 'p, 'cf, 'gf) pf \<Rightarrow> 'b shard_index outer_order \<Rightarrow> 'b shard_index inner_order \<Rightarrow>
    (('b, 'e, 's, 'p, 'cf, 'gf) SearcherImpl, unit) proc" where
  "searcher_Init pf ito iti =
     bindP (readP (\<lambda>st. (searcher_address st, shard_names ito iti (se_shards st)))) (\<lambda>(addr, names).
       forP (\<lambda>(index_id, shard_id). searcher_etcd (AddSearcherHost (pf_etcd pf) index_id shard_id addr)) names)"

definition GracefulShutdown ::
  "('b, 'f, 'j, 'e, 's, 'p, 'cf, 'gf) pf \<Rightarrow> 'b shard_index outer_order \<Rightarrow> 'b shard_index inner_order \<Rightarrow>
    (('b, 'e, 's, 'p, 'cf, 'gf) SearcherImpl, unit) proc" where
  "GracefulShutdown pf ito iti =
     bindP (readP (\<lambda>st. (searcher_address st, shard_names ito iti (se_shards st)))) (\<lambda>(addr, names).
       forP (\<lambda>(index_id, shard_id). searcher_etcd (RemoveSearcherHost (pf_etcd pf) index_id shard_id addr)) names)"

text \<open>One item of the configuration.\<close>

definition searcher_create_shard ::
  "('b, 'f, 'j, 'e, 's, 'p, 'cf, 'gf) pf \<Rightarrow> 'j \<Rightarrow> (('b, 'e, 's, 'p, 'cf, 'gf) SearcherImpl, unit) proc" where
  "searcher_create_shard pf item =
     bindP (liftP (json_string (pf_json pf) item ''index_id'')) (\<lambda>index_id.
     bindP (liftP (json_string (pf_json pf) item ''shard_id'')) (\<lambda>shard_id.
     bindP (readP se_rng) (\<lambda>g.
     bindP (liftP (CreateIndex (pf_faiss pf) (pf_json pf) item g)) (\<lambda>(ix, g).
       modifyP (\<lambda>st. st\<lparr>se_shards := put_shard index_id shard_id ix (se_shards st), se_rng := g\<rparr>)))))"

definition searcher_new ::
  "('b, 'f, 'j, 'e, 's, 'p, 'cf, 'gf) pf \<Rightarrow> 'b shard_index outer_order \<Rightarrow> 'b shard_index inner_order \<Rightarrow> 'j \<Rightarrow>
    (('b, 'e, 's, 'p, 'cf, 'gf) SearcherImpl, unit) proc" where
  "searcher_new pf ito iti shards_configs =
     thenP (forP (searcher_create_shard pf) (js_items (pf_json pf) shards_configs))
     (thenP (searcher_Init pf ito iti)
     (bindP (searcher_storage (logIn (pf_s3 pf))) (\<lambda>_. returnP ())))"

text \<open>\<open>shards[index_id][shard_id]->\<close>: the entry is created when it is missing, the pointer is empty then.\<close>

definition searcher_shard ::
  "string \<Rightarrow> string \<Rightarrow> (('b, 'e, 's, 'p, 'cf, 'gf) SearcherImpl, 'b shard_index) proc" where
  "searcher_shard i s =
     thenP (modifyP (\<lambda>st. st\<lparr>se_shards := touch_shard i s (se_shards st)\<rparr>))
     (bindP (readP (\<lambda>st. shard_at (se_shards st) i s)) (\<lambda>p.
       case p of None \<Rightarrow> throwP NullPointer | Some ix \<Rightarrow> returnP ix))"

definition searcher_ProcessSearchRequest ::
  "('b, 'f::{linorder, zero}, 'j, 'e, 's, 'p, 'cf, 'gf) pf \<Rightarrow> 'b shard_index inner_order \<Rightarrow> 'f SearchRequest \<Rightarrow>
    (('b, 'e, 's, 'p, 'cf, 'gf) SearcherImpl, string list) proc" where
  "searcher_ProcessSearchRequest pf iti request =
     thenP (searcher_prom (IncrementCounter (pf_prom pf) ''requests_count'' 1 []))
     (let search = (\<lambda>ix. index_search (platform_vtable pf) (pf_result_order pf) ix (rq_vector request) (rq_k request));
          index_id = rq_index_id request in
      case rq_shard_id request of
        Some shard_id \<Rightarrow> bindP (searcher_shard index_id shard_id) (\<lambda>ix. liftP (search ix))
      | None \<Rightarrow>
          thenP (modifyP (\<lambda>st. st\<lparr>se_shards := touch_index index_id (se_shards st)\<rparr>))
          (bindP (readP (\<lambda>st. iti (the (map_of (se_shards st) index_id)))) (\<lambda>entries.
           bindP (mapP (\<lambda>(_, p). case p of None \<Rightarrow> throwP NullPointer | Some ix \<Rightarrow> liftP (search ix)) entries) (\<lambda>results.
             returnP (concat results)))))"

text \<open>
  One announced segment. The result of \<open>getObject\<close> is ignored; \<open>fopen\<close> of a missing file gives a
  null pointer, which is then read from.
\<close>

definition searcher_add_segment ::
  "('b, 'f::{linorder, zero}, 'j, 'e, 's, 'p, 'cf, 'gf) pf \<Rightarrow> string \<Rightarrow> string \<Rightarrow> nat \<Rightarrow>
    (('b, 'e, 's, 'p, 'cf, 'gf) SearcherImpl, unit) proc" where
  "searcher_add_segment pf index_id shard_id added_id =
     (let filename = to_string_size added_id in
      bindP (searcher_storage (getObject (pf_s3 pf) (pf_hash pf) index_id filename)) (\<lambda>ok.
      bindP (readP (\<lambda>st. sc_files (se_storage st) filename)) (\<lambda>fd.
        case fd of
          None \<Rightarrow> throwP NullPointer
        | Some bytes \<Rightarrow>
            bindP (liftP (DeserealizeSegment (pf_faiss pf) readBinary_string bytes)) (\<lambda>(segment, _).
            bindP (searcher_shard index_id shard_id) (\<lambda>ix.
            bindP (liftP (index_pushSegment (platform_vtable pf) ix segment)) (\<lambda>(ix', _).
              modifyP (\<lambda>st. st\<lparr>se_shards := put_shard index_id shard_id ix' (se_shards st),
                se_storage := (se_storage st)\<lparr>sc_files := (sc_files (se_storage st))(filename := None)\<rparr>\<rparr>)))))))"

definition searcher_erase_segment ::
  "string \<Rightarrow> string \<Rightarrow> nat \<Rightarrow> (('b, 'e, 's, 'p, 'cf, 'gf) SearcherImpl, unit) proc" where
  "searcher_erase_segment index_id shard_id deleted_id =
     bindP (searcher_shard index_id shard_id) (\<lambda>ix.
       modifyP (\<lambda>st. st\<lparr>se_shards := put_shard index_id shard_id (fst (index_eraseSegment ix deleted_id)) (se_shards st)\<rparr>))"

definition ProcessUpdateRequest ::
  "('b, 'f::{linorder, zero}, 'j, 'e, 's, 'p, 'cf, 'gf) pf \<Rightarrow> UpdateRequest \<Rightarrow>
    (('b, 'e, 's, 'p, 'cf, 'gf) SearcherImpl, unit) proc" where
  "ProcessUpdateRequest pf request =
     (let index_id = up_index_id request; shard_id = up_shard_id request in
      thenP (searcher_prom (IncrementCounter (pf_prom pf) ''updates_count'' 1
        [(''index_id'', index_id), (''shard_id'', shard_id)]))
      (thenP (forP (searcher_add_segment pf index_id shard_id) (up_added request))
        (forP (searcher_erase_segment index_id shard_id) (up_deleted request))))"

section \<open>Shards\<close>

lemma searcher_shard_at:
  "shard_at (se_shards st) i s = Some ix \<Longrightarrow>
    searcher_shard i s st = (Inr ix, st\<lparr>se_shards := touch_shard i s (se_shards st)\<rparr>)"
  by (simp add: searcher_shard_def proc_defs)

lemma searcher_shard_missing:
  "shard_at (se_shards st) i s = None \<Longrightarrow>
    searcher_shard i s st = (Inl NullPointer, st\<lparr>se_shards := touch_shard i s (se_shards st)\<rparr>)"
  by (simp add: searcher_shard_def proc_defs)

text \<open>
  The segments that an index can be given: well-formed flat segments of its dimension that fit their
  files, with documents that are new to it.
\<close>

fun pushable ::
  "('b, 'f) faiss_lib \<Rightarrow> ('b \<Rightarrow> 'f list list) \<Rightarrow> base_kind \<times> nat \<Rightarrow> string set \<Rightarrow>
    ('b, string) FaissIndex Segment list \<Rightarrow> bool" where
  "pushable F vecs sh known [] \<longleftrightarrow> True"
| "pushable F vecs sh known (s # segs) \<longleftrightarrow>
     segment_file_ok F vecs (\<lambda>i. length i \<le> string_max_size) s \<and> faiss_shape F (seg_index s) = sh \<and>
     faiss_known (seg_index s) \<inter> known = {} \<and>
     pushable F vecs sh (known \<union> faiss_known (seg_index s)) segs"

lemma segment_file_docs:
  assumes "segment_file_ok F vecs valid s"
  shows "length (faiss_docs vecs (seg_index s)) \<le> 2 ^ 63"
proof -
  let ?x = "seg_index s"
  have wf: "faiss_wf ?x" and fits: "fi_next_id ?x < 2 ^ 63"
    using assms by (simp_all add: segment_file_ok_def faiss_inv_def file_fits_def)
  note D = faiss_wfD [OF wf]
  have "length (fi_inv_ids ?x) = nat (fi_next_id ?x)"
    using distinct_card [OF D(3)] D(4) by simp
  moreover have "length (faiss_docs vecs ?x) \<le> length (fi_inv_ids ?x)" by (simp add: faiss_docs_def)
  moreover have "nat (fi_next_id ?x) < 2 ^ 63" using fits by (simp add: nat_less_iff)
  ultimately show ?thesis by linarith
qed

definition segments_docs ::
  "('b \<Rightarrow> 'f list list) \<Rightarrow> ('b, string) FaissIndex Segment list \<Rightarrow> (string, 'f) document multiset" where
  "segments_docs vecs segs = (\<Sum>s \<leftarrow> segs. mset (faiss_docs vecs (seg_index s)))"

text \<open>What the searcher keeps about one of its shards.\<close>

definition shard_ok ::
  "('b, 'f::{linorder, zero}, 'j, 'e, 's, 'p, 'cf, 'gf) pf \<Rightarrow> ('b \<Rightarrow> 'f list list) \<Rightarrow> ('f list \<Rightarrow> 'f list \<Rightarrow> 'f) \<Rightarrow>
    ('b, 'e, 's, 'p, 'cf, 'gf) SearcherImpl \<Rightarrow> string \<Rightarrow> string \<Rightarrow> 'b shard_index \<Rightarrow> bool" where
  "shard_ok pf vecs dst st i s ix \<longleftrightarrow> shard_at (se_shards st) i s = Some ix \<and>
     searchable pf vecs dst ix \<and>
     fst (faiss_shape (pf_faiss pf) (sf_index (ix_factory ix))) = IndexFlat"

text \<open>What the writer has stored for a segment.\<close>

definition stored_segment ::
  "('b, 'f::{linorder, zero}, 'j, 'e, 's, 'p, 'cf, 'gf) pf \<Rightarrow> ('s \<Rightarrow> string \<times> string \<rightharpoonup> string) \<Rightarrow> 's \<Rightarrow>
    string \<Rightarrow> ('b, string) FaissIndex Segment \<Rightarrow> bool" where
  "stored_segment pf objects s3 i seg \<longleftrightarrow>
     objects s3 (makeBucketName (pf_hash pf) i, to_string_size (seg_id seg)) =
       Some (SerializeSegment (platform_vtable pf) seg)"

lemma reloaded_segment:
  fixes pf :: "('b, 'f::{linorder, zero}, 'j, 'e, 's, 'p, 'cf, 'gf) pf"
  assumes "faiss_files (pf_faiss pf) vecs" and "file_order_ok (pf_file_order pf)"
    and "segment_file_ok (pf_faiss pf) vecs (\<lambda>i. length i \<le> string_max_size) seg"
    and "fi_kind (seg_index seg) = IndexFlat"
  shows "\<exists>seg'. DeserealizeSegment (pf_faiss pf) readBinary_string (SerializeSegment (platform_vtable pf) seg) =
      Inr (Some seg', []) \<and> seg_id seg' = seg_id seg \<and> faiss_inv (pf_faiss pf) vecs (seg_index seg') \<and>
    mset (faiss_docs vecs (seg_index seg')) = mset (faiss_docs vecs (seg_index seg)) \<and>
    faiss_known (seg_index seg') = faiss_known (seg_index seg) \<and>
    faiss_shape (pf_faiss pf) (seg_index seg') = faiss_shape (pf_faiss pf) (seg_index seg)"
proof -
  have ser: "serialize_index (platform_vtable pf) = faiss_serialize_index (pf_faiss pf) writeBinary_string (pf_file_order pf)"
    by (simp add: platform_vtable_def faiss_vtable_def)
  from DeserealizeSegment_written [OF string_codec.binary_codec_axioms assms(1-3) ser, of "[]"] obtain b
    where b: "DeserealizeSegment (pf_faiss pf) readBinary_string (SerializeSegment (platform_vtable pf) seg) =
      Inr (Some \<lparr>seg_index = faiss_reload (reload_kind (fi_kind (seg_index seg))) b (pf_file_order pf) (seg_index seg),
        seg_id = seg_id seg, seg_type = seg_type seg\<rparr>, [])"
      and vecs: "vecs b = vecs (fi_index (seg_index seg))" "fx_d (pf_faiss pf) b = fx_d (pf_faiss pf) (fi_index (seg_index seg))"
    by auto
  have inv: "faiss_inv (pf_faiss pf) vecs (seg_index seg)" using assms(3) by (simp add: segment_file_ok_def)
  show ?thesis
    using b faiss_inv_reload [where vecs = vecs, OF inv assms(2) vecs(1)]
      faiss_docs_reload [where vecs = vecs, OF assms(2) vecs(1)] vecs(2) assms(4)
    by (simp add: faiss_shape_def faiss_reload_def reload_kind_def)
qed

section \<open>Updates\<close>

text \<open>What an update of one shard leaves alone.\<close>

definition searcher_frame ::
  "string \<Rightarrow> string \<Rightarrow> ('b, 'e, 's, 'p, 'cf, 'gf) SearcherImpl \<Rightarrow> ('b, 'e, 's, 'p, 'cf, 'gf) SearcherImpl \<Rightarrow> bool" where
  "searcher_frame i s st st' \<longleftrightarrow> searcher_address st' = searcher_address st \<and> se_etcd st' = se_etcd st \<and>
     sc_s3Client (se_storage st') = sc_s3Client (se_storage st) \<and> sc_s3 (se_storage st') = sc_s3 (se_storage st) \<and>
     (\<forall>j t. (j, t) \<noteq> (i, s) \<longrightarrow> shard_at (se_shards st') j t = shard_at (se_shards st) j t)"

lemma searcher_frame_trans:
  "searcher_frame i s st st' \<Longrightarrow> searcher_frame i s st' st'' \<Longrightarrow> searcher_frame i s st st''"
  by (simp add: searcher_frame_def)

lemma searcher_frame_refl: "searcher_frame i s st st"
  by (simp add: searcher_frame_def)

lemma searcher_add_segment_ok:
  fixes pf :: "('b, 'f::{linorder, zero}, 'j, 'e, 's, 'p, 'cf, 'gf) pf"
  assumes files: "faiss_files (pf_faiss pf) vecs" and ord: "file_order_ok (pf_file_order pf)"
    and s3: "s3_contract (pf_s3 pf) buckets objects" and login: "sc_s3Client (se_storage st)"
    and stored: "stored_segment pf objects (sc_s3 (se_storage st)) i seg"
    and ok: "shard_ok pf vecs dst st i s ix"
    and seg: "pushable (pf_faiss pf) vecs (faiss_shape (pf_faiss pf) (sf_index (ix_factory ix)))
      (index_known faiss_known ix) [seg]"
  shows "\<exists>st' ix'. searcher_add_segment pf i s (seg_id seg) st = (Inr (), st') \<and> se_prom st' = se_prom st \<and>
    shard_ok pf vecs dst st' i s ix' \<and> searcher_frame i s st st' \<and> same_params ix ix' \<and>
    faiss_index_docs vecs ix' = faiss_index_docs vecs ix + segments_docs vecs [seg] \<and>
    index_known faiss_known ix' = index_known faiss_known ix \<union> faiss_known (seg_index seg)"
proof -
  let ?F = "pf_faiss pf" and ?V = "platform_vtable pf" and ?f = "to_string_size (seg_id seg)"
  let ?bytes = "SerializeSegment ?V seg"
  from seg have seg: "segment_file_ok ?F vecs (\<lambda>i. length i \<le> string_max_size) seg"
    "faiss_shape ?F (seg_index seg) = faiss_shape ?F (sf_index (ix_factory ix))"
    "faiss_known (seg_index seg) \<inter> index_known faiss_known ix = {}" by simp_all
  from ok have at: "shard_at (se_shards st) i s = Some ix" and flat: "fi_kind (seg_index seg) = IndexFlat"
    and inv: "searchable pf vecs dst ix"
    using seg(2) by (simp_all add: shard_ok_def faiss_shape_def)
  from reloaded_segment [OF files ord seg(1) flat] obtain seg'
    where seg': "DeserealizeSegment ?F readBinary_string ?bytes = Inr (Some seg', [])"
      "faiss_inv ?F vecs (seg_index seg')" "mset (faiss_docs vecs (seg_index seg')) = mset (faiss_docs vecs (seg_index seg))"
      "faiss_known (seg_index seg') = faiss_known (seg_index seg)"
      "faiss_shape ?F (seg_index seg') = faiss_shape ?F (seg_index seg)" by blast
  have len: "length (faiss_docs vecs (seg_index seg')) \<le> 2 ^ 63"
    using segment_file_docs [OF seg(1)] seg'(3) by (metis size_mset)
  from platform_pushSegment [OF inv seg'(2) _ len] seg(2,3) seg'(4,5) obtain ix' ev
    where push: "index_pushSegment ?V ix (Some seg') = Inr (ix', ev)"
      and ix': "searchable pf vecs dst ix'" "same_params ix ix'"
      "faiss_index_docs vecs ix' = faiss_index_docs vecs ix + mset (faiss_docs vecs (seg_index seg'))"
      "index_known faiss_known ix' = index_known faiss_known ix \<union> faiss_known (seg_index seg')" by auto
  define st' where "st' = st\<lparr>se_shards := put_shard i s ix' (touch_shard i s (se_shards st)),
    se_storage := (se_storage st)\<lparr>sc_files := (sc_files (se_storage st))(?f := None)\<rparr>\<rparr>"
  have "searcher_add_segment pf i s (seg_id seg) st = (Inr (), st')"
    using stored login at seg'(1) push
    by (simp add: searcher_add_segment_def Let_def searcher_storage_def getObject_def with_client_def proc_defs
        s3_contractD(4) [OF s3] stored_segment_def searcher_shard_at st'_def)
  moreover have "shard_ok pf vecs dst st' i s ix'"
    using ok ix'(1,2) by (simp add: shard_ok_def st'_def same_params_def)
  moreover have "searcher_frame i s st st'" "se_prom st' = se_prom st"
    by (simp_all add: searcher_frame_def st'_def searcher_address_def)
  ultimately show ?thesis
    using ix' seg'(3,4) by (intro exI [of _ st'] exI [of _ ix']) (simp add: segments_docs_def)
qed

lemma searcher_add_segments_ok:
  fixes pf :: "('b, 'f::{linorder, zero}, 'j, 'e, 's, 'p, 'cf, 'gf) pf"
  assumes files: "faiss_files (pf_faiss pf) vecs" and ord: "file_order_ok (pf_file_order pf)"
    and s3: "s3_contract (pf_s3 pf) buckets objects"
  shows "\<lbrakk>sc_s3Client (se_storage st); \<forall>seg \<in> set segs. stored_segment pf objects (sc_s3 (se_storage st)) i seg;
      shard_ok pf vecs dst st i s ix;
      pushable (pf_faiss pf) vecs (faiss_shape (pf_faiss pf) (sf_index (ix_factory ix)))
        (index_known faiss_known ix) segs\<rbrakk> \<Longrightarrow>
    \<exists>st' ix'. forP (searcher_add_segment pf i s) (map seg_id segs) st = (Inr (), st') \<and> se_prom st' = se_prom st \<and>
      shard_ok pf vecs dst st' i s ix' \<and> searcher_frame i s st st' \<and> same_params ix ix' \<and>
      faiss_index_docs vecs ix' = faiss_index_docs vecs ix + segments_docs vecs segs \<and>
      index_known faiss_known ix' = index_known faiss_known ix \<union> (\<Union>seg \<in> set segs. faiss_known (seg_index seg))"
proof (induction segs arbitrary: st ix)
  case Nil
  have "same_params ix ix" by (simp add: same_params_def)
  with Nil show ?case
    by (intro exI [of _ st] exI [of _ ix]) (simp add: segments_docs_def searcher_frame_refl)
next
  case (Cons seg segs)
  from searcher_add_segment_ok [OF files ord s3 Cons.prems(1) _ Cons.prems(3), of seg] Cons.prems(2,4) obtain st1 ix1
    where one: "searcher_add_segment pf i s (seg_id seg) st = (Inr (), st1)" "se_prom st1 = se_prom st"
      "shard_ok pf vecs dst st1 i s ix1" "searcher_frame i s st st1" "same_params ix ix1"
      "faiss_index_docs vecs ix1 = faiss_index_docs vecs ix + segments_docs vecs [seg]"
      "index_known faiss_known ix1 = index_known faiss_known ix \<union> faiss_known (seg_index seg)" by auto
  have "ix_factory ix1 = ix_factory ix" using one(5) by (simp add: same_params_def)
  with Cons.IH [OF _ _ one(3)] Cons.prems one(4,7) obtain st2 ix2
    where two: "forP (searcher_add_segment pf i s) (map seg_id segs) st1 = (Inr (), st2)" "se_prom st2 = se_prom st1"
      "shard_ok pf vecs dst st2 i s ix2" "searcher_frame i s st1 st2" "same_params ix1 ix2"
      "faiss_index_docs vecs ix2 = faiss_index_docs vecs ix1 + segments_docs vecs segs"
      "index_known faiss_known ix2 = index_known faiss_known ix1 \<union> (\<Union>seg \<in> set segs. faiss_known (seg_index seg))"
    by (auto simp: searcher_frame_def)
  show ?case
    using one(1,2,6,7) two searcher_frame_trans [OF one(4) two(4)] same_params_trans [OF one(5) two(5)]
    by (intro exI [of _ st2] exI [of _ ix2]) (simp add: bindP_def segments_docs_def add.assoc Un_assoc)
qed

lemma searcher_erase_segments_ok:
  assumes "shard_ok pf vecs dst st i s ix"
  shows "\<exists>st'. forP (searcher_erase_segment i s) ids st = (Inr (), st') \<and>
    (se_prom st' = se_prom st \<and> shard_ok pf vecs dst st' i s ix \<and> searcher_frame i s st st')"
proof (rule forP_invariant)
  show "se_prom st = se_prom st \<and> shard_ok pf vecs dst st i s ix \<and> searcher_frame i s st st"
    using assms searcher_frame_refl by simp
next
  fix n st1 assume "se_prom st1 = se_prom st \<and> shard_ok pf vecs dst st1 i s ix \<and> searcher_frame i s st st1"
  then show "\<exists>st'. searcher_erase_segment i s n st1 = (Inr (), st') \<and>
      (se_prom st' = se_prom st \<and> shard_ok pf vecs dst st' i s ix \<and> searcher_frame i s st st')"
    by (simp add: searcher_erase_segment_def bindP_def searcher_shard_at shard_ok_def index_eraseSegment_def
        searcher_frame_def searcher_address_def)
qed

definition searcher_counters :: "string set" where
  "searcher_counters = {''requests_count'', ''updates_count''}"

lemma ProcessUpdateRequest_ok:
  fixes pf :: "('b, 'f::{linorder, zero}, 'j, 'e, 's, 'p, 'cf, 'gf) pf"
  assumes "faiss_files (pf_faiss pf) vecs" and "file_order_ok (pf_file_order pf)"
    and "s3_contract (pf_s3 pf) buckets objects" and prom: "metrics_ok (pf_prom pf) searcher_counters {} (se_prom st)"
    and "sc_s3Client (se_storage st)" and "\<forall>seg \<in> set segs. stored_segment pf objects (sc_s3 (se_storage st)) i seg"
    and ok: "shard_ok pf vecs dst st i s ix"
    and "pushable (pf_faiss pf) vecs (faiss_shape (pf_faiss pf) (sf_index (ix_factory ix)))
        (index_known faiss_known ix) segs"
    and rq: "up_added rq = map seg_id segs" "up_index_id rq = i" "up_shard_id rq = s"
  shows "\<exists>st' ix'. ProcessUpdateRequest pf rq st = (Inr (), st') \<and> metrics_ok (pf_prom pf) searcher_counters {} (se_prom st') \<and>
    shard_ok pf vecs dst st' i s ix' \<and> searcher_frame i s st st' \<and> same_params ix ix' \<and>
    faiss_index_docs vecs ix' = faiss_index_docs vecs ix + segments_docs vecs segs \<and>
    index_known faiss_known ix' = index_known faiss_known ix \<union> (\<Union>seg \<in> set segs. faiss_known (seg_index seg))"
proof -
  let ?ls = "[(''index_id'', i), (''shard_id'', s)]"
  from metrics_ok_IncrementCounter [OF prom, of "''updates_count''" ?ls 1] obtain p
    where p: "IncrementCounter (pf_prom pf) ''updates_count'' 1 ?ls (se_prom st) = (Inr (), p)"
      "metrics_ok (pf_prom pf) searcher_counters {} p"
    by (auto simp: searcher_counters_def shard_labels_ok)
  let ?st = "st\<lparr>se_prom := p\<rparr>"
  have "shard_ok pf vecs dst ?st i s ix" using ok by (simp add: shard_ok_def)
  from searcher_add_segments_ok [OF assms(1-3) _ _ this, of segs] assms(5,6,8) obtain st1 ix1
    where one: "forP (searcher_add_segment pf i s) (map seg_id segs) ?st = (Inr (), st1)" "se_prom st1 = p"
      "shard_ok pf vecs dst st1 i s ix1" "searcher_frame i s ?st st1" "same_params ix ix1"
      "faiss_index_docs vecs ix1 = faiss_index_docs vecs ix + segments_docs vecs segs"
      "index_known faiss_known ix1 = index_known faiss_known ix \<union> (\<Union>seg \<in> set segs. faiss_known (seg_index seg))" by auto
  from searcher_erase_segments_ok [OF one(3), of "up_deleted rq"] obtain st2
    where two: "forP (searcher_erase_segment i s) (up_deleted rq) st1 = (Inr (), st2)" "se_prom st2 = p"
      "shard_ok pf vecs dst st2 i s ix1" "searcher_frame i s st1 st2" using one(2) by auto
  have "searcher_frame i s st ?st" by (simp add: searcher_frame_def searcher_address_def)
  from searcher_frame_trans [OF searcher_frame_trans [OF this one(4)] two(4)] show ?thesis
    using p one(1,5-7) two
    by (intro exI [of _ st2] exI [of _ ix1])
      (simp add: ProcessUpdateRequest_def Let_def rq searcher_prom_def proc_defs)
qed

section \<open>Searches\<close>

lemma searcher_search_counted:
  assumes "metrics_ok (pf_prom pf) searcher_counters {} (se_prom st)"
  shows "\<exists>p. searcher_prom (IncrementCounter (pf_prom pf) ''requests_count'' 1 []) st = (Inr (), st\<lparr>se_prom := p\<rparr>) \<and>
    metrics_ok (pf_prom pf) searcher_counters {} p"
  using metrics_ok_IncrementCounter [OF assms, of "''requests_count''" "[]" 1]
  by (auto simp: searcher_counters_def shard_labels_ok searcher_prom_def partP_def)

lemma searcher_search_shard_ok:
  fixes pf :: "('b, 'f::{linorder, zero}, 'j, 'e, 's, 'p, 'cf, 'gf) pf"
  assumes "faiss_exact (pf_faiss pf) vecs dst" and "reorders (pf_result_order pf)"
    and prom: "metrics_ok (pf_prom pf) searcher_counters {} (se_prom st)"
    and ok: "shard_ok pf vecs dst st i s ix" and rq: "rq_index_id rq = i" "rq_shard_id rq = Some s"
    and "faiss_index_dim (pf_faiss pf) ix \<le> length (rq_vector rq)" and "0 < rq_k rq" "rq_k rq < 2 ^ 31"
  shows "\<exists>st' r. searcher_ProcessSearchRequest pf iti rq st = (Inr (map sr_id r), st') \<and>
    sorted r \<and> distinct (map sr_id r) \<and>
    top_k sr_dist (nat (rq_k rq)) (candidates dst (take (faiss_index_dim (pf_faiss pf) ix) (rq_vector rq))
      (set_mset (faiss_index_docs vecs ix))) (set r)"
proof -
  have "shard_at (se_shards st) i s = Some ix" using ok by (simp add: shard_ok_def)
  moreover from platform_search_exact [OF assms(1,2) _ assms(7-9)] ok obtain r
    where "index_search (platform_vtable pf) (pf_result_order pf) ix (rq_vector rq) (rq_k rq) = Inr (map sr_id r)"
      "sorted r" "distinct (map sr_id r)" "top_k sr_dist (nat (rq_k rq))
        (candidates dst (take (faiss_index_dim (pf_faiss pf) ix) (rq_vector rq)) (set_mset (faiss_index_docs vecs ix))) (set r)"
    by (auto simp: shard_ok_def)
  ultimately show ?thesis
    using searcher_search_counted [OF prom]
    by (auto simp: searcher_ProcessSearchRequest_def Let_def rq proc_defs searcher_shard_at)
qed

text \<open>
  C8. What the writer has stored, a searcher finds. An update that announces segments which lie in
  S3 as the writer wrote them succeeds; from then on a search in the shard is exact over the
  documents the shard had before together with those of all announced segments, whatever segments the
  update names as deleted: the result is the \<open>k\<close> nearest, nearest first, each once.
\<close>

theorem searcher_update_search_exact:
  fixes pf :: "('b, 'f::{linorder, zero}, 'j, 'e, 's, 'p, 'cf, 'gf) pf"
  assumes "faiss_exact (pf_faiss pf) vecs dst" and "faiss_files (pf_faiss pf) vecs"
    and "reorders (pf_result_order pf)" and "file_order_ok (pf_file_order pf)"
    and "s3_contract (pf_s3 pf) buckets objects" and "metrics_ok (pf_prom pf) searcher_counters {} (se_prom st)"
    and "sc_s3Client (se_storage st)" and "shard_ok pf vecs dst st i s ix"
    and "\<forall>seg \<in> set segs. stored_segment pf objects (sc_s3 (se_storage st)) i seg"
    and "pushable (pf_faiss pf) vecs (faiss_shape (pf_faiss pf) (sf_index (ix_factory ix)))
        (index_known faiss_known ix) segs"
    and "up_added update = map seg_id segs" "up_index_id update = i" "up_shard_id update = s"
    and "rq_index_id rq = i" "rq_shard_id rq = Some s"
    and "faiss_index_dim (pf_faiss pf) ix \<le> length (rq_vector rq)" and "0 < rq_k rq" "rq_k rq < 2 ^ 31"
  shows "\<exists>st' st'' r. ProcessUpdateRequest pf update st = (Inr (), st') \<and>
    searcher_ProcessSearchRequest pf iti rq st' = (Inr (map sr_id r), st'') \<and>
    sorted r \<and> distinct (map sr_id r) \<and>
    top_k sr_dist (nat (rq_k rq)) (candidates dst (take (faiss_index_dim (pf_faiss pf) ix) (rq_vector rq))
      (set_mset (faiss_index_docs vecs ix) \<union> (\<Union>seg \<in> set segs. set (faiss_docs vecs (seg_index seg))))) (set r)"
proof -
  from ProcessUpdateRequest_ok [OF assms(2,4,5,6,7,9,8,10-13)] obtain st' ix'
    where st': "ProcessUpdateRequest pf update st = (Inr (), st')" "metrics_ok (pf_prom pf) searcher_counters {} (se_prom st')"
      "shard_ok pf vecs dst st' i s ix'" "same_params ix ix'"
      "faiss_index_docs vecs ix' = faiss_index_docs vecs ix + segments_docs vecs segs" by blast
  have "set_mset (segments_docs vecs segs) = (\<Union>seg \<in> set segs. set (faiss_docs vecs (seg_index seg)))"
    by (induction segs) (auto simp: segments_docs_def)
  then have docs: "set_mset (faiss_index_docs vecs ix') =
      set_mset (faiss_index_docs vecs ix) \<union> (\<Union>seg \<in> set segs. set (faiss_docs vecs (seg_index seg)))"
    by (simp add: st'(5))
  have "ix_factory ix' = ix_factory ix" using st'(4) by (simp add: same_params_def)
  with searcher_search_shard_ok [OF assms(1,3) st'(2,3) assms(14,15) _ assms(17,18), of iti] assms(16) docs st'(1)
  show ?thesis by auto
qed

lemma mapP_search_ok:
  assumes "\<forall>(s, p) \<in> set entries. \<exists>ix r. p = Some ix \<and> search ix = Inr (map sr_id r) \<and> P ix r"
  shows "\<exists>rs. (\<forall>st :: 'st. mapP (\<lambda>(_, p). case p of None \<Rightarrow> throwP NullPointer | Some ix \<Rightarrow> liftP (search ix)) entries st =
      (Inr (map (map sr_id) rs), st)) \<and> list_all2 (\<lambda>(s, p) r. P (the p) r) entries rs"
  using assms
proof (induction entries)
  case (Cons e entries)
  then have "\<forall>(s, p) \<in> set entries. \<exists>ix r. p = Some ix \<and> search ix = Inr (map sr_id r) \<and> P ix r" by simp
  from Cons.IH [OF this] obtain rs where rs: "\<forall>st :: 'st. mapP (\<lambda>(_, p). case p of None \<Rightarrow> throwP NullPointer | Some ix \<Rightarrow> liftP (search ix)) entries st =
      (Inr (map (map sr_id) rs), st)" "list_all2 (\<lambda>(s, p) r. P (the p) r) entries rs" by blast
  from Cons.prems obtain s ix r where "e = (s, Some ix)" "search ix = Inr (map sr_id r)" "P ix r"
    by (cases e) auto
  with rs show ?case by (intro exI [of _ "r # rs"]) (simp add: bindP_def)
qed simp

text \<open>
  C29. A search that names no shard asks every shard of the index. The response is the concatenation,
  in the order of the hash map, of the exact answers of all shards: \<open>k\<close> documents per shard, not
  \<open>k\<close> documents.
\<close>

theorem searcher_search_all_shards:
  fixes pf :: "('b, 'f::{linorder, zero}, 'j, 'e, 's, 'p, 'cf, 'gf) pf"
  assumes "faiss_exact (pf_faiss pf) vecs dst" and "reorders (pf_result_order pf)" and "reorders iti"
    and "metrics_ok (pf_prom pf) searcher_counters {} (se_prom st)"
    and "map_of (se_shards st) (rq_index_id rq) = Some m" and "rq_shard_id rq = None"
    and "\<forall>(s, p) \<in> set m. \<exists>ix. p = Some ix \<and> searchable pf vecs dst ix \<and>
      faiss_index_dim (pf_faiss pf) ix \<le> length (rq_vector rq)"
    and "0 < rq_k rq" "rq_k rq < 2 ^ 31"
  shows "\<exists>st' rs. searcher_ProcessSearchRequest pf iti rq st = (Inr (concat (map (map sr_id) rs)), st') \<and>
    list_all2 (\<lambda>(s, p) r. sorted r \<and> distinct (map sr_id r) \<and>
      top_k sr_dist (nat (rq_k rq))
        (candidates dst (take (faiss_index_dim (pf_faiss pf) (the p)) (rq_vector rq))
          (set_mset (faiss_index_docs vecs (the p)))) (set r)) (iti m) rs"
proof -
  let ?search = "\<lambda>ix. index_search (platform_vtable pf) (pf_result_order pf) ix (rq_vector rq) (rq_k rq)"
  let ?P = "\<lambda>ix r. sorted r \<and> distinct (map sr_id r) \<and> top_k sr_dist (nat (rq_k rq))
    (candidates dst (take (faiss_index_dim (pf_faiss pf) ix) (rq_vector rq)) (set_mset (faiss_index_docs vecs ix))) (set r)"
  have "\<forall>(s, p) \<in> set (iti m). \<exists>ix r. p = Some ix \<and> ?search ix = Inr (map sr_id r) \<and> ?P ix r"
    using platform_search_exact [OF assms(1,2) _ _ assms(8,9)] assms(7)
    unfolding reorders_set [OF assms(3)] by blast
  from mapP_search_ok [where search = ?search and P = ?P, OF this] obtain rs
    where rs: "\<forall>st :: ('b, 'e, 's, 'p, 'cf, 'gf) SearcherImpl.
        mapP (\<lambda>(_, p). case p of None \<Rightarrow> throwP NullPointer | Some ix \<Rightarrow> liftP (?search ix)) (iti m) st =
        (Inr (map (map sr_id) rs), st)" "list_all2 (\<lambda>(s, p) r. ?P (the p) r) (iti m) rs" by blast
  have "touch_index (rq_index_id rq) (se_shards st) = se_shards st" using assms(5) by (simp add: touch_index_def)
  with searcher_search_counted [OF assms(4)] rs show ?thesis
    by (auto simp: searcher_ProcessSearchRequest_def Let_def assms(5,6) proc_defs)
qed

text \<open>
  C39. Two requests end in the access through a null pointer instead of an error status: a search in
  a shard that the searcher does not have, and an update that announces a segment which cannot be
  fetched from S3.
\<close>

theorem searcher_null_pointers:
  fixes pf :: "('b, 'f::{linorder, zero}, 'j, 'e, 's, 'p, 'cf, 'gf) pf"
  assumes "s3_contract (pf_s3 pf) buckets objects" and "metrics_ok (pf_prom pf) searcher_counters {} (se_prom st)"
    and "sc_s3Client (se_storage st)"
  shows "(rq_shard_id rq = Some s \<and> shard_at (se_shards st) (rq_index_id rq) s = None \<longrightarrow>
      fst (searcher_ProcessSearchRequest pf iti rq st) = Inl NullPointer) \<and>
    (up_added update = n # ns \<and> sc_files (se_storage st) (to_string_size n) = None \<and>
      objects (sc_s3 (se_storage st)) (makeBucketName (pf_hash pf) (up_index_id update), to_string_size n) = None \<longrightarrow>
      fst (ProcessUpdateRequest pf update st) = Inl NullPointer)"
proof (intro conjI impI)
  assume "rq_shard_id rq = Some s \<and> shard_at (se_shards st) (rq_index_id rq) s = None"
  then show "fst (searcher_ProcessSearchRequest pf iti rq st) = Inl NullPointer"
    using searcher_search_counted [OF assms(2)]
    by (auto simp: searcher_ProcessSearchRequest_def Let_def proc_defs searcher_shard_missing)
next
  let ?ls = "[(''index_id'', up_index_id update), (''shard_id'', up_shard_id update)]"
  assume n: "up_added update = n # ns \<and> sc_files (se_storage st) (to_string_size n) = None \<and>
      objects (sc_s3 (se_storage st)) (makeBucketName (pf_hash pf) (up_index_id update), to_string_size n) = None"
  from metrics_ok_IncrementCounter [OF assms(2), of "''updates_count''" ?ls 1] obtain p
    where p: "IncrementCounter (pf_prom pf) ''updates_count'' 1 ?ls (se_prom st) = (Inr (), p)"
    by (auto simp: searcher_counters_def shard_labels_ok)
  have "fst (searcher_add_segment pf (up_index_id update) (up_shard_id update) n (st\<lparr>se_prom := p\<rparr>)) = Inl NullPointer"
    using n assms(3) by (simp add: searcher_add_segment_def Let_def searcher_storage_def getObject_def with_client_def proc_defs
        s3_contractD(4) [OF assms(1)])
  then show "fst (ProcessUpdateRequest pf update st) = Inl NullPointer"
    using n p by (auto simp: ProcessUpdateRequest_def Let_def searcher_prom_def proc_defs split: prod.splits sum.splits)
qed

section \<open>Registration\<close>

lemma searcher_register_all:
  assumes "\<forall>(i, s) \<in> set names. no_slash i \<and> no_slash s"
  shows "etcd_holds E kv (se_etcd st) R \<Longrightarrow>
    \<exists>e R'. forP (\<lambda>(i, s). searcher_etcd (AddSearcherHost E i s a)) names st = (Inr (), st\<lparr>se_etcd := e\<rparr>) \<and>
      etcd_holds E kv e R' \<and> reg_hosts R' = reg_hosts R \<union> {(i, s, a) | i s. (i, s) \<in> set names}"
  using assms
proof (induction names arbitrary: st R)
  case Nil
  then show ?case by (intro exI [of _ "se_etcd st"] exI [of _ R]) simp
next
  case (Cons n names)
  obtain i s where n: "n = (i, s)" by (cases n)
  from Cons.prems etcd.add_holds [OF Cons.prems(1), of i s a] obtain e
    where e: "AddSearcherHost E i s a (se_etcd st) = (Inr (), e)" "etcd_holds E kv e (add_host i s a R)"
    by (auto simp: n)
  from Cons.IH [of "st\<lparr>se_etcd := e\<rparr>" "add_host i s a R"] e(2) Cons.prems(2) obtain e' R'
    where e': "forP (\<lambda>(i, s). searcher_etcd (AddSearcherHost E i s a)) names (st\<lparr>se_etcd := e\<rparr>) =
        (Inr (), st\<lparr>se_etcd := e'\<rparr>)" "etcd_holds E kv e' R'"
      "reg_hosts R' = reg_hosts (add_host i s a R) \<union> {(i, s, a) | i s. (i, s) \<in> set names}" by auto
  have "searcher_etcd (AddSearcherHost E i s a) st = (Inr (), st\<lparr>se_etcd := e\<rparr>)"
    using e(1) by (simp add: searcher_etcd_def partP_def)
  then show ?case
    using e' by (intro exI [of _ e'] exI [of _ R']) (auto simp: n bindP_def add_host_def)
qed

lemma searcher_unregister_all:
  assumes "\<forall>(i, s) \<in> set names. no_slash i \<and> no_slash s"
  shows "etcd_holds E kv (se_etcd st) R \<Longrightarrow> distinct names \<Longrightarrow> \<forall>(i, s) \<in> set names. a \<in> hosts_of R i s \<Longrightarrow>
    \<exists>e R'. forP (\<lambda>(i, s). searcher_etcd (RemoveSearcherHost E i s a)) names st = (Inr (), st\<lparr>se_etcd := e\<rparr>) \<and>
      etcd_holds E kv e R' \<and> reg_hosts R' = reg_hosts R - {(i, s, a) | i s. (i, s) \<in> set names}"
  using assms
proof (induction names arbitrary: st R)
  case Nil
  then show ?case by (intro exI [of _ "se_etcd st"] exI [of _ R]) simp
next
  case (Cons n names)
  obtain i s where n: "n = (i, s)" by (cases n)
  from Cons.prems etcd.remove_holds [OF Cons.prems(1), of i s a] obtain e
    where e: "RemoveSearcherHost E i s a (se_etcd st) = (Inr (), e)" "etcd_holds E kv e (remove_host i s a R)"
    by (auto simp: n)
  have "\<forall>(j, t) \<in> set names. a \<in> hosts_of (remove_host i s a R) j t"
    using Cons.prems(2,3) by (auto simp: n hosts_of_def remove_host_def)
  with Cons.IH [of "st\<lparr>se_etcd := e\<rparr>" "remove_host i s a R"] e(2) Cons.prems(2,4) obtain e' R'
    where e': "forP (\<lambda>(i, s). searcher_etcd (RemoveSearcherHost E i s a)) names (st\<lparr>se_etcd := e\<rparr>) =
        (Inr (), st\<lparr>se_etcd := e'\<rparr>)" "etcd_holds E kv e' R'"
      "reg_hosts R' = reg_hosts (remove_host i s a R) - {(i, s, a) | i s. (i, s) \<in> set names}" by auto
  have "searcher_etcd (RemoveSearcherHost E i s a) st = (Inr (), st\<lparr>se_etcd := e\<rparr>)"
    using e(1) by (simp add: searcher_etcd_def partP_def)
  then show ?case
    using e' by (intro exI [of _ e'] exI [of _ R']) (auto simp: n bindP_def remove_host_def)
qed

text \<open>An item of the configuration that describes an index.\<close>

definition item_ok ::
  "('b, 'f::{linorder, zero}, 'j, 'e, 's, 'p, 'cf, 'gf) pf \<Rightarrow> 'j \<Rightarrow> string \<times> string \<Rightarrow> bool" where
  "item_ok pf item name \<longleftrightarrow>
     json_string (pf_json pf) item ''index_id'' = Inr (fst name) \<and> json_string (pf_json pf) item ''shard_id'' = Inr (snd name) \<and>
     no_slash (fst name) \<and> no_slash (snd name) \<and>
     (\<exists>cf. config_ok pf item cf)"

definition new_shards ::
  "('b, 'f::{linorder, zero}, 'j, 'e, 's, 'p, 'cf, 'gf) pf \<Rightarrow> ('b \<Rightarrow> 'f list list) \<Rightarrow> ('f list \<Rightarrow> 'f list \<Rightarrow> 'f) \<Rightarrow>
    'b shard_index shard_map \<Rightarrow> bool" where
  "new_shards pf vecs dst m \<longleftrightarrow> nested_wf m \<and> (\<forall>(i, s) \<in> nested_keys m. no_slash i \<and> no_slash s \<and>
     (\<exists>ix. shard_at m i s = Some ix \<and> faiss_index_inv (pf_faiss pf) vecs dst (pf_merge_order pf) ix \<and>
        faiss_index_docs vecs ix = {#}))"

lemma searcher_create_shard_ok:
  fixes pf :: "('b, 'f::{linorder, zero}, 'j, 'e, 's, 'p, 'cf, 'gf) pf"
  assumes con: "faiss_contract (pf_faiss pf) vecs dst" and ord: "reorders (pf_merge_order pf)"
    and item: "item_ok pf item name" and rng: "inj (se_rng st)" and new: "new_shards pf vecs dst (se_shards st)"
  shows "\<exists>m g. searcher_create_shard pf item st = (Inr (), st\<lparr>se_shards := m, se_rng := g\<rparr>) \<and> inj g \<and>
    new_shards pf vecs dst m \<and> nested_keys m = insert name (nested_keys (se_shards st))"
proof -
  obtain i s where name: "name = (i, s)" by (cases name)
  from item obtain cf where cf: "config_ok pf item cf"
    and j: "json_string (pf_json pf) item ''index_id'' = Inr i" "json_string (pf_json pf) item ''shard_id'' = Inr s"
      "no_slash i" "no_slash s" unfolding item_ok_def name by auto
  from platform_CreateIndex [OF con ord rng cf] obtain ix where ix:
    "CreateIndex (pf_faiss pf) (pf_json pf) item (se_rng st) = Inr (ix, \<lambda>i. se_rng st (Suc i))"
    "faiss_index_inv (pf_faiss pf) vecs dst (pf_merge_order pf) ix" "faiss_index_docs vecs ix = {#}" by blast
  let ?m = "put_shard i s ix (se_shards st)"
  have keys: "nested_keys ?m = insert name (nested_keys (se_shards st))" by (simp add: put_shard_def name)
  have "new_shards pf vecs dst ?m"
    using new ix(2,3) j(3,4) keys nested_wf_put by (auto simp: new_shards_def name put_shard_def [symmetric])
      (simp add: put_shard_def nested_wf_put)
  then show ?thesis
    using ix(1) j(1,2) keys inj_suffix [OF rng]
    by (intro exI [of _ ?m] exI [of _ "\<lambda>i. se_rng st (Suc i)"]) (simp add: searcher_create_shard_def proc_defs)
qed

lemma searcher_create_shards_ok:
  fixes pf :: "('b, 'f::{linorder, zero}, 'j, 'e, 's, 'p, 'cf, 'gf) pf"
  assumes "faiss_contract (pf_faiss pf) vecs dst" and "reorders (pf_merge_order pf)"
  shows "\<lbrakk>list_all2 (item_ok pf) items names; inj (se_rng st); new_shards pf vecs dst (se_shards st)\<rbrakk> \<Longrightarrow>
    \<exists>m g. forP (searcher_create_shard pf) items st = (Inr (), st\<lparr>se_shards := m, se_rng := g\<rparr>) \<and>
      new_shards pf vecs dst m \<and> nested_keys m = set names \<union> nested_keys (se_shards st)"
proof (induction items names arbitrary: st rule: list_all2_induct)
  case Nil
  then show ?case by (intro exI [of _ "se_shards st"] exI [of _ "se_rng st"]) simp
next
  case (Cons item items name names)
  from searcher_create_shard_ok [OF assms Cons.hyps(1) Cons.prems] obtain m g
    where one: "searcher_create_shard pf item st = (Inr (), st\<lparr>se_shards := m, se_rng := g\<rparr>)" "inj g"
      "new_shards pf vecs dst m" "nested_keys m = insert name (nested_keys (se_shards st))" by blast
  from Cons.IH [of "st\<lparr>se_shards := m, se_rng := g\<rparr>"] one obtain m' g'
    where "forP (searcher_create_shard pf) items (st\<lparr>se_shards := m, se_rng := g\<rparr>) =
        (Inr (), st\<lparr>se_shards := m', se_rng := g'\<rparr>)" "new_shards pf vecs dst m'"
      "nested_keys m' = set names \<union> nested_keys m" by auto
  then show ?case
    using one(1,4) by (intro exI [of _ m'] exI [of _ g']) (auto simp: bindP_def)
qed

text \<open>
  C28. The life of a searcher. Started on a configuration whose items describe indexes, it creates an
  empty index that satisfies the invariant for every configured shard and registers its address for
  exactly these shards; its graceful shutdown takes exactly these entries out of the registry again,
  so that an address that was not registered before leaves no trace.
\<close>

theorem searcher_lifecycle:
  fixes pf :: "('b, 'f::{linorder, zero}, 'j, 'e, 's, 'p, 'cf, 'gf) pf"
  assumes "faiss_contract (pf_faiss pf) vecs dst" and "reorders (pf_merge_order pf)" and "reorders ito" and "reorders iti"
    and "etcd_holds (pf_etcd pf) kv (se_etcd st) R" and "inj (se_rng st)" and "se_shards st = []"
    and "list_all2 (item_ok pf) (js_items (pf_json pf) shards_configs) names"
    and "\<forall>i s. searcher_address st \<notin> hosts_of R i s"
  shows "\<exists>st' R'. searcher_new pf ito iti shards_configs st = (Inr (), st') \<and> etcd_holds (pf_etcd pf) kv (se_etcd st') R' \<and>
    sc_s3Client (se_storage st') \<and>
    (\<forall>(i, s) \<in> set names. \<exists>ix. shard_at (se_shards st') i s = Some ix \<and>
      faiss_index_inv (pf_faiss pf) vecs dst (pf_merge_order pf) ix \<and> faiss_index_docs vecs ix = {#}) \<and>
    (\<forall>i s. hosts_of R' i s = hosts_of R i s \<union> (if (i, s) \<in> set names then {searcher_address st} else {})) \<and>
    (\<exists>st'' R''. GracefulShutdown pf ito iti st' = (Inr (), st'') \<and> etcd_holds (pf_etcd pf) kv (se_etcd st'') R'' \<and>
      (\<forall>i s. hosts_of R'' i s = hosts_of R i s))"
proof -
  let ?a = "searcher_address st"
  have "new_shards pf vecs dst (se_shards st)"
    using assms(7) by (simp add: new_shards_def nested_wf_def nested_keys_def)
  from searcher_create_shards_ok [OF assms(1,2,8,6) this] obtain m g
    where m: "forP (searcher_create_shard pf) (js_items (pf_json pf) shards_configs) st =
        (Inr (), st\<lparr>se_shards := m, se_rng := g\<rparr>)" "new_shards pf vecs dst m" "nested_keys m = set names"
    using assms(7) by (auto simp: nested_keys_def)
  let ?st = "st\<lparr>se_shards := m, se_rng := g\<rparr>" and ?names = "shard_names ito iti m"
  have wf: "nested_wf m" using m(2) by (simp add: new_shards_def)
  have names: "set ?names = set names" "distinct ?names"
    using set_shard_names [OF wf assms(3,4)] shard_names_distinct [OF wf assms(3,4)] m(3) by simp_all
  have slash: "\<forall>(i, s) \<in> set ?names. no_slash i \<and> no_slash s"
    using m(2,3) names(1) by (auto simp: new_shards_def)
  from searcher_register_all [OF slash, of "pf_etcd pf" kv ?st R ?a] assms(5) obtain e R'
    where e: "forP (\<lambda>(i, s). searcher_etcd (AddSearcherHost (pf_etcd pf) i s ?a)) ?names ?st = (Inr (), ?st\<lparr>se_etcd := e\<rparr>)"
      "etcd_holds (pf_etcd pf) kv e R'" "reg_hosts R' = reg_hosts R \<union> {(i, s, ?a) | i s. (i, s) \<in> set ?names}" by auto
  define st' where "st' = ?st\<lparr>se_etcd := e, se_storage := (se_storage st)\<lparr>sc_s3Client := True\<rparr>\<rparr>"
  have run: "searcher_new pf ito iti shards_configs st = (Inr (), st')"
    using m(1) e(1) by (simp add: searcher_new_def searcher_Init_def searcher_storage_def logIn_def proc_defs st'_def
        searcher_address_def)
  have "\<forall>(i, s) \<in> set ?names. ?a \<in> hosts_of R' i s" using e(3) by (auto simp: hosts_of_def)
  from searcher_unregister_all [OF slash _ names(2) this, of "pf_etcd pf" kv st'] e(2) obtain e' R''
    where e': "forP (\<lambda>(i, s). searcher_etcd (RemoveSearcherHost (pf_etcd pf) i s ?a)) ?names st' = (Inr (), st'\<lparr>se_etcd := e'\<rparr>)"
      "etcd_holds (pf_etcd pf) kv e' R''" "reg_hosts R'' = reg_hosts R' - {(i, s, ?a) | i s. (i, s) \<in> set ?names}"
    by (auto simp: st'_def)
  have stop: "GracefulShutdown pf ito iti st' = (Inr (), st'\<lparr>se_etcd := e'\<rparr>)"
    using e'(1) by (simp add: GracefulShutdown_def bindP_def st'_def searcher_address_def)
  have "\<forall>i s. hosts_of R'' i s = hosts_of R i s" using assms(9) by (auto simp: hosts_of_def e'(3) e(3))
  moreover have "\<forall>i s. hosts_of R' i s = hosts_of R i s \<union> (if (i, s) \<in> set names then {?a} else {})"
    by (auto simp: hosts_of_def e(3) names(1))
  moreover have "\<forall>(i, s) \<in> set names. \<exists>ix. shard_at (se_shards st') i s = Some ix \<and>
      faiss_index_inv (pf_faiss pf) vecs dst (pf_merge_order pf) ix \<and> faiss_index_docs vecs ix = {#}"
    using m(2,3) by (auto simp: st'_def new_shards_def)
  moreover have "sc_s3Client (se_storage st')" "se_etcd st' = e" by (simp_all add: st'_def)
  ultimately show ?thesis
    using run stop e(2) e'(2)
    by (intro exI [of _ st'] exI [of _ R'] conjI exI [of _ "st'\<lparr>se_etcd := e'\<rparr>"] exI [of _ R'']) simp_all
qed

section \<open>Witnesses\<close>

definition demo_config :: ref_json where
  "demo_config = JArray [JObject [(''index_id'', JString ''products''), (''shard_id'', JString ''s''),
     (''type'', JString ''faissFlat''), (''library'', JString ''faiss''), (''dim'', JInt 2), (''threshold'', JInt 3),
     (''metric'', JString ''L1''), (''enable_merge'', JBool False)]]"

definition demo_searcher ::
  "(string \<times> string \<rightharpoonup> string) \<Rightarrow> (ref_base, string) FaissIndex Index shard_map \<Rightarrow>
    (ref_base, (string \<times> string) list, string set \<times> (string \<times> string \<rightharpoonup> string), ref_registry, string, string) SearcherImpl" where
  "demo_searcher objects shards = \<lparr>se_host = ''h'', se_port = ''1'', se_etcd = [],
     se_storage = \<lparr>sc_s3Client = True, sc_s3 = ({''0008''}, objects), sc_files = Map.empty\<rparr>,
     se_prom = ref_exposer, se_shards = shards, se_rng = (\<lambda>n. n)\<rparr>"

lemma demo_config_ok: "list_all2 (item_ok ref_platform) (js_items ref_json_lib demo_config) [(''products'', ''s'')]"
proof -
  let ?item = "hd (js_items ref_json_lib demo_config)"
  have "created_args ref_json_lib ?item ''faissFlat'' ''faiss'' 2 ''L1'' = Inr (FlatArgs 2 METRIC_L1)"
    by (simp add: created_args_def)
  moreover have "describes ref_json_lib ?item ''faissFlat'' ''faiss'' 2 (int 3) ''L1'' False"
    by (simp add: demo_config_def describes_def json_string_def json_int_def json_bool_def ref_json_lib_def)
  ultimately have "config_ok ref_platform ?item (FlatArgs 2 METRIC_L1, 3, False)"
    unfolding config_ok_def prod.case ref_platform_simps using ref_make_dim(1)
    by (intro conjI exI [of _ "''faissFlat''"] exI [of _ "''faiss''"] exI [of _ 2] exI [of _ "''L1''"]) simp_all
  moreover have "js_items ref_json_lib demo_config = [?item]" by (simp add: demo_config_def ref_json_lib_def)
  moreover have "json_string ref_json_lib ?item ''index_id'' = Inr ''products''"
    "json_string ref_json_lib ?item ''shard_id'' = Inr ''s''"
    by (simp_all add: demo_config_def ref_json_lib_def json_string_def)
  ultimately show ?thesis by (auto simp: item_ok_def no_slash_def list_all2_Cons2)
qed

definition demo_flat_segment :: "(ref_base, string) FaissIndex Segment" where
  "demo_flat_segment = \<lparr>seg_index = faiss_assign_ids [''a'', ''b'']
     ((faiss_new ref_faiss (FlatArgs 2 METRIC_L1))\<lparr>fi_index := (2, [[0, 1], [5, 5]])\<rparr>), seg_id = 7, seg_type = 0\<rparr>"

lemma demo_flat_segment_docs: "faiss_docs ref_vecs (seg_index demo_flat_segment) = [(''a'', [0, 1]), (''b'', [5, 5])]"
  by (simp add: demo_flat_segment_def faiss_docs_def faiss_new_def ref_vecs_def)

lemma demo_flat_segment_pushable: "pushable ref_faiss ref_vecs (IndexFlat, 2) {} [demo_flat_segment]"
proof -
  have "faiss_inv ref_faiss ref_vecs (seg_index demo_flat_segment)"
    unfolding demo_flat_segment_def Segment.simps
    by (rule faiss_inv_assign [where vs = "[[0, 1], [5, 5]]", OF faiss_inv_new [OF ref_faiss_contract]])
      (simp_all add: ref_vecs_def faiss_new_def ref_faiss_def faiss_known_def)
  then show ?thesis
    by (simp add: segment_file_ok_def file_fits_def)
      (simp add: demo_flat_segment_def faiss_new_def faiss_shape_def faiss_known_def ref_faiss_def get_segment_type_def
        string_max_size_def)
qed

definition demo_shard :: "(ref_base, string) FaissIndex Index" where
  "demo_shard = fst (index_new 2 3 False (faiss_factory ref_faiss (FlatArgs 2 METRIC_L1)) (\<lambda>n. n))"

lemma demo_shard_ok:
  "faiss_index_inv ref_faiss ref_vecs ref_dist rev demo_shard" "index_known faiss_known demo_shard = {}"
  "faiss_index_docs ref_vecs demo_shard = {#}" "seg_id ` set (ix_store demo_shard) = {0}"
  "faiss_shape ref_faiss (sf_index (ix_factory demo_shard)) = (IndexFlat, 2)"
proof -
  let ?f = "faiss_factory ref_faiss (FlatArgs 2 METRIC_L1) :: (ref_base, string) FaissIndex SegmentFactory"
  have new: "index_new 2 3 False ?f (\<lambda>n. n) = (demo_shard, Suc)"
    by (simp add: demo_shard_def index_new_def factory_create_def segment_new_def rand_def)
  note N = faiss.index_new_ok [OF faiss_factory_ok(1) [OF ref_faiss_contract reorders_rev] _ _ _ _ _ new]
  show "faiss_index_inv ref_faiss ref_vecs ref_dist rev demo_shard"
    unfolding faiss_index_inv_def by (rule N(1)) (simp_all add: ref_make_dim)
  show "index_known faiss_known demo_shard = {}" by (rule N(3)) (simp_all add: ref_make_dim)
  show "faiss_index_docs ref_vecs demo_shard = {#}" by (rule N(2)) (simp_all add: ref_make_dim)
  show "seg_id ` set (ix_store demo_shard) = {0}" "faiss_shape ref_faiss (sf_index (ix_factory demo_shard)) = (IndexFlat, 2)"
    by (simp_all add: demo_shard_def index_new_def factory_create_def segment_new_def rand_def faiss_shape_def faiss_factory_def
        faiss_new_def ref_faiss_def)
qed

definition demo_objects :: "string \<times> string \<rightharpoonup> string" where
  "demo_objects = [(''0008'', ''7'') \<mapsto> SerializeSegment (platform_vtable ref_platform) demo_flat_segment]"

theorem searcher_update_search_exact_witness:
  "\<exists>st' st'' (r :: (string, int) SearchResult list). ProcessUpdateRequest ref_platform
      \<lparr>up_added = [7], up_deleted = [3], up_index_id = ''products'', up_shard_id = ''s''\<rparr>
      (demo_searcher demo_objects [(''products'', [(''s'', Some demo_shard)])]) = (Inr (), st') \<and>
    searcher_ProcessSearchRequest ref_platform rev
      \<lparr>rq_vector = [0, 0], rq_k = 1, rq_index_id = ''products'', rq_shard_id = Some ''s''\<rparr> st' = (Inr (map sr_id r), st'') \<and>
    top_k sr_dist 1 (candidates ref_dist [0, 0] {(''a'', [0, 1]), (''b'', [5, 5])}) (set r)"
proof -
  let ?st = "demo_searcher demo_objects [(''products'', [(''s'', Some demo_shard)])]"
  have shard: "shard_ok ref_platform ref_vecs ref_dist ?st ''products'' ''s'' demo_shard"
    by (simp add: shard_ok_def demo_searcher_def shard_at_def nested_get_def demo_shard_ok searchableI)
  have "makeBucketName length ''products'' = ''0008''" "to_string_size 7 = ''7''"
    by (simp_all add: makeBucketName_def hex_string_def to_string_size_def radix.simps digit_char_def)
  then have stored: "\<forall>seg \<in> set [demo_flat_segment].
      stored_segment ref_platform snd (sc_s3 (se_storage ?st)) ''products'' seg"
    by (simp add: stored_segment_def demo_searcher_def demo_objects_def) (simp add: demo_flat_segment_def)
  have dim: "faiss_index_dim ref_faiss demo_shard = 2" using demo_shard_ok(5) by (simp add: faiss_shape_def)
  have "pushable ref_faiss ref_vecs (faiss_shape ref_faiss (sf_index (ix_factory demo_shard)))
      (index_known faiss_known demo_shard) [demo_flat_segment]"
    using demo_flat_segment_pushable by (simp only: demo_shard_ok)
  moreover have "map seg_id [demo_flat_segment] = [7]" by (simp add: demo_flat_segment_def)
  ultimately show ?thesis
    using searcher_update_search_exact [where pf = ref_platform and objects = snd and buckets = fst and iti = rev
        and update = "\<lparr>up_added = [7], up_deleted = [3], up_index_id = ''products'', up_shard_id = ''s''\<rparr>"
        and rq = "\<lparr>rq_vector = [0, 0], rq_k = 1, rq_index_id = ''products'', rq_shard_id = Some ''s''\<rparr>",
        OF _ _ _ _ _ _ _ shard stored]
    by (simp add: demo_searcher_def ref_faiss_exact ref_faiss_files reorders_rev demo_order_ok
        ref_s3_contract ref_exposer_ok dim demo_shard_ok(3) demo_flat_segment_docs) blast
qed

theorem searcher_lifecycle_witness:
  "\<exists>st' st''. searcher_new ref_platform rev rev demo_config (demo_searcher Map.empty []) = (Inr (), st') \<and>
    shard_at (se_shards st') ''products'' ''s'' \<noteq> None \<and>
    GracefulShutdown ref_platform rev rev st' = (Inr (), st'')"
proof -
  have "etcd_holds ref_etcd map_of [] empty_registry" by (rule ref_etcd_empty)
  then show ?thesis
    using searcher_lifecycle [where pf = ref_platform and ito = rev and iti = rev and st = "demo_searcher Map.empty []"
        and shards_configs = demo_config and names = "[(''products'', ''s'')]" and vecs = ref_vecs and dst = ref_dist
        and kv = map_of and R = empty_registry] demo_config_ok
    by (auto simp: demo_searcher_def ref_faiss_contract reorders_rev hosts_of_def empty_registry_def)
qed

theorem searcher_search_all_shards_witness:
  "\<exists>st' (rs :: (string, int) SearchResult list list). searcher_ProcessSearchRequest ref_platform rev
      \<lparr>rq_vector = [0, 0], rq_k = 1, rq_index_id = ''products'', rq_shard_id = None\<rparr>
      (demo_searcher Map.empty [(''products'', [(''s'', Some demo_shard), (''t'', Some demo_shard)])]) =
      (Inr (concat (map (map sr_id) rs)), st') \<and> length rs = 2"
proof -
  have dim: "faiss_index_dim ref_faiss demo_shard = 2" using demo_shard_ok(5) by (simp add: faiss_shape_def)
  let ?shards = "[(''products'', [(''s'', Some demo_shard), (''t'', Some demo_shard)])]"
  let ?rq = "\<lparr>rq_vector = [0, 0], rq_k = 1, rq_index_id = ''products'', rq_shard_id = None\<rparr>"
  show ?thesis
    using searcher_search_all_shards [where pf = ref_platform and vecs = ref_vecs and dst = ref_dist and iti = rev
      and st = "demo_searcher Map.empty ?shards" and rq = ?rq and m = "snd (hd ?shards)"]
    by (simp add: ref_faiss_exact reorders_rev ref_exposer_ok demo_shard_ok(1) searchableI dim demo_searcher_def)
      (elim exE conjE, intro exI conjI, assumption, drule list_all2_lengthD, simp)
qed

theorem searcher_null_pointers_witness:
  "fst (searcher_ProcessSearchRequest ref_platform rev
      \<lparr>rq_vector = [0, 0], rq_k = 1, rq_index_id = ''products'', rq_shard_id = Some ''u''\<rparr> (demo_searcher Map.empty [])) =
      Inl NullPointer \<and>
   fst (ProcessUpdateRequest ref_platform
      \<lparr>up_added = [7], up_deleted = [], up_index_id = ''products'', up_shard_id = ''u''\<rparr> (demo_searcher Map.empty [])) =
      Inl NullPointer"
  using searcher_null_pointers [where pf = ref_platform and buckets = fst and objects = snd and iti = rev
      and st = "demo_searcher Map.empty []" and s = "''u''" and n = 7 and ns = "[]"
      and rq = "\<lparr>rq_vector = [0, 0], rq_k = 1, rq_index_id = ''products'', rq_shard_id = Some ''u''\<rparr>"
      and update = "\<lparr>up_added = [7], up_deleted = [], up_index_id = ''products'', up_shard_id = ''u''\<rparr>"]
  by (simp add: ref_s3_contract ref_exposer_ok demo_searcher_def shard_at_def nested_get_def)

end
