(* ===== verification/Writer.thy ===== *)
theory Writer
  imports Searcher
begin

text \<open>
  The writer server (\<open>app/src/Writer.cpp\<close>): it keeps one index per shard that etcd lists, adds the
  documents of write requests to the shard with the lowest response time, and publishes the segments
  that its indexes report: a task per report is queued, and the single thread of the runner stores
  the segments in S3 and announces them to the searchers of the shard. Requests and tasks exclude
  each other by \<open>runner_lock\<close>, so both are steps on one state.

  The indexes are objects of a store, because a queued task refers to segments of an index that may
  have been removed from \<open>shards\<close> in the meantime. An exception inside an index operation leaves the
  index as it was before in the model.
\<close>

section \<open>The code\<close>

datatype grpc_status = StatusOK | INVALID_ARGUMENT string

record 'f Document =
  doc_vector :: "'f list"
  doc_id :: string
  doc_attributes :: "(string \<times> string) list"

record update_task =
  ut_ids :: "nat list"
  ut_object :: nat
  ut_segs :: "nat list"
  ut_index_id :: string
  ut_shard_id :: string

record ('b, 'j, 'e, 's, 'p, 'cf, 'gf, 'w) WriterImpl =
  wr_host :: string
  wr_port :: string
  wr_create_args :: "(string \<times> 'j) list"
  wr_objects :: "'b shard_index list"
  wr_shards :: "nat shard_map"
  wr_etcd :: 'e
  wr_storage :: "'s StorageClient"
  wr_prom :: "('p, 'cf, 'gf) PrometheusExposer"
  wr_rng :: rng
  wr_queue :: "update_task list"
  wr_world :: 'w

text \<open>
  An update call to a searcher: the status code, and the effect on the searchers and on S3, which
  they use as well.
\<close>

type_synonym ('s, 'w) update_rpc = "string \<Rightarrow> UpdateRequest \<Rightarrow> 's \<times> 'w \<Rightarrow> nat \<times> 's \<times> 'w"

definition writer_etcd :: "('e, 'a) proc \<Rightarrow> (('b, 'j, 'e, 's, 'p, 'cf, 'gf, 'w) WriterImpl, 'a) proc" where
  "writer_etcd = partP wr_etcd (\<lambda>e st. st\<lparr>wr_etcd := e\<rparr>)"

definition writer_storage ::
  "('s StorageClient, 'a) proc \<Rightarrow> (('b, 'j, 'e, 's, 'p, 'cf, 'gf, 'w) WriterImpl, 'a) proc" where
  "writer_storage = partP wr_storage (\<lambda>c st. st\<lparr>wr_storage := c\<rparr>)"

definition writer_prom ::
  "(('p, 'cf, 'gf) PrometheusExposer, 'a) proc \<Rightarrow> (('b, 'j, 'e, 's, 'p, 'cf, 'gf, 'w) WriterImpl, 'a) proc" where
  "writer_prom = partP wr_prom (\<lambda>c st. st\<lparr>wr_prom := c\<rparr>)"

subsection \<open>The shards\<close>

definition shards_of_index :: "'x shard_map \<Rightarrow> string \<Rightarrow> (string \<times> 'x option) list" where
  "shards_of_index m i = (case map_of m i of None \<Rightarrow> [] | Some m' \<Rightarrow> m')"

text \<open>A new index for a listed shard, with the callback that queues the reports of the index.\<close>

definition writer_create_shard ::
  "('b, 'f, 'j, 'e, 's, 'p, 'cf, 'gf) pf \<Rightarrow> string \<Rightarrow> 'j \<Rightarrow> string \<Rightarrow>
    (('b, 'j, 'e, 's, 'p, 'cf, 'gf, 'w) WriterImpl, unit) proc" where
  "writer_create_shard pf index_id index_config shard_id_add =
     bindP (readP wr_rng) (\<lambda>g.
     bindP (liftP (CreateIndex (pf_faiss pf) (pf_json pf) index_config g)) (\<lambda>(ix, g).
       modifyP (\<lambda>st. st\<lparr>wr_objects := wr_objects st @ [index_setUpdateCallback ix], wr_rng := g,
         wr_shards := put_shard index_id shard_id_add (length (wr_objects st)) (wr_shards st)\<rparr>)))"

definition update_index_state ::
  "('b, 'f, 'j, 'e, 's, 'p, 'cf, 'gf) pf \<Rightarrow> nat inner_order \<Rightarrow> string \<times> 'j \<Rightarrow>
    (('b, 'j, 'e, 's, 'p, 'cf, 'gf, 'w) WriterImpl, unit) proc" where
  "update_index_state pf iti p =
     (case p of (index_id, index_config) \<Rightarrow>
      bindP (writer_etcd (ListShardIds (pf_etcd pf) index_id)) (\<lambda>shard_ids_vec.
        if shard_ids_vec = [] then
          modifyP (\<lambda>st. st\<lparr>wr_shards := AList.delete index_id (wr_shards st)\<rparr>)
        else
          bindP (readP (\<lambda>st. map_of (wr_shards st) index_id)) (\<lambda>found.
          thenP (case found of
              None \<Rightarrow> bindP (writer_storage (createBucket (pf_s3 pf) (pf_hash pf) index_id)) (\<lambda>ok.
                modifyP (\<lambda>st. st\<lparr>wr_shards := AList.update index_id [] (wr_shards st)\<rparr>))
            | Some _ \<Rightarrow> returnP ())
          (bindP (readP (\<lambda>st. shards_of_index (wr_shards st) index_id)) (\<lambda>m.
           let to_del = filter (\<lambda>s. s \<notin> set shard_ids_vec) (map fst (iti m));
               to_add = filter (\<lambda>s. s \<notin> fst ` set m) (sorted_list_of_set (set shard_ids_vec)) in
           thenP (modifyP (\<lambda>st. st\<lparr>wr_shards := AList.update index_id (fold AList.delete to_del m) (wr_shards st)\<rparr>))
             (forP (writer_create_shard pf index_id index_config) to_add))))))"

definition updateIndexesState ::
  "('b, 'f, 'j, 'e, 's, 'p, 'cf, 'gf) pf \<Rightarrow> ((string \<times> 'j) list \<Rightarrow> (string \<times> 'j) list) \<Rightarrow> nat inner_order \<Rightarrow>
    (('b, 'j, 'e, 's, 'p, 'cf, 'gf, 'w) WriterImpl, unit) proc" where
  "updateIndexesState pf ita iti =
     bindP (readP (\<lambda>st. ita (wr_create_args st))) (\<lambda>args. forP (update_index_state pf iti) args)"

definition writer_new ::
  "('b, 'f, 'j, 'e, 's, 'p, 'cf, 'gf) pf \<Rightarrow> ((string \<times> 'j) list \<Rightarrow> (string \<times> 'j) list) \<Rightarrow> nat inner_order \<Rightarrow> 'j \<Rightarrow>
    (('b, 'j, 'e, 's, 'p, 'cf, 'gf, 'w) WriterImpl, unit) proc" where
  "writer_new pf ita iti indexes_config =
     bindP (writer_storage (logIn (pf_s3 pf))) (\<lambda>_.
     thenP (forP (\<lambda>item. bindP (liftP (json_string (pf_json pf) item ''id'')) (\<lambda>index_id.
         modifyP (\<lambda>st. st\<lparr>wr_create_args := AList.update index_id item (wr_create_args st)\<rparr>)))
       (js_items (pf_json pf) indexes_config))
     (updateIndexesState pf ita iti))"

text \<open>The shard with the lowest response time, the first one visited among equals.\<close>

fun choose_loop ::
  "'e etcd_lib \<Rightarrow> string \<Rightarrow> (string \<times> rat) option \<Rightarrow> string list \<Rightarrow>
    (('b, 'j, 'e, 's, 'p, 'cf, 'gf, 'w) WriterImpl, string) proc" where
  "choose_loop E index_id found [] = returnP (case found of None \<Rightarrow> '''' | Some (shard_id, _) \<Rightarrow> shard_id)"
| "choose_loop E index_id found (s # ss) =
     bindP (writer_etcd (GetSearcherAverageResponseTime E index_id s)) (\<lambda>shard_time.
       choose_loop E index_id
         (case found of
            None \<Rightarrow> Some (s, shard_time)
          | Some (shard_id, min_time) \<Rightarrow> if shard_time < min_time then Some (s, shard_time) else found) ss)"

definition chooseShard ::
  "('b, 'f, 'j, 'e, 's, 'p, 'cf, 'gf) pf \<Rightarrow> nat inner_order \<Rightarrow> string \<Rightarrow>
    (('b, 'j, 'e, 's, 'p, 'cf, 'gf, 'w) WriterImpl, string) proc" where
  "chooseShard pf iti index_id =
     thenP (modifyP (\<lambda>st. st\<lparr>wr_shards := touch_index index_id (wr_shards st)\<rparr>))
     (bindP (readP (\<lambda>st. map fst (iti (shards_of_index (wr_shards st) index_id)))) (\<lambda>names.
       choose_loop (pf_etcd pf) index_id None names))"

subsection \<open>Requests\<close>

definition writer_shard ::
  "string \<Rightarrow> string \<Rightarrow> (('b, 'j, 'e, 's, 'p, 'cf, 'gf, 'w) WriterImpl, nat) proc" where
  "writer_shard i s =
     thenP (modifyP (\<lambda>st. st\<lparr>wr_shards := touch_shard i s (wr_shards st)\<rparr>))
     (bindP (readP (\<lambda>st. shard_at (wr_shards st) i s)) (\<lambda>p.
       case p of None \<Rightarrow> throwP NullPointer | Some a \<Rightarrow> returnP a))"

text \<open>\<open>indexUpdateCallback\<close>: the reports of an index become tasks at the end of the queue.\<close>

definition indexUpdateCallback :: "nat \<Rightarrow> string \<Rightarrow> string \<Rightarrow> update_event \<Rightarrow> update_task" where
  "indexUpdateCallback a index_id shard_id event =
     \<lparr>ut_ids = fst event, ut_object = a, ut_segs = snd event, ut_index_id = index_id, ut_shard_id = shard_id\<rparr>"

definition writer_add ::
  "('b, 'f::{linorder, zero}, 'j, 'e, 's, 'p, 'cf, 'gf) pf \<Rightarrow> string \<Rightarrow> string \<Rightarrow> string \<Rightarrow> 'f list \<Rightarrow>
    (('b, 'j, 'e, 's, 'p, 'cf, 'gf, 'w) WriterImpl, unit) proc" where
  "writer_add pf index_id shard_id vec_id vec =
     bindP (writer_shard index_id shard_id) (\<lambda>a.
     bindP (readP (\<lambda>st. index_add (platform_vtable pf) 1 [vec_id] vec (wr_objects st ! a) (wr_rng st))) (\<lambda>r.
     bindP (liftP r) (\<lambda>(ix, g, events).
       modifyP (\<lambda>st. st\<lparr>wr_objects := (wr_objects st)[a := ix], wr_rng := g,
         wr_queue := wr_queue st @ map (indexUpdateCallback a index_id shard_id) events\<rparr>))))"

definition writer_erase ::
  "('b, 'f::{linorder, zero}, 'j, 'e, 's, 'p, 'cf, 'gf) pf \<Rightarrow> string \<Rightarrow> string \<Rightarrow> string \<Rightarrow>
    (('b, 'j, 'e, 's, 'p, 'cf, 'gf, 'w) WriterImpl, unit) proc" where
  "writer_erase pf index_id shard_id vec_id =
     bindP (writer_shard index_id shard_id) (\<lambda>a.
     bindP (readP (\<lambda>st. index_erase (platform_vtable pf) (wr_objects st ! a) 1 [vec_id])) (\<lambda>r.
     bindP (liftP r) (\<lambda>ix. modifyP (\<lambda>st. st\<lparr>wr_objects := (wr_objects st)[a := ix]\<rparr>))))"

definition ProcessWriteRequest ::
  "('b, 'f::{linorder, zero}, 'j, 'e, 's, 'p, 'cf, 'gf) pf \<Rightarrow> ((string \<times> 'j) list \<Rightarrow> (string \<times> 'j) list) \<Rightarrow>
    nat inner_order \<Rightarrow> 'f Document \<Rightarrow> (('b, 'j, 'e, 's, 'p, 'cf, 'gf, 'w) WriterImpl, grpc_status) proc" where
  "ProcessWriteRequest pf ita iti data =
     thenP (writer_prom (IncrementCounter (pf_prom pf) ''requests_count'' 1 []))
     (thenP (updateIndexesState pf ita iti)
     (case map_of (doc_attributes data) ''index-id'' of
        None \<Rightarrow> returnP (INVALID_ARGUMENT ''Missing index id'')
      | Some index_id \<Rightarrow>
          bindP (readP (\<lambda>st. map_of (wr_shards st) index_id)) (\<lambda>found.
            if found = None then returnP (INVALID_ARGUMENT ''Wrong index id'')
            else
              bindP (chooseShard pf iti index_id) (\<lambda>shard_id.
                let labels = [(''index_id'', index_id), (''shard_id'', shard_id)] in
                bindP (writer_prom (GetGaugeValue (pf_prom pf) as_size_t ''vectors_count'' labels)) (\<lambda>vec_cnt_opt.
                  let vec_cnt = (case vec_cnt_opt of None \<Rightarrow> 0 | Some n \<Rightarrow> n) in
                  thenP (if map_of (doc_attributes data) ''delete'' = None
                    then thenP (writer_add pf index_id shard_id (doc_id data) (doc_vector data))
                      (writer_prom (SetGauge (pf_prom pf) ''vectors_count'' (rnd64 (of_nat (size_add vec_cnt 1))) labels))
                    else thenP (writer_erase pf index_id index_id (doc_id data))
                      (writer_prom (SetGauge (pf_prom pf) ''vectors_count'' (rnd64 (of_nat (size_sub vec_cnt 1))) labels)))
                  (returnP StatusOK))))))"

subsection \<open>The tasks of the runner\<close>

text \<open>One added segment, as it is when the task runs: written to a file, stored, the file removed.\<close>

definition publish_segment ::
  "('b, 'f::{linorder, zero}, 'j, 'e, 's, 'p, 'cf, 'gf) pf \<Rightarrow> string \<Rightarrow> nat \<Rightarrow> nat \<Rightarrow>
    (('b, 'j, 'e, 's, 'p, 'cf, 'gf, 'w) WriterImpl, nat) proc" where
  "publish_segment pf index_id a p =
     bindP (readP (\<lambda>st. seg_at (wr_objects st ! a) p)) (\<lambda>seg.
       let added_filename = to_string_size (seg_id seg) in
       thenP (writer_storage (modifyP (\<lambda>c. c\<lparr>sc_files :=
         (sc_files c)(added_filename \<mapsto> SerializeSegment (platform_vtable pf) seg)\<rparr>)))
       (bindP (writer_storage (putObject (pf_s3 pf) (pf_hash pf) index_id added_filename)) (\<lambda>ok.
        thenP (writer_storage (modifyP (\<lambda>c. c\<lparr>sc_files := (sc_files c)(added_filename := None)\<rparr>)))
          (returnP (seg_id seg)))))"

definition updateIndex ::
  "('s, 'w) update_rpc \<Rightarrow> string \<Rightarrow> UpdateRequest \<Rightarrow> (('b, 'j, 'e, 's, 'p, 'cf, 'gf, 'w) WriterImpl, unit) proc" where
  "updateIndex rpc host request st =
     (case rpc host request (sc_s3 (wr_storage st), wr_world st) of (status, s3, w) \<Rightarrow>
        (if status = 0 then Inr ()
         else Inl (RuntimeError (''Error while processing request. gRPC status code: '' @ to_string_size status)),
         st\<lparr>wr_storage := (wr_storage st)\<lparr>sc_s3 := s3\<rparr>, wr_world := w\<rparr>))"

definition run_task ::
  "('b, 'f::{linorder, zero}, 'j, 'e, 's, 'p, 'cf, 'gf) pf \<Rightarrow> ('s, 'w) update_rpc \<Rightarrow> update_task \<Rightarrow>
    (('b, 'j, 'e, 's, 'p, 'cf, 'gf, 'w) WriterImpl, unit) proc" where
  "run_task pf rpc task =
     (let index_id = ut_index_id task; shard_id = ut_shard_id task in
      thenP (writer_prom (IncrementCounter (pf_prom pf) ''callback_calls_count'' 1
        [(''index_id'', index_id), (''shard_id'', shard_id)]))
      (bindP (mapP (publish_segment pf index_id (ut_object task)) (ut_segs task)) (\<lambda>added.
       thenP (forP (\<lambda>n. bindP (writer_storage (delObject (pf_s3 pf) (pf_hash pf) index_id (to_string_size n)))
           (\<lambda>ok. returnP ())) (ut_ids task))
       (bindP (writer_etcd (ListSearcherHosts (pf_etcd pf) index_id (Some shard_id))) (\<lambda>hosts.
         forP (\<lambda>host. updateIndex rpc host
             \<lparr>up_added = added, up_deleted = ut_ids task, up_index_id = index_id, up_shard_id = shard_id\<rparr>) hosts)))))"

text \<open>The thread of the runner takes the oldest task; an exception that escapes a task ends the process.\<close>

definition runner_step ::
  "('b, 'f::{linorder, zero}, 'j, 'e, 's, 'p, 'cf, 'gf) pf \<Rightarrow> ('s, 'w) update_rpc \<Rightarrow>
    (('b, 'j, 'e, 's, 'p, 'cf, 'gf, 'w) WriterImpl, unit) proc" where
  "runner_step pf rpc =
     bindP (readP wr_queue) (\<lambda>queue.
       case queue of
         [] \<Rightarrow> returnP ()
       | task # rest \<Rightarrow> thenP (modifyP (\<lambda>st. st\<lparr>wr_queue := rest\<rparr>)) (run_task pf rpc task))"

text \<open>The destructor of the writer waits until the queue is empty; no request comes in any more.\<close>

definition writer_join ::
  "('b, 'f::{linorder, zero}, 'j, 'e, 's, 'p, 'cf, 'gf) pf \<Rightarrow> ('s, 'w) update_rpc \<Rightarrow>
    (('b, 'j, 'e, 's, 'p, 'cf, 'gf, 'w) WriterImpl, unit) proc" where
  "writer_join pf rpc =
     bindP (readP wr_queue) (\<lambda>queue. forP (\<lambda>_. runner_step pf rpc) queue)"

section \<open>The metrics of the writer\<close>

definition writer_counters :: "string set" where
  "writer_counters = {''requests_count'', ''callback_calls_count''}"

text \<open>\<open>v ls\<close> is the value of the gauge \<open>vectors_count\<close>; a double counts up to \<open>2 ^ 53\<close>.\<close>

definition writer_metrics ::
  "('p, 'cf, 'gf) prom_lib \<Rightarrow> ('p, 'cf, 'gf) PrometheusExposer \<Rightarrow> (labels \<Rightarrow> nat) \<Rightarrow> bool" where
  "writer_metrics P p v \<longleftrightarrow> (\<exists>cv gv cn gn M. prom_holds P writer_counters {''vectors_count''} cv gv cn gn p M \<and>
     (\<forall>ls. v ls \<le> 2 ^ 53 \<and> mv_gauge M ''vectors_count'' ls = of_nat (v ls)) \<and>
     (''vectors_count'' \<notin> mv_gauges M \<longrightarrow> (\<forall>ls. v ls = 0)))"

lemma writer_metrics_inc:
  assumes "writer_metrics P p v" and "n \<in> writer_counters" and "labels_ok ls"
  shows "\<exists>p'. IncrementCounter P n 1 ls p = (Inr (), p') \<and> writer_metrics P p' v"
proof -
  from assms(1) [unfolded writer_metrics_def] obtain cv gv cn gn M where M: "prom_holds P writer_counters {''vectors_count''} cv gv cn gn p M"
    "\<forall>ls. v ls \<le> 2 ^ 53 \<and> mv_gauge M ''vectors_count'' ls = of_nat (v ls)"
    "''vectors_count'' \<notin> mv_gauges M \<longrightarrow> (\<forall>ls. v ls = 0)" by blast
  from prom.inc_holds [OF M(1) assms(2,3), of 1] obtain p' where p': "IncrementCounter P n 1 ls p = (Inr (), p')"
    "prom_holds P writer_counters {''vectors_count''} cv gv cn gn p' (count_up n 1 ls M)" by auto
  have "mv_gauge (count_up n 1 ls M) = mv_gauge M" "mv_gauges (count_up n 1 ls M) = mv_gauges M" by (simp_all add: count_up_def)
  with p' M(2,3) show ?thesis unfolding writer_metrics_def by metis
qed

lemma GetGaugeValue_convert:
  assumes "GetGaugeValue P as_double n ls s = (Inr v, s')" and "\<And>x. v = Some x \<Longrightarrow> conv x = Inr (f x)"
  shows "GetGaugeValue P conv n ls s = (Inr (map_option f v), s')"
  using assms
  by (auto simp: GetGaugeValue_def proc_defs as_double_def split: option.splits prod.splits sum.splits if_splits)

lemma writer_metrics_get:
  assumes "writer_metrics P p v" and "labels_ok ls"
  shows "\<exists>p' w. GetGaugeValue P as_size_t ''vectors_count'' ls p = (Inr w, p') \<and> writer_metrics P p' v \<and>
    (case w of None \<Rightarrow> 0 | Some n \<Rightarrow> n) = v ls"
proof -
  from assms(1) [unfolded writer_metrics_def] obtain cv gv cn gn M where M: "prom_holds P writer_counters {''vectors_count''} cv gv cn gn p M"
    "\<forall>ls. v ls \<le> 2 ^ 53 \<and> mv_gauge M ''vectors_count'' ls = of_nat (v ls)"
    "''vectors_count'' \<notin> mv_gauges M \<longrightarrow> (\<forall>ls. v ls = 0)" by blast
  from prom.gauge_read [OF M(1) assms(2), of "''vectors_count''"] obtain p'
    where p': "GetGaugeValue P as_double ''vectors_count'' ls p =
        (Inr (if ''vectors_count'' \<in> mv_gauges M then Some (of_nat (v ls)) else None), p')"
      "prom_holds P writer_counters {''vectors_count''} cv gv cn gn p' M" using M(2) by auto
  have "v ls \<le> 2 ^ 53" using M(2) by blast
  then have "v ls < 2 ^ 64" by simp
  then have "(of_nat (v ls) :: rat) < of_nat (2 ^ 64)" unfolding of_nat_less_iff .
  then have "(of_nat (v ls) :: rat) < 2 ^ 64" by simp
  moreover have "-1 < (of_nat (v ls) :: rat)" by (rule less_le_trans [of _ 0]) simp_all
  ultimately have "as_size_t (of_nat (v ls)) = Inr (v ls)" by (simp add: as_size_t_def)
  then have "GetGaugeValue P as_size_t ''vectors_count'' ls p =
      (Inr (map_option (\<lambda>_. v ls) (if ''vectors_count'' \<in> mv_gauges M then Some (of_nat (v ls) :: rat) else None)), p')"
    by (intro GetGaugeValue_convert [OF p'(1)]) (auto split: if_splits)
  moreover have "writer_metrics P p' v" using p'(2) M(2,3) unfolding writer_metrics_def by blast
  ultimately show ?thesis using M(3) by auto
qed

lemma next_count:
  assumes "n \<le> 2 ^ 53"
  shows "rnd64 (of_nat (size_add n 1)) = of_nat (min (n + 1) (2 ^ 53))"
proof (cases "n = 2 ^ 53")
  case True
  have "rnd64 (2 ^ 53 + 1) = 2 ^ 53" by code_simp
  then show ?thesis by (simp add: True size_add_def)
next
  case False
  with assms show ?thesis using double.rnd_nat [of "n + 1"] by (simp add: size_add_def min_def)
qed

lemma writer_metrics_set:
  assumes "writer_metrics P p v" and "labels_ok ls"
  shows "\<exists>p'. SetGauge P ''vectors_count'' (rnd64 (of_nat (size_add (v ls) 1))) ls p = (Inr (), p') \<and>
    writer_metrics P p' (v(ls := min (v ls + 1) (2 ^ 53)))"
proof -
  from assms(1) [unfolded writer_metrics_def] obtain cv gv cn gn M where M: "prom_holds P writer_counters {''vectors_count''} cv gv cn gn p M"
    "\<forall>ls. v ls \<le> 2 ^ 53 \<and> mv_gauge M ''vectors_count'' ls = of_nat (v ls)" by blast
  let ?v = "v(ls := min (v ls + 1) (2 ^ 53))"
  have "v ls \<le> 2 ^ 53" using M(2) by blast
  from prom.set_holds [OF M(1) _ assms(2), of "''vectors_count''" "of_nat (?v ls)"] next_count [OF this] obtain p'
    where p': "SetGauge P ''vectors_count'' (rnd64 (of_nat (size_add (v ls) 1))) ls p = (Inr (), p')"
      "prom_holds P writer_counters {''vectors_count''} cv gv cn gn p' (put_gauge ''vectors_count'' (of_nat (?v ls)) ls M)" by auto
  have "\<forall>ls'. ?v ls' \<le> 2 ^ 53 \<and> mv_gauge (put_gauge ''vectors_count'' (of_nat (?v ls)) ls M) ''vectors_count'' ls' = of_nat (?v ls')"
    "''vectors_count'' \<in> mv_gauges (put_gauge ''vectors_count'' (of_nat (?v ls)) ls M)"
    using M(2) by (auto simp: put_gauge_def)
  with p' show ?thesis unfolding writer_metrics_def by blast
qed

end
