(* ===== verification/Writer_State.thy ===== *)
theory Writer_State
  imports Writer
begin

text \<open>
  The invariant of the writer and how \<open>updateIndexesState\<close> follows the shards that etcd lists: shards
  that are listed keep their index or get a new one, shards that are not listed any more disappear.
\<close>

section \<open>The invariant\<close>

text \<open>Every object is an index that satisfies its invariant, and no segment identifier occurs twice.\<close>

definition objects_ok ::
  "('b, 'f::{linorder, zero}, 'j, 'e, 's, 'p, 'cf, 'gf) pf \<Rightarrow> ('b \<Rightarrow> 'f list list) \<Rightarrow> ('f list \<Rightarrow> 'f list \<Rightarrow> 'f) \<Rightarrow>
    'b shard_index list \<Rightarrow> rng \<Rightarrow> bool" where
  "objects_ok pf vecs dst objs g \<longleftrightarrow> inj g \<and>
     (\<forall>ix \<in> set objs. faiss_index_inv (pf_faiss pf) vecs dst (pf_merge_order pf) ix \<and> ix_callback ix \<and>
        seg_ids ix \<inter> range g = {}) \<and>
     (\<forall>a < length objs. \<forall>b < length objs. a \<noteq> b \<longrightarrow> seg_ids (objs ! a) \<inter> seg_ids (objs ! b) = {})"

text \<open>Every entry of \<open>shards\<close> belongs to a configured index and points to an object of its own.\<close>

definition shards_ok ::
  "('b, 'f, 'j, 'e, 's, 'p, 'cf, 'gf) pf \<Rightarrow> (string \<Rightarrow> index_config) \<Rightarrow> (string \<times> 'j) list \<Rightarrow>
    'b shard_index list \<Rightarrow> nat shard_map \<Rightarrow> bool" where
  "shards_ok pf cfg args objs m \<longleftrightarrow> nested_wf m \<and> fst ` set m \<subseteq> fst ` set args \<and>
     (\<forall>i s. (i, s) \<in> nested_keys m \<longrightarrow> (\<exists>a < length objs. shard_at m i s = Some a \<and> configured pf (cfg i) (objs ! a))) \<and>
     (\<forall>i s j t a. shard_at m i s = Some a \<longrightarrow> shard_at m j t = Some a \<longrightarrow> (i, s) = (j, t))"

definition platform_ok ::
  "('b, 'f::{linorder, zero}, 'j, 'e, 's, 'p, 'cf, 'gf) pf \<Rightarrow> ('b \<Rightarrow> 'f list list) \<Rightarrow> ('f list \<Rightarrow> 'f list \<Rightarrow> 'f) \<Rightarrow>
    ('s \<Rightarrow> string set) \<Rightarrow> ('s \<Rightarrow> string \<times> string \<rightharpoonup> string) \<Rightarrow> bool" where
  "platform_ok pf vecs dst buckets objects \<longleftrightarrow> faiss_contract (pf_faiss pf) vecs dst \<and>
     faiss_files (pf_faiss pf) vecs \<and> reorders (pf_merge_order pf) \<and> reorders (pf_result_order pf) \<and>
     file_order_ok (pf_file_order pf) \<and> s3_contract (pf_s3 pf) buckets objects"

text \<open>The buckets of the indexes that have shards exist.\<close>

definition buckets_ok :: "('b, 'f, 'j, 'e, 's, 'p, 'cf, 'gf) pf \<Rightarrow> string set \<Rightarrow> string set \<Rightarrow> bool" where
  "buckets_ok pf B I \<longleftrightarrow> (\<forall>i \<in> I. makeBucketName (pf_hash pf) i \<in> B)"

definition writer_ok ::
  "('b, 'f::{linorder, zero}, 'j, 'e, 's, 'p, 'cf, 'gf) pf \<Rightarrow> ('b \<Rightarrow> 'f list list) \<Rightarrow> ('f list \<Rightarrow> 'f list \<Rightarrow> 'f) \<Rightarrow>
    ('s \<Rightarrow> string set) \<Rightarrow> (string \<Rightarrow> index_config) \<Rightarrow> ('b, 'j, 'e, 's, 'p, 'cf, 'gf, 'w) WriterImpl \<Rightarrow> bool" where
  "writer_ok pf vecs dst buckets cfg st \<longleftrightarrow>
     sc_s3Client (wr_storage st) \<and> distinct (map fst (wr_create_args st)) \<and>
     (\<forall>i json. map_of (wr_create_args st) i = Some json \<longrightarrow> no_slash i \<and> config_ok pf json (cfg i)) \<and>
     objects_ok pf vecs dst (wr_objects st) (wr_rng st) \<and>
     shards_ok pf cfg (wr_create_args st) (wr_objects st) (wr_shards st) \<and>
     buckets_ok pf (buckets (sc_s3 (wr_storage st))) (fst ` set (wr_shards st))"

lemma map_of_key: "map_of m i = Some x \<Longrightarrow> i \<in> fst ` set m"
  by (force dest: map_of_SomeD)

lemma shards_okD:
  assumes "shards_ok pf cfg args objs m"
  shows "nested_wf m" and "fst ` set m \<subseteq> fst ` set args"
    and "(i, s) \<in> nested_keys m \<Longrightarrow> \<exists>a < length objs. shard_at m i s = Some a \<and> configured pf (cfg i) (objs ! a)"
    and "shard_at m i s = Some a \<Longrightarrow> shard_at m j t = Some a \<Longrightarrow> (i, s) = (j, t)"
  using assms unfolding shards_ok_def by blast+

lemma shards_okI:
  assumes "nested_wf m" and "fst ` set m \<subseteq> fst ` set args"
    and "\<And>i s. (i, s) \<in> nested_keys m \<Longrightarrow> \<exists>a < length objs. shard_at m i s = Some a \<and> configured pf (cfg i) (objs ! a)"
    and "\<And>i s j t a. shard_at m i s = Some a \<Longrightarrow> shard_at m j t = Some a \<Longrightarrow> (i, s) = (j, t)"
  shows "shards_ok pf cfg args objs m"
  unfolding shards_ok_def
proof (intro conjI allI impI)
  show "nested_wf m" by (fact assms(1))
  show "fst ` set m \<subseteq> fst ` set args" by (fact assms(2))
  show "(i, s) \<in> nested_keys m \<Longrightarrow> \<exists>a < length objs. shard_at m i s = Some a \<and> configured pf (cfg i) (objs ! a)" for i s
    by (fact assms(3))
  show "shard_at m i s = Some a \<Longrightarrow> shard_at m j t = Some a \<Longrightarrow> (i, s) = (j, t)" for i s j t a by (fact assms(4))
qed

lemma shards_ok_bound:
  "shards_ok pf cfg args objs m \<Longrightarrow> shard_at m i s = Some a \<Longrightarrow> a < length objs"
  using shards_okD(3) shard_at_key by (metis option.inject)

lemma shards_ok_append:
  assumes "shards_ok pf cfg args objs m"
  shows "shards_ok pf cfg args (objs @ new) m"
proof (rule shards_okI)
  fix i s assume "(i, s) \<in> nested_keys m"
  with shards_okD(3) [OF assms] obtain a where "a < length objs" "shard_at m i s = Some a" "configured pf (cfg i) (objs ! a)"
    by blast
  then show "\<exists>a < length (objs @ new). shard_at m i s = Some a \<and> configured pf (cfg i) ((objs @ new) ! a)"
    by (intro exI [of _ a]) (simp add: nth_append)
qed (fact shards_okD(1) [OF assms] shards_okD(2) [OF assms] | erule (1) shards_okD(4) [OF assms])+

text \<open>A new entry for a new object.\<close>

lemma shards_ok_new:
  assumes ok: "shards_ok pf cfg args objs m" and new: "(i, s) \<notin> nested_keys m"
    and i: "i \<in> fst ` set args" and ix: "configured pf (cfg i) ix"
  shows "shards_ok pf cfg args (objs @ [ix]) (put_shard i s (length objs) m)"
proof (rule shards_okI)
  show "nested_wf (put_shard i s (length objs) m)"
    using nested_wf_put shards_okD(1) [OF ok] by (auto simp: put_shard_def)
  show "fst ` set (put_shard i s (length objs) m) \<subseteq> fst ` set args"
    using shards_okD(2) [OF ok] i by (auto simp: put_shard_def nested_put_def dom_update)
next
  fix j t assume "(j, t) \<in> nested_keys (put_shard i s (length objs) m)"
  then consider "(j, t) = (i, s)" | "(j, t) \<noteq> (i, s)" "(j, t) \<in> nested_keys m" by (auto simp: put_shard_def)
  then show "\<exists>a < length (objs @ [ix]). shard_at (put_shard i s (length objs) m) j t = Some a \<and>
      configured pf (cfg j) ((objs @ [ix]) ! a)"
  proof cases
    case 1
    with ix show ?thesis by (intro exI [of _ "length objs"]) simp
  next
    case 2
    from shards_okD(3) [OF shards_ok_append [OF ok, of "[ix]"] 2(2)] 2(1) show ?thesis by auto
  qed
next
  fix j t j' t' a
  assume "shard_at (put_shard i s (length objs) m) j t = Some a" "shard_at (put_shard i s (length objs) m) j' t' = Some a"
  moreover have "shard_at m k u \<noteq> Some (length objs)" for k u using shards_ok_bound [OF ok, of k u] by auto
  ultimately show "(j, t) = (j', t')" using shards_okD(4) [OF ok] by (simp split: if_splits)
qed

lemma objects_okD:
  assumes "objects_ok pf vecs dst objs g"
  shows "inj g"
    and "ix \<in> set objs \<Longrightarrow> faiss_index_inv (pf_faiss pf) vecs dst (pf_merge_order pf) ix"
    and "ix \<in> set objs \<Longrightarrow> ix_callback ix" and "ix \<in> set objs \<Longrightarrow> seg_ids ix \<inter> range g = {}"
    and "a < length objs \<Longrightarrow> b < length objs \<Longrightarrow> a \<noteq> b \<Longrightarrow> seg_ids (objs ! a) \<inter> seg_ids (objs ! b) = {}"
  using assms unfolding objects_ok_def by blast+

lemma objects_okI:
  assumes "inj g"
    and "\<And>a. a < length objs \<Longrightarrow> faiss_index_inv (pf_faiss pf) vecs dst (pf_merge_order pf) (objs ! a) \<and>
      ix_callback (objs ! a) \<and> seg_ids (objs ! a) \<inter> range g = {}"
    and "\<And>a b. a < b \<Longrightarrow> b < length objs \<Longrightarrow> seg_ids (objs ! a) \<inter> seg_ids (objs ! b) = {}"
  shows "objects_ok pf vecs dst objs g"
  unfolding objects_ok_def
proof (intro conjI allI impI ballI)
  fix a b assume "a < length objs" "b < length objs" "a \<noteq> b"
  then show "seg_ids (objs ! a) \<inter> seg_ids (objs ! b) = {}"
    using assms(3) [of a b] assms(3) [of b a] by (cases "a < b") auto
qed (use assms(1,2) in \<open>auto simp: in_set_conv_nth\<close>)

lemma objects_ok_append:
  assumes ok: "objects_ok pf vecs dst objs g" and inv: "faiss_index_inv (pf_faiss pf) vecs dst (pf_merge_order pf) ix"
    and cb: "ix_callback ix" and ids: "seg_ids ix = {g 0}"
  shows "objects_ok pf vecs dst (objs @ [ix]) (\<lambda>i. g (Suc i))"
proof (rule objects_okI)
  note O = objects_okD [OF ok]
  show "inj (\<lambda>i. g (Suc i))" using O(1) by (rule inj_suffix)
  have "g 0 \<notin> range (\<lambda>i. g (Suc i))" using O(1) by (auto simp: inj_on_def)
  moreover have sub: "range (\<lambda>i. g (Suc i)) \<subseteq> range g" by auto
  ultimately show "faiss_index_inv (pf_faiss pf) vecs dst (pf_merge_order pf) ((objs @ [ix]) ! a) \<and>
      ix_callback ((objs @ [ix]) ! a) \<and> seg_ids ((objs @ [ix]) ! a) \<inter> range (\<lambda>i. g (Suc i)) = {}"
    if "a < length (objs @ [ix])" for a
    using that O(2,3,4) [of "objs ! a"] inv cb ids by (cases "a < length objs") (auto simp: nth_append)
  show "seg_ids ((objs @ [ix]) ! a) \<inter> seg_ids ((objs @ [ix]) ! b) = {}" if "a < b" "b < length (objs @ [ix])" for a b
    using that O(4) [of "objs ! a"] O(5) [of a b] ids by (cases "b < length objs") (auto simp: nth_append)
qed

section \<open>New shards\<close>

definition empty_index :: "('b \<Rightarrow> 'f list list) \<Rightarrow> 'b shard_index \<Rightarrow> bool" where
  "empty_index vecs ix \<longleftrightarrow> faiss_index_docs vecs ix = {#} \<and> index_known faiss_known ix = {} \<and> (\<exists>n. fresh_index n ix)"

lemma index_setUpdateCallback_simps [simp]:
  "faiss_index_inv F vecs dst it (index_setUpdateCallback ix) \<longleftrightarrow> faiss_index_inv F vecs dst it ix"
  "empty_index vecs (index_setUpdateCallback ix) \<longleftrightarrow> empty_index vecs ix"
  "seg_ids (index_setUpdateCallback ix) = seg_ids ix" "ix_callback (index_setUpdateCallback ix)"
  "configured pf cf (index_setUpdateCallback ix) \<longleftrightarrow> configured pf cf ix"
  by (simp_all add: index_setUpdateCallback_def faiss_index_inv_def index_inv_def index_wf_def index_params_def owners_def
      empty_index_def index_docs_def index_known_def seg_ids_def configured_def fresh_index_def)

lemma fst_put_shard: "fst ` set (put_shard i s a m) = insert i (fst ` set m)"
  by (simp add: put_shard_def nested_put_def dom_update)

lemma writer_create_shard_ok:
  fixes pf :: "('b, 'f::{linorder, zero}, 'j, 'e, 's, 'p, 'cf, 'gf) pf"
  assumes pok: "platform_ok pf vecs dst buckets objects" and ok: "writer_ok pf vecs dst buckets cfg st"
    and json: "map_of (wr_create_args st) i = Some json" and i: "i \<in> fst ` set (wr_shards st)"
    and s: "(i, s) \<notin> nested_keys (wr_shards st)"
  shows "\<exists>ix. let st' = st\<lparr>wr_objects := wr_objects st @ [ix], wr_rng := (\<lambda>i. wr_rng st (Suc i)),
      wr_shards := put_shard i s (length (wr_objects st)) (wr_shards st)\<rparr> in
    writer_create_shard pf i json s st = (Inr (), st') \<and> empty_index vecs ix \<and> writer_ok pf vecs dst buckets cfg st'"
proof -
  have objs: "objects_ok pf vecs dst (wr_objects st) (wr_rng st)"
    and shards: "shards_ok pf cfg (wr_create_args st) (wr_objects st) (wr_shards st)"
    and cf: "config_ok pf json (cfg i)" using ok json by (auto simp: writer_ok_def)
  have con: "faiss_contract (pf_faiss pf) vecs dst" "reorders (pf_merge_order pf)" using pok by (simp_all add: platform_ok_def)
  from platform_CreateIndex [OF con objects_okD(1) [OF objs] cf] obtain ix where
    ix: "CreateIndex (pf_faiss pf) (pf_json pf) json (wr_rng st) = Inr (ix, \<lambda>i. wr_rng st (Suc i))"
      "faiss_index_inv (pf_faiss pf) vecs dst (pf_merge_order pf) ix" "configured pf (cfg i) ix" "seg_ids ix = {wr_rng st 0}"
    and empty: "empty_index vecs ix" by (auto simp: empty_index_def)
  let ?ix = "index_setUpdateCallback ix"
  have "objects_ok pf vecs dst (wr_objects st @ [?ix]) (\<lambda>i. wr_rng st (Suc i))"
    using ix by (intro objects_ok_append [OF objs]) simp_all
  moreover have "shards_ok pf cfg (wr_create_args st) (wr_objects st @ [?ix])
      (put_shard i s (length (wr_objects st)) (wr_shards st))"
    using map_of_key [OF json] ix(3) by (intro shards_ok_new [OF shards s]) simp_all
  ultimately show ?thesis
    using ok ix(1) empty i
    by (intro exI [of _ ?ix]) (simp add: Let_def writer_create_shard_def proc_defs writer_ok_def fst_put_shard insert_absorb)
qed

lemma writer_create_shards_ok:
  fixes pf :: "('b, 'f::{linorder, zero}, 'j, 'e, 's, 'p, 'cf, 'gf) pf"
  assumes pok: "platform_ok pf vecs dst buckets objects"
  shows "\<lbrakk>writer_ok pf vecs dst buckets cfg st; map_of (wr_create_args st) i = Some json; i \<in> fst ` set (wr_shards st);
      distinct ss; \<forall>s \<in> set ss. (i, s) \<notin> nested_keys (wr_shards st)\<rbrakk> \<Longrightarrow>
    \<exists>new g m. let st' = st\<lparr>wr_objects := wr_objects st @ new, wr_rng := g, wr_shards := m\<rparr> in
      forP (writer_create_shard pf i json) ss st = (Inr (), st') \<and> writer_ok pf vecs dst buckets cfg st' \<and>
      (\<forall>ix \<in> set new. empty_index vecs ix) \<and> nested_keys m = nested_keys (wr_shards st) \<union> {i} \<times> set ss \<and>
      (\<forall>j t a. shard_at m j t = Some a \<longrightarrow> shard_at (wr_shards st) j t = Some a \<or>
        (j, t) \<notin> nested_keys (wr_shards st) \<and> length (wr_objects st) \<le> a) \<and>
      fst ` set m = fst ` set (wr_shards st)"
proof (induction ss arbitrary: st)
  case Nil
  then show ?case
    by (intro exI [of _ "[]"] exI [of _ "wr_rng st"] exI [of _ "wr_shards st"]) (simp add: Let_def)
next
  case (Cons s ss)
  from writer_create_shard_ok [OF pok Cons.prems(1-3), of s] Cons.prems(5) obtain ix st1
    where st1: "st1 = st\<lparr>wr_objects := wr_objects st @ [ix], wr_rng := (\<lambda>i. wr_rng st (Suc i)),
        wr_shards := put_shard i s (length (wr_objects st)) (wr_shards st)\<rparr>"
      and one: "writer_create_shard pf i json s st = (Inr (), st1)" "empty_index vecs ix" "writer_ok pf vecs dst buckets cfg st1"
    by (auto simp: Let_def)
  have keys1: "nested_keys (wr_shards st1) = insert (i, s) (nested_keys (wr_shards st))" by (simp add: st1 put_shard_def)
  have "\<forall>t \<in> set ss. (i, t) \<notin> nested_keys (wr_shards st1)" using Cons.prems(4,5) by (auto simp: keys1)
  with Cons.IH [OF one(3)] Cons.prems(2-4) obtain new g m where
    IH: "forP (writer_create_shard pf i json) ss st1 = (Inr (), st1\<lparr>wr_objects := wr_objects st1 @ new, wr_rng := g, wr_shards := m\<rparr>)"
      "writer_ok pf vecs dst buckets cfg (st1\<lparr>wr_objects := wr_objects st1 @ new, wr_rng := g, wr_shards := m\<rparr>)"
      "\<forall>ix \<in> set new. empty_index vecs ix" "nested_keys m = nested_keys (wr_shards st1) \<union> {i} \<times> set ss"
      "\<forall>j t a. shard_at m j t = Some a \<longrightarrow> shard_at (wr_shards st1) j t = Some a \<or>
        (j, t) \<notin> nested_keys (wr_shards st1) \<and> length (wr_objects st1) \<le> a"
      "fst ` set m = fst ` set (wr_shards st1)"
    by (auto simp: Let_def st1 fst_put_shard)
  have "shard_at (wr_shards st) j t = Some a \<or> (j, t) \<notin> nested_keys (wr_shards st) \<and> length (wr_objects st) \<le> a"
    if "shard_at m j t = Some a" for j t a
    using IH(5) [rule_format, OF that] Cons.prems(5) unfolding keys1 by (auto simp: st1 split: if_splits)
  moreover have "nested_keys m = nested_keys (wr_shards st) \<union> {i} \<times> set (s # ss)" using IH(4) keys1 by auto
  moreover have "fst ` set m = fst ` set (wr_shards st)"
    using IH(6) Cons.prems(3) by (simp add: st1 fst_put_shard insert_absorb)
  ultimately show ?case
    using one(1,2) IH(1-3)
    by (intro exI [of _ "ix # new"] exI [of _ g] exI [of _ m]) (simp add: Let_def bindP_def st1)
qed

section \<open>Following the registry\<close>

lemma shards_ok_sub:
  assumes ok: "shards_ok pf cfg args objs m" and "nested_wf m'" and "fst ` set m' \<subseteq> fst ` set args"
    and sub: "\<And>i s. (i, s) \<in> nested_keys m' \<Longrightarrow> (i, s) \<in> nested_keys m \<and> shard_at m' i s = shard_at m i s"
  shows "shards_ok pf cfg args objs m'"
proof (rule shards_okI)
  show "\<exists>a < length objs. shard_at m' i s = Some a \<and> configured pf (cfg i) (objs ! a)" if "(i, s) \<in> nested_keys m'" for i s
    using sub [OF that] shards_okD(3) [OF ok] by simp
  show "(i, s) = (j, t)" if "shard_at m' i s = Some a" "shard_at m' j t = Some a" for i s j t a
    using that sub [OF shard_at_key [OF that(1)]] sub [OF shard_at_key [OF that(2)]] by (metis shards_okD(4) [OF ok])
qed (fact assms(2,3))+

text \<open>\<open>shards.erase(index_id)\<close>.\<close>

lemma delete_index_shards:
  shows "nested_wf m \<Longrightarrow> nested_wf (AList.delete i m)" and "fst ` set (AList.delete i m) = fst ` set m - {i}"
    and "nested_keys (AList.delete i m) = {(j, t) \<in> nested_keys m. j \<noteq> i}"
    and "shard_at (AList.delete i m) j t = (if j = i then None else shard_at m j t)"
proof -
  have set: "set (AList.delete i m) = {p \<in> set m. fst p \<noteq> i}" by (auto simp: AList.delete_eq)
  show "nested_wf m \<Longrightarrow> nested_wf (AList.delete i m)" by (auto simp: nested_wf_def set distinct_delete)
  show "fst ` set (AList.delete i m) = fst ` set m - {i}" by (force simp: set)
  show "nested_keys (AList.delete i m) = {(j, t) \<in> nested_keys m. j \<noteq> i}"
    by (auto simp: nested_keys_def delete_conv' split: if_splits)
  show "shard_at (AList.delete i m) j t = (if j = i then None else shard_at m j t)"
    by (simp add: shard_at_def nested_get_def delete_conv')
qed

text \<open>Keeping the listed shards of an index.\<close>

definition keep_shards :: "nat inner_order \<Rightarrow> string \<Rightarrow> string list \<Rightarrow> nat shard_map \<Rightarrow> nat shard_map" where
  "keep_shards iti i ids m = AList.update i
     (fold AList.delete (filter (\<lambda>s. s \<notin> set ids) (map fst (iti (shards_of_index m i)))) (shards_of_index m i)) m"

lemma shard_at_index: "shard_at m i s = (case map_of (shards_of_index m i) s of None \<Rightarrow> None | Some p \<Rightarrow> p)"
  by (simp add: shard_at_def nested_get_def shards_of_index_def split: option.split)

lemma nested_keys_index: "(i, s) \<in> nested_keys m \<longleftrightarrow> s \<in> dom (map_of (shards_of_index m i))"
  by (auto simp: nested_keys_def shards_of_index_def split: option.split)

lemma shards_of_index_update: "shards_of_index (AList.update i x m) j = (if j = i then x else shards_of_index m j)"
  by (simp add: shards_of_index_def update_conv')

lemma map_of_fold_delete: "map_of (fold AList.delete ks m) k = (if k \<in> set ks then None else map_of m k)"
  by (induction ks arbitrary: m) (auto simp: delete_conv')

lemma distinct_fold_delete: "distinct (map fst m) \<Longrightarrow> distinct (map fst (fold AList.delete ks m))"
  by (induction ks arbitrary: m) (auto simp: distinct_delete)

lemma keep_shards_simps:
  assumes "reorders iti"
  shows "shard_at (keep_shards iti i ids m) j t = (if j = i \<and> t \<notin> set ids then None else shard_at m j t)"
    and "nested_keys (keep_shards iti i ids m) = {(j, t) \<in> nested_keys m. j = i \<longrightarrow> t \<in> set ids}"
    and "fst ` set (keep_shards iti i ids m) = insert i (fst ` set m)"
    and "nested_wf m \<Longrightarrow> nested_wf (keep_shards iti i ids m)"
proof -
  let ?m = "shards_of_index m i"
  let ?m' = "fold AList.delete (filter (\<lambda>s. s \<notin> set ids) (map fst (iti ?m))) ?m"
  have m': "map_of ?m' t = (if t \<in> set ids then map_of ?m t else None)" for t
    using assms by (auto simp: map_of_fold_delete reorders_set map_of_eq_None_iff)
  show "shard_at (keep_shards iti i ids m) j t = (if j = i \<and> t \<notin> set ids then None else shard_at m j t)"
    unfolding shard_at_index [of _ j t] keep_shards_def by (simp add: shards_of_index_update m')
  show "nested_keys (keep_shards iti i ids m) = {(j, t) \<in> nested_keys m. j = i \<longrightarrow> t \<in> set ids}"
    by (auto simp: nested_keys_index keep_shards_def shards_of_index_update m' split: if_splits)
  show "fst ` set (keep_shards iti i ids m) = insert i (fst ` set m)" by (simp add: keep_shards_def dom_update)
  show "nested_wf (keep_shards iti i ids m)" if wf: "nested_wf m"
  proof -
    have "distinct (map fst ?m)"
      using wf by (auto simp: shards_of_index_def nested_wf_def split: option.split dest: map_of_SomeD)
    then have "distinct (map fst ?m')" by (rule distinct_fold_delete)
    then show ?thesis
      using wf set_update_subset [of i ?m' m] by (fastforce simp: keep_shards_def nested_wf_def distinct_update)
  qed
qed

lemma add_index_simps:
  assumes "i \<notin> fst ` set m"
  shows "shard_at (AList.update i [] m) j t = shard_at m j t" and "nested_keys (AList.update i [] m) = nested_keys m"
    and "nested_wf m \<Longrightarrow> nested_wf (AList.update i [] m)" and "fst ` set (AList.update i [] m) = insert i (fst ` set m)"
proof -
  have i: "map_of m i = None" using assms by (simp add: map_of_eq_None_iff)
  then show "shard_at (AList.update i [] m) j t = shard_at m j t" "nested_keys (AList.update i [] m) = nested_keys m"
    by (auto simp: shard_at_def nested_get_def nested_keys_def update_conv' split: if_splits)
  show "nested_wf m \<Longrightarrow> nested_wf (AList.update i [] m)"
    using set_update_subset [of i "[]" m] by (fastforce simp: nested_wf_def distinct_update)
  show "fst ` set (AList.update i [] m) = insert i (fst ` set m)" by (simp add: dom_update)
qed

text \<open>
  \<open>st'\<close> differs from \<open>st\<close> in that the indexes in \<open>I\<close> have exactly the shards that \<open>L\<close> lists: old shards
  keep their object, new ones have a new object without documents.
\<close>

definition refresh_spec ::
  "('b \<Rightarrow> 'f list list) \<Rightarrow> ('s \<Rightarrow> string \<times> string \<rightharpoonup> string) \<Rightarrow> string set \<Rightarrow> (string \<Rightarrow> string set) \<Rightarrow>
    ('b, 'j, 'e, 's, 'p, 'cf, 'gf, 'w) WriterImpl \<Rightarrow> 'b shard_index list \<Rightarrow> nat shard_map \<Rightarrow> 's StorageClient \<Rightarrow> bool" where
  "refresh_spec vecs objects I L st new m c \<longleftrightarrow>
     sc_files c = sc_files (wr_storage st) \<and> objects (sc_s3 c) = objects (sc_s3 (wr_storage st)) \<and>
     (\<forall>ix \<in> set new. empty_index vecs ix) \<and>
     (\<forall>i s. (i, s) \<in> nested_keys m \<longleftrightarrow> (if i \<in> I then s \<in> L i else (i, s) \<in> nested_keys (wr_shards st))) \<and>
     (\<forall>i s a. shard_at m i s = Some a \<longrightarrow> shard_at (wr_shards st) i s = Some a \<or>
        (i, s) \<notin> nested_keys (wr_shards st) \<and> length (wr_objects st) \<le> a) \<and>
     (\<forall>i. i \<in> fst ` set m \<longleftrightarrow> (if i \<in> I then L i \<noteq> {} else i \<in> fst ` set (wr_shards st)))"

definition refreshed ::
  "('b \<Rightarrow> 'f list list) \<Rightarrow> ('s \<Rightarrow> string \<times> string \<rightharpoonup> string) \<Rightarrow> string set \<Rightarrow> (string \<Rightarrow> string set) \<Rightarrow>
    ('b, 'j, 'e, 's, 'p, 'cf, 'gf, 'w) WriterImpl \<Rightarrow> ('b, 'j, 'e, 's, 'p, 'cf, 'gf, 'w) WriterImpl \<Rightarrow> bool" where
  "refreshed vecs objects I L st st' \<longleftrightarrow> (\<exists>new g m c. refresh_spec vecs objects I L st new m c \<and>
     st' = st\<lparr>wr_objects := wr_objects st @ new, wr_rng := g, wr_shards := m, wr_storage := c\<rparr>)"

lemma refresh_specD:
  assumes "refresh_spec vecs objects I L st new m c"
  shows "sc_files c = sc_files (wr_storage st)" and "objects (sc_s3 c) = objects (sc_s3 (wr_storage st))"
    and "ix \<in> set new \<Longrightarrow> empty_index vecs ix"
    and "(i, s) \<in> nested_keys m \<longleftrightarrow> (if i \<in> I then s \<in> L i else (i, s) \<in> nested_keys (wr_shards st))"
    and "shard_at m i s = Some a \<Longrightarrow> shard_at (wr_shards st) i s = Some a \<or>
        (i, s) \<notin> nested_keys (wr_shards st) \<and> length (wr_objects st) \<le> a"
    and "i \<in> fst ` set m \<longleftrightarrow> (if i \<in> I then L i \<noteq> {} else i \<in> fst ` set (wr_shards st))"
  using assms unfolding refresh_spec_def by blast+

lemma refresh_specI:
  assumes "sc_files c = sc_files (wr_storage st)" and "objects (sc_s3 c) = objects (sc_s3 (wr_storage st))"
    and "\<And>ix. ix \<in> set new \<Longrightarrow> empty_index vecs ix"
    and "\<And>i s. (i, s) \<in> nested_keys m \<longleftrightarrow> (if i \<in> I then s \<in> L i else (i, s) \<in> nested_keys (wr_shards st))"
    and "\<And>i s a. shard_at m i s = Some a \<Longrightarrow> shard_at (wr_shards st) i s = Some a \<or>
        (i, s) \<notin> nested_keys (wr_shards st) \<and> length (wr_objects st) \<le> a"
    and "\<And>i. i \<in> fst ` set m \<longleftrightarrow> (if i \<in> I then L i \<noteq> {} else i \<in> fst ` set (wr_shards st))"
  shows "refresh_spec vecs objects I L st new m c"
  unfolding refresh_spec_def
proof (intro conjI allI impI ballI)
  show "shard_at (wr_shards st) i s = Some a \<or> (i, s) \<notin> nested_keys (wr_shards st) \<and> length (wr_objects st) \<le> a"
    if "shard_at m i s = Some a" for i s a using that by (rule assms(5))
qed (fact assms(1,2,4,6) | erule assms(3))+

lemma refreshed_none: "refreshed vecs objects {} L st st"
  unfolding refreshed_def
  by (intro exI [of _ "[]"] exI [of _ "wr_rng st"] exI [of _ "wr_shards st"] exI [of _ "wr_storage st"] conjI refresh_specI)
    simp_all

lemma refreshed_trans:
  assumes one: "refreshed vecs objects I L st st1" and two: "refreshed vecs objects J L st1 st2" and IJ: "I \<inter> J = {}"
  shows "refreshed vecs objects (I \<union> J) L st st2"
proof -
  from one obtain new g m c where r1: "refresh_spec vecs objects I L st new m c"
    and st1: "st1 = st\<lparr>wr_objects := wr_objects st @ new, wr_rng := g, wr_shards := m, wr_storage := c\<rparr>"
    unfolding refreshed_def by blast
  from two obtain new' g' m' c' where r2: "refresh_spec vecs objects J L st1 new' m' c'"
    and st2: "st2 = st1\<lparr>wr_objects := wr_objects st1 @ new', wr_rng := g', wr_shards := m', wr_storage := c'\<rparr>"
    unfolding refreshed_def by blast
  note D = refresh_specD [OF r1] and E = refresh_specD [OF r2, unfolded st1, simplified]
  have "refresh_spec vecs objects (I \<union> J) L st (new @ new') m' c'"
  proof (rule refresh_specI)
    show "shard_at (wr_shards st) i s = Some a \<or> (i, s) \<notin> nested_keys (wr_shards st) \<and> length (wr_objects st) \<le> a"
      if a: "shard_at m' i s = Some a" for i s a
    proof (cases "shard_at m i s = Some a")
      case True
      then show ?thesis by (rule D(5))
    next
      case False
      with E(5) [OF a] have "(i, s) \<notin> nested_keys m" "length (wr_objects st) \<le> a" by simp_all
      moreover from shard_at_key [OF a] have "i \<in> J \<or> (i, s) \<in> nested_keys m" using E(4) [of i s] by (simp split: if_splits)
      ultimately show ?thesis using D(4) [of i s] IJ by (auto split: if_splits)
    qed
    show "(i, s) \<in> nested_keys m' \<longleftrightarrow> (if i \<in> I \<union> J then s \<in> L i else (i, s) \<in> nested_keys (wr_shards st))" for i s
      using D(4) [of i s] E(4) [of i s] by simp
    show "i \<in> fst ` set m' \<longleftrightarrow> (if i \<in> I \<union> J then L i \<noteq> {} else i \<in> fst ` set (wr_shards st))" for i
      using D(6) [of i] E(6) [of i] by simp
  qed (use D(1-3) E(1-3) in auto)
  then show ?thesis unfolding refreshed_def st2 st1
    by (intro exI [of _ "new @ new'"] exI [of _ g'] exI [of _ m'] exI [of _ c']) simp
qed

lemma writer_ok_shards:
  assumes ok: "writer_ok pf vecs dst buckets cfg st"
    and "shards_ok pf cfg (wr_create_args st) (wr_objects st) m" and "sc_s3Client c"
    and "buckets_ok pf (buckets (sc_s3 c)) (fst ` set m)"
  shows "writer_ok pf vecs dst buckets cfg (st\<lparr>wr_shards := m, wr_storage := c\<rparr>)"
  using assms by (simp add: writer_ok_def)

lemma writer_ok_indexes:
  assumes "writer_ok pf vecs dst buckets cfg st"
  shows "shards_ok pf cfg (wr_create_args st) (wr_objects st) (wr_shards st)" and "sc_s3Client (wr_storage st)"
    and "buckets_ok pf (buckets (sc_s3 (wr_storage st))) (fst ` set (wr_shards st))"
  using assms by (simp_all add: writer_ok_def)

text \<open>The first shard of an index: its bucket is created, or was there already.\<close>

lemma new_index_ok:
  assumes pok: "platform_ok pf vecs dst buckets objects" and ok: "writer_ok pf vecs dst buckets cfg st"
    and json: "map_of (wr_create_args st) i = Some json" and new: "map_of (wr_shards st) i = None"
  shows "\<exists>b c. writer_storage (createBucket (pf_s3 pf) (pf_hash pf) i) st = (Inr b, st\<lparr>wr_storage := c\<rparr>) \<and>
    writer_ok pf vecs dst buckets cfg (st\<lparr>wr_shards := AList.update i [] (wr_shards st), wr_storage := c\<rparr>) \<and>
    sc_files c = sc_files (wr_storage st) \<and> objects (sc_s3 c) = objects (sc_s3 (wr_storage st))"
proof -
  let ?b = "makeBucketName (pf_hash pf) i" and ?s3 = "sc_s3 (wr_storage st)"
  note W = writer_ok_indexes [OF ok]
  have s3: "s3_contract (pf_s3 pf) buckets objects" using pok by (simp add: platform_ok_def)
  obtain b s' where s': "s3_create_bucket (pf_s3 pf) ?s3 ?b = (b, s')" "buckets s' = insert ?b (buckets ?s3)" "objects s' = objects ?s3"
    using s3_contractD(1,2) [OF s3, of ?b ?s3] by (cases "?b \<in> buckets ?s3") (auto simp: insert_absorb)
  have notin: "i \<notin> fst ` set (wr_shards st)" using new by (simp add: map_of_eq_None_iff)
  note A = add_index_simps [OF notin]
  have "shards_ok pf cfg (wr_create_args st) (wr_objects st) (AList.update i [] (wr_shards st))"
    using A shards_okD(1,2) [OF W(1)] map_of_key [OF json] by (intro shards_ok_sub [OF W(1)]) simp_all
  moreover have "buckets_ok pf (buckets s') (fst ` set (AList.update i [] (wr_shards st)))"
    using W(3) s'(2) by (auto simp: A(4) buckets_ok_def)
  ultimately show ?thesis
    using W(2) s'(1,3)
    by (intro exI [of _ b] exI [of _ "(wr_storage st)\<lparr>sc_s3 := s'\<rparr>"])
      (simp add: writer_storage_def createBucket_def with_client_def partP_def writer_ok_shards [OF ok])
qed

lemma fst_set_keys: "fst ` set (shards_of_index m i) = {s. (i, s) \<in> nested_keys m}"
  by (auto simp: nested_keys_index dom_map_of_conv_image_fst)

lemma keep_and_create_ok:
  fixes pf :: "('b, 'f::{linorder, zero}, 'j, 'e, 's, 'p, 'cf, 'gf) pf"
  assumes pok: "platform_ok pf vecs dst buckets objects" and ok: "writer_ok pf vecs dst buckets cfg st"
    and json: "map_of (wr_create_args st) i = Some json" and i: "i \<in> fst ` set (wr_shards st)" and it: "reorders iti"
    and ids: "distinct ids"
  shows "\<exists>new g m. let st' = st\<lparr>wr_objects := wr_objects st @ new, wr_rng := g, wr_shards := m\<rparr> in
    forP (writer_create_shard pf i json) (filter (\<lambda>s. s \<notin> fst ` set (shards_of_index (wr_shards st) i)) ids)
      (st\<lparr>wr_shards := keep_shards iti i ids (wr_shards st)\<rparr>) = (Inr (), st') \<and> writer_ok pf vecs dst buckets cfg st' \<and>
    (\<forall>ix \<in> set new. empty_index vecs ix) \<and>
    (\<forall>j t. (j, t) \<in> nested_keys m \<longleftrightarrow> (if j = i then t \<in> set ids else (j, t) \<in> nested_keys (wr_shards st))) \<and>
    (\<forall>j t a. shard_at m j t = Some a \<longrightarrow> shard_at (wr_shards st) j t = Some a \<or>
      (j, t) \<notin> nested_keys (wr_shards st) \<and> length (wr_objects st) \<le> a) \<and>
    fst ` set m = fst ` set (wr_shards st)"
proof -
  let ?m1 = "keep_shards iti i ids (wr_shards st)"
  let ?add = "filter (\<lambda>s. s \<notin> fst ` set (shards_of_index (wr_shards st) i)) ids"
  let ?st1 = "st\<lparr>wr_shards := ?m1\<rparr>"
  note W = writer_ok_indexes [OF ok] and K = keep_shards_simps [where i = i and ids = ids and m = "wr_shards st", OF it]
  have K3: "fst ` set ?m1 = fst ` set (wr_shards st)" using K(3) i by (simp add: insert_absorb)
  have "shards_ok pf cfg (wr_create_args st) (wr_objects st) ?m1"
    using K shards_okD(1,2) [OF W(1)] K3 by (intro shards_ok_sub [OF W(1)]) auto
  from writer_ok_shards [OF ok this W(2)] W(3) K3 have ok1: "writer_ok pf vecs dst buckets cfg ?st1" by simp
  have "\<forall>s \<in> set ?add. (i, s) \<notin> nested_keys ?m1" by (auto simp: K(2) fst_set_keys)
  with writer_create_shards_ok [OF pok ok1, of i json ?add] json i K3 ids obtain new g m where c:
    "forP (writer_create_shard pf i json) ?add ?st1 = (Inr (), st\<lparr>wr_objects := wr_objects st @ new, wr_rng := g, wr_shards := m\<rparr>)"
    "writer_ok pf vecs dst buckets cfg (st\<lparr>wr_objects := wr_objects st @ new, wr_rng := g, wr_shards := m\<rparr>)"
    "\<forall>ix \<in> set new. empty_index vecs ix" "nested_keys m = nested_keys ?m1 \<union> {i} \<times> set ?add"
    "\<forall>j t a. shard_at m j t = Some a \<longrightarrow> shard_at ?m1 j t = Some a \<or>
      (j, t) \<notin> nested_keys ?m1 \<and> length (wr_objects st) \<le> a"
    "fst ` set m = fst ` set ?m1" by (auto simp: Let_def)
  have keys: "(j, t) \<in> nested_keys m \<longleftrightarrow> (if j = i then t \<in> set ids else (j, t) \<in> nested_keys (wr_shards st))" for j t
    unfolding c(4) by (auto simp: K(2) fst_set_keys)
  have "shard_at (wr_shards st) j t = Some a \<or> (j, t) \<notin> nested_keys (wr_shards st) \<and> length (wr_objects st) \<le> a"
    if a: "shard_at m j t = Some a" for j t a
  proof (cases "shard_at ?m1 j t = Some a")
    case True
    then show ?thesis by (simp add: K(1) split: if_splits)
  next
    case False
    with c(5) [rule_format, OF a] have "(j, t) \<notin> nested_keys ?m1" "length (wr_objects st) \<le> a" by simp_all
    with shard_at_key [OF a] show ?thesis unfolding c(4) by (auto simp: fst_set_keys)
  qed
  with c(1,2,3,6) keys K3 show ?thesis
    by (intro exI [of _ new] exI [of _ g] exI [of _ m]) (simp add: Let_def)
qed

lemma refreshed_one:
  assumes "\<forall>ix \<in> set new. empty_index vecs ix"
    and "\<forall>j t. (j, t) \<in> nested_keys m \<longleftrightarrow> (if j = i then t \<in> L i else (j, t) \<in> nested_keys m0)"
    and "\<forall>j t a. shard_at m j t = Some a \<longrightarrow> shard_at m0 j t = Some a \<or> (j, t) \<notin> nested_keys m0 \<and> length (wr_objects st) \<le> a"
    and "fst ` set m = insert i (fst ` set (wr_shards st))" and "L i \<noteq> {}"
    and "nested_keys m0 = nested_keys (wr_shards st)" and "\<And>j t. shard_at m0 j t = shard_at (wr_shards st) j t"
    and "sc_files c = sc_files (wr_storage st)" and "objects (sc_s3 c) = objects (sc_s3 (wr_storage st))"
  shows "refresh_spec vecs objects {i} L st new m c"
  using assms(1,4,5,6,8,9) assms(2,3) [rule_format] unfolding assms(6,7) by (intro refresh_specI) simp_all

lemma unlisted_index_ok:
  assumes ok: "writer_ok pf vecs dst buckets cfg st" and none: "L i = {}"
  shows "writer_ok pf vecs dst buckets cfg (st\<lparr>wr_shards := AList.delete i (wr_shards st)\<rparr>) \<and>
    refreshed vecs objects {i} L st (st\<lparr>wr_shards := AList.delete i (wr_shards st)\<rparr>)"
proof -
  let ?m = "AList.delete i (wr_shards st)"
  note W = writer_ok_indexes [OF ok] and D = delete_index_shards [where i = i and m = "wr_shards st"]
  have "shards_ok pf cfg (wr_create_args st) (wr_objects st) ?m"
    using D shards_okD(1,2) [OF W(1)] by (intro shards_ok_sub [OF W(1)]) auto
  moreover have "buckets_ok pf (buckets (sc_s3 (wr_storage st))) (fst ` set ?m)"
    using W(3) unfolding D(2) buckets_ok_def by blast
  ultimately have "writer_ok pf vecs dst buckets cfg (st\<lparr>wr_shards := ?m\<rparr>)"
    using writer_ok_shards [OF ok _ W(2)] by simp
  moreover have "refresh_spec vecs objects {i} L st [] ?m (wr_storage st)"
    using D none by (intro refresh_specI) (auto split: if_splits)
  then have "refreshed vecs objects {i} L st (st\<lparr>wr_shards := ?m\<rparr>)"
    unfolding refreshed_def by (intro exI [of _ "[]"] exI [of _ "wr_rng st"] exI [of _ ?m] exI [of _ "wr_storage st"]) simp
  ultimately show ?thesis by blast
qed

text \<open>The entry of a listed index is created together with its bucket when it is missing.\<close>

lemma index_entry_ok:
  fixes pf :: "('b, 'f::{linorder, zero}, 'j, 'e, 's, 'p, 'cf, 'gf) pf"
  assumes pok: "platform_ok pf vecs dst buckets objects" and ok: "writer_ok pf vecs dst buckets cfg st"
    and json: "map_of (wr_create_args st) i = Some json"
  obtains m0 c where "writer_ok pf vecs dst buckets cfg (st\<lparr>wr_shards := m0, wr_storage := c\<rparr>)"
    "sc_files c = sc_files (wr_storage st)" "objects (sc_s3 c) = objects (sc_s3 (wr_storage st))"
    "nested_keys m0 = nested_keys (wr_shards st)" "\<And>j t. shard_at m0 j t = shard_at (wr_shards st) j t"
    "fst ` set m0 = insert i (fst ` set (wr_shards st))"
    "(case map_of (wr_shards st) i of
        None \<Rightarrow> bindP (writer_storage (createBucket (pf_s3 pf) (pf_hash pf) i)) (\<lambda>ok.
          modifyP (\<lambda>st. st\<lparr>wr_shards := AList.update i [] (wr_shards st)\<rparr>))
      | Some _ \<Rightarrow> returnP ()) st = (Inr (), st\<lparr>wr_shards := m0, wr_storage := c\<rparr>)"
proof (cases "map_of (wr_shards st) i")
  case None
  then have notin: "i \<notin> fst ` set (wr_shards st)" by (simp add: map_of_eq_None_iff)
  from new_index_ok [OF pok ok json None] add_index_simps [OF notin] None show thesis
    by (auto intro!: that simp: bindP_def)
next
  case (Some m)
  with ok show thesis by (intro that [of "wr_storage st" "wr_shards st"]) (simp_all add: insert_absorb map_of_key)
qed

lemma update_index_state_ok:
  fixes pf :: "('b, 'f::{linorder, zero}, 'j, 'e, 's, 'p, 'cf, 'gf) pf"
  assumes pok: "platform_ok pf vecs dst buckets objects" and ok: "writer_ok pf vecs dst buckets cfg st"
    and json: "map_of (wr_create_args st) i = Some json" and it: "reorders iti"
    and R: "etcd_holds (pf_etcd pf) kv (wr_etcd st) R"
  shows "\<exists>st'. update_index_state pf iti (i, json) st = (Inr (), st') \<and> writer_ok pf vecs dst buckets cfg st' \<and>
    refreshed vecs objects {i} (shards_of R) st st'"
proof -
  let ?ids = "sorted_list_of_set (shards_of R i)"
  have "no_slash i" using ok json by (simp add: writer_ok_def)
  from etcd.shards_listed [OF R this]
  have list: "writer_etcd (ListShardIds (pf_etcd pf) i) st = (Inr ?ids, st)" by (simp add: writer_etcd_def partP_def)
  have fin: "finite (shards_of R i)" using R by (rule etcd.finite_shards)
  show ?thesis
  proof (cases "shards_of R i = {}")
    case True
    from unlisted_index_ok [OF ok, of "shards_of R", OF True] show ?thesis
      using list True by (simp add: update_index_state_def bindP_def)
  next
    case False
    obtain m0 c
      where st0: "writer_ok pf vecs dst buckets cfg (st\<lparr>wr_shards := m0, wr_storage := c\<rparr>)"
      "sc_files c = sc_files (wr_storage st)" "objects (sc_s3 c) = objects (sc_s3 (wr_storage st))"
      "nested_keys m0 = nested_keys (wr_shards st)" "\<And>j t. shard_at m0 j t = shard_at (wr_shards st) j t"
      "fst ` set m0 = insert i (fst ` set (wr_shards st))" and
      run0: "(case map_of (wr_shards st) i of
              None \<Rightarrow> bindP (writer_storage (createBucket (pf_s3 pf) (pf_hash pf) i)) (\<lambda>ok.
                modifyP (\<lambda>st. st\<lparr>wr_shards := AList.update i [] (wr_shards st)\<rparr>))
            | Some _ \<Rightarrow> returnP ()) st = (Inr (), st\<lparr>wr_shards := m0, wr_storage := c\<rparr>)"
      by (rule index_entry_ok [OF pok ok json]) (rule that; assumption)
    let ?st0 = "st\<lparr>wr_shards := m0, wr_storage := c\<rparr>"
    have "map_of (wr_create_args ?st0) i = Some json" "i \<in> fst ` set (wr_shards ?st0)" by (simp_all add: st0(6) json)
    from keep_and_create_ok [OF pok st0(1) this it distinct_sorted_list_of_set, of "shards_of R i", unfolded Let_def]
    obtain new g m where
      c: "forP (writer_create_shard pf i json) (filter (\<lambda>s. s \<notin> fst ` set (shards_of_index (wr_shards ?st0) i)) ?ids)
        (?st0\<lparr>wr_shards := keep_shards iti i ?ids (wr_shards ?st0)\<rparr>) =
          (Inr (), ?st0\<lparr>wr_objects := wr_objects ?st0 @ new, wr_rng := g, wr_shards := m\<rparr>)"
      "writer_ok pf vecs dst buckets cfg (?st0\<lparr>wr_objects := wr_objects ?st0 @ new, wr_rng := g, wr_shards := m\<rparr>)"
      "\<forall>ix \<in> set new. empty_index vecs ix"
      "\<forall>j t. (j, t) \<in> nested_keys m \<longleftrightarrow> (if j = i then t \<in> set ?ids else (j, t) \<in> nested_keys (wr_shards ?st0))"
      "\<forall>j t a. shard_at m j t = Some a \<longrightarrow> shard_at (wr_shards ?st0) j t = Some a \<or>
        (j, t) \<notin> nested_keys (wr_shards ?st0) \<and> length (wr_objects ?st0) \<le> a"
      "fst ` set m = fst ` set (wr_shards ?st0)" by (elim exE conjE) (rule that; assumption)
    have "\<forall>j t. (j, t) \<in> nested_keys m \<longleftrightarrow> (if j = i then t \<in> shards_of R i else (j, t) \<in> nested_keys m0)"
      using c(4) fin by simp
    moreover have "\<forall>j t a. shard_at m j t = Some a \<longrightarrow> shard_at m0 j t = Some a \<or> (j, t) \<notin> nested_keys m0 \<and> length (wr_objects st) \<le> a"
      using c(5) by simp
    ultimately have "refresh_spec vecs objects {i} (shards_of R) st new m c"
      using c(6) st0(6) by (intro refreshed_one [where L = "shards_of R" and objects = objects, OF c(3) _ _ _ False st0(4,5,2,3)]) simp_all
    then have "refreshed vecs objects {i} (shards_of R) st (?st0\<lparr>wr_objects := wr_objects ?st0 @ new, wr_rng := g, wr_shards := m\<rparr>)"
      unfolding refreshed_def by (intro exI [of _ new] exI [of _ g] exI [of _ m] exI [of _ c]) simp
    moreover have "update_index_state pf iti (i, json) st =
        (Inr (), ?st0\<lparr>wr_objects := wr_objects ?st0 @ new, wr_rng := g, wr_shards := m\<rparr>)"
      using list run0 c(1) False fin
      by (simp add: update_index_state_def proc_defs keep_shards_def Let_def)
    ultimately show ?thesis using c(2) by blast
  qed
qed

lemma refreshed_frame:
  assumes "refreshed vecs objects I L st st'"
  shows "wr_create_args st' = wr_create_args st" and "wr_etcd st' = wr_etcd st" and "wr_prom st' = wr_prom st"
    and "wr_queue st' = wr_queue st" and "wr_world st' = wr_world st"
  using assms unfolding refreshed_def by auto

lemma updateIndexesState_ok:
  fixes pf :: "('b, 'f::{linorder, zero}, 'j, 'e, 's, 'p, 'cf, 'gf) pf"
  assumes pok: "platform_ok pf vecs dst buckets objects" and ok: "writer_ok pf vecs dst buckets cfg st"
    and ita: "reorders ita" and iti: "reorders iti" and R: "etcd_holds (pf_etcd pf) kv (wr_etcd st) R"
  shows "\<exists>st'. updateIndexesState pf ita iti st = (Inr (), st') \<and> writer_ok pf vecs dst buckets cfg st' \<and>
    refreshed vecs objects (fst ` set (wr_create_args st)) (shards_of R) st st'"
proof -
  have loop: "\<exists>st'. forP (update_index_state pf iti) args st = (Inr (), st') \<and> writer_ok pf vecs dst buckets cfg st' \<and>
      refreshed vecs objects (fst ` set args) (shards_of R) st st'"
    if "writer_ok pf vecs dst buckets cfg st" "etcd_holds (pf_etcd pf) kv (wr_etcd st) R"
      "distinct (map fst args)" "\<forall>(i, json) \<in> set args. map_of (wr_create_args st) i = Some json"
    for args and st :: "('b, 'j, 'e, 's, 'p, 'cf, 'gf, 'w) WriterImpl"
    using that
  proof (induction args arbitrary: st)
    case Nil
    then show ?case by (simp add: refreshed_none)
  next
    case (Cons p args)
    obtain i json where p: "p = (i, json)" by (cases p)
    from update_index_state_ok [OF pok Cons.prems(1) _ iti Cons.prems(2), of i json] Cons.prems(4) obtain st1
      where st1: "update_index_state pf iti (i, json) st = (Inr (), st1)" "writer_ok pf vecs dst buckets cfg st1"
        "refreshed vecs objects {i} (shards_of R) st st1" by (auto simp: p)
    from Cons.IH [OF st1(2)] Cons.prems(2-4) obtain st2
      where st2: "forP (update_index_state pf iti) args st1 = (Inr (), st2)" "writer_ok pf vecs dst buckets cfg st2"
        "refreshed vecs objects (fst ` set args) (shards_of R) st1 st2" by (auto simp: refreshed_frame [OF st1(3)])
    have "{i} \<inter> fst ` set args = {}" using Cons.prems(3) by (auto simp: p)
    from refreshed_trans [OF st1(3) st2(3) this] st1(1) st2(1,2) show ?case
      by (intro exI [of _ st2]) (simp add: p bindP_def)
  qed
  have dist: "distinct (map fst (wr_create_args st))" using ok by (simp add: writer_ok_def)
  then have "distinct (map fst (ita (wr_create_args st)))" by (simp add: reorders_distinct_fst_it [OF ita])
  moreover have "\<forall>(i, json) \<in> set (ita (wr_create_args st)). map_of (wr_create_args st) i = Some json"
    using dist by (simp add: reorders_set [OF ita])
  ultimately have "\<exists>st'. forP (update_index_state pf iti) (ita (wr_create_args st)) st = (Inr (), st') \<and>
      writer_ok pf vecs dst buckets cfg st' \<and>
      refreshed vecs objects (fst ` set (ita (wr_create_args st))) (shards_of R) st st'"
    by (rule loop [OF ok R])
  then show ?thesis by (simp add: updateIndexesState_def bindP_def reorders_set [OF ita])
qed

end
