(* ===== verification/Writer_Correct.thy ===== *)
theory Writer_Correct
  imports Writer_State
begin

text \<open>
  Write requests: the shard that is chosen, the document that is added to its index, and the requests
  that are rejected or fail.
\<close>

section \<open>What the writer holds\<close>

definition writer_view ::
  "'c \<Rightarrow> ('b shard_index \<Rightarrow> 'c) \<Rightarrow> ('b, 'j, 'e, 's, 'p, 'cf, 'gf, 'w) WriterImpl \<Rightarrow> string \<Rightarrow> string \<Rightarrow> 'c" where
  "writer_view z f st i s = (case shard_at (wr_shards st) i s of None \<Rightarrow> z | Some a \<Rightarrow> f (wr_objects st ! a))"

text \<open>The documents of a shard, and the identifiers it has ever been given.\<close>

abbreviation writer_docs ::
  "('b \<Rightarrow> 'f list list) \<Rightarrow> ('b, 'j, 'e, 's, 'p, 'cf, 'gf, 'w) WriterImpl \<Rightarrow> string \<Rightarrow> string \<Rightarrow> (string, 'f) document multiset" where
  "writer_docs vecs \<equiv> writer_view {#} (faiss_index_docs vecs)"

abbreviation writer_known :: "('b, 'j, 'e, 's, 'p, 'cf, 'gf, 'w) WriterImpl \<Rightarrow> string \<Rightarrow> string \<Rightarrow> string set" where
  "writer_known \<equiv> writer_view {} (index_known faiss_known)"

lemma writer_view_prom [simp]: "writer_view z f (st\<lparr>wr_prom := q\<rparr>) = writer_view z f st"
  by (simp add: writer_view_def fun_eq_iff split: option.split)

lemma refreshed_view:
  assumes r: "refreshed vecs objects (fst ` set (wr_create_args st)) L st st'"
    and ok: "writer_ok pf vecs dst buckets cfg st" and ok': "writer_ok pf vecs dst buckets cfg st'"
    and z: "\<And>ix. empty_index vecs ix \<Longrightarrow> f ix = z"
  shows "writer_view z f st' i s = (if s \<in> L i then writer_view z f st i s else z)"
proof -
  from r obtain new g m c where spec: "refresh_spec vecs objects (fst ` set (wr_create_args st)) L st new m c"
    and st': "st' = st\<lparr>wr_objects := wr_objects st @ new, wr_rng := g, wr_shards := m, wr_storage := c\<rparr>"
    unfolding refreshed_def by blast
  note D = refresh_specD [OF spec] and W = writer_ok_indexes(1) [OF ok]
  have W': "shards_ok pf cfg (wr_create_args st) (wr_objects st @ new) m"
    using writer_ok_indexes(1) [OF ok'] by (simp add: st')
  have keys: "(i, s) \<in> nested_keys m' \<Longrightarrow> i \<in> fst ` set m'" for m' :: "nat shard_map"
    by (auto simp: nested_keys_def dest: map_of_key)
  show ?thesis
  proof (cases "shard_at m i s")
    case None
    then have "(i, s) \<notin> nested_keys m" using shards_okD(3) [OF W'] by force
    with D(4) [of i s] have "s \<notin> L i \<or> shard_at (wr_shards st) i s = None"
      using shard_at_key [of "wr_shards st" i s] shards_okD(2) [OF W] keys [of "wr_shards st"]
      by (cases "shard_at (wr_shards st) i s") (auto split: if_splits)
    with None show ?thesis by (auto simp: writer_view_def st')
  next
    case (Some a)
    have "s \<in> L i"
      using D(4) [of i s] shard_at_key [OF Some] keys [of m] shards_okD(2) [OF W'] by (auto split: if_splits)
    have a: "a < length (wr_objects st @ new)" by (rule shards_ok_bound [OF W' Some])
    from D(5) [OF Some] show ?thesis
    proof
      assume old: "shard_at (wr_shards st) i s = Some a"
      then show ?thesis
        using Some \<open>s \<in> L i\<close> shards_ok_bound [OF W old] by (simp add: writer_view_def st' nth_append)
    next
      assume new: "(i, s) \<notin> nested_keys (wr_shards st) \<and> length (wr_objects st) \<le> a"
      then have "shard_at (wr_shards st) i s = None" using shard_at_key [of "wr_shards st" i s] by (cases "shard_at (wr_shards st) i s") auto
      moreover have "f ((wr_objects st @ new) ! a) = z" using new a D(3) by (intro z) (auto simp: nth_append)
      ultimately show ?thesis using Some by (simp add: writer_view_def st')
    qed
  qed
qed

section \<open>The chosen shard\<close>

definition times_ok :: "registry \<Rightarrow> bool" where
  "times_ok R \<longleftrightarrow> (\<forall>i s t. reg_times R (i, s) = Some t \<longrightarrow> (\<exists>x. stod t = Inr x))"

definition shard_time :: "registry \<Rightarrow> string \<Rightarrow> string \<Rightarrow> rat" where
  "shard_time R i s = (case reg_times R (i, s) of None \<Rightarrow> 0 | Some t \<Rightarrow> projr (stod t))"

lemma writer_time:
  assumes "etcd_holds E kv (wr_etcd st) R" and "times_ok R" and "no_slash i" and "no_slash s"
  shows "writer_etcd (GetSearcherAverageResponseTime E i s) st = (Inr (shard_time R i s), st)"
proof -
  have "(case reg_times R (i, s) of None \<Rightarrow> Inr 0 | Some t \<Rightarrow> stod t) = Inr (shard_time R i s)"
    using assms(2) by (force simp: shard_time_def times_ok_def split: option.split)
  with etcd.time_read [OF assms(1,3,4)] show ?thesis by (simp add: writer_etcd_def partP_def)
qed

lemma choose_loop_ok:
  assumes "etcd_holds E kv (wr_etcd st) R" and "times_ok R" and "no_slash i"
  shows "\<forall>s \<in> set ss. no_slash s \<Longrightarrow> \<exists>s. choose_loop E i (Some (s0, shard_time R i s0)) ss st = (Inr s, st) \<and>
    s \<in> insert s0 (set ss) \<and> (\<forall>u \<in> insert s0 (set ss). shard_time R i s \<le> shard_time R i u)"
proof (induction ss arbitrary: s0)
  case (Cons s ss)
  then have step: "choose_loop E i (Some (s0, shard_time R i s0)) (s # ss) st =
      choose_loop E i (if shard_time R i s < shard_time R i s0 then Some (s, shard_time R i s)
        else Some (s0, shard_time R i s0)) ss st"
    by (simp add: bindP_def writer_time [OF assms])
  show ?case
  proof (cases "shard_time R i s < shard_time R i s0")
    case True
    from Cons.IH [of s] Cons.prems obtain r where r: "choose_loop E i (Some (s, shard_time R i s)) ss st = (Inr r, st)"
      "r \<in> insert s (set ss)" "\<forall>u \<in> insert s (set ss). shard_time R i r \<le> shard_time R i u" by auto
    then have "shard_time R i r \<le> shard_time R i s0" using True by (meson insertI1 order_trans less_imp_le)
    moreover have "choose_loop E i (Some (s0, shard_time R i s0)) (s # ss) st = (Inr r, st)"
      unfolding step using True r(1) by (simp only: if_True)
    ultimately show ?thesis using r(2,3) by (intro exI [of _ r]) (auto simp del: choose_loop.simps)
  next
    case False
    from Cons.IH [of s0] Cons.prems obtain r where r: "choose_loop E i (Some (s0, shard_time R i s0)) ss st = (Inr r, st)"
      "r \<in> insert s0 (set ss)" "\<forall>u \<in> insert s0 (set ss). shard_time R i r \<le> shard_time R i u" by auto
    then have "shard_time R i r \<le> shard_time R i s" using False by (meson insertI1 order_trans not_less)
    moreover have "choose_loop E i (Some (s0, shard_time R i s0)) (s # ss) st = (Inr r, st)"
      unfolding step using False r(1) by (simp only: if_False)
    ultimately show ?thesis using r(2,3) by (intro exI [of _ r]) (auto simp del: choose_loop.simps)
  qed
qed simp

lemma chooseShard_ok:
  assumes ok: "shards_ok pf cfg args objs (wr_shards st)" and R: "etcd_holds (pf_etcd pf) kv (wr_etcd st) R" "times_ok R" "no_slash i"
    and it: "reorders iti" and i: "i \<in> fst ` set (wr_shards st)"
    and s: "\<And>s. (i, s) \<in> nested_keys (wr_shards st) \<longleftrightarrow> s \<in> shards_of R i" and ne: "shards_of R i \<noteq> {}"
  shows "\<exists>s. chooseShard pf iti i st = (Inr s, st) \<and> s \<in> shards_of R i \<and>
    (\<forall>u \<in> shards_of R i. shard_time R i s \<le> shard_time R i u)"
proof -
  let ?names = "map fst (iti (shards_of_index (wr_shards st) i))"
  have names: "set ?names = shards_of R i" by (simp add: reorders_set [OF it] fst_set_keys s)
  with ne obtain s0 ss where ss: "?names = s0 # ss" by (cases ?names) auto
  have slash: "\<forall>s \<in> set (s0 # ss). no_slash s" using etcd_holds_no_slash [OF R(1)] names unfolding ss by blast
  then have "\<forall>s \<in> set ss. no_slash s" by simp
  from choose_loop_ok [OF R this, of s0] obtain s
    where "choose_loop (pf_etcd pf) i (Some (s0, shard_time R i s0)) ss st = (Inr s, st)"
      "s \<in> set (s0 # ss)" "\<forall>u \<in> set (s0 # ss). shard_time R i s \<le> shard_time R i u" unfolding list.set by blast
  moreover have "touch_index i (wr_shards st) = wr_shards st"
    using i by (cases "map_of (wr_shards st) i") (simp_all add: touch_index_def map_of_eq_None_iff)
  moreover have "writer_etcd (GetSearcherAverageResponseTime (pf_etcd pf) i s0) st = (Inr (shard_time R i s0), st)"
    using slash by (intro writer_time [OF R]) simp
  moreover have "shards_of R i = set (s0 # ss)" using names unfolding ss by (rule sym)
  ultimately show ?thesis by (simp add: chooseShard_def proc_defs ss)
qed

section \<open>Adding a document\<close>

lemma objects_ok_replace:
  assumes ok: "objects_ok pf vecs dst objs g" and a: "a < length objs"
    and inv: "faiss_index_inv (pf_faiss pf) vecs dst (pf_merge_order pf) ix'" "ix_callback ix'"
    and fresh: "fresh_rng (seg_ids ix') g'" and d: "draws (objs ! a) g ix' g'"
  shows "objects_ok pf vecs dst (objs[a := ix']) g'"
proof (rule objects_okI)
  have old: "seg_ids (objs ! b) \<inter> range g = {}" if "b < length objs" for b
    using objects_okD(4) [OF ok] that by simp
  have sub: "range g' \<subseteq> range g" "seg_ids ix' \<subseteq> seg_ids (objs ! a) \<union> range g" using d by (simp_all add: draws_def)
  show "inj g'" using fresh by (simp add: fresh_rng_def)
  show "faiss_index_inv (pf_faiss pf) vecs dst (pf_merge_order pf) (objs[a := ix'] ! b) \<and>
      ix_callback (objs[a := ix'] ! b) \<and> seg_ids (objs[a := ix'] ! b) \<inter> range g' = {}" if "b < length (objs[a := ix'])" for b
  proof (cases "b = a")
    case True
    then show ?thesis using inv a fresh by (auto simp: fresh_rng_def)
  next
    case False
    then show ?thesis using that objects_okD(2,3) [OF ok nth_mem, of b] old [of b] sub(1) by auto
  qed
  have other: "seg_ids ix' \<inter> seg_ids (objs ! b) = {}" if "b < length objs" "b \<noteq> a" for b
    using objects_okD(5) [OF ok a that(1)] that(2) old [OF that(1)] sub(2) by blast
  show "seg_ids (objs[a := ix'] ! b) \<inter> seg_ids (objs[a := ix'] ! c) = {}" if "b < c" "c < length (objs[a := ix'])" for b c
    using that other [of b] other [of c] objects_okD(5) [OF ok, of b c] by (cases "b = a"; cases "c = a") auto
qed

lemma configured_same: "same_params ix ix' \<Longrightarrow> configured pf cf ix' = configured pf cf ix"
  by (simp add: configured_def same_params_def split: prod.split)

lemma shards_ok_replace:
  assumes ok: "shards_ok pf cfg args objs m" and same: "same_params (objs ! a) ix'"
  shows "shards_ok pf cfg args (objs[a := ix']) m"
proof (rule shards_okI)
  fix i s assume "(i, s) \<in> nested_keys m"
  from shards_okD(3) [OF ok this] obtain b where b: "b < length objs" "shard_at m i s = Some b" "configured pf (cfg i) (objs ! b)"
    by blast
  then have "configured pf (cfg i) (objs[a := ix'] ! b)"
    by (cases "b = a") (simp_all add: configured_same [OF same])
  with b(1,2) show "\<exists>b < length (objs[a := ix']). shard_at m i s = Some b \<and> configured pf (cfg i) (objs[a := ix'] ! b)" by simp
qed (fact shards_okD(1) [OF ok] shards_okD(2) [OF ok] | erule (1) shards_okD(4) [OF ok])+

lemma touch_shard_there: "shard_at m i s = Some a \<Longrightarrow> touch_shard i s m = m"
  by (auto simp: touch_shard_def shard_at_def nested_get_def nested_put_def update_triv split: option.splits)

lemma rows_1: "rows d 1 xs = [take d xs]"
  by (simp add: rows.simps)

definition config_dim :: "('b, 'f, 'j, 'e, 's, 'p, 'cf, 'gf) pf \<Rightarrow> index_config \<Rightarrow> nat" where
  "config_dim pf cf = fx_d (pf_faiss pf) (fx_make (pf_faiss pf) (fst cf))"

lemma configured_dim: "configured pf cf ix \<Longrightarrow> faiss_index_dim (pf_faiss pf) ix = config_dim pf cf"
  by (auto simp: configured_def config_dim_def split: prod.splits)

definition added_state ::
  "nat \<Rightarrow> string \<Rightarrow> string \<Rightarrow> 'b shard_index \<Rightarrow> rng \<Rightarrow> update_event list \<Rightarrow>
    ('b, 'j, 'e, 's, 'p, 'cf, 'gf, 'w) WriterImpl \<Rightarrow> ('b, 'j, 'e, 's, 'p, 'cf, 'gf, 'w) WriterImpl" where
  "added_state a i s ix' g' ev st = st\<lparr>wr_objects := (wr_objects st)[a := ix'], wr_rng := g',
     wr_queue := wr_queue st @ map (indexUpdateCallback a i s) ev\<rparr>"

text \<open>The shard object \<open>a\<close> becomes \<open>ix'\<close> by adding one document.\<close>

definition document_added ::
  "('b, 'f::{linorder, zero}, 'j, 'e, 's, 'p, 'cf, 'gf) pf \<Rightarrow> ('b \<Rightarrow> 'f list list) \<Rightarrow> string \<Rightarrow> 'f list \<Rightarrow>
    'b shard_index \<Rightarrow> rng \<Rightarrow> 'b shard_index \<Rightarrow> rng \<Rightarrow> update_event list \<Rightarrow> bool" where
  "document_added pf vecs d vec ix g ix' g' ev \<longleftrightarrow> index_add (platform_vtable pf) 1 [d] vec ix g = Inr (ix', g', ev) \<and>
     same_params ix ix' \<and>
     faiss_index_docs vecs ix' = add_mset (d, take (faiss_index_dim (pf_faiss pf) ix) vec) (faiss_index_docs vecs ix) \<and>
     index_known faiss_known ix' \<subseteq> insert d (index_known faiss_known ix)"

lemma writer_add_ok:
  fixes pf :: "('b, 'f::{linorder, zero}, 'j, 'e, 's, 'p, 'cf, 'gf) pf"
  assumes ok: "writer_ok pf vecs dst buckets cfg st" and at: "shard_at (wr_shards st) i s = Some a"
    and len: "config_dim pf (cfg i) \<le> length vec" and new: "d \<notin> index_known faiss_known (wr_objects st ! a)"
  shows "\<exists>ix' g' ev. writer_add pf i s d vec st = (Inr (), added_state a i s ix' g' ev st) \<and>
    document_added pf vecs d vec (wr_objects st ! a) (wr_rng st) ix' g' ev \<and>
    writer_ok pf vecs dst buckets cfg (added_state a i s ix' g' ev st)"
proof -
  let ?ix = "wr_objects st ! a" and ?F = "pf_faiss pf"
  have sh: "shards_ok pf cfg (wr_create_args st) (wr_objects st) (wr_shards st)"
    and ob: "objects_ok pf vecs dst (wr_objects st) (wr_rng st)" using ok by (simp_all add: writer_ok_def)
  have a: "a < length (wr_objects st)" by (rule shards_ok_bound [OF sh at])
  then have mem: "?ix \<in> set (wr_objects st)" by simp
  from shards_okD(3) [OF sh shard_at_key [OF at]] at have cf: "configured pf (cfg i) ?ix" by auto
  have inv: "faiss_index_inv ?F vecs dst (pf_merge_order pf) ?ix" and cb: "ix_callback ?ix"
    by (rule objects_okD(2) [OF ob mem], rule objects_okD(3) [OF ob mem])
  have fresh: "fresh_rng (seg_id ` set (ix_store ?ix)) (wr_rng st)"
    using objects_okD(1) [OF ob] objects_okD(4) [OF ob mem] by (simp add: fresh_rng_def seg_ids_def Int_commute)
  from faiss.index_add_ok [OF inv [unfolded faiss_index_inv_def] fresh, where n = 1 and ids = "[d]" and vs = vec and
      ser = "faiss_serialize_index (pf_faiss pf) writeBinary_string (pf_file_order pf)"] len new configured_dim [OF cf]
  obtain ix' g' ev where add: "index_add (platform_vtable pf) 1 [d] vec ?ix (wr_rng st) = Inr (ix', g', ev)"
    "faiss_index_inv ?F vecs dst (pf_merge_order pf) ix'" "same_params ?ix ix'" "fresh_rng (seg_ids ix') g'"
    "faiss_index_docs vecs ix' = faiss_index_docs vecs ?ix + mset (zip [d] (rows (faiss_index_dim ?F ?ix) 1 vec))"
    "index_known faiss_known ix' \<subseteq> index_known faiss_known ?ix \<union> {d}"
    unfolding platform_vtable_def faiss_index_inv_def seg_ids_def by auto
  have "ix_last ?ix < length (ix_store ?ix)"
    using inv by (simp add: faiss_index_inv_def index_inv_def index_wf_def heap_wf_def owners_def)
  from objects_ok_replace [OF ob a add(2) _ add(4) index_add_draws [OF add(1) this]] add(3) cb
  have "objects_ok pf vecs dst ((wr_objects st)[a := ix']) g'" by (simp add: same_params_def)
  then have "writer_ok pf vecs dst buckets cfg (added_state a i s ix' g' ev st)"
    using ok shards_ok_replace [OF sh add(3)] by (simp add: writer_ok_def added_state_def)
  moreover have "document_added pf vecs d vec ?ix (wr_rng st) ix' g' ev"
    using add(1,3,5,6) by (auto simp: document_added_def rows_1)
  moreover have "writer_add pf i s d vec st = (Inr (), added_state a i s ix' g' ev st)"
    using at add(1) by (simp add: writer_add_def writer_shard_def proc_defs touch_shard_there added_state_def)
  ultimately show ?thesis by blast
qed

lemma write_request_ok:
  fixes pf :: "('b, 'f::{linorder, zero}, 'j, 'e, 's, 'p, 'cf, 'gf) pf"
  assumes pok: "platform_ok pf vecs dst buckets objects" and ok: "writer_ok pf vecs dst buckets cfg st"
    and R: "etcd_holds (pf_etcd pf) kv (wr_etcd st) R" "times_ok R" and prom: "writer_metrics (pf_prom pf) (wr_prom st) v"
    and it: "reorders ita" "reorders iti"
    and rq: "map_of (doc_attributes data) ''index-id'' = Some i" "map_of (doc_attributes data) ''delete'' = None"
    and i: "i \<in> fst ` set (wr_create_args st)" "shards_of R i \<noteq> {}"
    and len: "config_dim pf (cfg i) \<le> length (doc_vector data)" and new: "\<forall>s. doc_id data \<notin> writer_known st i s"
  shows "\<exists>q p st1 s a ix' g' ev. refreshed vecs objects (fst ` set (wr_create_args st)) (shards_of R) (st\<lparr>wr_prom := q\<rparr>) st1 \<and>
    updateIndexesState pf ita iti (st\<lparr>wr_prom := q\<rparr>) = (Inr (), st1) \<and>
    writer_metrics (pf_prom pf) q v \<and> writer_ok pf vecs dst buckets cfg st1 \<and> shard_at (wr_shards st1) i s = Some a \<and>
    s \<in> shards_of R i \<and> (\<forall>u \<in> shards_of R i. shard_time R i s \<le> shard_time R i u) \<and>
    document_added pf vecs (doc_id data) (doc_vector data) (wr_objects st1 ! a) (wr_rng st1) ix' g' ev \<and>
    ProcessWriteRequest pf ita iti data st = (Inr StatusOK, (added_state a i s ix' g' ev st1)\<lparr>wr_prom := p\<rparr>) \<and>
    writer_ok pf vecs dst buckets cfg ((added_state a i s ix' g' ev st1)\<lparr>wr_prom := p\<rparr>) \<and>
    (let labels = [(''index_id'', i), (''shard_id'', s)]
     in writer_metrics (pf_prom pf) p (v(labels := min (v labels + 1) (2 ^ 53))))"
proof -
  from writer_metrics_inc [OF prom, of "''requests_count''" "[]"] obtain q
    where q: "IncrementCounter (pf_prom pf) ''requests_count'' 1 [] (wr_prom st) = (Inr (), q)" "writer_metrics (pf_prom pf) q v"
    by (auto simp: writer_counters_def shard_labels_ok)
  let ?st0 = "st\<lparr>wr_prom := q\<rparr>"
  have ok0: "writer_ok pf vecs dst buckets cfg ?st0" using ok by (simp add: writer_ok_def)
  from updateIndexesState_ok [OF pok ok0 it, of kv R] R(1) obtain st1
    where st1: "updateIndexesState pf ita iti ?st0 = (Inr (), st1)" "writer_ok pf vecs dst buckets cfg st1"
      "refreshed vecs objects (fst ` set (wr_create_args st)) (shards_of R) ?st0 st1" by auto
  note fr = refreshed_frame [OF st1(3)]
  from st1(3) obtain new' g m c where spec: "refresh_spec vecs objects (fst ` set (wr_create_args st)) (shards_of R) ?st0 new' m c"
    and m: "wr_shards st1 = m" unfolding refreshed_def by auto
  have sh: "shards_ok pf cfg (wr_create_args st1) (wr_objects st1) (wr_shards st1)"
    using st1(2) by (simp add: writer_ok_def)
  have im: "i \<in> fst ` set (wr_shards st1)" using refresh_specD(6) [OF spec, of i] i m by simp
  have keys: "(i, s) \<in> nested_keys (wr_shards st1) \<longleftrightarrow> s \<in> shards_of R i" for s
    using refresh_specD(4) [OF spec, of i s] i m by simp
  have slash: "no_slash i" using ok i(1) by (auto simp: writer_ok_def dest: weak_map_of_SomeI)
  from chooseShard_ok [OF sh _ R(2) slash it(2) im keys i(2), of kv] R(1) fr obtain s
    where s: "chooseShard pf iti i st1 = (Inr s, st1)" "s \<in> shards_of R i"
      "\<forall>u \<in> shards_of R i. shard_time R i s \<le> shard_time R i u" by auto
  let ?ls = "[(''index_id'', i), (''shard_id'', s)]"
  have prom1: "wr_prom st1 = q" using fr by simp
  from writer_metrics_get [OF q(2), of ?ls] obtain q2 w
    where q2: "GetGaugeValue (pf_prom pf) as_size_t ''vectors_count'' ?ls q = (Inr w, q2)" "writer_metrics (pf_prom pf) q2 v"
      "(case w of None \<Rightarrow> 0 | Some n \<Rightarrow> n) = v ?ls" by (auto simp: shard_labels_ok)
  from writer_metrics_set [OF q2(2), of ?ls] obtain p
    where p: "SetGauge (pf_prom pf) ''vectors_count'' (rnd64 (of_nat (size_add (v ?ls) 1))) ?ls q2 = (Inr (), p)"
      "writer_metrics (pf_prom pf) p (v(?ls := min (v ?ls + 1) (2 ^ 53)))" by (auto simp: shard_labels_ok)
  from shards_okD(3) [OF sh keys [THEN iffD2, OF s(2)]] obtain a where a: "shard_at (wr_shards st1) i s = Some a" by blast
  have "writer_known st1 i s = (if s \<in> shards_of R i then writer_known ?st0 i s else {})"
    by (rule refreshed_view [OF _ ok0 st1(2)]) (use st1(3) in \<open>simp_all add: empty_index_def\<close>)
  then have "doc_id data \<notin> index_known faiss_known (wr_objects st1 ! a)"
    using new [rule_format, of s] s(2) a by (simp add: writer_view_def [of _ _ st1])
  let ?st2 = "st1\<lparr>wr_prom := q2\<rparr>"
  have "writer_ok pf vecs dst buckets cfg ?st2" using st1(2) by (simp add: writer_ok_def)
  from writer_add_ok [OF this, of i s a "doc_vector data" "doc_id data"] a len \<open>doc_id data \<notin> _\<close> obtain ix' g' ev
    where add: "writer_add pf i s (doc_id data) (doc_vector data) ?st2 = (Inr (), added_state a i s ix' g' ev ?st2)"
      "document_added pf vecs (doc_id data) (doc_vector data) (wr_objects st1 ! a) (wr_rng st1) ix' g' ev"
      "writer_ok pf vecs dst buckets cfg (added_state a i s ix' g' ev ?st2)" by auto
  have "map_of (wr_shards st1) i \<noteq> None" using im by (simp add: map_of_eq_None_iff)
  then have "ProcessWriteRequest pf ita iti data st = (Inr StatusOK, (added_state a i s ix' g' ev st1)\<lparr>wr_prom := p\<rparr>)"
    using q(1) st1(1) s(1) q2(1,3) p(1) add(1) prom1
    by (simp add: ProcessWriteRequest_def rq Let_def writer_prom_def proc_defs added_state_def)
  moreover have "writer_ok pf vecs dst buckets cfg ((added_state a i s ix' g' ev st1)\<lparr>wr_prom := p\<rparr>)"
    using add(3) by (simp add: writer_ok_def added_state_def)
  ultimately show ?thesis
    using st1 q(2) a s(2,3) add(2) p(2)
    by (intro exI [of _ q] exI [of _ p] exI [of _ st1] exI [of _ s] exI [of _ a] exI [of _ ix'] exI [of _ g'] exI [of _ ev]) simp
qed

lemma added_view:
  assumes sh: "shards_ok pf cfg args (wr_objects st) (wr_shards st)" and at: "shard_at (wr_shards st) i s = Some a"
  shows "writer_view z f ((added_state a i s ix' g' ev st)\<lparr>wr_prom := p\<rparr>) j t =
    (if (j, t) = (i, s) then f ix' else writer_view z f st j t)"
proof (cases "(j, t) = (i, s)")
  case True
  then show ?thesis using at shards_ok_bound [OF sh at] by (simp add: writer_view_def added_state_def)
next
  case False
  then have "shard_at (wr_shards st) j t \<noteq> Some a" using shards_okD(4) [OF sh at, of j t] by auto
  with False show ?thesis by (auto simp: writer_view_def added_state_def split: option.split)
qed

text \<open>What a successful request does to the documents.\<close>

lemma write_request_documents:
  fixes pf :: "('b, 'f::{linorder, zero}, 'j, 'e, 's, 'p, 'cf, 'gf) pf"
  assumes "platform_ok pf vecs dst buckets objects" and "writer_ok pf vecs dst buckets cfg st"
    and "etcd_holds (pf_etcd pf) kv (wr_etcd st) R" and "times_ok R" and "writer_metrics (pf_prom pf) (wr_prom st) v"
    and "reorders ita" and "reorders iti"
    and "map_of (doc_attributes data) ''index-id'' = Some i" and "map_of (doc_attributes data) ''delete'' = None"
    and "i \<in> fst ` set (wr_create_args st)" and "shards_of R i \<noteq> {}"
    and "config_dim pf (cfg i) \<le> length (doc_vector data)" and "\<forall>s. doc_id data \<notin> writer_known st i s"
  shows "\<exists>st' s. ProcessWriteRequest pf ita iti data st = (Inr StatusOK, st') \<and> writer_ok pf vecs dst buckets cfg st' \<and>
    s \<in> shards_of R i \<and> (\<forall>u \<in> shards_of R i. shard_time R i s \<le> shard_time R i u) \<and>
    (\<forall>j t. writer_docs vecs st' j t = (if t \<in> shards_of R j then writer_docs vecs st j t else {#}) +
      (if (j, t) = (i, s) then {#(doc_id data, take (config_dim pf (cfg i)) (doc_vector data))#} else {#})) \<and>
    (let labels = [(''index_id'', i), (''shard_id'', s)]
     in writer_metrics (pf_prom pf) (wr_prom st') (v(labels := min (v labels + 1) (2 ^ 53))))"
proof -
  from write_request_ok [OF assms] obtain q p st1 s a ix' g' ev where
    r: "refreshed vecs objects (fst ` set (wr_create_args st)) (shards_of R) (st\<lparr>wr_prom := q\<rparr>) st1"
    and ok1: "writer_ok pf vecs dst buckets cfg st1" and at: "shard_at (wr_shards st1) i s = Some a"
    and s: "s \<in> shards_of R i" "\<forall>u \<in> shards_of R i. shard_time R i s \<le> shard_time R i u"
    and add: "document_added pf vecs (doc_id data) (doc_vector data) (wr_objects st1 ! a) (wr_rng st1) ix' g' ev"
    and res: "ProcessWriteRequest pf ita iti data st = (Inr StatusOK, (added_state a i s ix' g' ev st1)\<lparr>wr_prom := p\<rparr>)"
    and ok': "writer_ok pf vecs dst buckets cfg ((added_state a i s ix' g' ev st1)\<lparr>wr_prom := p\<rparr>)"
    and met: "let labels = [(''index_id'', i), (''shard_id'', s)]
      in writer_metrics (pf_prom pf) p (v(labels := min (v labels + 1) (2 ^ 53)))"
    by (elim exE conjE) (rule that; assumption)
  have ok0: "writer_ok pf vecs dst buckets cfg (st\<lparr>wr_prom := q\<rparr>)" using assms(2) by (simp add: writer_ok_def)
  have sh: "shards_ok pf cfg (wr_create_args st1) (wr_objects st1) (wr_shards st1)" using ok1 by (simp add: writer_ok_def)
  from shards_okD(3) [OF sh shard_at_key [OF at]] at have "configured pf (cfg i) (wr_objects st1 ! a)" by auto
  note dim = configured_dim [OF this]
  have view: "writer_docs vecs st1 j t = (if t \<in> shards_of R j then writer_docs vecs st j t else {#})" for j t
    using refreshed_view [OF _ ok0 ok1, of objects "shards_of R" "faiss_index_docs vecs" "{#}"] r by (simp add: empty_index_def)
  have "faiss_index_docs vecs (wr_objects st1 ! a) = writer_docs vecs st1 i s" by (simp add: writer_view_def at)
  then have "faiss_index_docs vecs ix' = writer_docs vecs st i s +
      {#(doc_id data, take (config_dim pf (cfg i)) (doc_vector data))#}"
    using add s(1) by (simp add: document_added_def dim view)
  then have "\<forall>j t. writer_docs vecs ((added_state a i s ix' g' ev st1)\<lparr>wr_prom := p\<rparr>) j t =
      (if t \<in> shards_of R j then writer_docs vecs st j t else {#}) +
      (if (j, t) = (i, s) then {#(doc_id data, take (config_dim pf (cfg i)) (doc_vector data))#} else {#})"
    using s(1) by (simp only: added_view [OF sh at] view) simp
  with res ok' s met show ?thesis
    by (intro exI [of _ "(added_state a i s ix' g' ev st1)\<lparr>wr_prom := p\<rparr>"] exI [of _ s]) simp
qed

text \<open>
  C9. A write request adds its document to exactly one shard. When the request names a configured
  index with shards in etcd, carries a vector of at least its dimension and an identifier the index has
  not seen, it succeeds; the document goes to a listed shard whose response time is the lowest of all
  listed shards of the index; every other listed shard of every index keeps its documents, shards that
  are no longer listed disappear; the gauge of the shard goes up by one, up to \<open>2 ^ 53\<close>, where
  doubles stop counting; and the invariant of the writer holds again.
\<close>

theorem writer_adds_document:
  fixes pf :: "('b, 'f::{linorder, zero}, 'j, 'e, 's, 'p, 'cf, 'gf) pf"
  assumes "platform_ok pf vecs dst buckets objects" and "writer_ok pf vecs dst buckets cfg st"
    and "etcd_holds (pf_etcd pf) kv (wr_etcd st) R" and "times_ok R" and "writer_metrics (pf_prom pf) (wr_prom st) v"
    and "reorders ita" and "reorders iti"
    and "map_of (doc_attributes data) ''index-id'' = Some i" and "map_of (doc_attributes data) ''delete'' = None"
    and "i \<in> fst ` set (wr_create_args st)" and "shards_of R i \<noteq> {}"
    and "config_dim pf (cfg i) \<le> length (doc_vector data)" and "\<forall>s. doc_id data \<notin> writer_known st i s"
  shows "\<exists>st' s. ProcessWriteRequest pf ita iti data st = (Inr StatusOK, st') \<and> writer_ok pf vecs dst buckets cfg st' \<and>
    s \<in> shards_of R i \<and> (\<forall>u \<in> shards_of R i. shard_time R i s \<le> shard_time R i u) \<and>
    (\<forall>j t. writer_docs vecs st' j t = (if t \<in> shards_of R j then writer_docs vecs st j t else {#}) +
      (if (j, t) = (i, s) then {#(doc_id data, take (config_dim pf (cfg i)) (doc_vector data))#} else {#})) \<and>
    (let labels = [(''index_id'', i), (''shard_id'', s)]
     in writer_metrics (pf_prom pf) (wr_prom st') (v(labels := min (v labels + 1) (2 ^ 53))))"
  by (rule write_request_documents [OF assms])

section \<open>Requests that add nothing\<close>

text \<open>The part of the handler before the attributes are looked at.\<close>

lemma write_prologue_ok:
  fixes pf :: "('b, 'f::{linorder, zero}, 'j, 'e, 's, 'p, 'cf, 'gf) pf"
  assumes pok: "platform_ok pf vecs dst buckets objects" and ok: "writer_ok pf vecs dst buckets cfg st"
    and R: "etcd_holds (pf_etcd pf) kv (wr_etcd st) R" and prom: "writer_metrics (pf_prom pf) (wr_prom st) v"
    and it: "reorders ita" "reorders iti"
  shows "\<exists>q st1. writer_prom (IncrementCounter (pf_prom pf) ''requests_count'' 1 []) st = (Inr (), st\<lparr>wr_prom := q\<rparr>) \<and>
    updateIndexesState pf ita iti (st\<lparr>wr_prom := q\<rparr>) = (Inr (), st1) \<and> writer_ok pf vecs dst buckets cfg st1 \<and>
    refreshed vecs objects (fst ` set (wr_create_args st)) (shards_of R) (st\<lparr>wr_prom := q\<rparr>) st1 \<and>
    writer_metrics (pf_prom pf) (wr_prom st1) v \<and> wr_queue st1 = wr_queue st \<and> wr_etcd st1 = wr_etcd st \<and>
    (\<forall>j t. writer_docs vecs st1 j t = (if t \<in> shards_of R j then writer_docs vecs st j t else {#})) \<and>
    (\<forall>i. i \<in> fst ` set (wr_shards st1) \<longleftrightarrow> i \<in> fst ` set (wr_create_args st) \<and> shards_of R i \<noteq> {}) \<and>
    (\<forall>i \<in> fst ` set (wr_create_args st). \<forall>s. (i, s) \<in> nested_keys (wr_shards st1) \<longleftrightarrow> s \<in> shards_of R i)"
proof -
  from writer_metrics_inc [OF prom, of "''requests_count''" "[]"] obtain q
    where q: "IncrementCounter (pf_prom pf) ''requests_count'' 1 [] (wr_prom st) = (Inr (), q)" "writer_metrics (pf_prom pf) q v"
    by (auto simp: writer_counters_def shard_labels_ok)
  let ?st0 = "st\<lparr>wr_prom := q\<rparr>"
  have ok0: "writer_ok pf vecs dst buckets cfg ?st0" using ok by (simp add: writer_ok_def)
  from updateIndexesState_ok [OF pok ok0 it, of kv R] R obtain st1
    where st1: "updateIndexesState pf ita iti ?st0 = (Inr (), st1)" "writer_ok pf vecs dst buckets cfg st1"
      "refreshed vecs objects (fst ` set (wr_create_args st)) (shards_of R) ?st0 st1" by auto
  from st1(3) obtain new' g m c where spec: "refresh_spec vecs objects (fst ` set (wr_create_args st)) (shards_of R) ?st0 new' m c"
    and m: "st1 = ?st0\<lparr>wr_objects := wr_objects ?st0 @ new', wr_rng := g, wr_shards := m, wr_storage := c\<rparr>"
    unfolding refreshed_def by blast
  have "fst ` set (wr_shards st) \<subseteq> fst ` set (wr_create_args st)" using ok by (simp add: writer_ok_def shards_ok_def)
  then have "i \<in> fst ` set (wr_shards st1) \<longleftrightarrow> i \<in> fst ` set (wr_create_args st) \<and> shards_of R i \<noteq> {}" for i
    using refresh_specD(6) [OF spec, of i] by (auto simp: m simp del: image_iff)
  moreover have "(i, s) \<in> nested_keys (wr_shards st1) \<longleftrightarrow> s \<in> shards_of R i" if "i \<in> fst ` set (wr_create_args st)" for i s
    using refresh_specD(4) [OF spec, of i s] that by (simp add: m)
  moreover have "writer_docs vecs st1 j t = (if t \<in> shards_of R j then writer_docs vecs st j t else {#})" for j t
    using refreshed_view [OF _ ok0 st1(2), of objects "shards_of R" "faiss_index_docs vecs" "{#}"] st1(3)
    by (simp add: empty_index_def)
  moreover have "writer_prom (IncrementCounter (pf_prom pf) ''requests_count'' 1 []) st = (Inr (), ?st0)"
    using q(1) by (simp add: writer_prom_def partP_def)
  moreover have "wr_prom st1 = q" "wr_queue st1 = wr_queue st" "wr_etcd st1 = wr_etcd st" by (simp_all add: m)
  ultimately show ?thesis using st1 q(2) by (intro exI [of _ q] exI [of _ st1]) blast
qed

definition refused :: "registry \<Rightarrow> ('b, 'j, 'e, 's, 'p, 'cf, 'gf, 'w) WriterImpl \<Rightarrow> 'f Document \<Rightarrow> bool" where
  "refused R st data \<longleftrightarrow> (\<forall>i. map_of (doc_attributes data) ''index-id'' = Some i \<longrightarrow>
     i \<notin> fst ` set (wr_create_args st) \<or> shards_of R i = {})"

lemma refused_request_ok:
  fixes pf :: "('b, 'f::{linorder, zero}, 'j, 'e, 's, 'p, 'cf, 'gf) pf"
  assumes "platform_ok pf vecs dst buckets objects" and "writer_ok pf vecs dst buckets cfg st"
    and "etcd_holds (pf_etcd pf) kv (wr_etcd st) R" and "writer_metrics (pf_prom pf) (wr_prom st) v"
    and "reorders ita" and "reorders iti" and rq: "refused R st data"
  shows "\<exists>q st'. ProcessWriteRequest pf ita iti data st =
      (Inr (INVALID_ARGUMENT (if map_of (doc_attributes data) ''index-id'' = None then ''Missing index id'' else ''Wrong index id'')), st') \<and>
    writer_ok pf vecs dst buckets cfg st' \<and> writer_metrics (pf_prom pf) (wr_prom st') v \<and> wr_queue st' = wr_queue st \<and>
    refreshed vecs objects (fst ` set (wr_create_args st)) (shards_of R) (st\<lparr>wr_prom := q\<rparr>) st' \<and>
    (\<forall>j t. writer_docs vecs st' j t = (if t \<in> shards_of R j then writer_docs vecs st j t else {#}))"
proof -
  from write_prologue_ok [OF assms(1-6)] obtain q st1
    where st1: "writer_prom (IncrementCounter (pf_prom pf) ''requests_count'' 1 []) st = (Inr (), st\<lparr>wr_prom := q\<rparr>)"
      "updateIndexesState pf ita iti (st\<lparr>wr_prom := q\<rparr>) = (Inr (), st1)" "writer_ok pf vecs dst buckets cfg st1"
      "refreshed vecs objects (fst ` set (wr_create_args st)) (shards_of R) (st\<lparr>wr_prom := q\<rparr>) st1"
      "writer_metrics (pf_prom pf) (wr_prom st1) v" "wr_queue st1 = wr_queue st"
      "\<forall>j t. writer_docs vecs st1 j t = (if t \<in> shards_of R j then writer_docs vecs st j t else {#})"
      "\<forall>i. i \<in> fst ` set (wr_shards st1) \<longleftrightarrow> i \<in> fst ` set (wr_create_args st) \<and> shards_of R i \<noteq> {}"
    by (elim exE conjE) (rule that; assumption)
  have "map_of (wr_shards st1) i = None" if "map_of (doc_attributes data) ''index-id'' = Some i" for i
    using rq [unfolded refused_def, rule_format, OF that] st1(8) [rule_format, of i]
    by (auto simp: map_of_eq_None_iff simp del: image_iff)
  then have "ProcessWriteRequest pf ita iti data st = (Inr (INVALID_ARGUMENT
      (if map_of (doc_attributes data) ''index-id'' = None then ''Missing index id'' else ''Wrong index id'')), st1)"
    by (cases "map_of (doc_attributes data) ''index-id''")
      (simp_all add: ProcessWriteRequest_def thenP_def bindP_def st1(1,2) readP_def returnP_def)
  with st1(3-7) show ?thesis by blast
qed

text \<open>
  A request without an index, or for an index that is not configured or has no shard in etcd, is
  answered with \<open>INVALID_ARGUMENT\<close> and changes no documents and no gauge and queues no task: only the
  shards that etcd does not list any more disappear, as with every request.
\<close>

theorem writer_rejects_request:
  fixes pf :: "('b, 'f::{linorder, zero}, 'j, 'e, 's, 'p, 'cf, 'gf) pf"
  assumes "platform_ok pf vecs dst buckets objects" and "writer_ok pf vecs dst buckets cfg st"
    and "etcd_holds (pf_etcd pf) kv (wr_etcd st) R" and "writer_metrics (pf_prom pf) (wr_prom st) v"
    and "reorders ita" and "reorders iti"
    and "\<forall>i. map_of (doc_attributes data) ''index-id'' = Some i \<longrightarrow> i \<notin> fst ` set (wr_create_args st) \<or> shards_of R i = {}"
  shows "\<exists>st'. ProcessWriteRequest pf ita iti data st =
      (Inr (INVALID_ARGUMENT (if map_of (doc_attributes data) ''index-id'' = None then ''Missing index id'' else ''Wrong index id'')), st') \<and>
    writer_ok pf vecs dst buckets cfg st' \<and> writer_metrics (pf_prom pf) (wr_prom st') v \<and> wr_queue st' = wr_queue st \<and>
    (\<forall>j t. writer_docs vecs st' j t = (if t \<in> shards_of R j then writer_docs vecs st j t else {#}))"
  using refused_request_ok [OF assms(1-6)] assms(7) unfolding refused_def by blast

text \<open>
  C38. A request to delete a document looks it up in the shard that is named like the index. When
  etcd lists no such shard, the handler dereferences a null pointer; no document is deleted.
\<close>

theorem writer_delete_null_pointer:
  fixes pf :: "('b, 'f::{linorder, zero}, 'j, 'e, 's, 'p, 'cf, 'gf) pf"
  assumes "platform_ok pf vecs dst buckets objects" and "writer_ok pf vecs dst buckets cfg st"
    and R: "etcd_holds (pf_etcd pf) kv (wr_etcd st) R" "times_ok R" and "writer_metrics (pf_prom pf) (wr_prom st) v"
    and it: "reorders ita" "reorders iti"
    and rq: "map_of (doc_attributes data) ''index-id'' = Some i" "map_of (doc_attributes data) ''delete'' \<noteq> None"
    and i: "i \<in> fst ` set (wr_create_args st)" "shards_of R i \<noteq> {}" "i \<notin> shards_of R i"
  shows "\<exists>st'. ProcessWriteRequest pf ita iti data st = (Inl NullPointer, st') \<and>
    (\<forall>j t. writer_docs vecs st' j t = (if t \<in> shards_of R j then writer_docs vecs st j t else {#}))"
proof -
  from write_prologue_ok [OF assms(1-3,5-7)] obtain q st1
    where st1: "writer_prom (IncrementCounter (pf_prom pf) ''requests_count'' 1 []) st = (Inr (), st\<lparr>wr_prom := q\<rparr>)"
      "updateIndexesState pf ita iti (st\<lparr>wr_prom := q\<rparr>) = (Inr (), st1)" "writer_ok pf vecs dst buckets cfg st1"
      "writer_metrics (pf_prom pf) (wr_prom st1) v" "wr_etcd st1 = wr_etcd st"
      "\<forall>j t. writer_docs vecs st1 j t = (if t \<in> shards_of R j then writer_docs vecs st j t else {#})"
      "\<forall>i. i \<in> fst ` set (wr_shards st1) \<longleftrightarrow> i \<in> fst ` set (wr_create_args st) \<and> shards_of R i \<noteq> {}"
      "\<forall>i \<in> fst ` set (wr_create_args st). \<forall>s. (i, s) \<in> nested_keys (wr_shards st1) \<longleftrightarrow> s \<in> shards_of R i"
    by (elim exE conjE) (rule that; assumption)
  note keys = st1(8) [rule_format, OF i(1)]
  have sh: "shards_ok pf cfg (wr_create_args st1) (wr_objects st1) (wr_shards st1)" using st1(3) by (simp add: writer_ok_def)
  have im: "i \<in> fst ` set (wr_shards st1)" using st1(7) i by blast
  have slash: "no_slash i" using assms(2) i(1) by (auto simp: writer_ok_def dest: weak_map_of_SomeI)
  from chooseShard_ok [OF sh _ R(2) slash it(2) im keys i(2), of kv] R(1) st1(5) obtain s
    where s: "chooseShard pf iti i st1 = (Inr s, st1)" by auto
  from rq(2) obtain x where x: "map_of (doc_attributes data) ''delete'' = Some x" by blast
  from writer_metrics_get [OF st1(4), of "[(''index_id'', i), (''shard_id'', s)]"] obtain q2 w
    where q2: "GetGaugeValue (pf_prom pf) as_size_t ''vectors_count'' [(''index_id'', i), (''shard_id'', s)] (wr_prom st1) = (Inr w, q2)"
    by (auto simp: shard_labels_ok)
  then have "writer_prom (GetGaugeValue (pf_prom pf) as_size_t ''vectors_count'' [(''index_id'', i), (''shard_id'', s)]) st1 =
      (Inr w, st1\<lparr>wr_prom := q2\<rparr>)" by (simp add: writer_prom_def partP_def)
  moreover have "shard_at (wr_shards st1) i i = None"
    using shard_at_key [of "wr_shards st1" i i] keys i(3) by (cases "shard_at (wr_shards st1) i i") auto
  moreover have "map_of (wr_shards st1) i \<noteq> None" using im by (simp add: map_of_eq_None_iff)
  ultimately have "ProcessWriteRequest pf ita iti data st =
      (Inl NullPointer, st1\<lparr>wr_prom := q2, wr_shards := touch_shard i i (wr_shards st1)\<rparr>)"
    using rq(1) x by (simp add: ProcessWriteRequest_def thenP_def bindP_def st1(1,2) readP_def returnP_def modifyP_def throwP_def
        s Let_def writer_erase_def writer_shard_def)
  moreover have "writer_docs vecs (st1\<lparr>wr_prom := q2, wr_shards := touch_shard i i (wr_shards st1)\<rparr>) = writer_docs vecs st1"
    by (simp add: writer_view_def fun_eq_iff split: option.split)
  ultimately show ?thesis using st1(6) by simp
qed

section \<open>Witnesses\<close>

definition demo_item :: ref_json where
  "demo_item = JObject [(''id'', JString ''products''), (''type'', JString ''faissFlat''), (''library'', JString ''faiss''),
     (''dim'', JInt 2), (''threshold'', JInt 1), (''metric'', JString ''L1''), (''enable_merge'', JBool False)]"

definition demo_cfg :: index_config where
  "demo_cfg = (FlatArgs 2 METRIC_L1, 1, False)"

lemma demo_item_ok: "config_ok ref_platform demo_item demo_cfg"
proof -
  have "created_args ref_json_lib demo_item ''faissFlat'' ''faiss'' 2 ''L1'' = Inr (FlatArgs 2 METRIC_L1)"
    by (simp add: created_args_def)
  moreover have "describes ref_json_lib demo_item ''faissFlat'' ''faiss'' 2 (int 1) ''L1'' False"
    by (simp add: demo_item_def describes_def json_string_def json_int_def json_bool_def ref_json_lib_def)
  ultimately show ?thesis
    unfolding config_ok_def demo_cfg_def prod.case ref_platform_simps using ref_make_dim(1)
    by (intro conjI exI [of _ "''faissFlat''"] exI [of _ "''faiss''"] exI [of _ 2] exI [of _ "''L1''"]) simp_all
qed

lemma ref_platform_ok: "platform_ok ref_platform ref_vecs ref_dist fst snd"
  by (simp add: platform_ok_def ref_faiss_contract ref_faiss_files reorders_rev demo_order_ok ref_s3_contract)

text \<open>etcd with one searcher, and a writer that has not seen a request.\<close>

definition demo_etcd :: "(string \<times> string) list" where
  "demo_etcd = snd (AddSearcherHost ref_etcd ''products'' ''s'' ''h:1'' [])"

definition demo_registry :: registry where
  "demo_registry = add_host ''products'' ''s'' ''h:1'' empty_registry"

lemma demo_etcd_holds: "etcd_holds ref_etcd map_of demo_etcd demo_registry"
proof -
  from etcd.add_holds [OF ref_etcd_empty, of "''products''" "''s''" "''h:1''"] show ?thesis
    by (auto simp: demo_etcd_def demo_registry_def no_slash_def)
qed

lemma demo_registry_simps:
  "shards_of demo_registry i = (if i = ''products'' then {''s''} else {})"
  "hosts_of demo_registry i s = (if i = ''products'' \<and> s = ''s'' then {''h:1''} else {})"
  "times_ok demo_registry"
  by (auto simp: demo_registry_def shards_of_def hosts_of_def add_host_def empty_registry_def times_ok_def)

definition demo_writer ::
  "'w \<Rightarrow> (ref_base, ref_json, (string \<times> string) list, string set \<times> (string \<times> string \<rightharpoonup> string), ref_registry, string, string, 'w) WriterImpl" where
  "demo_writer w = \<lparr>wr_host = ''h'', wr_port = ''2'', wr_create_args = [(''products'', demo_item)], wr_objects = [],
     wr_shards = [], wr_etcd = demo_etcd, wr_storage = \<lparr>sc_s3Client = True, sc_s3 = ({}, Map.empty), sc_files = Map.empty\<rparr>,
     wr_prom = ref_exposer, wr_rng = (\<lambda>n. n), wr_queue = [], wr_world = w\<rparr>"

lemma demo_writer_ok: "writer_ok ref_platform ref_vecs ref_dist fst (\<lambda>_. demo_cfg) (demo_writer w)"
proof -
  have "objects_ok ref_platform ref_vecs ref_dist [] (\<lambda>n. n)" by (simp add: objects_ok_def inj_on_def)
  moreover have "shards_ok ref_platform (\<lambda>_. demo_cfg) [(''products'', demo_item)] [] []"
    by (rule shards_okI) (simp_all add: nested_wf_def nested_keys_def shard_at_def nested_get_def)
  ultimately show ?thesis
    by (simp add: writer_ok_def demo_writer_def demo_item_ok no_slash_def buckets_ok_def)
qed

lemma demo_writer_metrics: "writer_metrics ref_prom ref_exposer (\<lambda>_. 0)"
  unfolding writer_metrics_def
  using ref_exposer_holds [where cnames = writer_counters and gnames = "{''vectors_count''}"] by (force simp: no_metrics_def)

definition demo_document :: "string \<Rightarrow> (string \<times> string) list \<Rightarrow> int Document" where
  "demo_document i attrs = \<lparr>doc_vector = [4, 2], doc_id = ''d'', doc_attributes = (''index-id'', i) # attrs\<rparr>"

lemma demo_writer_simps [simp]:
  "wr_create_args (demo_writer w) = [(''products'', demo_item)]" "wr_etcd (demo_writer w) = demo_etcd"
  "wr_prom (demo_writer w) = ref_exposer" "wr_queue (demo_writer w) = []" "writer_view z f (demo_writer w) i s = z"
  by (simp_all add: demo_writer_def writer_view_def shard_at_def nested_get_def)

lemma demo_dim: "config_dim ref_platform demo_cfg = 2"
  using ref_make_dim by (simp add: config_dim_def demo_cfg_def)

theorem writer_adds_document_witness:
  "\<exists>st'. ProcessWriteRequest ref_platform rev rev (demo_document ''products'' []) (demo_writer ()) = (Inr StatusOK, st') \<and>
    writer_docs ref_vecs st' ''products'' ''s'' = {#(''d'', [4, 2])#}"
  using writer_adds_document [OF ref_platform_ok demo_writer_ok [of "()"], where R = demo_registry and kv = map_of and
      v = "\<lambda>_. 0" and ita = rev and iti = rev and data = "demo_document ''products'' []" and i = "''products''"]
  by (simp add: demo_etcd_holds demo_registry_simps demo_writer_metrics reorders_rev demo_document_def demo_dim)
    (elim exE conjE, intro exI conjI, assumption, simp add: demo_dim demo_document_def)

theorem writer_rejects_request_witness:
  "\<exists>st'. ProcessWriteRequest ref_platform rev rev (demo_document ''unknown'' []) (demo_writer ()) =
      (Inr (INVALID_ARGUMENT ''Wrong index id''), st') \<and> wr_queue st' = []"
  using writer_rejects_request [OF ref_platform_ok demo_writer_ok [of "()"], where R = demo_registry and kv = map_of and
      v = "\<lambda>_. 0" and ita = rev and iti = rev and data = "demo_document ''unknown'' []"]
  by (simp add: demo_etcd_holds demo_registry_simps demo_writer_metrics reorders_rev demo_document_def) blast

theorem writer_delete_null_pointer_witness:
  "\<exists>st'. ProcessWriteRequest ref_platform rev rev (demo_document ''products'' [(''delete'', '''')]) (demo_writer ()) =
      (Inl NullPointer, st')"
  using writer_delete_null_pointer [OF ref_platform_ok demo_writer_ok [of "()"], where R = demo_registry and kv = map_of and
      v = "\<lambda>_. 0" and ita = rev and iti = rev and data = "demo_document ''products'' [(''delete'', '''')]" and i = "''products''"]
  by (simp add: demo_etcd_holds demo_registry_simps demo_writer_metrics reorders_rev demo_document_def) blast

end
