(* ===== verification/Writer_Log.thy ===== *)
theory Writer_Log
  imports Writer_Correct
begin

text \<open>
  The index of a writer that does not merge is a log: documents fill the last segment, a full segment
  is sealed, reported and never changes again. Sealed segments of flat indexes fit their files.
\<close>

section \<open>One document\<close>

lemma index_add_one:
  assumes add: "index_add V 1 [d] vec ix g = Inr (ix', g', ev)" and merge: "\<not> ix_enable_merge ix"
  shows "\<exists>s. seg_addVectorBatch V (seg_at ix (ix_last ix)) 1 [d] vec = Inr s \<and>
    (if seg_size V s = ix_threshold ix
     then index_seal V (ix\<lparr>ix_store := (ix_store ix)[ix_last ix := s]\<rparr>) g = Inr (ix', g') \<and>
       ev = (if ix_callback ix' then [([], [ix_last ix])] else [])
     else ix' = ix\<lparr>ix_store := (ix_store ix)[ix_last ix := s]\<rparr> \<and> g' = g \<and> ev = [])"
proof -
  let ?ix = "\<lambda>s. ix\<lparr>ix_store := (ix_store ix)[ix_last ix := s]\<rparr>"
  let ?batch = "min 1 (size_sub (ix_threshold ix) (seg_size V (seg_at ix (ix_last ix))))"
  from add obtain ix1 g1 ins where loop: "index_add_loop V 1 [d] vec ix g [] = Inr (ix1, g1, ins)"
    and res: "(let events = (if ix_callback ix1 \<and> ins \<noteq> [] then [([], ins)] else []) in
        if merge_predicate ix1
        then bindR (storage_merge V 200 ix1 g1) (\<lambda>(ix, g, events'). Inr (ix, g, events @ events'))
        else Inr (ix1, g1, events)) = Inr (ix', g', ev)"
    by (auto simp: index_add_def bindR_eq_Inr split: if_splits)
  have batch: "?batch = 1"
    using loop by (simp add: index_add_loop.simps [of V "Suc 0"] Let_def min_def split: if_splits)
  then obtain s where s: "seg_addVectorBatch V (seg_at ix (ix_last ix)) 1 [d] vec = Inr s"
    using loop by (auto simp: index_add_loop.simps [of V "Suc 0"] Let_def bindR_eq_Inr)
  show ?thesis
  proof (cases "seg_size V s = ix_threshold ix")
    case True
    with loop batch s obtain "index_seal V (?ix s) g = Inr (ix1, g1)" "ins = [ix_last ix]"
      by (auto simp: index_add_loop.simps [of V "Suc 0"] index_add_loop.simps [of V 0] Let_def bindR_eq_Inr)
    moreover from this have "\<not> merge_predicate ix1"
      using merge by (auto simp: index_seal_def bindR_eq_Inr Let_def merge_predicate_def factory_create_def segment_new_def rand_def)
    ultimately show ?thesis using s True res by auto
  next
    case False
    with loop batch s have "ix1 = ?ix s \<and> g1 = g \<and> ins = []"
      by (auto simp: index_add_loop.simps [of V "Suc 0"] index_add_loop.simps [of V 0] Let_def bindR_eq_Inr)
    with merge res s False show ?thesis by (auto simp: merge_predicate_def)
  qed
qed

lemma storage_add_ptrs:
  assumes "storage_add st p n = Inr st'" and "n \<le> 2 ^ 63"
  shows "mset (level_ptrs (levels st')) = add_mset p (mset (level_ptrs (levels st)))"
proof -
  from storage_add_spec [OF assms(2), of st p] obtain i lv e t
    where "storage_add st p n = Inr t" "lv = levels st @ replicate e []" "i < length lv" "levels t = lv[i := lv ! i @ [Some p]]"
    by blast
  with assms(1) show ?thesis using mset_level_ptrs_update [of i lv "lv ! i @ [Some p]"] by simp
qed

text \<open>Only sealing draws an identifier.\<close>

lemma index_add_one_ids:
  assumes "index_add V 1 [d] vec ix g = Inr (ix', g', ev)" and "\<not> ix_enable_merge ix" and last: "ix_last ix < length (ix_store ix)"
  shows "seg_ids ix' \<subseteq> insert (g 0) (seg_ids ix)"
proof -
  from index_add_one [OF assms(1,2)] obtain s where s: "seg_addVectorBatch V (seg_at ix (ix_last ix)) 1 [d] vec = Inr s"
    and res: "if seg_size V s = ix_threshold ix
       then index_seal V (ix\<lparr>ix_store := (ix_store ix)[ix_last ix := s]\<rparr>) g = Inr (ix', g') \<and>
         ev = (if ix_callback ix' then [([], [ix_last ix])] else [])
       else ix' = ix\<lparr>ix_store := (ix_store ix)[ix_last ix := s]\<rparr> \<and> g' = g \<and> ev = []" by blast
  have "seg_id s \<in> seg_ids ix" using seg_addVectorBatch_id [OF s] last by (simp add: seg_ids_def)
  then have sub: "seg_id ` set ((ix_store ix)[ix_last ix := s]) \<subseteq> seg_ids ix"
    using set_update_subset_insert [of "ix_store ix" "ix_last ix" s] by (auto simp: seg_ids_def)
  show ?thesis
  proof (cases "seg_size V s = ix_threshold ix")
    case True
    with res have "seg_ids ix' = insert (g 0) (seg_id ` set ((ix_store ix)[ix_last ix := s]))"
      by (auto simp: index_seal_def bindR_eq_Inr Let_def factory_create_def segment_new_def rand_def seg_ids_def)
    with sub show ?thesis by auto
  next
    case False
    with res sub show ?thesis by (auto simp: seg_ids_def)
  qed
qed

section \<open>The log\<close>

text \<open>A segment in which nothing was erased, with at most \<open>n\<close> documents and identifiers a file can hold.\<close>

definition plain_segment :: "nat \<Rightarrow> ('b, string) FaissIndex Segment \<Rightarrow> bool" where
  "plain_segment n seg \<longleftrightarrow> fi_erased (seg_index seg) = [] \<and> fi_next_id (seg_index seg) \<le> int n \<and>
     seg_type seg = get_segment_type (fi_kind (seg_index seg)) \<and>
     (\<forall>i \<in> faiss_known (seg_index seg). length i \<le> string_max_size)"

definition log_ok :: "'b shard_index \<Rightarrow> bool" where
  "log_ok ix \<longleftrightarrow> \<not> ix_enable_merge ix \<and> ix_threshold ix < 2 ^ 31 \<and>
     plain_segment 0 \<lparr>seg_index = sf_index (ix_factory ix), seg_id = 0, seg_type = sf_type (ix_factory ix)\<rparr> \<and>
     mset (level_ptrs (levels (ix_storage ix))) = mset (ix_segments ix) \<and>
     (\<forall>seg \<in> set (ix_store ix). plain_segment (ix_threshold ix) seg)"

lemma plain_segment_docs:
  assumes "faiss_wf (seg_index seg)" and "plain_segment n seg"
  shows "int (length (faiss_docs vecs (seg_index seg))) = fi_next_id (seg_index seg)"
proof -
  note D = faiss_wfD [OF assms(1)]
  have "length (fi_inv_ids (seg_index seg)) = nat (fi_next_id (seg_index seg))"
    using distinct_card [OF D(3)] D(4) by simp
  moreover have "faiss_docs vecs (seg_index seg) = map (\<lambda>(l, i). (i, vecs (fi_index (seg_index seg)) ! nat l)) (fi_inv_ids (seg_index seg))"
    using assms(2) by (simp add: faiss_docs_def plain_segment_def)
  ultimately show ?thesis using D(1) by simp
qed

lemma plain_segment_file:
  assumes "plain_segment n seg" and "n < 2 ^ 31" and "faiss_inv F vecs (seg_index seg)" and "seg_id seg < 2 ^ 64"
  shows "segment_file_ok F vecs (\<lambda>i. length i \<le> string_max_size) seg"
  using assms by (auto simp: segment_file_ok_def file_fits_def plain_segment_def)

lemma log_ok_segments:
  assumes "log_ok ix" and "index_wf invar shape dm docs known ix"
  shows "distinct (ix_segments ix)" and "ix_last ix \<notin> set (ix_segments ix)"
    and "set (ix_segments ix) = set (level_ptrs (levels (ix_storage ix)))"
    and "set (owners ix) = insert (ix_last ix) (set (ix_segments ix))"
proof -
  have m: "mset (level_ptrs (levels (ix_storage ix))) = mset (ix_segments ix)" using assms(1) by (simp add: log_ok_def)
  then show eq: "set (ix_segments ix) = set (level_ptrs (levels (ix_storage ix)))" by (metis set_mset_mset)
  have "distinct (level_ptrs (levels (ix_storage ix)))" "ix_last ix \<notin> set (level_ptrs (levels (ix_storage ix)))"
    using index_wfD(2) [OF assms(2)] by (simp_all add: owners_def)
  with m eq show "distinct (ix_segments ix)" "ix_last ix \<notin> set (ix_segments ix)"
    by (metis mset_eq_imp_distinct_iff, simp)
  show "set (owners ix) = insert (ix_last ix) (set (ix_segments ix))" by (simp add: owners_def eq)
qed

lemma fresh_index_log:
  assumes "fresh_index n ix" and "configured pf cf ix" and "cf = (FlatArgs m metric, thr, False)" and "thr < 2 ^ 31"
  shows "log_ok ix"
  using assms by (auto simp: fresh_index_def log_ok_def configured_def plain_segment_def faiss_factory_def faiss_new_def
      faiss_known_def)

text \<open>What adding a document does to the log: at most one more segment is sealed and reported.\<close>

lemma log_ok_add:
  fixes pf :: "('b, 'f::{linorder, zero}, 'j, 'e, 's, 'p, 'cf, 'gf) pf"
  assumes inv: "faiss_index_inv (pf_faiss pf) vecs dst (pf_merge_order pf) ix" and log: "log_ok ix" and cb: "ix_callback ix"
    and add: "index_add (platform_vtable pf) 1 [d] vec ix g = Inr (ix', g', ev)" and d: "length d \<le> string_max_size"
  shows "log_ok ix' \<and> (\<forall>p \<in> set (ix_segments ix). seg_at ix' p = seg_at ix p) \<and>
    (ix_segments ix' = ix_segments ix \<and> ev = [] \<or> ix_segments ix' = ix_segments ix @ [ix_last ix] \<and> ev = [([], [ix_last ix])])"
proof -
  let ?V = "platform_vtable pf" and ?last = "ix_last ix" and ?thr = "ix_threshold ix"
  have wf: "index_wf (faiss_ok (pf_faiss pf) vecs dst (pf_merge_order pf)) (faiss_shape (pf_faiss pf))
      (\<lambda>x. fx_d (pf_faiss pf) (fi_index x)) (faiss_docs vecs) faiss_known ix"
    and room: "length (faiss_docs vecs (seg_index (seg_at ix ?last))) < ?thr"
    using inv by (simp_all add: faiss_index_inv_def index_inv_def)
  note H = heap_wfD [OF index_wfD(4) [OF wf]] and L = log_ok_segments [OF log wf]
  have last: "?last < length (ix_store ix)" using H(1) by (auto simp: owners_def)
  have merge: "\<not> ix_enable_merge ix" and thr: "?thr < 2 ^ 31"
    and fac: "plain_segment 0 \<lparr>seg_index = sf_index (ix_factory ix), seg_id = 0, seg_type = sf_type (ix_factory ix)\<rparr>"
    and ptrs: "mset (level_ptrs (levels (ix_storage ix))) = mset (ix_segments ix)"
    and segs: "\<And>seg. seg \<in> set (ix_store ix) \<Longrightarrow> plain_segment ?thr seg" using log by (simp_all add: log_ok_def)
  from index_add_one [OF add merge] obtain s where s: "seg_addVectorBatch ?V (seg_at ix ?last) 1 [d] vec = Inr s"
    and res: "if seg_size ?V s = ?thr
       then index_seal ?V (ix\<lparr>ix_store := (ix_store ix)[?last := s]\<rparr>) g = Inr (ix', g') \<and>
         ev = (if ix_callback ix' then [([], [?last])] else [])
       else ix' = ix\<lparr>ix_store := (ix_store ix)[?last := s]\<rparr> \<and> g' = g \<and> ev = []" by blast
  have plain: "plain_segment ?thr (seg_at ix ?last)" using segs last by simp
  moreover have "faiss_wf (seg_index (seg_at ix ?last))"
    using H(3) last by (simp add: faiss_ok_def faiss_inv_def)
  ultimately have "fi_next_id (seg_index (seg_at ix ?last)) < int ?thr"
    using plain_segment_docs [of "seg_at ix ?last" ?thr vecs] room by simp
  with s plain d have plain': "plain_segment ?thr s"
    by (auto simp: seg_addVectorBatch_def bindR_eq_Inr platform_vtable_def faiss_vtable_def faiss_add_batch_def Let_def
        plain_segment_def simp del: faiss_assign_ids.simps split: if_splits) (auto simp: faiss_known_def)
  have store: "\<forall>seg \<in> set ((ix_store ix)[?last := s]). plain_segment ?thr seg"
    using segs plain' set_update_subset_insert [of "ix_store ix" ?last s] by blast
  show ?thesis
  proof (cases "seg_size ?V s = ?thr")
    case True
    with res obtain st where st: "storage_add (ix_storage ix) ?last (seg_size ?V s) = Inr st"
      and ix': "ix' = ix\<lparr>ix_storage := st, ix_segments := ix_segments ix @ [?last],
        ix_store := (ix_store ix)[?last := s] @ [\<lparr>seg_index = sf_index (ix_factory ix), seg_id = g 0, seg_type = sf_type (ix_factory ix)\<rparr>],
        ix_last := length (ix_store ix)\<rparr>"
      and ev: "ev = (if ix_callback ix' then [([], [?last])] else [])"
      using last by (auto simp: index_seal_def bindR_eq_Inr factory_create_def segment_new_def rand_def)
    have "mset (level_ptrs (levels st)) = mset (ix_segments ix')"
      using storage_add_ptrs [OF st] True thr ptrs by (simp add: ix')
    moreover have "plain_segment ?thr \<lparr>seg_index = sf_index (ix_factory ix), seg_id = g 0, seg_type = sf_type (ix_factory ix)\<rparr>"
      using fac by (simp add: plain_segment_def)
    ultimately have "log_ok ix'" using merge thr fac store by (simp add: log_ok_def ix')
    moreover have "seg_at ix' p = seg_at ix p" if "p \<in> set (ix_segments ix)" for p
      using that H(2) L(2) by (cases "p = ?last") (auto simp: ix' nth_append)
    ultimately show ?thesis using ev cb by (simp add: ix')
  next
    case False
    with res have ix': "ix' = ix\<lparr>ix_store := (ix_store ix)[?last := s]\<rparr>" "ev = []" by simp_all
    moreover have "log_ok ix'" using merge thr fac ptrs store by (simp add: log_ok_def ix'(1))
    ultimately show ?thesis using L(2) by (auto intro!: nth_list_update_neq)
  qed
qed

end
