(* ===== verification/Replication.thy ===== *)
theory Replication
  imports Writer_Log
begin

text \<open>
  The cluster: a writer and the searchers that are registered for its shards. A step is a write
  request or a task of the runner, in any order. Searchers are reached over gRPC, a parameter of the
  model that hands an update to the \<open>ProcessUpdateRequest\<close> of the searcher with the address; S3 is
  shared. The searchers are registered from the start and stay registered, the indexes are flat and do
  not merge, and requests add documents with new identifiers or are refused: a request for deletion
  ends the runner with a null pointer (\<open>Writer_Correct\<close>). Then every searcher of a shard ends up with the
  documents of all sealed segments of the writer.
\<close>

section \<open>Updates on their way\<close>

type_synonym ('b, 'e, 's, 'p, 'cf, 'gf) searchers = "string \<rightharpoonup> ('b, 'e, 's, 'p, 'cf, 'gf) SearcherImpl"

abbreviation with_s3 :: "'s \<Rightarrow> ('b, 'e, 's, 'p, 'cf, 'gf) SearcherImpl \<Rightarrow> ('b, 'e, 's, 'p, 'cf, 'gf) SearcherImpl" where
  "with_s3 s3 se \<equiv> se\<lparr>se_storage := (se_storage se)\<lparr>sc_s3 := s3\<rparr>\<rparr>"

text \<open>gRPC calls the handler of the addressed process and reports status 0 when the handler returns.\<close>

definition delivers ::
  "('b, 'f::{linorder, zero}, 'j, 'e, 's, 'p, 'cf, 'gf) pf \<Rightarrow> ('s, ('b, 'e, 's, 'p, 'cf, 'gf) searchers) update_rpc \<Rightarrow> bool" where
  "delivers pf rpc \<longleftrightarrow> (\<forall>host rq s3 w se se'. w host = Some se \<longrightarrow>
     ProcessUpdateRequest pf rq (with_s3 s3 se) = (Inr (), se') \<longrightarrow>
     rpc host rq (s3, w) = (0, sc_s3 (se_storage se'), w(host \<mapsto> se')))"

lemma deliversD:
  assumes "delivers pf rpc" and "w host = Some se" and "ProcessUpdateRequest pf rq (with_s3 t se) = (Inr (), se')"
  shows "rpc host rq (t, w) = (0, sc_s3 (se_storage se'), w(host \<mapsto> se'))"
  using assms unfolding delivers_def by blast

text \<open>The searcher at \<open>h\<close> holds exactly the documents of the given segments in a shard.\<close>

definition host_holds ::
  "('b, 'f::{linorder, zero}, 'j, 'e, 's, 'p, 'cf, 'gf) pf \<Rightarrow> ('b \<Rightarrow> 'f list list) \<Rightarrow> ('f list \<Rightarrow> 'f list \<Rightarrow> 'f) \<Rightarrow>
    base_kind \<times> nat \<Rightarrow> ('b, 'e, 's, 'p, 'cf, 'gf) searchers \<Rightarrow> string \<Rightarrow> string \<Rightarrow> string \<Rightarrow>
    ('b, string) FaissIndex Segment list \<Rightarrow> bool" where
  "host_holds pf vecs dst sh w h i s segs \<longleftrightarrow> (\<exists>se ix. w h = Some se \<and> sc_s3Client (se_storage se) \<and>
     metrics_ok (pf_prom pf) searcher_counters {} (se_prom se) \<and> shard_ok pf vecs dst se i s ix \<and>
     faiss_shape (pf_faiss pf) (sf_index (ix_factory ix)) = sh \<and>
     faiss_index_docs vecs ix = segments_docs vecs segs \<and>
     index_known faiss_known ix = (\<Union>seg \<in> set segs. faiss_known (seg_index seg)))"

lemma deliver_update:
  fixes pf :: "('b, 'f::{linorder, zero}, 'j, 'e, 's, 'p, 'cf, 'gf) pf"
  assumes pok: "platform_ok pf vecs dst buckets objects" and rpc: "delivers pf rpc"
    and h: "host_holds pf vecs dst sh w h i s segs" and stored: "stored_segment pf objects s3 i seg"
    and seg: "pushable (pf_faiss pf) vecs sh (\<Union>seg \<in> set segs. faiss_known (seg_index seg)) [seg]"
    and rq: "up_added rq = [seg_id seg]" "up_index_id rq = i" "up_shard_id rq = s"
  shows "\<exists>w'. rpc h rq (s3, w) = (0, s3, w') \<and> host_holds pf vecs dst sh w' h i s (segs @ [seg]) \<and>
    (\<forall>g. g \<noteq> h \<longrightarrow> w' g = w g) \<and>
    (\<forall>j t sh' segs'. (j, t) \<noteq> (i, s) \<longrightarrow> host_holds pf vecs dst sh' w h j t segs' \<longrightarrow> host_holds pf vecs dst sh' w' h j t segs')"
proof -
  from h obtain se ix where se: "w h = Some se" "sc_s3Client (se_storage se)"
    "metrics_ok (pf_prom pf) searcher_counters {} (se_prom se)" "shard_ok pf vecs dst se i s ix"
    "faiss_shape (pf_faiss pf) (sf_index (ix_factory ix)) = sh" "faiss_index_docs vecs ix = segments_docs vecs segs"
    "index_known faiss_known ix = (\<Union>seg \<in> set segs. faiss_known (seg_index seg))" unfolding host_holds_def by blast
  have P: "faiss_files (pf_faiss pf) vecs" "file_order_ok (pf_file_order pf)" "s3_contract (pf_s3 pf) buckets objects"
    using pok by (simp_all add: platform_ok_def)
  have "shard_ok pf vecs dst (with_s3 s3 se) i s ix" using se(4) by (simp add: shard_ok_def)
  from ProcessUpdateRequest_ok [OF P _ _ _ this, where segs = "[seg]" and rq = rq] stored seg se rq obtain se' ix'
    where upd: "ProcessUpdateRequest pf rq (with_s3 s3 se) = (Inr (), se')"
      "metrics_ok (pf_prom pf) searcher_counters {} (se_prom se')" "shard_ok pf vecs dst se' i s ix'"
      "searcher_frame i s (with_s3 s3 se) se'" "same_params ix ix'"
      "faiss_index_docs vecs ix' = segments_docs vecs segs + segments_docs vecs [seg]"
      "index_known faiss_known ix' = (\<Union>seg \<in> set segs. faiss_known (seg_index seg)) \<union> faiss_known (seg_index seg)"
    by auto
  note F = upd(4) [unfolded searcher_frame_def]
  let ?w = "w(h \<mapsto> se')"
  have "rpc h rq (s3, w) = (0, s3, ?w)"
    using deliversD [OF rpc, where w = w and host = h, OF se(1) upd(1)] F by simp
  moreover have "host_holds pf vecs dst sh ?w h i s (segs @ [seg])"
    unfolding host_holds_def using upd se(2,5) F
    by (intro exI [of _ se'] exI [of _ ix']) (auto simp: segments_docs_def same_params_def)
  moreover have "host_holds pf vecs dst sh' ?w h j t segs'" if "(j, t) \<noteq> (i, s)" "host_holds pf vecs dst sh' w h j t segs'"
    for j t sh' segs'
    using that se(1) upd(2) F unfolding host_holds_def by (auto simp: shard_ok_def)
  ultimately show ?thesis by (intro exI [of _ ?w]) simp
qed

lemma update_hosts:
  fixes pf :: "('b, 'f::{linorder, zero}, 'j, 'e, 's, 'p, 'cf, 'gf) pf"
    and st :: "('b, 'j, 'e, 's, 'p, 'cf, 'gf, ('b, 'e, 's, 'p, 'cf, 'gf) searchers) WriterImpl"
  assumes pok: "platform_ok pf vecs dst buckets objects" and rpc: "delivers pf rpc"
    and seg: "pushable (pf_faiss pf) vecs sh (\<Union>seg \<in> set segs. faiss_known (seg_index seg)) [seg]"
    and rq: "up_added rq = [seg_id seg]" "up_index_id rq = i" "up_shard_id rq = s"
  shows "\<lbrakk>distinct hs; \<forall>h \<in> set hs. host_holds pf vecs dst sh (wr_world st) h i s segs;
      stored_segment pf objects (sc_s3 (wr_storage st)) i seg\<rbrakk> \<Longrightarrow>
    \<exists>w'. forP (\<lambda>h. updateIndex rpc h rq) hs st = (Inr (), st\<lparr>wr_world := w'\<rparr>) \<and>
      (\<forall>h \<in> set hs. host_holds pf vecs dst sh w' h i s (segs @ [seg])) \<and>
      (\<forall>g. g \<notin> set hs \<longrightarrow> w' g = wr_world st g) \<and>
      (\<forall>h j t sh' segs'. (j, t) \<noteq> (i, s) \<longrightarrow> host_holds pf vecs dst sh' (wr_world st) h j t segs' \<longrightarrow>
        host_holds pf vecs dst sh' w' h j t segs')"
proof (induction hs arbitrary: st)
  case Nil
  then show ?case by (intro exI [of _ "wr_world st"]) simp
next
  case (Cons h hs)
  let ?s3 = "sc_s3 (wr_storage st)" and ?w = "wr_world st"
  from deliver_update [OF pok rpc _ Cons.prems(3) seg rq, of ?w h] Cons.prems(2) obtain w1
    where w1: "rpc h rq (?s3, ?w) = (0, ?s3, w1)" "host_holds pf vecs dst sh w1 h i s (segs @ [seg])"
      "\<forall>g. g \<noteq> h \<longrightarrow> w1 g = ?w g"
      "\<forall>j t sh' segs'. (j, t) \<noteq> (i, s) \<longrightarrow> host_holds pf vecs dst sh' ?w h j t segs' \<longrightarrow> host_holds pf vecs dst sh' w1 h j t segs'"
    by auto
  let ?st = "st\<lparr>wr_world := w1\<rparr>"
  have same: "host_holds pf vecs dst sh' w1 g j t segs' = host_holds pf vecs dst sh' ?w g j t segs'" if "g \<noteq> h" for g j t sh' segs'
    using w1(3) that by (simp add: host_holds_def)
  have one: "updateIndex rpc h rq st = (Inr (), ?st)" by (simp add: updateIndex_def w1(1))
  have "\<forall>g \<in> set hs. host_holds pf vecs dst sh (wr_world ?st) g i s segs"
  proof
    fix g assume "g \<in> set hs"
    with Cons.prems(1) have "g \<noteq> h" by auto
    with \<open>g \<in> set hs\<close> Cons.prems(2) show "host_holds pf vecs dst sh (wr_world ?st) g i s segs" by (simp add: same)
  qed
  from Cons.IH [OF _ this] Cons.prems(1,3) obtain w2
    where w2: "forP (\<lambda>h. updateIndex rpc h rq) hs ?st = (Inr (), st\<lparr>wr_world := w2\<rparr>)"
      "\<forall>g \<in> set hs. host_holds pf vecs dst sh w2 g i s (segs @ [seg])" "\<forall>g. g \<notin> set hs \<longrightarrow> w2 g = w1 g"
      "\<forall>h j t sh' segs'. (j, t) \<noteq> (i, s) \<longrightarrow> host_holds pf vecs dst sh' w1 h j t segs' \<longrightarrow> host_holds pf vecs dst sh' w2 h j t segs'"
    by auto
  have "host_holds pf vecs dst sh w2 h i s (segs @ [seg])"
    using w1(2) w2(3) Cons.prems(1) by (simp add: host_holds_def)
  moreover have "host_holds pf vecs dst sh' w2 g j t segs'" if "(j, t) \<noteq> (i, s)" "host_holds pf vecs dst sh' ?w g j t segs'"
    for g j t sh' segs'
    using that same [of g] w1(4) w2(4) by (cases "g = h") blast+
  ultimately show ?case
    using one w1(3) w2(1-3) by (intro exI [of _ w2]) (simp add: bindP_def)
qed

section \<open>The invariant of the cluster\<close>

definition flat_config :: "index_config \<Rightarrow> bool" where
  "flat_config cf \<longleftrightarrow> (\<exists>m metric threshold. cf = (FlatArgs m metric, threshold, False) \<and> threshold < 2 ^ 31)"

abbreviation flat_shape :: "('b, 'f, 'j, 'e, 's, 'p, 'cf, 'gf) pf \<Rightarrow> index_config \<Rightarrow> base_kind \<times> nat" where
  "flat_shape pf cf \<equiv> (IndexFlat, config_dim pf cf)"

definition tasks_of :: "('b, 'j, 'e, 's, 'p, 'cf, 'gf, 'w) WriterImpl \<Rightarrow> string \<Rightarrow> string \<Rightarrow> update_task list" where
  "tasks_of st i s = filter (\<lambda>t. ut_index_id t = i \<and> ut_shard_id t = s) (wr_queue st)"

text \<open>
  Of the sealed segments of a shard the first ones are published, all registered searchers hold
  exactly these, and the others wait in the queue, one task each, in the order they were sealed.
\<close>

definition synced ::
  "('b, 'f::{linorder, zero}, 'j, 'e, 's, 'p, 'cf, 'gf) pf \<Rightarrow> ('b \<Rightarrow> 'f list list) \<Rightarrow> ('f list \<Rightarrow> 'f list \<Rightarrow> 'f) \<Rightarrow>
    index_config \<Rightarrow> string set \<Rightarrow> ('b, 'j, 'e, 's, 'p, 'cf, 'gf, ('b, 'e, 's, 'p, 'cf, 'gf) searchers) WriterImpl \<Rightarrow>
    string \<Rightarrow> string \<Rightarrow> bool" where
  "synced pf vecs dst cf hosts st i s \<longleftrightarrow>
     (case shard_at (wr_shards st) i s of
        None \<Rightarrow> tasks_of st i s = [] \<and> (\<forall>h \<in> hosts. host_holds pf vecs dst (flat_shape pf cf) (wr_world st) h i s [])
      | Some a \<Rightarrow> \<exists>pub pend. ix_segments (wr_objects st ! a) = pub @ pend \<and>
          tasks_of st i s = map (\<lambda>p. indexUpdateCallback a i s ([], [p])) pend \<and>
          (\<forall>h \<in> hosts. host_holds pf vecs dst (flat_shape pf cf) (wr_world st) h i s (map (seg_at (wr_objects st ! a)) pub)))"

definition cluster_ok ::
  "('b, 'f::{linorder, zero}, 'j, 'e, 's, 'p, 'cf, 'gf) pf \<Rightarrow> ('b \<Rightarrow> 'f list list) \<Rightarrow> ('f list \<Rightarrow> 'f list \<Rightarrow> 'f) \<Rightarrow>
    ('s \<Rightarrow> string set) \<Rightarrow> (string \<Rightarrow> index_config) \<Rightarrow> ('e \<Rightarrow> string \<rightharpoonup> string) \<Rightarrow> registry \<Rightarrow>
    ('b, 'j, 'e, 's, 'p, 'cf, 'gf, ('b, 'e, 's, 'p, 'cf, 'gf) searchers) WriterImpl \<Rightarrow> bool" where
  "cluster_ok pf vecs dst buckets cfg kv R st \<longleftrightarrow>
     writer_ok pf vecs dst buckets cfg st \<and> etcd_holds (pf_etcd pf) kv (wr_etcd st) R \<and> times_ok R \<and>
     (\<exists>v. writer_metrics (pf_prom pf) (wr_prom st) v) \<and>
     (\<forall>i \<in> fst ` set (wr_create_args st). flat_config (cfg i)) \<and>
     (\<forall>i s a. shard_at (wr_shards st) i s = Some a \<longrightarrow> log_ok (wr_objects st ! a)) \<and>
     (\<forall>t \<in> set (wr_queue st). ut_index_id t \<in> fst ` set (wr_create_args st) \<and> ut_shard_id t \<in> shards_of R (ut_index_id t)) \<and>
     (\<forall>i \<in> fst ` set (wr_create_args st). \<forall>s \<in> shards_of R i. synced pf vecs dst (cfg i) (hosts_of R i s) st i s)"

text \<open>The identifiers drawn so far fit the type of \<open>seg_id\<close>.\<close>

definition ids_fit :: "('b, 'j, 'e, 's, 'p, 'cf, 'gf, 'w) WriterImpl \<Rightarrow> bool" where
  "ids_fit st \<longleftrightarrow> (\<forall>ix \<in> set (wr_objects st). seg_ids ix \<subseteq> {..<2 ^ 64})"

lemma ids_fitD: "ids_fit st \<Longrightarrow> ix \<in> set (wr_objects st) \<Longrightarrow> seg_ids ix \<subseteq> {..<2 ^ 64}"
  by (simp add: ids_fit_def)

lemma cluster_okD:
  assumes "cluster_ok pf vecs dst buckets cfg kv R st"
  shows "writer_ok pf vecs dst buckets cfg st" and "etcd_holds (pf_etcd pf) kv (wr_etcd st) R" and "times_ok R"
    and "\<exists>v. writer_metrics (pf_prom pf) (wr_prom st) v"
    and "i \<in> fst ` set (wr_create_args st) \<Longrightarrow> flat_config (cfg i)"
    and "shard_at (wr_shards st) i s = Some a \<Longrightarrow> log_ok (wr_objects st ! a)"
    and "t \<in> set (wr_queue st) \<Longrightarrow> ut_index_id t \<in> fst ` set (wr_create_args st)"
    and "t \<in> set (wr_queue st) \<Longrightarrow> ut_shard_id t \<in> shards_of R (ut_index_id t)"
    and "i \<in> fst ` set (wr_create_args st) \<Longrightarrow> s \<in> shards_of R i \<Longrightarrow> synced pf vecs dst (cfg i) (hosts_of R i s) st i s"
  using assms unfolding cluster_ok_def by blast+

lemma cluster_okI:
  assumes "writer_ok pf vecs dst buckets cfg st" and "etcd_holds (pf_etcd pf) kv (wr_etcd st) R" and "times_ok R"
    and "writer_metrics (pf_prom pf) (wr_prom st) v"
    and "\<And>i. i \<in> fst ` set (wr_create_args st) \<Longrightarrow> flat_config (cfg i)"
    and "\<And>i s a. shard_at (wr_shards st) i s = Some a \<Longrightarrow> log_ok (wr_objects st ! a)"
    and "\<And>t. t \<in> set (wr_queue st) \<Longrightarrow> ut_index_id t \<in> fst ` set (wr_create_args st) \<and> ut_shard_id t \<in> shards_of R (ut_index_id t)"
    and "\<And>i s. i \<in> fst ` set (wr_create_args st) \<Longrightarrow> s \<in> shards_of R i \<Longrightarrow> synced pf vecs dst (cfg i) (hosts_of R i s) st i s"
  shows "cluster_ok pf vecs dst buckets cfg kv R st"
  unfolding cluster_ok_def
proof (intro conjI ballI)
  show "\<exists>v. writer_metrics (pf_prom pf) (wr_prom st) v" using assms(4) by (rule exI [of _ v])
qed (use assms in \<open>blast+\<close>)

text \<open>The segments of a shard object of the writer.\<close>

lemma cluster_object:
  fixes pf :: "('b, 'f::{linorder, zero}, 'j, 'e, 's, 'p, 'cf, 'gf) pf"
  assumes ok: "cluster_ok pf vecs dst buckets cfg kv R st" and at: "shard_at (wr_shards st) i s = Some a"
    and i: "i \<in> fst ` set (wr_create_args st)"
  shows "a < length (wr_objects st)"
    and "faiss_index_inv (pf_faiss pf) vecs dst (pf_merge_order pf) (wr_objects st ! a)"
    and "configured pf (cfg i) (wr_objects st ! a)"
    and "faiss_shape (pf_faiss pf) (sf_index (ix_factory (wr_objects st ! a))) = flat_shape pf (cfg i)"
    and "makeBucketName (pf_hash pf) i \<in> buckets (sc_s3 (wr_storage st))"
proof -
  note W = cluster_okD(1) [OF ok]
  have sh: "shards_ok pf cfg (wr_create_args st) (wr_objects st) (wr_shards st)"
    and ob: "objects_ok pf vecs dst (wr_objects st) (wr_rng st)" using W by (simp_all add: writer_ok_def)
  show a: "a < length (wr_objects st)" by (rule shards_ok_bound [OF sh at])
  show "faiss_index_inv (pf_faiss pf) vecs dst (pf_merge_order pf) (wr_objects st ! a)"
    by (rule objects_okD(2) [OF ob]) (use a in simp)
  from shards_okD(3) [OF sh shard_at_key [OF at]] at show cf: "configured pf (cfg i) (wr_objects st ! a)" by auto
  from cluster_okD(5) [OF ok i] cf show "faiss_shape (pf_faiss pf) (sf_index (ix_factory (wr_objects st ! a))) = flat_shape pf (cfg i)"
    by (auto simp: flat_config_def configured_def faiss_shape_def config_dim_def faiss_new_def)
  have "i \<in> fst ` set (wr_shards st)" using shard_at_key [OF at] by (auto simp: nested_keys_def dest: map_of_key)
  then show "makeBucketName (pf_hash pf) i \<in> buckets (sc_s3 (wr_storage st))"
    using W unfolding writer_ok_def buckets_ok_def by blast
qed

lemma sealed_segment_pushable:
  fixes pf :: "('b, 'f::{linorder, zero}, 'j, 'e, 's, 'p, 'cf, 'gf) pf"
  assumes inv: "faiss_index_inv (pf_faiss pf) vecs dst (pf_merge_order pf) ix" and log: "log_ok ix"
    and ids: "seg_ids ix \<subseteq> {..<2 ^ 64}" and segs: "ix_segments ix = pub @ p # pend"
  shows "pushable (pf_faiss pf) vecs (faiss_shape (pf_faiss pf) (sf_index (ix_factory ix)))
    (\<Union>seg \<in> set (map (seg_at ix) pub). faiss_known (seg_index seg)) [seg_at ix p]"
proof -
  have wf: "index_wf (faiss_ok (pf_faiss pf) vecs dst (pf_merge_order pf)) (faiss_shape (pf_faiss pf))
      (\<lambda>x. fx_d (pf_faiss pf) (fi_index x)) (faiss_docs vecs) faiss_known ix"
    using inv by (simp add: faiss_index_inv_def index_inv_def)
  note H = heap_wfD [OF index_wfD(4) [OF wf]] and L = log_ok_segments [OF log wf]
  have p: "p < length (ix_store ix)" using H(2) segs by auto
  then have mem: "seg_at ix p \<in> set (ix_store ix)" by simp
  have "seg_id (seg_at ix p) < 2 ^ 64" using ids mem by (auto simp: seg_ids_def)
  moreover have "faiss_inv (pf_faiss pf) vecs (seg_index (seg_at ix p))" using H(3) [OF mem] by (simp add: faiss_ok_def)
  ultimately have "segment_file_ok (pf_faiss pf) vecs (\<lambda>i. length i \<le> string_max_size) (seg_at ix p)"
    using log mem by (intro plain_segment_file [of "ix_threshold ix"]) (simp_all add: log_ok_def)
  moreover have "faiss_known (seg_index (seg_at ix p)) \<inter> faiss_known (seg_index (seg_at ix q)) = {}" if "q \<in> set pub" for q
    using that L(1,4) by (intro H(5)) (auto simp: segs)
  ultimately show ?thesis using H(4) [OF mem] by auto
qed

section \<open>A task of the runner\<close>

lemma publish_segment_ok:
  fixes pf :: "('b, 'f::{linorder, zero}, 'j, 'e, 's, 'p, 'cf, 'gf) pf"
  assumes s3: "s3_contract (pf_s3 pf) buckets objects" and login: "sc_s3Client (wr_storage st)"
    and b: "makeBucketName (pf_hash pf) i \<in> buckets (sc_s3 (wr_storage st))"
  shows "\<exists>c. publish_segment pf i a p st = (Inr (seg_id (seg_at (wr_objects st ! a) p)), st\<lparr>wr_storage := c\<rparr>) \<and>
    sc_s3Client c \<and> buckets (sc_s3 c) = buckets (sc_s3 (wr_storage st)) \<and>
    stored_segment pf objects (sc_s3 c) i (seg_at (wr_objects st ! a) p)"
proof -
  let ?seg = "seg_at (wr_objects st ! a) p"
  let ?name = "to_string_size (seg_id ?seg)" and ?bytes = "SerializeSegment (platform_vtable pf) ?seg"
  from s3_contractD(3) [OF s3 b, of ?name ?bytes] obtain s'
    where s': "s3_put_object (pf_s3 pf) (sc_s3 (wr_storage st)) (makeBucketName (pf_hash pf) i) ?name ?bytes = (True, s')"
      "buckets s' = buckets (sc_s3 (wr_storage st))"
      "objects s' = (objects (sc_s3 (wr_storage st)))((makeBucketName (pf_hash pf) i, ?name) \<mapsto> ?bytes)" by blast
  show ?thesis
    using login s'
    by (intro exI [of _ "(wr_storage st)\<lparr>sc_s3 := s', sc_files := (sc_files (wr_storage st))(?name := None)\<rparr>"])
      (simp add: publish_segment_def Let_def writer_storage_def putObject_def with_client_def proc_defs stored_segment_def)
qed

lemma writer_ok_storage:
  assumes "writer_ok pf vecs dst buckets cfg st" and "sc_s3Client c" and "buckets (sc_s3 c) = buckets (sc_s3 (wr_storage st))"
  shows "writer_ok pf vecs dst buckets cfg (st\<lparr>wr_queue := ts, wr_prom := q, wr_storage := c, wr_world := w\<rparr>)"
  using assms by (simp add: writer_ok_def)

lemma run_task_ok:
  fixes pf :: "('b, 'f::{linorder, zero}, 'j, 'e, 's, 'p, 'cf, 'gf) pf"
    and st :: "('b, 'j, 'e, 's, 'p, 'cf, 'gf, ('b, 'e, 's, 'p, 'cf, 'gf) searchers) WriterImpl"
  assumes pok: "platform_ok pf vecs dst buckets objects" and rpc: "delivers pf rpc"
    and prom: "writer_metrics (pf_prom pf) (wr_prom st) v" and R: "etcd_holds (pf_etcd pf) kv (wr_etcd st) R"
    and ids: "no_slash i" "no_slash s" and login: "sc_s3Client (wr_storage st)"
    and b: "makeBucketName (pf_hash pf) i \<in> buckets (sc_s3 (wr_storage st))"
    and seg: "pushable (pf_faiss pf) vecs sh (\<Union>seg \<in> set segs. faiss_known (seg_index seg)) [seg_at (wr_objects st ! a) p]"
    and hosts: "\<forall>h \<in> hosts_of R i s. host_holds pf vecs dst sh (wr_world st) h i s segs"
  shows "\<exists>q c w. run_task pf rpc (indexUpdateCallback a i s ([], [p])) st =
      (Inr (), st\<lparr>wr_prom := q, wr_storage := c, wr_world := w\<rparr>) \<and> writer_metrics (pf_prom pf) q v \<and>
    sc_s3Client c \<and> buckets (sc_s3 c) = buckets (sc_s3 (wr_storage st)) \<and>
    (\<forall>h \<in> hosts_of R i s. host_holds pf vecs dst sh w h i s (segs @ [seg_at (wr_objects st ! a) p])) \<and>
    (\<forall>h j t sh' segs'. (j, t) \<noteq> (i, s) \<longrightarrow> host_holds pf vecs dst sh' (wr_world st) h j t segs' \<longrightarrow>
      host_holds pf vecs dst sh' w h j t segs')"
proof -
  let ?ls = "[(''index_id'', i), (''shard_id'', s)]" and ?seg = "seg_at (wr_objects st ! a) p"
  let ?rq = "\<lparr>up_added = [seg_id ?seg], up_deleted = [], up_index_id = i, up_shard_id = s\<rparr>"
  have s3: "s3_contract (pf_s3 pf) buckets objects" using pok by (simp add: platform_ok_def)
  from writer_metrics_inc [OF prom, of "''callback_calls_count''" ?ls] obtain q
    where q: "IncrementCounter (pf_prom pf) ''callback_calls_count'' 1 ?ls (wr_prom st) = (Inr (), q)" "writer_metrics (pf_prom pf) q v"
    by (auto simp: writer_counters_def shard_labels_ok)
  from publish_segment_ok [OF s3, of "st\<lparr>wr_prom := q\<rparr>" i a p] login b obtain c
    where c: "publish_segment pf i a p (st\<lparr>wr_prom := q\<rparr>) = (Inr (seg_id ?seg), st\<lparr>wr_prom := q, wr_storage := c\<rparr>)"
      "sc_s3Client c" "buckets (sc_s3 c) = buckets (sc_s3 (wr_storage st))" "stored_segment pf objects (sc_s3 c) i ?seg" by auto
  let ?st = "st\<lparr>wr_prom := q, wr_storage := c\<rparr>" and ?hs = "sorted_list_of_set (hosts_of R i s)"
  have fin: "finite (hosts_of R i s)" by (rule etcd.finite_hosts_of [OF R])
  have list: "writer_etcd (ListSearcherHosts (pf_etcd pf) i (Some s)) ?st = (Inr ?hs, ?st)"
    using etcd.hosts_listed [OF R ids] by (simp add: writer_etcd_def partP_def)
  have "\<forall>h \<in> set ?hs. host_holds pf vecs dst sh (wr_world ?st) h i s segs" using hosts fin by simp
  from update_hosts [OF pok rpc seg _ _ _ _ this, of ?rq] c(4) obtain w
    where w: "forP (\<lambda>h. updateIndex rpc h ?rq) ?hs ?st = (Inr (), ?st\<lparr>wr_world := w\<rparr>)"
      "\<forall>h \<in> set ?hs. host_holds pf vecs dst sh w h i s (segs @ [?seg])"
      "\<forall>h j t sh' segs'. (j, t) \<noteq> (i, s) \<longrightarrow> host_holds pf vecs dst sh' (wr_world ?st) h j t segs' \<longrightarrow>
        host_holds pf vecs dst sh' w h j t segs'" by auto
  have "writer_prom (IncrementCounter (pf_prom pf) ''callback_calls_count'' 1 ?ls) st = (Inr (), st\<lparr>wr_prom := q\<rparr>)"
    using q(1) by (simp add: writer_prom_def partP_def)
  then have "run_task pf rpc (indexUpdateCallback a i s ([], [p])) st = (Inr (), ?st\<lparr>wr_world := w\<rparr>)"
    using c(1) list w(1) by (simp add: run_task_def indexUpdateCallback_def bindP_def thenP_def returnP_def)
  with q(2) c(2,3) w(2,3) fin show ?thesis by (intro exI [of _ q] exI [of _ c] exI [of _ w]) simp
qed

lemma tasks_of_Cons:
  "wr_queue st = t # ts \<Longrightarrow> tasks_of (st\<lparr>wr_queue := ts, wr_prom := q, wr_storage := c, wr_world := w\<rparr>) i s =
    (if ut_index_id t = i \<and> ut_shard_id t = s then tl (tasks_of st i s) else tasks_of st i s)"
  by (simp add: tasks_of_def)

lemma synced_SomeD:
  assumes "synced pf vecs dst cf hosts st i s" and "shard_at (wr_shards st) i s = Some a"
  shows "\<exists>pub pend. ix_segments (wr_objects st ! a) = pub @ pend \<and>
    tasks_of st i s = map (\<lambda>p. indexUpdateCallback a i s ([], [p])) pend \<and>
    (\<forall>h \<in> hosts. host_holds pf vecs dst (flat_shape pf cf) (wr_world st) h i s (map (seg_at (wr_objects st ! a)) pub))"
  using assms by (simp add: synced_def)

lemma synced_SomeI:
  assumes "shard_at (wr_shards st) i s = Some a" and "ix_segments (wr_objects st ! a) = pub @ pend"
    and "tasks_of st i s = map (\<lambda>p. indexUpdateCallback a i s ([], [p])) pend"
    and "\<And>h. h \<in> hosts \<Longrightarrow> host_holds pf vecs dst (flat_shape pf cf) (wr_world st) h i s (map (seg_at (wr_objects st ! a)) pub)"
  shows "synced pf vecs dst cf hosts st i s"
  unfolding synced_def assms(1) option.case
  by (intro exI [of _ pub] exI [of _ pend] conjI ballI assms)

lemma synced_mono:
  assumes "synced pf vecs dst cf hosts st i s" and "shard_at (wr_shards st') i s = shard_at (wr_shards st) i s"
    and "wr_objects st' = wr_objects st" and "tasks_of st' i s = tasks_of st i s"
    and "\<And>h segs. host_holds pf vecs dst (flat_shape pf cf) (wr_world st) h i s segs \<Longrightarrow>
      host_holds pf vecs dst (flat_shape pf cf) (wr_world st') h i s segs"
  shows "synced pf vecs dst cf hosts st' i s"
proof (cases "shard_at (wr_shards st) i s")
  case None
  then show ?thesis using assms by (simp add: synced_def)
next
  case (Some a)
  from synced_SomeD [OF assms(1) Some] obtain pub pend where "ix_segments (wr_objects st ! a) = pub @ pend"
    "tasks_of st i s = map (\<lambda>p. indexUpdateCallback a i s ([], [p])) pend"
    "\<forall>h \<in> hosts. host_holds pf vecs dst (flat_shape pf cf) (wr_world st) h i s (map (seg_at (wr_objects st ! a)) pub)" by blast
  then show ?thesis using Some assms(2-5) by (intro synced_SomeI [of st' i s a pub pend]) simp_all
qed

text \<open>A task is done: the searchers of its shard hold one more segment, everything else is as before.\<close>

lemma published_cluster:
  fixes pf :: "('b, 'f::{linorder, zero}, 'j, 'e, 's, 'p, 'cf, 'gf) pf"
    and st :: "('b, 'j, 'e, 's, 'p, 'cf, 'gf, ('b, 'e, 's, 'p, 'cf, 'gf) searchers) WriterImpl"
  assumes ok: "cluster_ok pf vecs dst buckets cfg kv R st" and queue: "wr_queue st = task # rest"
    and i: "i = ut_index_id task" and s: "s = ut_shard_id task" and at: "shard_at (wr_shards st) i s = Some a"
    and segs: "ix_segments (wr_objects st ! a) = pub @ p # pend"
    and tasks: "tasks_of st i s = map (\<lambda>p. indexUpdateCallback a i s ([], [p])) (p # pend)"
    and q: "writer_metrics (pf_prom pf) q v" and c: "sc_s3Client c" "buckets (sc_s3 c) = buckets (sc_s3 (wr_storage st))"
    and w: "\<forall>h \<in> hosts_of R i s. host_holds pf vecs dst (flat_shape pf (cfg i)) w h i s (map (seg_at (wr_objects st ! a)) pub @ [seg_at (wr_objects st ! a) p])"
      "\<forall>h j t sh' segs'. (j, t) \<noteq> (i, s) \<longrightarrow> host_holds pf vecs dst sh' (wr_world st) h j t segs' \<longrightarrow> host_holds pf vecs dst sh' w h j t segs'"
  shows "cluster_ok pf vecs dst buckets cfg kv R (st\<lparr>wr_queue := rest, wr_prom := q, wr_storage := c, wr_world := w\<rparr>)"
proof (rule cluster_okI)
  let ?st = "st\<lparr>wr_queue := rest, wr_prom := q, wr_storage := c, wr_world := w\<rparr>"
  show "writer_ok pf vecs dst buckets cfg ?st" by (rule writer_ok_storage [OF cluster_okD(1) [OF ok] c])
  show "writer_metrics (pf_prom pf) (wr_prom ?st) v" using q by simp
  show "ut_index_id t \<in> fst ` set (wr_create_args ?st) \<and> ut_shard_id t \<in> shards_of R (ut_index_id t)"
    if "t \<in> set (wr_queue ?st)" for t
  proof -
    have "t \<in> set (wr_queue st)" using that by (simp add: queue)
    then show ?thesis using cluster_okD(7,8) [OF ok] by simp
  qed
  fix j t assume j: "j \<in> fst ` set (wr_create_args ?st)" and t: "t \<in> shards_of R j"
  show "synced pf vecs dst (cfg j) (hosts_of R j t) ?st j t"
  proof (cases "(j, t) = (i, s)")
    case True
    have "tasks_of ?st i s = map (\<lambda>p. indexUpdateCallback a i s ([], [p])) pend"
      using tasks i s by (simp add: tasks_of_Cons [OF queue])
    moreover have "\<forall>h \<in> hosts_of R i s. host_holds pf vecs dst (flat_shape pf (cfg i)) w h i s (map (seg_at (wr_objects st ! a)) (pub @ [p]))"
      using w(1) by simp
    ultimately show ?thesis
      using True at segs by (intro synced_SomeI [of _ _ _ a "pub @ [p]" pend]) simp_all
  next
    case False
    show ?thesis
    proof (rule synced_mono [OF cluster_okD(9) [OF ok _ t]])
      show "tasks_of ?st j t = tasks_of st j t" using False i s by (auto simp: tasks_of_Cons [OF queue])
      show "host_holds pf vecs dst sh' (wr_world ?st) h j t segs'" if "host_holds pf vecs dst sh' (wr_world st) h j t segs'"
        for h sh' segs' using w(2) [rule_format, OF False that] by simp
    qed (use j in simp_all)
  qed
qed (use cluster_okD(2,3,5,6) [OF ok] in simp_all)

lemma runner_step_ok:
  fixes pf :: "('b, 'f::{linorder, zero}, 'j, 'e, 's, 'p, 'cf, 'gf) pf"
    and st :: "('b, 'j, 'e, 's, 'p, 'cf, 'gf, ('b, 'e, 's, 'p, 'cf, 'gf) searchers) WriterImpl"
  assumes pok: "platform_ok pf vecs dst buckets objects" and rpc: "delivers pf rpc"
    and ok: "cluster_ok pf vecs dst buckets cfg kv R st" and ids: "ids_fit st" and queue: "wr_queue st = task # rest"
  shows "\<exists>q c w. runner_step pf rpc st = (Inr (), st\<lparr>wr_queue := rest, wr_prom := q, wr_storage := c, wr_world := w\<rparr>) \<and>
    cluster_ok pf vecs dst buckets cfg kv R (st\<lparr>wr_queue := rest, wr_prom := q, wr_storage := c, wr_world := w\<rparr>)"
proof -
  let ?i = "ut_index_id task" and ?s = "ut_shard_id task"
  have mem: "task \<in> set (wr_queue st)" by (simp add: queue)
  note i = cluster_okD(7) [OF ok mem] and s = cluster_okD(8) [OF ok mem]
  note W = cluster_okD(1) [OF ok] and R = cluster_okD(2) [OF ok] and sync = cluster_okD(9) [OF ok i s]
  have "tasks_of st ?i ?s \<noteq> []" by (simp add: tasks_of_def queue)
  then obtain a where at: "shard_at (wr_shards st) ?i ?s = Some a"
    using sync unfolding synced_def by (cases "shard_at (wr_shards st) ?i ?s") simp_all
  let ?ix = "wr_objects st ! a" and ?sh = "flat_shape pf (cfg ?i)"
  note O = cluster_object [OF ok at i]
  from synced_SomeD [OF sync at] obtain pub rest_segs where segs: "ix_segments ?ix = pub @ rest_segs"
    and tasks: "tasks_of st ?i ?s = map (\<lambda>p. indexUpdateCallback a ?i ?s ([], [p])) rest_segs"
    and hosts: "\<forall>h \<in> hosts_of R ?i ?s. host_holds pf vecs dst ?sh (wr_world st) h ?i ?s (map (seg_at ?ix) pub)" by blast
  from tasks \<open>tasks_of st ?i ?s \<noteq> []\<close> obtain p pend where rest_segs: "rest_segs = p # pend" by (cases rest_segs) simp_all
  note segs = segs [unfolded rest_segs] and tasks = tasks [unfolded rest_segs]
  have task: "task = indexUpdateCallback a ?i ?s ([], [p])" using tasks by (simp add: tasks_of_def queue)
  have ix: "?ix \<in> set (wr_objects st)" using O(1) by simp
  note push = sealed_segment_pushable [OF O(2) cluster_okD(6) [OF ok at] ids_fitD [OF ids ix] segs, unfolded O(4)]
  from cluster_okD(4) [OF ok] obtain v where v: "writer_metrics (pf_prom pf) (wr_prom st) v" by blast
  have slash: "no_slash ?i" "no_slash ?s" using etcd_holds_no_slash [OF R s] by simp_all
  have login: "sc_s3Client (wr_storage st)" using W by (simp add: writer_ok_def)
  let ?st = "st\<lparr>wr_queue := rest\<rparr>"
  from run_task_ok [OF pok rpc _ _ slash, of ?st v kv R ?sh "map (seg_at ?ix) pub" a p] v R login O(5) push hosts obtain q c w
    where run: "run_task pf rpc (indexUpdateCallback a ?i ?s ([], [p])) ?st =
        (Inr (), ?st\<lparr>wr_prom := q, wr_storage := c, wr_world := w\<rparr>)" "writer_metrics (pf_prom pf) q v"
      "sc_s3Client c" "buckets (sc_s3 c) = buckets (sc_s3 (wr_storage st))"
      "\<forall>h \<in> hosts_of R ?i ?s. host_holds pf vecs dst ?sh w h ?i ?s (map (seg_at ?ix) pub @ [seg_at ?ix p])"
      "\<forall>h j t sh' segs'. (j, t) \<noteq> (?i, ?s) \<longrightarrow> host_holds pf vecs dst sh' (wr_world st) h j t segs' \<longrightarrow>
        host_holds pf vecs dst sh' w h j t segs'" by auto
  let ?st' = "st\<lparr>wr_queue := rest, wr_prom := q, wr_storage := c, wr_world := w\<rparr>"
  have "runner_step pf rpc st = (Inr (), ?st')"
    using run(1) task by (simp add: runner_step_def proc_defs queue)
  moreover have "cluster_ok pf vecs dst buckets cfg kv R ?st'"
    by (rule published_cluster [OF ok queue refl refl at segs tasks run(2-6)])
  ultimately show ?thesis by (intro exI [of _ q] exI [of _ c] exI [of _ w] conjI)
qed

section \<open>A write request\<close>

lemma refreshed_new_log:
  fixes pf :: "('b, 'f::{linorder, zero}, 'j, 'e, 's, 'p, 'cf, 'gf) pf"
  assumes flat: "\<forall>i \<in> fst ` set (wr_create_args st). flat_config (cfg i)"
    and spec: "refresh_spec vecs objects I L (st\<lparr>wr_prom := q\<rparr>) new m c"
    and sh: "shards_ok pf cfg (wr_create_args st) (wr_objects st @ new) m"
    and at: "shard_at m i s = Some a" and old: "shard_at (wr_shards st) i s \<noteq> Some a"
  shows "shard_at (wr_shards st) i s = None \<and> log_ok ((wr_objects st @ new) ! a) \<and> ix_segments ((wr_objects st @ new) ! a) = []"
proof -
  note D = refresh_specD [OF spec, simplified]
  have i: "i \<in> fst ` set (wr_create_args st)"
    using shard_at_key [OF at] shards_okD(2) [OF sh] by (auto simp: nested_keys_def dest: map_of_key)
  from D(5) [OF at] old have na: "(i, s) \<notin> nested_keys (wr_shards st)" "length (wr_objects st) \<le> a" by simp_all
  then have "shard_at (wr_shards st) i s = None"
    using shard_at_key [of "wr_shards st" i s] by (cases "shard_at (wr_shards st) i s") auto
  moreover have "(wr_objects st @ new) ! a \<in> set new"
    using na(2) shards_ok_bound [OF sh at] by (auto simp: nth_append)
  from D(3) [OF this] obtain n where n: "fresh_index n ((wr_objects st @ new) ! a)" unfolding empty_index_def by blast
  have cf: "configured pf (cfg i) ((wr_objects st @ new) ! a)"
    using shards_okD(3) [OF sh shard_at_key [OF at]] at by auto
  from bspec [OF flat i] obtain d metric thr
    where "cfg i = (FlatArgs d metric, thr, False)" "thr < 2 ^ 31" unfolding flat_config_def by blast
  from fresh_index_log [OF n cf this] have "log_ok ((wr_objects st @ new) ! a)" .
  ultimately show ?thesis using n by (simp add: fresh_index_def)
qed

lemma refreshed_cluster:
  fixes pf :: "('b, 'f::{linorder, zero}, 'j, 'e, 's, 'p, 'cf, 'gf) pf"
  assumes ok: "cluster_ok pf vecs dst buckets cfg kv R st" and prom: "writer_metrics (pf_prom pf) q v"
    and r: "refreshed vecs objects (fst ` set (wr_create_args st)) (shards_of R) (st\<lparr>wr_prom := q\<rparr>) st1"
    and ok1: "writer_ok pf vecs dst buckets cfg st1"
  shows "cluster_ok pf vecs dst buckets cfg kv R st1"
proof -
  let ?I = "fst ` set (wr_create_args st)"
  from r obtain new g m c where spec: "refresh_spec vecs objects ?I (shards_of R) (st\<lparr>wr_prom := q\<rparr>) new m c"
    and st1: "st1 = st\<lparr>wr_prom := q, wr_objects := wr_objects st @ new, wr_rng := g, wr_shards := m, wr_storage := c\<rparr>"
    unfolding refreshed_def by auto
  note D = refresh_specD [OF spec, simplified]
  have sh: "shards_ok pf cfg (wr_create_args st) (wr_objects st) (wr_shards st)" using cluster_okD(1) [OF ok] by (simp add: writer_ok_def)
  have sh1: "shards_ok pf cfg (wr_create_args st) (wr_objects st @ new) m" using ok1 by (simp add: writer_ok_def st1)
  have tasks: "tasks_of st1 i s = tasks_of st i s" for i s by (simp add: tasks_of_def st1)
  have "\<forall>i \<in> ?I. flat_config (cfg i)" using cluster_okD(5) [OF ok] by blast
  note fresh = refreshed_new_log [OF this spec sh1]
  show ?thesis
  proof (rule cluster_okI)
    fix i s a assume at: "shard_at (wr_shards st1) i s = Some a"
    show "log_ok (wr_objects st1 ! a)"
    proof (cases "shard_at (wr_shards st) i s = Some a")
      case True
      then show ?thesis
        using cluster_okD(6) [OF ok True] shards_ok_bound [OF sh True] by (simp add: st1 nth_append)
    next
      case False
      then show ?thesis using fresh [of i s a] at by (simp add: st1)
    qed
  next
    fix i s assume i: "i \<in> fst ` set (wr_create_args st1)" and s: "s \<in> shards_of R i"
    then have i': "i \<in> ?I" by (simp add: st1)
    note sync = cluster_okD(9) [OF ok i' s]
    from D(4) [of i s] i' s have "(i, s) \<in> nested_keys m" by (auto simp del: image_iff)
    from shards_okD(3) [OF sh1 this] obtain a where at: "shard_at m i s = Some a" by blast
    show "synced pf vecs dst (cfg i) (hosts_of R i s) st1 i s"
    proof (cases "shard_at (wr_shards st) i s = Some a")
      case True
      from synced_SomeD [OF sync True] obtain pub pend where "ix_segments (wr_objects st ! a) = pub @ pend"
        "tasks_of st i s = map (\<lambda>p. indexUpdateCallback a i s ([], [p])) pend"
        "\<forall>h \<in> hosts_of R i s. host_holds pf vecs dst (flat_shape pf (cfg i)) (wr_world st) h i s (map (seg_at (wr_objects st ! a)) pub)"
        by blast
      then show ?thesis
        using at shards_ok_bound [OF sh True] tasks [of i s]
        by (intro synced_SomeI [of st1 i s a pub pend]) (simp_all add: st1 nth_append)
    next
      case False
      with fresh [OF at] have none: "shard_at (wr_shards st) i s = None" "ix_segments ((wr_objects st @ new) ! a) = []" by simp_all
      with sync have "tasks_of st i s = []"
        "\<forall>h \<in> hosts_of R i s. host_holds pf vecs dst (flat_shape pf (cfg i)) (wr_world st) h i s []" by (simp_all add: synced_def)
      then show ?thesis
        using at none(2) tasks [of i s] by (intro synced_SomeI [of st1 i s a "[]" "[]"]) (simp_all add: st1)
    qed
  qed (use ok1 prom cluster_okD(2,3,5,7,8) [OF ok] in \<open>simp_all add: st1\<close>)
qed

lemma tasks_of_added:
  "tasks_of ((added_state a i s ix' g' ev st)\<lparr>wr_prom := p\<rparr>) j t =
    tasks_of st j t @ (if (j, t) = (i, s) then map (indexUpdateCallback a i s) ev else [])"
  by (auto simp: tasks_of_def added_state_def indexUpdateCallback_def filter_empty_conv)

text \<open>The shard of the new document: a segment that was sealed is announced by a new task.\<close>

lemma added_synced:
  assumes sync: "synced pf vecs dst (cfg i) H st i s" and at: "shard_at (wr_shards st) i s = Some a" and a: "a < length (wr_objects st)"
    and keep: "\<forall>p \<in> set (ix_segments (wr_objects st ! a)). seg_at ix' p = seg_at (wr_objects st ! a) p"
    and ev: "ix_segments ix' = ix_segments (wr_objects st ! a) \<and> ev = [] \<or>
      ix_segments ix' = ix_segments (wr_objects st ! a) @ [ix_last (wr_objects st ! a)] \<and> ev = [([], [ix_last (wr_objects st ! a)])]"
  shows "synced pf vecs dst (cfg i) H ((added_state a i s ix' g' ev st)\<lparr>wr_prom := p\<rparr>) i s"
proof -
  let ?ix = "wr_objects st ! a"
  from synced_SomeD [OF sync at] obtain pub pend where S: "ix_segments ?ix = pub @ pend"
    "tasks_of st i s = map (\<lambda>p. indexUpdateCallback a i s ([], [p])) pend"
    "\<forall>h \<in> H. host_holds pf vecs dst (flat_shape pf (cfg i)) (wr_world st) h i s (map (seg_at ?ix) pub)" by blast
  from keep S(1) have eq: "map (seg_at ix') pub = map (seg_at ?ix) pub" by simp
  obtain pend' where "ix_segments ix' = pub @ pend'"
    "map (\<lambda>p. indexUpdateCallback a i s ([], [p])) pend @ map (indexUpdateCallback a i s) ev =
      map (\<lambda>p. indexUpdateCallback a i s ([], [p])) pend'"
    using ev S(1) by (elim disjE) (auto intro: that [of pend] that [of "pend @ [ix_last ?ix]"])
  note pend' = this
  let ?st = "(added_state a i s ix' g' ev st)\<lparr>wr_prom := p\<rparr>"
  have "tasks_of ?st i s = map (\<lambda>p. indexUpdateCallback a i s ([], [p])) pend'"
    using S(2) pend'(2) by (simp add: tasks_of_added)
  moreover have "shard_at (wr_shards ?st) i s = Some a" "wr_objects ?st ! a = ix'" "wr_world ?st = wr_world st"
    using at a by (simp_all add: added_state_def)
  ultimately show ?thesis
    using pend'(1) S(3) by (intro synced_SomeI [of ?st i s a pub pend']) (simp_all add: eq)
qed

lemma added_cluster:
  fixes pf :: "('b, 'f::{linorder, zero}, 'j, 'e, 's, 'p, 'cf, 'gf) pf"
  assumes ok: "cluster_ok pf vecs dst buckets cfg kv R st" and prom: "writer_metrics (pf_prom pf) p v"
    and at: "shard_at (wr_shards st) i s = Some a" and i: "i \<in> fst ` set (wr_create_args st)" and s: "s \<in> shards_of R i"
    and add: "document_added pf vecs d vec (wr_objects st ! a) (wr_rng st) ix' g' ev" and d: "length d \<le> string_max_size"
    and ok': "writer_ok pf vecs dst buckets cfg ((added_state a i s ix' g' ev st)\<lparr>wr_prom := p\<rparr>)"
  shows "cluster_ok pf vecs dst buckets cfg kv R ((added_state a i s ix' g' ev st)\<lparr>wr_prom := p\<rparr>)"
proof -
  let ?ix = "wr_objects st ! a" and ?st = "(added_state a i s ix' g' ev st)\<lparr>wr_prom := p\<rparr>"
  have sh: "shards_ok pf cfg (wr_create_args st) (wr_objects st) (wr_shards st)"
    and ob: "objects_ok pf vecs dst (wr_objects st) (wr_rng st)"
    using cluster_okD(1) [OF ok] by (simp_all add: writer_ok_def)
  note O = cluster_object [OF ok at i]
  have "ix_callback ?ix" by (rule objects_okD(3) [OF ob]) (use O(1) in simp)
  from log_ok_add [OF O(2) cluster_okD(6) [OF ok at] this _ d] add
  have log: "log_ok ix'" and keep: "\<forall>p \<in> set (ix_segments ?ix). seg_at ix' p = seg_at ?ix p"
    and ev: "ix_segments ix' = ix_segments ?ix \<and> ev = [] \<or> ix_segments ix' = ix_segments ?ix @ [ix_last ?ix] \<and> ev = [([], [ix_last ?ix])]"
    unfolding document_added_def by blast+
  have other: "b \<noteq> a" if "shard_at (wr_shards st) j t = Some b" "(j, t) \<noteq> (i, s)" for j t b
    using shards_okD(4) [OF sh at, of j t] that by auto
  have fields: "wr_shards ?st = wr_shards st" "wr_objects ?st = (wr_objects st)[a := ix']" "wr_world ?st = wr_world st"
    "wr_create_args ?st = wr_create_args st" "wr_etcd ?st = wr_etcd st" "wr_prom ?st = p"
    "wr_queue ?st = wr_queue st @ map (indexUpdateCallback a i s) ev"
    by (simp_all add: added_state_def)
  show ?thesis
  proof (rule cluster_okI)
    fix j t b assume at': "shard_at (wr_shards ?st) j t = Some b"
    show "log_ok (wr_objects ?st ! b)"
      using log O(1) cluster_okD(6) [OF ok, of j t b] at' unfolding fields by (cases "b = a") simp_all
  next
    fix t assume "t \<in> set (wr_queue ?st)"
    then consider "t \<in> set (wr_queue st)" | e where "t = indexUpdateCallback a i s e" unfolding fields by auto
    then show "ut_index_id t \<in> fst ` set (wr_create_args ?st) \<and> ut_shard_id t \<in> shards_of R (ut_index_id t)"
      using i s cluster_okD(7,8) [OF ok] unfolding fields by cases (simp_all add: indexUpdateCallback_def)
  next
    fix j t assume j: "j \<in> fst ` set (wr_create_args ?st)" and t: "t \<in> shards_of R j"
    note sync = cluster_okD(9) [OF ok j [unfolded fields] t]
    show "synced pf vecs dst (cfg j) (hosts_of R j t) ?st j t"
    proof (cases "(j, t) = (i, s)")
      case True
      then show ?thesis using added_synced [OF _ at O(1) keep ev] sync by simp
    next
      case False
      have tasks: "tasks_of ?st j t = tasks_of st j t" using False by (auto simp: tasks_of_added)
      show ?thesis
      proof (cases "shard_at (wr_shards st) j t")
        case None
        then show ?thesis using sync by (simp add: synced_def fields tasks)
      next
        case (Some b)
        from synced_SomeD [OF sync Some] obtain pub pend where "ix_segments (wr_objects st ! b) = pub @ pend"
          "tasks_of st j t = map (\<lambda>p. indexUpdateCallback b j t ([], [p])) pend"
          "\<forall>h \<in> hosts_of R j t. host_holds pf vecs dst (flat_shape pf (cfg j)) (wr_world st) h j t (map (seg_at (wr_objects st ! b)) pub)"
          by blast
        then show ?thesis
          using Some other [OF Some False] by (intro synced_SomeI [of ?st j t b pub pend]) (simp_all add: fields tasks)
      qed
    qed
  qed (use ok' prom cluster_okD(2,3,5) [OF ok] in \<open>simp_all add: fields\<close>)
qed

section \<open>Steps of the cluster\<close>

text \<open>
  Requests that are not for deletion: those that add a document with a new identifier, and those that
  are refused.
\<close>

definition acceptable ::
  "('b, 'f, 'j, 'e, 's, 'p, 'cf, 'gf) pf \<Rightarrow> (string \<Rightarrow> index_config) \<Rightarrow> registry \<Rightarrow>
    ('b, 'j, 'e, 's, 'p, 'cf, 'gf, 'w) WriterImpl \<Rightarrow> 'f Document \<Rightarrow> bool" where
  "acceptable pf cfg R st data \<longleftrightarrow> map_of (doc_attributes data) ''delete'' = None \<and> length (doc_id data) \<le> string_max_size \<and>
     (\<exists>i. map_of (doc_attributes data) ''index-id'' = Some i \<and> i \<in> fst ` set (wr_create_args st) \<and> shards_of R i \<noteq> {} \<and>
        config_dim pf (cfg i) \<le> length (doc_vector data) \<and> (\<forall>s. doc_id data \<notin> writer_known st i s))"

definition failure :: "'a outcome \<Rightarrow> cxx_error option" where
  "failure r = (case r of Inl e \<Rightarrow> Some e | Inr _ \<Rightarrow> None)"

inductive cluster_step ::
  "('b, 'f::{linorder, zero}, 'j, 'e, 's, 'p, 'cf, 'gf) pf \<Rightarrow> ('s, ('b, 'e, 's, 'p, 'cf, 'gf) searchers) update_rpc \<Rightarrow>
    ((string \<times> 'j) list \<Rightarrow> (string \<times> 'j) list) \<Rightarrow> nat inner_order \<Rightarrow> (string \<Rightarrow> index_config) \<Rightarrow> registry \<Rightarrow>
    ('b, 'j, 'e, 's, 'p, 'cf, 'gf, ('b, 'e, 's, 'p, 'cf, 'gf) searchers) WriterImpl \<Rightarrow> cxx_error option \<Rightarrow>
    ('b, 'j, 'e, 's, 'p, 'cf, 'gf, ('b, 'e, 's, 'p, 'cf, 'gf) searchers) WriterImpl \<Rightarrow> bool"
  for pf rpc ita iti cfg R where
  request: "\<lbrakk>acceptable pf cfg R st data \<or> refused R st data; ProcessWriteRequest pf ita iti data st = (r, st'); ids_fit st'\<rbrakk> \<Longrightarrow>
    cluster_step pf rpc ita iti cfg R st (failure r) st'"
| task: "\<lbrakk>wr_queue st \<noteq> []; runner_step pf rpc st = (r, st')\<rbrakk> \<Longrightarrow> cluster_step pf rpc ita iti cfg R st (failure r) st'"

inductive cluster_run ::
  "('b, 'f::{linorder, zero}, 'j, 'e, 's, 'p, 'cf, 'gf) pf \<Rightarrow> ('s, ('b, 'e, 's, 'p, 'cf, 'gf) searchers) update_rpc \<Rightarrow>
    ((string \<times> 'j) list \<Rightarrow> (string \<times> 'j) list) \<Rightarrow> nat inner_order \<Rightarrow> (string \<Rightarrow> index_config) \<Rightarrow> registry \<Rightarrow>
    ('b, 'j, 'e, 's, 'p, 'cf, 'gf, ('b, 'e, 's, 'p, 'cf, 'gf) searchers) WriterImpl \<Rightarrow>
    ('b, 'j, 'e, 's, 'p, 'cf, 'gf, ('b, 'e, 's, 'p, 'cf, 'gf) searchers) WriterImpl \<Rightarrow> bool"
  for pf rpc ita iti cfg R st0 where
  start: "cluster_run pf rpc ita iti cfg R st0 st0"
| step: "cluster_run pf rpc ita iti cfg R st0 st \<Longrightarrow> cluster_step pf rpc ita iti cfg R st e st' \<Longrightarrow>
    cluster_run pf rpc ita iti cfg R st0 st'"

inductive_cases cluster_stepE: "cluster_step pf rpc ita iti cfg R st e st'"

text \<open>A new writer, and registered searchers that are still empty.\<close>

definition cluster_start ::
  "('b, 'f::{linorder, zero}, 'j, 'e, 's, 'p, 'cf, 'gf) pf \<Rightarrow> ('b \<Rightarrow> 'f list list) \<Rightarrow> ('f list \<Rightarrow> 'f list \<Rightarrow> 'f) \<Rightarrow>
    ('s \<Rightarrow> string set) \<Rightarrow> (string \<Rightarrow> index_config) \<Rightarrow> ('e \<Rightarrow> string \<rightharpoonup> string) \<Rightarrow> registry \<Rightarrow>
    ('b, 'j, 'e, 's, 'p, 'cf, 'gf, ('b, 'e, 's, 'p, 'cf, 'gf) searchers) WriterImpl \<Rightarrow> bool" where
  "cluster_start pf vecs dst buckets cfg kv R st \<longleftrightarrow>
     writer_ok pf vecs dst buckets cfg st \<and> wr_shards st = [] \<and> wr_objects st = [] \<and> wr_queue st = [] \<and>
     etcd_holds (pf_etcd pf) kv (wr_etcd st) R \<and> times_ok R \<and> (\<exists>v. writer_metrics (pf_prom pf) (wr_prom st) v) \<and>
     (\<forall>i \<in> fst ` set (wr_create_args st). flat_config (cfg i)) \<and>
     (\<forall>i \<in> fst ` set (wr_create_args st). \<forall>s \<in> shards_of R i. \<forall>h \<in> hosts_of R i s.
        host_holds pf vecs dst (flat_shape pf (cfg i)) (wr_world st) h i s [])"

lemma cluster_start_ok:
  assumes "cluster_start pf vecs dst buckets cfg kv R st"
  shows "cluster_ok pf vecs dst buckets cfg kv R st" and "ids_fit st"
proof -
  note S = assms [unfolded cluster_start_def]
  have q: "wr_queue st = []" and none: "shard_at (wr_shards st) i s = None" for i s
    using S by (simp_all add: shard_at_def nested_get_def)
  from S obtain v where v: "writer_metrics (pf_prom pf) (wr_prom st) v" by blast
  show "cluster_ok pf vecs dst buckets cfg kv R st"
  proof (rule cluster_okI [OF _ _ _ v])
    fix i s assume "i \<in> fst ` set (wr_create_args st)" "s \<in> shards_of R i"
    with S have "\<forall>h \<in> hosts_of R i s. host_holds pf vecs dst (flat_shape pf (cfg i)) (wr_world st) h i s []" by blast
    then show "synced pf vecs dst (cfg i) (hosts_of R i s) st i s" by (simp add: synced_def none tasks_of_def q)
  qed (use S none q in auto)
  show "ids_fit st" using S by (simp add: ids_fit_def)
qed

lemma request_ok:
  fixes pf :: "('b, 'f::{linorder, zero}, 'j, 'e, 's, 'p, 'cf, 'gf) pf"
  assumes pok: "platform_ok pf vecs dst buckets objects" and it: "reorders ita" "reorders iti"
    and ok: "cluster_ok pf vecs dst buckets cfg kv R st" and rq: "acceptable pf cfg R st data \<or> refused R st data"
  shows "\<exists>status st'. ProcessWriteRequest pf ita iti data st = (Inr status, st') \<and> cluster_ok pf vecs dst buckets cfg kv R st'"
proof -
  note W = cluster_okD(1-3) [OF ok]
  from cluster_okD(4) [OF ok] obtain v where v: "writer_metrics (pf_prom pf) (wr_prom st) v" by blast
  from rq show ?thesis
  proof
    assume "refused R st data"
    from refused_request_ok [OF pok W(1,2) v it this] obtain q status st'
      where st': "ProcessWriteRequest pf ita iti data st = (Inr status, st')" "writer_ok pf vecs dst buckets cfg st'"
        "writer_metrics (pf_prom pf) (wr_prom st') v"
        "refreshed vecs objects (fst ` set (wr_create_args st)) (shards_of R) (st\<lparr>wr_prom := q\<rparr>) st'" by blast
    have "wr_prom st' = q" using refreshed_frame [OF st'(4)] by simp
    with refreshed_cluster [OF ok _ st'(4,2)] st'(1,3) show ?thesis by blast
  next
    assume "acceptable pf cfg R st data"
    then obtain i where a: "map_of (doc_attributes data) ''index-id'' = Some i" "map_of (doc_attributes data) ''delete'' = None"
      "i \<in> fst ` set (wr_create_args st)" "shards_of R i \<noteq> {}" "config_dim pf (cfg i) \<le> length (doc_vector data)"
      "\<forall>s. doc_id data \<notin> writer_known st i s" and d: "length (doc_id data) \<le> string_max_size"
      unfolding acceptable_def by blast
    from write_request_ok [OF pok W v it a] obtain q p st1 s b ix' g' ev where
      r: "refreshed vecs objects (fst ` set (wr_create_args st)) (shards_of R) (st\<lparr>wr_prom := q\<rparr>) st1"
      and ok1: "writer_ok pf vecs dst buckets cfg st1" and at: "shard_at (wr_shards st1) i s = Some b" and s: "s \<in> shards_of R i"
      and add: "document_added pf vecs (doc_id data) (doc_vector data) (wr_objects st1 ! b) (wr_rng st1) ix' g' ev"
      and res: "ProcessWriteRequest pf ita iti data st = (Inr StatusOK, (added_state b i s ix' g' ev st1)\<lparr>wr_prom := p\<rparr>)"
      and ok': "writer_ok pf vecs dst buckets cfg ((added_state b i s ix' g' ev st1)\<lparr>wr_prom := p\<rparr>)"
      and q: "writer_metrics (pf_prom pf) q v"
      and p: "let labels = [(''index_id'', i), (''shard_id'', s)]
        in writer_metrics (pf_prom pf) p (v(labels := min (v labels + 1) (2 ^ 53)))"
      by (elim exE conjE) (rule that; assumption)
    have "i \<in> fst ` set (wr_create_args st1)" using refreshed_frame [OF r] a(3) by simp
    from added_cluster [OF refreshed_cluster [OF ok q r ok1] p [unfolded Let_def] at this s add d ok'] res show ?thesis by blast
  qed
qed

lemma cluster_step_ok:
  fixes pf :: "('b, 'f::{linorder, zero}, 'j, 'e, 's, 'p, 'cf, 'gf) pf"
  assumes pok: "platform_ok pf vecs dst buckets objects" and rpc: "delivers pf rpc" and it: "reorders ita" "reorders iti"
    and ok: "cluster_ok pf vecs dst buckets cfg kv R st" "ids_fit st" and step: "cluster_step pf rpc ita iti cfg R st e st'"
  shows "e = None \<and> cluster_ok pf vecs dst buckets cfg kv R st' \<and> ids_fit st'"
  using step
proof (rule cluster_stepE)
  fix data r assume "acceptable pf cfg R st data \<or> refused R st data" "ProcessWriteRequest pf ita iti data st = (r, st')"
    "e = failure r" "ids_fit st'"
  with request_ok [OF pok it ok(1), of data] show ?thesis by (auto simp: failure_def)
next
  fix r assume q: "wr_queue st \<noteq> []" "runner_step pf rpc st = (r, st')" "e = failure r"
  from q(1) obtain t ts where "wr_queue st = t # ts" by (cases "wr_queue st") auto
  from runner_step_ok [OF pok rpc ok this] obtain q c w
    where r: "runner_step pf rpc st = (Inr (), st\<lparr>wr_queue := ts, wr_prom := q, wr_storage := c, wr_world := w\<rparr>)"
      "cluster_ok pf vecs dst buckets cfg kv R (st\<lparr>wr_queue := ts, wr_prom := q, wr_storage := c, wr_world := w\<rparr>)" by blast
  with q(2,3) ok(2) show ?thesis by (auto simp: failure_def ids_fit_def)
qed

lemma cluster_run_ok:
  fixes pf :: "('b, 'f::{linorder, zero}, 'j, 'e, 's, 'p, 'cf, 'gf) pf"
  assumes "platform_ok pf vecs dst buckets objects" and "delivers pf rpc" and "reorders ita" "reorders iti"
    and "cluster_start pf vecs dst buckets cfg kv R st0"
  shows "cluster_run pf rpc ita iti cfg R st0 st \<Longrightarrow> cluster_ok pf vecs dst buckets cfg kv R st \<and> ids_fit st"
proof (induction rule: cluster_run.induct)
  case start
  then show ?case using cluster_start_ok [OF assms(5)] by simp
next
  case (step st e st')
  then show ?case using cluster_step_ok [OF assms(1-4)] by blast
qed

section \<open>What the searchers hold\<close>

lemma log_docs:
  assumes "log_ok ix" and wf: "index_wf invar shape dm (faiss_docs vecs) known ix"
  shows "faiss_index_docs vecs ix = mset (faiss_docs vecs (seg_index (seg_at ix (ix_last ix)))) +
    segments_docs vecs (map (seg_at ix) (ix_segments ix))"
proof -
  note L = log_ok_segments [OF assms]
  let ?f = "\<lambda>p. mset (faiss_docs vecs (seg_index (seg_at ix p)))"
  have "faiss_index_docs vecs ix = sum ?f (insert (ix_last ix) (set (ix_segments ix)))"
    by (simp add: index_docs_def heap_docs_def L(4))
  also have "\<dots> = ?f (ix_last ix) + sum ?f (set (ix_segments ix))" using L(2) by simp
  also have "sum ?f (set (ix_segments ix)) = segments_docs vecs (map (seg_at ix) (ix_segments ix))"
    using L(1) by (simp add: segments_docs_def sum_list_distinct_conv_sum_set comp_def)
  finally show ?thesis .
qed

text \<open>
  All searchers of a shard hold the same documents: those that the writer has published. When no task
  is left, only the documents of the segment that is being filled are missing.
\<close>

definition searcher_holds ::
  "('b, 'f::{linorder, zero}, 'j, 'e, 's, 'p, 'cf, 'gf) pf \<Rightarrow> ('b \<Rightarrow> 'f list list) \<Rightarrow> ('f list \<Rightarrow> 'f list \<Rightarrow> 'f) \<Rightarrow>
    index_config \<Rightarrow> ('b, 'e, 's, 'p, 'cf, 'gf) searchers \<Rightarrow> string \<Rightarrow> string \<Rightarrow> string \<Rightarrow> (string, 'f) document multiset \<Rightarrow> bool" where
  "searcher_holds pf vecs dst cf w h i s found \<longleftrightarrow> (\<exists>se ix. w h = Some se \<and>
     metrics_ok (pf_prom pf) searcher_counters {} (se_prom se) \<and> shard_ok pf vecs dst se i s ix \<and>
     faiss_index_dim (pf_faiss pf) ix = config_dim pf cf \<and> faiss_index_docs vecs ix = found)"

lemma host_holds_docs:
  "host_holds pf vecs dst (flat_shape pf cf) w h i s segs \<Longrightarrow> searcher_holds pf vecs dst cf w h i s (segments_docs vecs segs)"
  unfolding host_holds_def searcher_holds_def by (auto simp: faiss_shape_def)

text \<open>The documents of the segment that the writer is filling.\<close>

definition unsealed ::
  "('b \<Rightarrow> 'f list list) \<Rightarrow> ('b, 'j, 'e, 's, 'p, 'cf, 'gf, 'w) WriterImpl \<Rightarrow> string \<Rightarrow> string \<Rightarrow> (string, 'f) document multiset" where
  "unsealed vecs = writer_view {#} (\<lambda>ix. mset (faiss_docs vecs (seg_index (seg_at ix (ix_last ix)))))"

lemma synced_docs:
  fixes pf :: "('b, 'f::{linorder, zero}, 'j, 'e, 's, 'p, 'cf, 'gf) pf"
  assumes ok: "cluster_ok pf vecs dst buckets cfg kv R st" and i: "i \<in> fst ` set (wr_create_args st)" and s: "s \<in> shards_of R i"
  shows "\<exists>found rest. writer_docs vecs st i s = found + rest \<and> (tasks_of st i s = [] \<longrightarrow> rest = unsealed vecs st i s \<and> size rest < fst (snd (cfg i))) \<and>
    (\<forall>h \<in> hosts_of R i s. searcher_holds pf vecs dst (cfg i) (wr_world st) h i s found)"
proof -
  note sync = cluster_okD(9) [OF ok i s]
  from i obtain json where "map_of (wr_create_args st) i = Some json"
    by (cases "map_of (wr_create_args st) i") (simp_all add: map_of_eq_None_iff)
  with cluster_okD(1) [OF ok] have "config_ok pf json (cfg i)" unfolding writer_ok_def by blast
  then have pos: "0 < fst (snd (cfg i))" by (auto simp: config_ok_def)
  show ?thesis
  proof (cases "shard_at (wr_shards st) i s")
    case None
    then have "\<forall>h \<in> hosts_of R i s. host_holds pf vecs dst (flat_shape pf (cfg i)) (wr_world st) h i s []"
      using sync by (simp add: synced_def)
    then have "\<forall>h \<in> hosts_of R i s. searcher_holds pf vecs dst (cfg i) (wr_world st) h i s (segments_docs vecs [])"
      using host_holds_docs by blast
    then show ?thesis using None pos by (intro exI [of _ "{#}"]) (simp add: writer_view_def segments_docs_def unsealed_def)
  next
    case (Some a)
    let ?ix = "wr_objects st ! a"
    note O = cluster_object [OF ok Some i]
    from synced_SomeD [OF sync Some] obtain pub pend where S: "ix_segments ?ix = pub @ pend"
      "tasks_of st i s = map (\<lambda>p. indexUpdateCallback a i s ([], [p])) pend"
      "\<forall>h \<in> hosts_of R i s. host_holds pf vecs dst (flat_shape pf (cfg i)) (wr_world st) h i s (map (seg_at ?ix) pub)" by blast
    let ?found = "segments_docs vecs (map (seg_at ?ix) pub)"
    let ?rest = "mset (faiss_docs vecs (seg_index (seg_at ?ix (ix_last ?ix)))) + segments_docs vecs (map (seg_at ?ix) pend)"
    from O(2) have wf: "index_wf (faiss_ok (pf_faiss pf) vecs dst (pf_merge_order pf)) (faiss_shape (pf_faiss pf))
        (\<lambda>x. fx_d (pf_faiss pf) (fi_index x)) (faiss_docs vecs) faiss_known ?ix"
      and last: "length (faiss_docs vecs (seg_index (seg_at ?ix (ix_last ?ix)))) < ix_threshold ?ix"
      by (simp_all add: faiss_index_inv_def index_inv_def)
    have "writer_docs vecs st i s = ?found + ?rest"
      using log_docs [OF cluster_okD(6) [OF ok Some] wf] Some by (simp add: writer_view_def S(1) segments_docs_def ac_simps)
    moreover have "tasks_of st i s = [] \<longrightarrow> ?rest = unsealed vecs st i s \<and> size ?rest < fst (snd (cfg i))"
      using S(2) O(3) last Some by (auto simp: configured_def segments_docs_def unsealed_def writer_view_def split: prod.splits)
    moreover have "\<forall>h \<in> hosts_of R i s. searcher_holds pf vecs dst (cfg i) (wr_world st) h i s ?found"
      using S(3) host_holds_docs by blast
    ultimately show ?thesis by - (rule exI [of _ ?found], rule exI [of _ ?rest], intro conjI; assumption)
  qed
qed

lemma writer_join_ok:
  fixes pf :: "('b, 'f::{linorder, zero}, 'j, 'e, 's, 'p, 'cf, 'gf) pf"
    and st :: "('b, 'j, 'e, 's, 'p, 'cf, 'gf, ('b, 'e, 's, 'p, 'cf, 'gf) searchers) WriterImpl"
  assumes "platform_ok pf vecs dst buckets objects" and "delivers pf rpc"
  shows "\<lbrakk>cluster_ok pf vecs dst buckets cfg kv R st; ids_fit st; wr_queue st = ts\<rbrakk> \<Longrightarrow>
    \<exists>q c w. forP (\<lambda>_. runner_step pf rpc) ts st = (Inr (), st\<lparr>wr_queue := [], wr_prom := q, wr_storage := c, wr_world := w\<rparr>) \<and>
      cluster_ok pf vecs dst buckets cfg kv R (st\<lparr>wr_queue := [], wr_prom := q, wr_storage := c, wr_world := w\<rparr>)"
proof (induction ts arbitrary: st)
  case Nil
  then have "st\<lparr>wr_queue := [], wr_prom := wr_prom st, wr_storage := wr_storage st, wr_world := wr_world st\<rparr> = st"
    by (cases st) simp
  with Nil.prems(1) show ?case
    by (intro exI [of _ "wr_prom st"] exI [of _ "wr_storage st"] exI [of _ "wr_world st"]) (simp only: forP.simps returnP_def)
next
  case (Cons t ts)
  from runner_step_ok [OF assms Cons.prems] obtain q c w
    where one: "runner_step pf rpc st = (Inr (), st\<lparr>wr_queue := ts, wr_prom := q, wr_storage := c, wr_world := w\<rparr>)"
      "cluster_ok pf vecs dst buckets cfg kv R (st\<lparr>wr_queue := ts, wr_prom := q, wr_storage := c, wr_world := w\<rparr>)" by blast
  from Cons.IH [OF one(2)] Cons.prems(2) obtain q' c' w'
    where "forP (\<lambda>_. runner_step pf rpc) ts (st\<lparr>wr_queue := ts, wr_prom := q, wr_storage := c, wr_world := w\<rparr>) =
        (Inr (), st\<lparr>wr_queue := [], wr_prom := q', wr_storage := c', wr_world := w'\<rparr>)"
      "cluster_ok pf vecs dst buckets cfg kv R (st\<lparr>wr_queue := [], wr_prom := q', wr_storage := c', wr_world := w'\<rparr>)"
    by (auto simp: ids_fit_def)
  then show ?case using one(1) by (intro exI [of _ q'] exI [of _ c'] exI [of _ w']) (simp add: bindP_def)
qed

text \<open>
  C5. The cluster runs without failures and stays consistent as long as documents are only added. From a
  new writer and empty, registered searchers on, with flat indexes that do not merge, for requests that
  add documents with new identifiers or are refused (none for deletion), in any order and whenever the
  runner gets to its tasks: no request and no task fails, all searchers that are registered for a shard
  hold the same documents, and only documents that the writer holds in this shard.
\<close>

theorem cluster_consistent:
  fixes pf :: "('b, 'f::{linorder, zero}, 'j, 'e, 's, 'p, 'cf, 'gf) pf"
  assumes "platform_ok pf vecs dst buckets objects" and "delivers pf rpc" and "reorders ita" and "reorders iti"
    and "cluster_start pf vecs dst buckets cfg kv R st0" and "cluster_run pf rpc ita iti cfg R st0 st"
    and "cluster_step pf rpc ita iti cfg R st e st'"
  shows "e = None \<and> writer_ok pf vecs dst buckets cfg st' \<and>
    (\<forall>i \<in> fst ` set (wr_create_args st'). \<forall>s \<in> shards_of R i. \<exists>found. found \<subseteq># writer_docs vecs st' i s \<and>
      (\<forall>h \<in> hosts_of R i s. \<exists>se ix. wr_world st' h = Some se \<and> shard_at (se_shards se) i s = Some ix \<and>
        faiss_index_docs vecs ix = found))"
proof -
  have "cluster_ok pf vecs dst buckets cfg kv R st" "ids_fit st" using cluster_run_ok [OF assms(1-6)] by simp_all
  from cluster_step_ok [OF assms(1-4) this assms(7)]
  have e: "e = None" and ok: "cluster_ok pf vecs dst buckets cfg kv R st'" by simp_all
  have "\<exists>found. found \<subseteq># writer_docs vecs st' i s \<and> (\<forall>h \<in> hosts_of R i s. \<exists>se ix. wr_world st' h = Some se \<and>
      shard_at (se_shards se) i s = Some ix \<and> faiss_index_docs vecs ix = found)"
    if "i \<in> fst ` set (wr_create_args st')" "s \<in> shards_of R i" for i s
  proof -
    from synced_docs [OF ok that] obtain found rest where "writer_docs vecs st' i s = found + rest"
      "\<forall>h \<in> hosts_of R i s. searcher_holds pf vecs dst (cfg i) (wr_world st') h i s found" by blast
    then show ?thesis by (intro exI [of _ found]) (auto simp: searcher_holds_def shard_ok_def)
  qed
  with e cluster_okD(1) [OF ok] show ?thesis by blast
qed

text \<open>Shutting down the writer at any time: afterwards the searchers hold everything that was sealed.\<close>

lemma cluster_joined:
  fixes pf :: "('b, 'f::{linorder, zero}, 'j, 'e, 's, 'p, 'cf, 'gf) pf"
  assumes "platform_ok pf vecs dst buckets objects" and "delivers pf rpc" and "reorders ita" and "reorders iti"
    and "cluster_start pf vecs dst buckets cfg kv R st0" and "cluster_run pf rpc ita iti cfg R st0 st"
    and "i \<in> fst ` set (wr_create_args st)" and "s \<in> shards_of R i"
  shows "\<exists>st' found. writer_join pf rpc st = (Inr (), st') \<and> wr_queue st' = [] \<and>
    writer_docs vecs st i s = found + unsealed vecs st i s \<and> size (unsealed vecs st i s) < fst (snd (cfg i)) \<and>
    (\<forall>h \<in> hosts_of R i s. searcher_holds pf vecs dst (cfg i) (wr_world st') h i s found)"
proof -
  have "cluster_ok pf vecs dst buckets cfg kv R st" "ids_fit st" using cluster_run_ok [OF assms(1-6)] by simp_all
  from writer_join_ok [OF assms(1,2) this refl] obtain q c w
    where join: "forP (\<lambda>_. runner_step pf rpc) (wr_queue st) st = (Inr (), st\<lparr>wr_queue := [], wr_prom := q, wr_storage := c, wr_world := w\<rparr>)"
      and ok: "cluster_ok pf vecs dst buckets cfg kv R (st\<lparr>wr_queue := [], wr_prom := q, wr_storage := c, wr_world := w\<rparr>)" by blast
  let ?st = "st\<lparr>wr_queue := [], wr_prom := q, wr_storage := c, wr_world := w\<rparr>"
  have run: "writer_join pf rpc st = (Inr (), ?st)" using join by (simp add: writer_join_def bindP_def readP_def)
  have docs: "writer_docs vecs ?st i s = writer_docs vecs st i s" "unsealed vecs ?st i s = unsealed vecs st i s"
    by (simp_all add: unsealed_def writer_view_def split: option.split)
  have "tasks_of ?st i s = []" by (simp add: tasks_of_def)
  with synced_docs [OF ok _ assms(8)] assms(7) docs obtain found
    where "writer_docs vecs st i s = found + unsealed vecs st i s" "size (unsealed vecs st i s) < fst (snd (cfg i))"
      "\<forall>h \<in> hosts_of R i s. searcher_holds pf vecs dst (cfg i) (wr_world ?st) h i s found" by auto
  with run show ?thesis by (intro exI [of _ ?st] exI [of _ found]) simp
qed

text \<open>
  C4. What was sealed is found. Flat indexes do not merge, the searchers of each shard are registered
  from the start, and the requests so far added documents with new identifiers or were refused; none was
  for deletion. Whenever the writer is then shut down, it terminates: it works off the whole queue without
  failure. From then on a search at any searcher that is registered for a shard is exact over the
  documents of this shard except for those of the segment that the writer is still filling. These are fewer
  than \<open>threshold\<close>, and they are never published.
\<close>

theorem cluster_join_search_exact:
  fixes pf :: "('b, 'f::{linorder, zero}, 'j, 'e, 's, 'p, 'cf, 'gf) pf"
  assumes "platform_ok pf vecs dst buckets objects" and "faiss_exact (pf_faiss pf) vecs dst" and "delivers pf rpc"
    and "reorders ita" and "reorders iti"
    and "cluster_start pf vecs dst buckets cfg kv R st0" and "cluster_run pf rpc ita iti cfg R st0 st"
    and "i \<in> fst ` set (wr_create_args st)" and "s \<in> shards_of R i" and "h \<in> hosts_of R i s"
    and "rq_index_id rq = i" and "rq_shard_id rq = Some s" and "config_dim pf (cfg i) \<le> length (rq_vector rq)"
    and "0 < rq_k rq" and "rq_k rq < 2 ^ 31"
  shows "\<exists>st' se se' r found. writer_join pf rpc st = (Inr (), st') \<and> wr_queue st' = [] \<and> wr_world st' h = Some se \<and>
    searcher_ProcessSearchRequest pf itq rq se = (Inr (map sr_id r), se') \<and>
    writer_docs vecs st i s = found + unsealed vecs st i s \<and> size (unsealed vecs st i s) < fst (snd (cfg i)) \<and> sorted r \<and> distinct (map sr_id r) \<and>
    top_k sr_dist (nat (rq_k rq)) (candidates dst (take (config_dim pf (cfg i)) (rq_vector rq)) (set_mset found)) (set r)"
proof -
  from cluster_joined [OF assms(1,3-9)] obtain st' found
    where join: "writer_join pf rpc st = (Inr (), st')" "wr_queue st' = []" "writer_docs vecs st i s = found + unsealed vecs st i s"
      "size (unsealed vecs st i s) < fst (snd (cfg i))" and hold: "searcher_holds pf vecs dst (cfg i) (wr_world st') h i s found"
    using assms(10) by blast
  from hold obtain se ix where se: "wr_world st' h = Some se" "metrics_ok (pf_prom pf) searcher_counters {} (se_prom se)"
    "shard_ok pf vecs dst se i s ix" "faiss_index_dim (pf_faiss pf) ix = config_dim pf (cfg i)" "faiss_index_docs vecs ix = found"
    unfolding searcher_holds_def by blast
  have "reorders (pf_result_order pf)" using assms(1) by (simp add: platform_ok_def)
  from searcher_search_shard_ok [OF assms(2) this se(2,3) assms(11,12) _ assms(14,15), of itq] assms(13) se(4,5) obtain se' r
    where "searcher_ProcessSearchRequest pf itq rq se = (Inr (map sr_id r), se')" "sorted r" "distinct (map sr_id r)"
      "top_k sr_dist (nat (rq_k rq)) (candidates dst (take (config_dim pf (cfg i)) (rq_vector rq)) (set_mset found)) (set r)" by auto
  with join se(1) show ?thesis
    by (intro exI [of _ st'] exI [of _ se] exI [of _ se'] exI [of _ r] exI [of _ found]) simp
qed

section \<open>A small cluster\<close>

text \<open>gRPC with status 14 when nobody listens at the address and status 2 when the handler throws.\<close>

definition deliver ::
  "('b, 'f::{linorder, zero}, 'j, 'e, 's, 'p, 'cf, 'gf) pf \<Rightarrow> ('s, ('b, 'e, 's, 'p, 'cf, 'gf) searchers) update_rpc" where
  "deliver pf host rq x = (case x of (t, w) \<Rightarrow>
     (case w host of
        None \<Rightarrow> (14, t, w)
      | Some se \<Rightarrow> (case ProcessUpdateRequest pf rq (with_s3 t se) of
            (Inr _, se') \<Rightarrow> (0, sc_s3 (se_storage se'), w(host \<mapsto> se'))
          | (Inl _, se') \<Rightarrow> (2, sc_s3 (se_storage se'), w(host \<mapsto> se')))))"

lemma deliver_delivers: "delivers pf (deliver pf)"
  by (simp add: delivers_def deliver_def)

abbreviation "demo_cluster \<equiv> demo_writer [''h:1'' \<mapsto> demo_searcher Map.empty [(''products'', [(''s'', Some demo_shard)])]]"

lemma demo_cluster_start:
  "cluster_start ref_platform ref_vecs ref_dist fst (\<lambda>_. demo_cfg) map_of demo_registry demo_cluster"
proof -
  let ?w = "[''h:1'' \<mapsto> demo_searcher Map.empty [(''products'', [(''s'', Some demo_shard)])]]"
  have "host_holds ref_platform ref_vecs ref_dist (flat_shape ref_platform demo_cfg) ?w ''h:1'' ''products'' ''s'' []"
    unfolding host_holds_def
    by (intro exI [of _ "demo_searcher Map.empty [(''products'', [(''s'', Some demo_shard)])]"] exI [of _ demo_shard])
      (simp add: demo_searcher_def ref_exposer_ok shard_ok_def shard_at_def nested_get_def demo_shard_ok searchableI demo_dim
        segments_docs_def)
  moreover have "flat_config demo_cfg" by (simp add: flat_config_def demo_cfg_def)
  moreover have "wr_shards demo_cluster = []" "wr_objects demo_cluster = []" "wr_world demo_cluster = ?w"
    by (simp_all add: demo_writer_def)
  ultimately show ?thesis
    using demo_writer_metrics
    by (auto simp: cluster_start_def demo_writer_ok demo_etcd_holds demo_registry_simps)
qed

lemma demo_refresh:
  "\<exists>st' ix. updateIndexesState ref_platform rev rev ((demo_writer w)\<lparr>wr_prom := q\<rparr>) = (Inr (), st') \<and> wr_objects st' = [ix] \<and>
    seg_ids ix = {0} \<and> faiss_index_docs ref_vecs ix = {#} \<and> faiss_index_dim ref_faiss ix = 2 \<and> \<not> ix_enable_merge ix \<and> ix_last ix < length (ix_store ix) \<and>
    wr_rng st' = Suc \<and> wr_shards st' = [(''products'', [(''s'', Some 0)])] \<and> wr_create_args st' = [(''products'', demo_item)]"
proof -
  let ?st = "(demo_writer w)\<lparr>wr_prom := q\<rparr>"
  have list: "writer_etcd (ListShardIds ref_etcd ''products'') ?st = (Inr [''s''], ?st)"
    using etcd.shards_listed [OF demo_etcd_holds, of "''products''"]
    by (simp add: writer_etcd_def partP_def no_slash_def demo_registry_simps demo_writer_def)
  from platform_CreateIndex [OF _ _ _ demo_item_ok, of ref_vecs ref_dist "\<lambda>n. n"] obtain ix :: "ref_base shard_index"
    where ix: "CreateIndex ref_faiss ref_json_lib demo_item (\<lambda>n. n) = Inr (ix, Suc)" "seg_ids ix = {0}"
      "faiss_index_docs ref_vecs ix = {#}" "configured ref_platform demo_cfg ix" "fresh_index 0 ix"
    by (auto simp: ref_faiss_contract reorders_rev)
  have "\<exists>st'. updateIndexesState ref_platform rev rev ?st = (Inr (), st') \<and> wr_objects st' = [index_setUpdateCallback ix] \<and>
    wr_rng st' = Suc \<and> wr_shards st' = [(''products'', [(''s'', Some 0)])] \<and> wr_create_args st' = [(''products'', demo_item)]"
    using list ix(1)
    by (simp add: updateIndexesState_def update_index_state_def proc_defs demo_writer_def writer_storage_def createBucket_def
        with_client_def ref_s3_def shards_of_index_def writer_create_shard_def Let_def put_shard_def nested_put_def)
  moreover have "faiss_index_docs ref_vecs (index_setUpdateCallback ix) = {#}"
    using ix(3) by (simp add: index_setUpdateCallback_def index_docs_def owners_def)
  moreover have "\<not> ix_enable_merge (index_setUpdateCallback ix)"
    "ix_last (index_setUpdateCallback ix) < length (ix_store (index_setUpdateCallback ix))"
    using ix(4,5) by (simp_all add: index_setUpdateCallback_def configured_def demo_cfg_def fresh_index_def)
  moreover have "faiss_index_dim ref_faiss (index_setUpdateCallback ix) = 2"
    using configured_dim [OF ix(4)] by (simp add: demo_dim index_setUpdateCallback_def)
  ultimately show ?thesis using ix(2) by (elim exE conjE) (rule exI, rule exI [of _ "index_setUpdateCallback ix"], simp)
qed

text \<open>A document that fills a segment of one.\<close>

lemma demo_written:
  "\<exists>st'. cluster_step ref_platform (deliver ref_platform) rev rev (\<lambda>_. demo_cfg) demo_registry demo_cluster None st' \<and>
    wr_create_args st' = [(''products'', demo_item)] \<and> writer_docs ref_vecs st' ''products'' ''s'' = {#(''d'', [4, 2])#}"
proof -
  let ?doc = "demo_document ''products'' []"
  let ?w = "[''h:1'' \<mapsto> demo_searcher Map.empty [(''products'', [(''s'', Some demo_shard)])]]"
  have acc: "acceptable ref_platform (\<lambda>_. demo_cfg) demo_registry demo_cluster ?doc"
    by (simp add: acceptable_def demo_document_def demo_registry_simps demo_dim string_max_size_def)
  from write_request_ok [OF ref_platform_ok demo_writer_ok [of ?w], where R = demo_registry and kv = map_of and v = "\<lambda>_. 0" and
      ita = rev and iti = rev and data = ?doc and i = "''products''"] obtain q p st1 s a ix' g' ev
    where st1: "updateIndexesState ref_platform rev rev (demo_cluster\<lparr>wr_prom := q\<rparr>) = (Inr (), st1)"
      and at: "shard_at (wr_shards st1) ''products'' s = Some a" and s: "s \<in> shards_of demo_registry ''products''"
      and add: "document_added ref_platform ref_vecs (doc_id ?doc) (doc_vector ?doc) (wr_objects st1 ! a) (wr_rng st1) ix' g' ev"
      and res: "ProcessWriteRequest ref_platform rev rev ?doc demo_cluster =
        (Inr StatusOK, (added_state a ''products'' s ix' g' ev st1)\<lparr>wr_prom := p\<rparr>)"
    by (simp add: demo_etcd_holds demo_registry_simps demo_writer_metrics reorders_rev demo_document_def demo_dim) blast
  let ?st = "(added_state a ''products'' s ix' g' ev st1)\<lparr>wr_prom := p\<rparr>"
  from demo_refresh [of q ?w] st1 obtain ix where ix: "wr_objects st1 = [ix]" "seg_ids ix = {0}" "faiss_index_docs ref_vecs ix = {#}"
    "\<not> ix_enable_merge ix" "ix_last ix < length (ix_store ix)" "wr_rng st1 = Suc"
    "wr_shards st1 = [(''products'', [(''s'', Some 0)])]" "wr_create_args st1 = [(''products'', demo_item)]"
    "faiss_index_dim ref_faiss ix = 2" by auto
  have a: "s = ''s''" "a = 0" using s at ix(7) by (simp_all add: demo_registry_simps shard_at_def nested_get_def)
  have "seg_ids ix' \<subseteq> {0, 1}"
    using index_add_one_ids [of "platform_vtable ref_platform" "doc_id ?doc" "doc_vector ?doc" ix Suc ix' g' ev] add ix(1,2,4-6)
    by (auto simp: document_added_def a)
  then have "ids_fit ?st" by (auto simp: ids_fit_def added_state_def ix(1) a)
  with acc res have "cluster_step ref_platform (deliver ref_platform) rev rev (\<lambda>_. demo_cfg) demo_registry demo_cluster
      (failure (Inr StatusOK)) ?st" by (intro cluster_step.request) simp_all
  moreover have "writer_docs ref_vecs ?st ''products'' ''s'' = {#(''d'', [4, 2])#}"
    using add ix(1,3,6,7,9) by (simp add: writer_view_def added_state_def a shard_at_def nested_get_def document_added_def demo_document_def)
  ultimately show ?thesis
    using ix(8) by (intro exI [of _ ?st]) (simp add: failure_def added_state_def)
qed

theorem cluster_consistent_witness:
  "\<exists>st' se ix. cluster_step ref_platform (deliver ref_platform) rev rev (\<lambda>_. demo_cfg) demo_registry demo_cluster None st' \<and>
    wr_world st' ''h:1'' = Some se \<and> shard_at (se_shards se) ''products'' ''s'' = Some ix \<and>
    faiss_index_docs ref_vecs ix \<subseteq># {#(''d'', [4, 2])#}"
proof -
  from demo_written obtain st'
    where st': "cluster_step ref_platform (deliver ref_platform) rev rev (\<lambda>_. demo_cfg) demo_registry demo_cluster None st'"
      "wr_create_args st' = [(''products'', demo_item)]" "writer_docs ref_vecs st' ''products'' ''s'' = {#(''d'', [4, 2])#}" by blast
  from cluster_consistent [OF ref_platform_ok deliver_delivers reorders_rev reorders_rev demo_cluster_start cluster_run.start st'(1)]
  show ?thesis using st' by (auto simp: demo_registry_simps)
qed

theorem cluster_join_search_exact_witness:
  "\<exists>st st' se se' (r :: (string, int) SearchResult list).
    cluster_run ref_platform (deliver ref_platform) rev rev (\<lambda>_. demo_cfg) demo_registry demo_cluster st \<and>
    writer_join ref_platform (deliver ref_platform) st = (Inr (), st') \<and> wr_queue st' = [] \<and> wr_world st' ''h:1'' = Some se \<and>
    searcher_ProcessSearchRequest ref_platform rev
      \<lparr>rq_vector = [0, 0], rq_k = 1, rq_index_id = ''products'', rq_shard_id = Some ''s''\<rparr> se = (Inr (map sr_id r), se') \<and>
    top_k sr_dist 1 (candidates ref_dist [0, 0] {(''d'', [4, 2])}) (set r)"
proof -
  from demo_written obtain st
    where st: "cluster_step ref_platform (deliver ref_platform) rev rev (\<lambda>_. demo_cfg) demo_registry demo_cluster None st"
      "wr_create_args st = [(''products'', demo_item)]" "writer_docs ref_vecs st ''products'' ''s'' = {#(''d'', [4, 2])#}" by blast
  have run: "cluster_run ref_platform (deliver ref_platform) rev rev (\<lambda>_. demo_cfg) demo_registry demo_cluster st"
    by (rule cluster_run.step [OF cluster_run.start st(1)])
  let ?rq = "\<lparr>rq_vector = [0, 0 :: int], rq_k = 1, rq_index_id = ''products'', rq_shard_id = Some ''s''\<rparr>"
  have one: "fst (snd demo_cfg) = 1" by (simp add: demo_cfg_def)
  have ids: "''products'' \<in> fst ` set (wr_create_args st)" "''s'' \<in> shards_of demo_registry ''products''"
    "''h:1'' \<in> hosts_of demo_registry ''products'' ''s''" by (simp_all add: st(2) demo_registry_simps)
  have rq: "rq_index_id ?rq = ''products''" "rq_shard_id ?rq = Some ''s''"
    "config_dim ref_platform demo_cfg \<le> length (rq_vector ?rq)" "0 < rq_k ?rq" "rq_k ?rq < 2 ^ 31" by (simp_all add: demo_dim)
  have exact: "faiss_exact (pf_faiss ref_platform) ref_vecs ref_dist" by (simp add: ref_faiss_exact)
  from cluster_join_search_exact [OF ref_platform_ok exact deliver_delivers reorders_rev reorders_rev demo_cluster_start run
      ids rq, of rev] obtain st' se se' r found
    where J: "writer_join ref_platform (deliver ref_platform) st = (Inr (), st')" "wr_queue st' = []" "wr_world st' ''h:1'' = Some se"
      "searcher_ProcessSearchRequest ref_platform rev ?rq se = (Inr (map sr_id r), se')"
      and F: "writer_docs ref_vecs st ''products'' ''s'' = found + unsealed ref_vecs st ''products'' ''s''"
        "size (unsealed ref_vecs st ''products'' ''s'') < fst (snd demo_cfg)"
      and T: "top_k sr_dist (nat (rq_k ?rq)) (candidates ref_dist (take (config_dim ref_platform demo_cfg) (rq_vector ?rq)) (set_mset found)) (set r)"
    by (elim exE conjE) (rule that; assumption)
  have "found = {#(''d'', [4, 2])#}" using F by (simp add: st(3) one)
  then have "top_k sr_dist 1 (candidates ref_dist [0, 0] {(''d'', [4, 2])}) (set r)" using T by (simp add: demo_dim)
  with J run show ?thesis by (intro exI conjI)
qed

end
