(* ===== verification/Vecodex_System.thy ===== *)
theory Vecodex_System
  imports Replication
begin

text \<open>
  The whole system as its users see it: documents go in through a \<open>WriterClient\<close>
  (\<open>app/src/WriterClient.cpp\<close>), queries go to the coordinator, which asks the searchers over gRPC. The
  transport is a parameter that calls the handlers of the addressed processes.
\<close>

section \<open>Searches over gRPC\<close>

text \<open>gRPC calls the handler of the addressed searcher and reports status 0 when the handler returns.\<close>

definition serves ::
  "('b, 'f::{linorder, zero}, 'j, 'e, 's, 'p, 'cf, 'gf) pf \<Rightarrow> 'b shard_index inner_order \<Rightarrow>
    ('f, ('b, 'e, 's, 'p, 'cf, 'gf) searchers) search_rpc \<Rightarrow> bool" where
  "serves pf itq rpc \<longleftrightarrow> (\<forall>host rq w se ids se'. w host = Some se \<longrightarrow>
     searcher_ProcessSearchRequest pf itq rq se = (Inr ids, se') \<longrightarrow> rpc host rq w = ((0, ids), w(host \<mapsto> se')))"

text \<open>The result of a search depends on the index of the shard only, and the search does not change it.\<close>

lemma searcher_search_again:
  fixes pf :: "('b, 'f::{linorder, zero}, 'j, 'e, 's, 'p, 'cf, 'gf) pf"
  assumes "shard_at (se_shards se) (rq_index_id rq) s = Some ix" and "rq_shard_id rq = Some s"
    and "metrics_ok (pf_prom pf) searcher_counters {} (se_prom se)"
    and "index_search (platform_vtable pf) (pf_result_order pf) ix (rq_vector rq) (rq_k rq) = Inr ids"
  shows "\<exists>se'. searcher_ProcessSearchRequest pf itq rq se = (Inr ids, se') \<and>
    shard_at (se_shards se') (rq_index_id rq) s = Some ix \<and> metrics_ok (pf_prom pf) searcher_counters {} (se_prom se')"
proof -
  from searcher_search_counted [OF assms(3)] obtain p
    where p: "searcher_prom (IncrementCounter (pf_prom pf) ''requests_count'' 1 []) se = (Inr (), se\<lparr>se_prom := p\<rparr>)"
      "metrics_ok (pf_prom pf) searcher_counters {} p" by blast
  have "shard_at (touch_shard (rq_index_id rq) s (se_shards se)) (rq_index_id rq) s = Some ix"
    using assms(1) by simp
  with p assms show ?thesis
    by (simp add: searcher_ProcessSearchRequest_def Let_def proc_defs searcher_shard_at)
qed

definition exact_answer ::
  "('b, 'f::{linorder, zero}, 'j, 'e, 's, 'p, 'cf, 'gf) pf \<Rightarrow> ('f list \<Rightarrow> 'f list \<Rightarrow> 'f) \<Rightarrow> index_config \<Rightarrow> 'f SearchRequest \<Rightarrow>
    (string, 'f) document multiset \<Rightarrow> (string, 'f) SearchResult list \<Rightarrow> bool" where
  "exact_answer pf dst cf rq found r \<longleftrightarrow> sorted r \<and> distinct (map sr_id r) \<and>
     top_k sr_dist (nat (rq_k rq)) (candidates dst (take (config_dim pf cf) (rq_vector rq)) (set_mset found)) (set r)"

text \<open>Searchers that hold the same documents all give an exact answer, however often they are asked.\<close>

lemma searchers_answering:
  fixes pf :: "('b, 'f::{linorder, zero}, 'j, 'e, 's, 'p, 'cf, 'gf) pf"
  assumes exact: "faiss_exact (pf_faiss pf) vecs dst" and order: "reorders (pf_result_order pf)" and rpc: "serves pf itq rpc"
    and hold: "\<forall>h \<in> H. searcher_holds pf vecs dst cf w h i s found" and i: "rq_index_id rq = i"
    and rq: "rq_shard_id rq = Some s" "config_dim pf cf \<le> length (rq_vector rq)" "0 < rq_k rq" "rq_k rq < 2 ^ 31"
  shows "\<exists>I r. I w \<and> (\<forall>h \<in> H. exact_answer pf dst cf rq found (r h)) \<and> answering rpc rq H (\<lambda>h. (0, map sr_id (r h))) I"
proof -
  let ?search = "\<lambda>ix. index_search (platform_vtable pf) (pf_result_order pf) ix (rq_vector rq) (rq_k rq)"
  let ?I = "\<lambda>ix (w :: ('b, 'e, 's, 'p, 'cf, 'gf) searchers). \<forall>h \<in> H. \<exists>se. w h = Some se \<and> shard_at (se_shards se) (rq_index_id rq) s = Some (ix h) \<and>
    metrics_ok (pf_prom pf) searcher_counters {} (se_prom se)"
  have "\<forall>h \<in> H. \<exists>ix r se. w h = Some se \<and> shard_at (se_shards se) (rq_index_id rq) s = Some ix \<and>
      metrics_ok (pf_prom pf) searcher_counters {} (se_prom se) \<and> ?search ix = Inr (map sr_id r) \<and> exact_answer pf dst cf rq found r"
  proof
    fix h assume "h \<in> H"
    with hold obtain se ix where se: "w h = Some se" "metrics_ok (pf_prom pf) searcher_counters {} (se_prom se)"
      "shard_at (se_shards se) (rq_index_id rq) s = Some ix" "searchable pf vecs dst ix"
      "faiss_index_dim (pf_faiss pf) ix = config_dim pf cf" "faiss_index_docs vecs ix = found"
      unfolding searcher_holds_def shard_ok_def i by blast
    from platform_search_exact [OF exact order se(4) _ rq(3,4)] rq(2) se(5,6) obtain r
      where "?search ix = Inr (map sr_id r)" "exact_answer pf dst cf rq found r" by (auto simp: exact_answer_def)
    with se show "\<exists>ix r se. w h = Some se \<and> shard_at (se_shards se) (rq_index_id rq) s = Some ix \<and>
      metrics_ok (pf_prom pf) searcher_counters {} (se_prom se) \<and> ?search ix = Inr (map sr_id r) \<and> exact_answer pf dst cf rq found r"
      by (intro exI [of _ ix] exI [of _ r] exI [of _ se]) simp
  qed
  then obtain ix r where I: "?I ix w" and S: "\<forall>h \<in> H. ?search (ix h) = Inr (map sr_id (r h)) \<and> exact_answer pf dst cf rq found (r h)"
    by metis
  have "answering rpc rq H (\<lambda>h. (0, map sr_id (r h))) (?I ix)"
    unfolding answering_def
  proof (intro ballI allI impI)
    fix a w assume a: "a \<in> H" and w: "?I ix w"
    then obtain se where se: "w a = Some se" "shard_at (se_shards se) (rq_index_id rq) s = Some (ix a)"
      "metrics_ok (pf_prom pf) searcher_counters {} (se_prom se)" by blast
    from searcher_search_again [where itq = itq, OF se(2) rq(1) se(3)] S a obtain se'
      where se': "searcher_ProcessSearchRequest pf itq rq se = (Inr (map sr_id (r a)), se')"
        "shard_at (se_shards se') (rq_index_id rq) s = Some (ix a)" "metrics_ok (pf_prom pf) searcher_counters {} (se_prom se')" by blast
    have "rpc a rq w = ((0, map sr_id (r a)), w(a \<mapsto> se'))" using rpc se(1) se'(1) unfolding serves_def by blast
    moreover have "?I ix (w(a \<mapsto> se'))" using w se'(2,3) by simp
    ultimately show "\<exists>w'. rpc a rq w = ((0, map sr_id (r a)), w') \<and> ?I ix w'" by (intro exI conjI)
  qed
  moreover have "\<forall>h \<in> H. exact_answer pf dst cf rq found (r h)" using S by simp
  ultimately show ?thesis using I by (intro exI [of _ "?I ix"] exI [of _ r] conjI)
qed

section \<open>Merging exact answers\<close>

lemma exact_answer_ids:
  assumes "exact_answer pf dst cf rq found r"
  shows "sr_id ` set r \<subseteq> fst ` set_mset found" and "length r = min (nat (rq_k rq)) (card (fst ` set_mset found))"
proof -
  let ?C = "candidates dst (take (config_dim pf cf) (rq_vector rq)) (set_mset found)"
  have C: "finite ?C" "sr_id ` ?C = fst ` set_mset found" by (simp_all add: finite_candidates sr_id_candidates)
  have r: "distinct (map sr_id r)" "set r \<subseteq> ?C" "card (set r) = min (nat (rq_k rq)) (card ?C)"
    using assms by (simp_all add: exact_answer_def top_k_def)
  show sub: "sr_id ` set r \<subseteq> fst ` set_mset found" unfolding C(2) [symmetric] using r(2) by (rule image_mono)
  have len: "length r = card (set r)" "card (sr_id ` set r) = card (set r)"
    using r(1) by (simp_all add: distinct_map distinct_card card_image)
  show "length r = min (nat (rq_k rq)) (card (fst ` set_mset found))"
  proof (cases "card ?C \<le> nat (rq_k rq)")
    case True
    with r(3) have "set r = ?C" by (intro card_subset_eq [OF C(1) r(2)]) simp
    with len C(2) True r(3) show ?thesis by simp
  next
    case False
    have "card (sr_id ` set r) \<le> card (fst ` set_mset found)" using sub by (intro card_mono) simp_all
    with False r(3) len show ?thesis by simp
  qed
qed

lemma merge_exact_answers:
  assumes "sorts_by_score srt" and "reorders it" and hs: "hs \<noteq> []" and exact: "\<forall>h \<in> set hs. exact_answer pf dst cf rq found (r h)"
  defines "ids \<equiv> MergeSearcherAnswers it srt (map (\<lambda>h. map sr_id (r h)) hs) (nat (rq_k rq))"
  shows "distinct ids" and "set ids \<subseteq> fst ` set_mset found" and "length ids = min (nat (rq_k rq)) (card (fst ` set_mset found))"
proof -
  let ?rs = "map (\<lambda>h. map sr_id (r h)) hs" and ?F = "fst ` set_mset found"
  note M = merged_answer [OF assms(1,2), where rs = ?rs and k = "nat (rq_k rq)", folded ids_def]
  show "distinct ids" by (rule M(1))
  have ids: "set (map sr_id (r h)) \<subseteq> ?F" if "h \<in> set hs" for h using exact_answer_ids(1) [OF bspec [OF exact that]] by simp
  then have sub: "all_ids ?rs \<subseteq> ?F" unfolding all_ids_def by (simp add: UN_subset_iff)
  with M(2) show "set ids \<subseteq> ?F" by blast
  obtain h where h: "h \<in> set hs" using hs by (cases hs) auto
  note e = bspec [OF exact h]
  have "distinct (map sr_id (r h))" using e by (simp add: exact_answer_def)
  from distinct_card [OF this] have "card (set (map sr_id (r h))) = min (nat (rq_k rq)) (card ?F)"
    using exact_answer_ids(2) [OF e] by simp
  moreover have "set (map sr_id (r h)) \<subseteq> all_ids ?rs" using h by (auto simp: all_ids_def)
  then have "card (set (map sr_id (r h))) \<le> card (all_ids ?rs)"
    by (rule card_mono [OF finite_subset [OF sub], rotated]) simp
  moreover have "card (all_ids ?rs) \<le> card ?F" by (rule card_mono [OF _ sub]) simp
  ultimately show "length ids = min (nat (rq_k rq)) (card ?F)" using M(3) by linarith
qed

section \<open>From the writer to the user\<close>

text \<open>
  C2. Queries find what was sealed. Flat indexes do not merge, the searchers of each shard are registered
  from the start, and the requests so far added documents with new identifiers or were refused; none was
  for deletion. Whatever the runner has done by then, the shutdown of the writer ends without failure. From
  then on a coordinator that has no other shard of the index in its cache answers a query for a shard with
  as many different documents of the shard as asked for, or with all if there are fewer, not counting the
  fewer than \<open>threshold\<close> documents of the segment that the writer is still filling. If one searcher serves
  the shard, the answer is exact: the nearest documents, nearest first.
\<close>

theorem system_query_exact:
  fixes pf :: "('b, 'f::{linorder, zero}, 'j, 'e, 's, 'p, 'cf, 'gf) pf"
  assumes "platform_ok pf vecs dst buckets objects" and "faiss_exact (pf_faiss pf) vecs dst" and "delivers pf rpc" and "serves pf itq srpc"
    and "reorders ita" and "reorders iti" and "reorders itc" and "reorders itm" and "sorts_by_score srt"
    and "cluster_start pf vecs dst buckets cfg kv R st0" and "cluster_run pf rpc ita iti cfg R st0 st"
    and "i \<in> fst ` set (wr_create_args st)" and "s \<in> shards_of R i" and "hosts_of R i s \<noteq> {}"
    and "rq_index_id rq = i" and "rq_shard_id rq = Some s" and "config_dim pf (cfg i) \<le> length (rq_vector rq)"
    and "0 < rq_k rq" and "rq_k rq < 2 ^ 31"
    and "coordinator_ok (pf_etcd pf) kv (pf_prom pf) co R" and "\<forall>u. u \<noteq> s \<longrightarrow> nested_get i u [] (searchers_map co) = []"
  shows "\<exists>st' found. writer_join pf rpc st = (Inr (), st') \<and> writer_docs vecs st i s = found + unsealed vecs st i s \<and>
    size (unsealed vecs st i s) < fst (snd (cfg i)) \<and>
    (\<exists>ids co'. coordinator_ProcessSearchRequest (pf_etcd pf) (pf_prom pf) srpc itc itm srt rq (co\<lparr>co_world := wr_world st'\<rparr>) = (Inr ids, co') \<and>
      distinct ids \<and> set ids \<subseteq> fst ` set_mset found \<and> length ids = min (nat (rq_k rq)) (card (fst ` set_mset found)) \<and>
      (is_singleton (hosts_of R i s) \<longrightarrow> (\<exists>r. ids = map sr_id r \<and> sorted r \<and>
        top_k sr_dist (nat (rq_k rq)) (candidates dst (take (config_dim pf (cfg i)) (rq_vector rq)) (set_mset found)) (set r))))"
proof -
  let ?H = "hosts_of R i s"
  have etcd: "etcd_holds (pf_etcd pf) kv (co_etcd co) R" using assms(20) by (simp add: coordinator_ok_def)
  have fin: "finite ?H" by (rule etcd.finite_hosts_of [OF etcd])
  have slash: "no_slash i" "no_slash s" using etcd_holds_no_slash [OF etcd assms(13)] by simp_all
  from cluster_joined [OF assms(1,3,5,6,10-13)] obtain st' found
    where join: "writer_join pf rpc st = (Inr (), st')" "writer_docs vecs st i s = found + unsealed vecs st i s"
        "size (unsealed vecs st i s) < fst (snd (cfg i))"
      and hold: "\<forall>h \<in> ?H. searcher_holds pf vecs dst (cfg i) (wr_world st') h i s found"
    by (elim exE conjE) (rule that; assumption)
  have "reorders (pf_result_order pf)" using assms(1) by (simp add: platform_ok_def)
  from searchers_answering [OF assms(2) this assms(4) hold assms(15-19)] obtain I r
    where I: "I (wr_world st')" and r: "\<forall>h \<in> ?H. exact_answer pf dst (cfg i) rq found (r h)"
      and ans: "answering srpc rq ?H (\<lambda>h. (0, map sr_id (r h))) I"
    by (elim exE conjE) (rule that; assumption)
  let ?co = "co\<lparr>co_world := wr_world st'\<rparr>" and ?hs = "sorted_list_of_set ?H"
  have clients: "asked_clients rq R ?co = (\<lambda>u. if u = s then map CreateSearcherClient ?hs else [])"
  proof
    fix u
    show "asked_clients rq R ?co u = (if u = s then map CreateSearcherClient ?hs else [])"
      using assms(21) by (cases "u = s") (simp_all add: asked_clients_def refreshed_shards_def assms(15,16))
  qed
  have co: "coordinator_ok (pf_etcd pf) kv (pf_prom pf) ?co R" using assms(20) by (simp add: coordinator_ok_def)
  have hs: "?hs \<noteq> []" "set ?hs = ?H" using fin assms(14) by simp_all
  have ids: "no_slash (rq_index_id rq)" "\<forall>s. rq_shard_id rq = Some s \<longrightarrow> no_slash s" using slash by (simp_all add: assms(15,16))
  have world: "I (co_world ?co)" using I by simp
  have addr: "\<forall>u. cl_address ` set (asked_clients rq R ?co u) \<subseteq> ?H"
  proof
    fix u
    show "cl_address ` set (asked_clients rq R ?co u) \<subseteq> ?H"
      unfolding clients using hs(2) by (cases "u = s") (simp_all add: image_image CreateSearcherClient_def)
  qed
  from coordinator_request [OF co ids assms(7) ans world addr, of itm srt, unfolded Let_def] obtain co' shards where
    run: "coordinator_ProcessSearchRequest (pf_etcd pf) (pf_prom pf) srpc itc itm srt rq ?co =
      (Inr (MergeSearcherAnswers itm srt (map (\<lambda>c. snd (0 :: nat, map sr_id (r (cl_address c))))
        (filter (\<lambda>c. fst (0 :: nat, map sr_id (r (cl_address c))) = 0) (concat (map (asked_clients rq R ?co) shards))))
        (to_size_t (rq_k rq))), co')"
      and shards: "distinct shards" "\<forall>s. asked_clients rq R ?co s \<noteq> [] \<longrightarrow> s \<in> set shards"
    by (elim exE conjE) (rule that; assumption)
  have s: "s \<in> set shards" using shards(2) hs(1) by (simp add: clients)
  have "concat (map (asked_clients rq R ?co) shards) = map CreateSearcherClient ?hs"
    using concat_map_single [OF shards(1) s, of "asked_clients rq R ?co"] by (simp add: clients)
  then have run': "coordinator_ProcessSearchRequest (pf_etcd pf) (pf_prom pf) srpc itc itm srt rq ?co =
      (Inr (MergeSearcherAnswers itm srt (map (\<lambda>h. map sr_id (r h)) ?hs) (nat (rq_k rq))), co')"
    using run assms(18,19) by (simp add: CreateSearcherClient_def comp_def)
  let ?ids = "MergeSearcherAnswers itm srt (map (\<lambda>h. map sr_id (r h)) ?hs) (nat (rq_k rq))"
  have "\<forall>h \<in> set ?hs. exact_answer pf dst (cfg i) rq found (r h)" unfolding hs(2) by (rule r)
  note M = merge_exact_answers [OF assms(9,8) hs(1) this]
  have one: "\<exists>q. ?ids = map sr_id q \<and> sorted q \<and>
      top_k sr_dist (nat (rq_k rq)) (candidates dst (take (config_dim pf (cfg i)) (rq_vector rq)) (set_mset found)) (set q)" if "is_singleton ?H"
  proof -
    from that obtain h where h: "?H = {h}" by (auto simp: is_singleton_def)
    then have e: "exact_answer pf dst (cfg i) rq found (r h)" using r by simp
    have "length (r h) \<le> nat (rq_k rq)" using exact_answer_ids(2) [OF e] by simp
    moreover from this have "length (r h) \<le> 2 ^ 50" using assms(18,19) by simp
    moreover have "distinct (map sr_id (r h))" using e by (simp add: exact_answer_def)
    ultimately have "MergeSearcherAnswers itm srt [map sr_id (r h)] (nat (rq_k rq)) = map sr_id (r h)"
      using merge_single_answer [OF assms(9,8), of "map sr_id (r h)" "nat (rq_k rq)"] by simp
    with e show ?thesis by (intro exI [of _ "r h"]) (simp add: h exact_answer_def)
  qed
  show ?thesis
    using join run' M one
    by - (rule exI [of _ st'], rule exI [of _ found], intro conjI exI [of _ ?ids] exI [of _ co'] impI; blast)
qed

text \<open>A transport that calls the handlers of the searchers, and a coordinator that was just started.\<close>

definition serve ::
  "('b, 'f::{linorder, zero}, 'j, 'e, 's, 'p, 'cf, 'gf) pf \<Rightarrow> 'b shard_index inner_order \<Rightarrow>
    ('f, ('b, 'e, 's, 'p, 'cf, 'gf) searchers) search_rpc" where
  "serve pf itq host rq w = (case w host of
     None \<Rightarrow> ((14, []), w)
   | Some se \<Rightarrow> (case searcher_ProcessSearchRequest pf itq rq se of
         (Inr ids, se') \<Rightarrow> ((0, ids), w(host \<mapsto> se'))
       | (Inl _, se') \<Rightarrow> ((2, []), w(host \<mapsto> se'))))"

lemma serve_serves: "serves pf itq (serve pf itq)"
  by (simp add: serves_def serve_def)

definition new_coordinator :: "(string \<times> string) list \<Rightarrow> 'w \<Rightarrow> ((string \<times> string) list, ref_registry, string, string, 'w) CoordinatorImpl" where
  "new_coordinator e w = \<lparr>searchers_map = [], searchers_stats = [], co_etcd = e, co_prom = ref_exposer, co_world = w, co_clock = int\<rparr>"

lemma new_coordinator_ok: "coordinator_ok ref_etcd map_of ref_prom (new_coordinator demo_etcd w) demo_registry"
  by (simp add: coordinator_ok_def new_coordinator_def ref_exposer_ok cache_ok_def demo_etcd_holds)

theorem system_query_exact_witness:
  "\<exists>st st' co'. cluster_run ref_platform (deliver ref_platform) rev rev (\<lambda>_. demo_cfg) demo_registry demo_cluster st \<and>
    writer_join ref_platform (deliver ref_platform) st = (Inr (), st') \<and>
    coordinator_ProcessSearchRequest ref_etcd ref_prom (serve ref_platform rev) rev rev demo_sort
      \<lparr>rq_vector = [0, 0], rq_k = 1, rq_index_id = ''products'', rq_shard_id = Some ''s''\<rparr> (new_coordinator demo_etcd (wr_world st')) =
      (Inr [''d''], co')"
proof -
  from demo_written obtain st
    where st: "cluster_step ref_platform (deliver ref_platform) rev rev (\<lambda>_. demo_cfg) demo_registry demo_cluster None st"
      "wr_create_args st = [(''products'', demo_item)]" "writer_docs ref_vecs st ''products'' ''s'' = {#(''d'', [4, 2])#}" by blast
  have run: "cluster_run ref_platform (deliver ref_platform) rev rev (\<lambda>_. demo_cfg) demo_registry demo_cluster st"
    by (rule cluster_run.step [OF cluster_run.start st(1)])
  let ?rq = "\<lparr>rq_vector = [0, 0 :: int], rq_k = 1, rq_index_id = ''products'', rq_shard_id = Some ''s''\<rparr>"
  let ?co = "new_coordinator demo_etcd Map.empty"
  have ids: "''products'' \<in> fst ` set (wr_create_args st)" "''s'' \<in> shards_of demo_registry ''products''"
    "hosts_of demo_registry ''products'' ''s'' \<noteq> {}" by (simp_all add: st(2) demo_registry_simps)
  have rq: "rq_index_id ?rq = ''products''" "rq_shard_id ?rq = Some ''s''"
    "config_dim ref_platform demo_cfg \<le> length (rq_vector ?rq)" "0 < rq_k ?rq" "rq_k ?rq < 2 ^ 31" by (simp_all add: demo_dim)
  have exact: "faiss_exact (pf_faiss ref_platform) ref_vecs ref_dist" by (simp add: ref_faiss_exact)
  have co: "coordinator_ok (pf_etcd ref_platform) map_of (pf_prom ref_platform) ?co demo_registry"
    "\<forall>u. u \<noteq> ''s'' \<longrightarrow> nested_get ''products'' u [] (searchers_map ?co) = []"
    using new_coordinator_ok by (simp_all add: new_coordinator_def nested_get_def)
  from system_query_exact [OF ref_platform_ok exact deliver_delivers serve_serves [of _ rev] reorders_rev reorders_rev reorders_rev reorders_rev
      demo_sort_ok demo_cluster_start run ids rq co] obtain st' found qids co'
    where J: "writer_join ref_platform (deliver ref_platform) st = (Inr (), st')"
      and F: "writer_docs ref_vecs st ''products'' ''s'' = found + unsealed ref_vecs st ''products'' ''s''"
        "size (unsealed ref_vecs st ''products'' ''s'') < fst (snd demo_cfg)"
      and Q: "coordinator_ProcessSearchRequest (pf_etcd ref_platform) (pf_prom ref_platform) (serve ref_platform rev) rev rev demo_sort ?rq
        (?co\<lparr>co_world := wr_world st'\<rparr>) = (Inr qids, co')"
      and S: "set qids \<subseteq> fst ` set_mset found" "length qids = min (nat (rq_k ?rq)) (card (fst ` set_mset found))"
    by (elim exE conjE) (rule that; assumption)
  have found: "found = {#(''d'', [4, 2])#}" using F by (simp add: st(3) demo_cfg_def)
  then have "length qids = 1" "set qids \<subseteq> {''d''}" using S by simp_all
  then have "qids = [''d'']" by (cases qids) auto
  moreover have "?co\<lparr>co_world := wr_world st'\<rparr> = new_coordinator demo_etcd (wr_world st')" by (simp add: new_coordinator_def)
  ultimately have "coordinator_ProcessSearchRequest ref_etcd ref_prom (serve ref_platform rev) rev rev demo_sort ?rq
      (new_coordinator demo_etcd (wr_world st')) = (Inr [''d''], co')" using Q by simp
  with run J show ?thesis by (intro exI conjI)
qed

section \<open>Writes over gRPC\<close>

type_synonym ('f, 'w) write_rpc = "'f Document \<Rightarrow> 'w \<Rightarrow> nat \<times> 'w"

text \<open>\<open>WriterClient::writeDocument\<close>; the response message has no fields.\<close>

definition writeDocument :: "('f, 'w) write_rpc \<Rightarrow> 'f Document \<Rightarrow> ('w, unit) proc" where
  "writeDocument rpc request w =
     (case rpc request w of (code, w) \<Rightarrow>
        if code \<noteq> 0
        then throwP (RuntimeError (''Error while processing request. gRPC status code: '' @ to_string_size code)) w
        else returnP () w)"

text \<open>gRPC calls the handler of the writer and reports the code of the status it returns.\<close>

definition status_code :: "grpc_status \<Rightarrow> nat" where
  "status_code status = (case status of StatusOK \<Rightarrow> 0 | INVALID_ARGUMENT _ \<Rightarrow> 3)"

definition accepts ::
  "('b, 'f::{linorder, zero}, 'j, 'e, 's, 'p, 'cf, 'gf) pf \<Rightarrow> ((string \<times> 'j) list \<Rightarrow> (string \<times> 'j) list) \<Rightarrow> nat inner_order \<Rightarrow>
    ('f, ('b, 'j, 'e, 's, 'p, 'cf, 'gf, 'w) WriterImpl) write_rpc \<Rightarrow> bool" where
  "accepts pf ita iti rpc \<longleftrightarrow> (\<forall>data st status st'. ProcessWriteRequest pf ita iti data st = (Inr status, st') \<longrightarrow>
     rpc data st = (status_code status, st'))"

lemma writeDocument_accepts:
  assumes "accepts pf ita iti rpc" and "ProcessWriteRequest pf ita iti data st = (Inr status, st')"
  shows "writeDocument rpc data st =
    (case status of StatusOK \<Rightarrow> Inr () | INVALID_ARGUMENT _ \<Rightarrow> Inl (RuntimeError ''Error while processing request. gRPC status code: 3''), st')"
proof -
  have "rpc data st = (status_code status, st')" using assms unfolding accepts_def by blast
  moreover have "to_string_size 3 = ''3''" by code_simp
  ultimately show ?thesis by (cases status) (simp_all add: writeDocument_def status_code_def throwP_def returnP_def)
qed

text \<open>A request of a client is a step of the cluster.\<close>

lemma client_step:
  assumes "cluster_run pf rpc ita iti cfg R st0 st" and "acceptable pf cfg R st data \<or> refused R st data"
    and "ProcessWriteRequest pf ita iti data st = (r, st')" and "ids_fit st'"
  shows "cluster_run pf rpc ita iti cfg R st0 st'"
  by (rule cluster_run.step [OF assms(1) cluster_step.request [OF assms(2-4)]])

text \<open>
  C10. What a client is told is true. As long as only such requests were made before: a new document for
  a configured index with listed shards is accepted and is then one more document of one shard of the
  index; a request that names no index, or none that is configured and has shards, is an error at the
  client and adds nothing. Either way the cluster goes on running.
\<close>

theorem client_writes_document:
  fixes pf :: "('b, 'f::{linorder, zero}, 'j, 'e, 's, 'p, 'cf, 'gf) pf"
  assumes "platform_ok pf vecs dst buckets objects" and "delivers pf rpc" and "accepts pf ita iti wrpc" and "reorders ita" and "reorders iti"
    and "cluster_start pf vecs dst buckets cfg kv R st0" and "cluster_run pf rpc ita iti cfg R st0 st"
    and "acceptable pf cfg R st data \<or> refused R st data"
  shows "\<exists>r st'. writeDocument wrpc data st = (r, st') \<and> (ids_fit st' \<longrightarrow> cluster_run pf rpc ita iti cfg R st0 st') \<and>
    (if refused R st data
     then r = Inl (RuntimeError ''Error while processing request. gRPC status code: 3'') \<and>
       (\<forall>j. \<forall>t \<in> shards_of R j. writer_docs vecs st' j t = writer_docs vecs st j t)
     else r = Inr () \<and> (\<exists>i s. map_of (doc_attributes data) ''index-id'' = Some i \<and> s \<in> shards_of R i \<and>
       (\<forall>j. \<forall>t \<in> shards_of R j. writer_docs vecs st' j t = writer_docs vecs st j t +
         (if (j, t) = (i, s) then {#(doc_id data, take (config_dim pf (cfg i)) (doc_vector data))#} else {#}))))"
proof -
  have ok: "cluster_ok pf vecs dst buckets cfg kv R st" using cluster_run_ok [OF assms(1,2,4-7)] by simp
  note W = cluster_okD(1-3) [OF ok]
  from cluster_okD(4) [OF ok] obtain v where v: "writer_metrics (pf_prom pf) (wr_prom st) v" by blast
  note run = client_step [OF assms(7,8)] and client = writeDocument_accepts [OF assms(3)]
  show ?thesis
  proof (cases "refused R st data")
    case True
    from refused_request_ok [OF assms(1) W(1,2) v assms(4,5) True] obtain m st'
      where st': "ProcessWriteRequest pf ita iti data st = (Inr (INVALID_ARGUMENT m), st')"
        "\<forall>j t. writer_docs vecs st' j t = (if t \<in> shards_of R j then writer_docs vecs st j t else {#})" by blast
    from client [OF st'(1)] run [OF st'(1)] st'(2) True show ?thesis by (intro exI [of _ st'] exI) auto
  next
    case False
    with assms(8) obtain i where a: "map_of (doc_attributes data) ''index-id'' = Some i" "map_of (doc_attributes data) ''delete'' = None"
      "i \<in> fst ` set (wr_create_args st)" "shards_of R i \<noteq> {}" "config_dim pf (cfg i) \<le> length (doc_vector data)"
      "\<forall>s. doc_id data \<notin> writer_known st i s" unfolding acceptable_def by blast
    from write_request_documents [OF assms(1) W v assms(4,5) a] obtain st' s
      where st': "ProcessWriteRequest pf ita iti data st = (Inr StatusOK, st')" and s: "s \<in> shards_of R i"
        and docs: "\<forall>j t. writer_docs vecs st' j t = (if t \<in> shards_of R j then writer_docs vecs st j t else {#}) +
          (if (j, t) = (i, s) then {#(doc_id data, take (config_dim pf (cfg i)) (doc_vector data))#} else {#})"
      by (elim exE conjE) (rule that; assumption)
    from client [OF st'] have "writeDocument wrpc data st = (Inr (), st')" by simp
    moreover from docs have "\<forall>j. \<forall>t \<in> shards_of R j. writer_docs vecs st' j t = writer_docs vecs st j t +
        (if (j, t) = (i, s) then {#(doc_id data, take (config_dim pf (cfg i)) (doc_vector data))#} else {#})" by simp
    ultimately show ?thesis using run [OF st'] False a(1) s
      by (intro exI [of _ "Inr ()"] exI [of _ st']) (simp only: if_False simp_thms, blast)
  qed
qed

text \<open>A transport that calls the handler of the writer.\<close>

definition accept ::
  "('b, 'f::{linorder, zero}, 'j, 'e, 's, 'p, 'cf, 'gf) pf \<Rightarrow> ((string \<times> 'j) list \<Rightarrow> (string \<times> 'j) list) \<Rightarrow> nat inner_order \<Rightarrow>
    ('f, ('b, 'j, 'e, 's, 'p, 'cf, 'gf, 'w) WriterImpl) write_rpc" where
  "accept pf ita iti data st = (case ProcessWriteRequest pf ita iti data st of
     (Inr status, st') \<Rightarrow> (status_code status, st')
   | (Inl _, st') \<Rightarrow> (2, st'))"

lemma accept_accepts: "accepts pf ita iti (accept pf ita iti)"
  by (simp add: accepts_def accept_def)

theorem client_writes_document_witness:
  "(\<exists>st'. writeDocument (accept ref_platform rev rev) (demo_document ''products'' []) demo_cluster = (Inr (), st') \<and>
      writer_docs ref_vecs st' ''products'' ''s'' = add_mset (''d'', [4, 2]) (writer_docs ref_vecs demo_cluster ''products'' ''s'')) \<and>
   (\<exists>st'. writeDocument (accept ref_platform rev rev) (demo_document ''other'' []) demo_cluster =
      (Inl (RuntimeError ''Error while processing request. gRPC status code: 3''), st'))"
proof -
  have acc: "acceptable ref_platform (\<lambda>_. demo_cfg) demo_registry demo_cluster (demo_document ''products'' [])"
    by (simp add: acceptable_def demo_document_def demo_registry_simps demo_dim string_max_size_def)
  have ref: "refused demo_registry demo_cluster (demo_document ''other'' [])"
    "\<not> refused demo_registry demo_cluster (demo_document ''products'' [])"
    by (simp_all add: refused_def demo_document_def demo_registry_simps)
  note C = client_writes_document [OF ref_platform_ok deliver_delivers accept_accepts [of _ rev rev] reorders_rev reorders_rev demo_cluster_start
    cluster_run.start, unfolded if_bool_eq_conj]
  from C [OF disjI1 [OF acc]] ref(2) have "\<exists>st'. writeDocument (accept ref_platform rev rev) (demo_document ''products'' []) demo_cluster = (Inr (), st') \<and>
      writer_docs ref_vecs st' ''products'' ''s'' = add_mset (''d'', [4, 2]) (writer_docs ref_vecs demo_cluster ''products'' ''s'')"
    by (auto simp: demo_document_def demo_registry_simps demo_dim)
  moreover from C [OF disjI2 [OF ref(1)]] ref(1) have "\<exists>st'. writeDocument (accept ref_platform rev rev) (demo_document ''other'' []) demo_cluster =
      (Inl (RuntimeError ''Error while processing request. gRPC status code: 3''), st')" by blast
  ultimately show ?thesis by blast
qed

end
