(* ===== verification/Shared_Lock.thy ===== *)
theory Shared_Lock
  imports Vecodex_Prelude
begin

text \<open>
  Objects whose methods run in several threads under a \<open>std::shared_mutex\<close>: \<open>Index\<close> with
  \<open>segments_m_\<close> and \<open>Segment\<close> with the lock of \<open>ISegment\<close> (\<open>index/include/ISegment.h\<close>). A call first
  waits for the mutex, exclusively or shared, then does its work in several steps, between which other
  threads take theirs, and releases the mutex when it returns. The locale has the laws by which an
  object describes its methods, and what follows for every interleaving.
\<close>

section \<open>The mutex\<close>

record shared_mutex =
  sm_writer :: "nat option"
  sm_readers :: "nat set"

text \<open>\<open>lock\<close> and \<open>lock_shared\<close> wait (None) until they get the mutex.\<close>

definition writerLock :: "nat \<Rightarrow> shared_mutex \<Rightarrow> shared_mutex option" where
  "writerLock t m = (if sm_writer m = None \<and> sm_readers m = {} then Some (m\<lparr>sm_writer := Some t\<rparr>) else None)"

definition writerUnlock :: "shared_mutex \<Rightarrow> shared_mutex" where
  "writerUnlock m = m\<lparr>sm_writer := None\<rparr>"

definition readerLock :: "nat \<Rightarrow> shared_mutex \<Rightarrow> shared_mutex option" where
  "readerLock t m = (if sm_writer m = None then Some (m\<lparr>sm_readers := insert t (sm_readers m)\<rparr>) else None)"

definition readerUnlock :: "nat \<Rightarrow> shared_mutex \<Rightarrow> shared_mutex" where
  "readerUnlock t m = m\<lparr>sm_readers := sm_readers m - {t}\<rparr>"

text \<open>The guards \<open>std::lock_guard\<close> and \<open>std::shared_lock\<close>, made at the start of a method and destroyed at its end.\<close>

definition aquire :: "bool \<Rightarrow> nat \<Rightarrow> shared_mutex \<Rightarrow> shared_mutex option" where
  "aquire excl t m = (if excl then writerLock t m else readerLock t m)"

definition release :: "bool \<Rightarrow> nat \<Rightarrow> shared_mutex \<Rightarrow> shared_mutex" where
  "release excl t m = (if excl then writerUnlock m else readerUnlock t m)"

lemmas mutex_defs = aquire_def release_def writerLock_def writerUnlock_def readerLock_def readerUnlock_def

section \<open>Threads\<close>

datatype ('c, 'p) thread_state = Idle | Waiting 'c | Running 'c 'p

text \<open>
  \<open>ls_log\<close> records the calls in the order in which they return, with their results. A failure ends the
  run: the state of the object is then whatever the failing method has left.
\<close>

record ('s, 'c, 'p, 'r) lock_system =
  ls_state :: 's
  ls_mutex :: shared_mutex
  ls_threads :: "nat \<Rightarrow> ('c, 'p) thread_state"
  ls_log :: "('c \<times> 'r) list"
  ls_failed :: "cxx_error option"

definition lock_system_new :: "'s \<Rightarrow> ('s, 'c, 'p, 'r) lock_system" where
  "lock_system_new s = \<lparr>ls_state = s, ls_mutex = \<lparr>sm_writer = None, sm_readers = {}\<rparr>, ls_threads = (\<lambda>_. Idle),
     ls_log = [], ls_failed = None\<rparr>"

text \<open>
  The steps of the threads. \<open>excl\<close> tells which calls lock exclusively, \<open>begins\<close> is the part of a method
  up to its first loop and \<open>moves\<close> a round of a loop or what comes after it, which either goes on (Inl) or
  returns (Inr).
\<close>

inductive rw_advance ::
  "('c \<Rightarrow> bool) \<Rightarrow> ('c \<Rightarrow> 's \<Rightarrow> 'p outcome) \<Rightarrow> ('p \<Rightarrow> 's \<Rightarrow> (('p + 'r) \<times> 's) outcome) \<Rightarrow>
    ('s, 'c, 'p, 'r) lock_system \<Rightarrow> ('s, 'c, 'p, 'r) lock_system \<Rightarrow> bool"
  for excl begins moves where
  enter: "\<lbrakk>ls_failed S = None; ls_threads S t = Waiting c; aquire (excl c) t (ls_mutex S) = Some m; begins c (ls_state S) = Inr p\<rbrakk> \<Longrightarrow>
    rw_advance excl begins moves S (S\<lparr>ls_mutex := m, ls_threads := (ls_threads S)(t := Running c p)\<rparr>)"
| enter_fail: "\<lbrakk>ls_failed S = None; ls_threads S t = Waiting c; aquire (excl c) t (ls_mutex S) = Some m; begins c (ls_state S) = Inl e\<rbrakk> \<Longrightarrow>
    rw_advance excl begins moves S (S\<lparr>ls_failed := Some e\<rparr>)"
| go_on: "\<lbrakk>ls_failed S = None; ls_threads S t = Running c p; moves p (ls_state S) = Inr (Inl q, s)\<rbrakk> \<Longrightarrow>
    rw_advance excl begins moves S (S\<lparr>ls_state := s, ls_threads := (ls_threads S)(t := Running c q)\<rparr>)"
| go_fail: "\<lbrakk>ls_failed S = None; ls_threads S t = Running c p; moves p (ls_state S) = Inl e\<rbrakk> \<Longrightarrow>
    rw_advance excl begins moves S (S\<lparr>ls_failed := Some e\<rparr>)"
| return: "\<lbrakk>ls_failed S = None; ls_threads S t = Running c p; moves p (ls_state S) = Inr (Inr r, s)\<rbrakk> \<Longrightarrow>
    rw_advance excl begins moves S (S\<lparr>ls_state := s, ls_mutex := release (excl c) t (ls_mutex S),
      ls_threads := (ls_threads S)(t := Idle), ls_log := ls_log S @ [(c, r)]\<rparr>)"

inductive rw_run ::
  "('c \<Rightarrow> bool) \<Rightarrow> ('c \<Rightarrow> 's \<Rightarrow> 'p outcome) \<Rightarrow> ('p \<Rightarrow> 's \<Rightarrow> (('p + 'r) \<times> 's) outcome) \<Rightarrow>
    's \<Rightarrow> ('s, 'c, 'p, 'r) lock_system \<Rightarrow> bool"
  for excl begins moves s0 where
  new: "rw_run excl begins moves s0 (lock_system_new s0)"
| call: "rw_run excl begins moves s0 S \<Longrightarrow> ls_threads S t = Idle \<Longrightarrow>
    rw_run excl begins moves s0 (S\<lparr>ls_threads := (ls_threads S)(t := Waiting c)\<rparr>)"
| advance: "rw_run excl begins moves s0 S \<Longrightarrow> rw_advance excl begins moves S S' \<Longrightarrow> rw_run excl begins moves s0 S'"

inductive_cases rw_advanceE: "rw_advance excl begins moves S S'"

section \<open>One call after the other\<close>

text \<open>The reference: the calls of a log, executed one after the other, give the results of the log.\<close>

fun replays :: "('c \<Rightarrow> 's \<Rightarrow> ('r \<times> 's) outcome) \<Rightarrow> 's \<Rightarrow> ('c \<times> 'r) list \<Rightarrow> 's \<Rightarrow> bool" where
  "replays exec s [] s' \<longleftrightarrow> s' = s"
| "replays exec s ((c, r) # log) s' \<longleftrightarrow> (\<exists>t. exec c s = Inr (r, t) \<and> replays exec t log s')"

lemma replays_append: "replays exec s (l @ l') s' \<longleftrightarrow> (\<exists>t. replays exec s l t \<and> replays exec t l' s')"
  by (induction l arbitrary: s) (auto, blast+)

definition active :: "('s, 'c, 'p, 'r) lock_system \<Rightarrow> nat set" where
  "active S = {t. ls_threads S t \<noteq> Idle}"

definition running :: "('c \<Rightarrow> bool) \<Rightarrow> ('s, 'c, 'p, 'r) lock_system \<Rightarrow> nat set" where
  "running pred S = {t. \<exists>c p. ls_threads S t = Running c p \<and> pred c}"

text \<open>The mutex says who runs: one writer, or any number of readers.\<close>

definition mutex_ok :: "('c \<Rightarrow> bool) \<Rightarrow> ('s, 'c, 'p, 'r) lock_system \<Rightarrow> bool" where
  "mutex_ok excl S \<longleftrightarrow> sm_readers (ls_mutex S) = running (\<lambda>c. \<not> excl c) S \<and> running excl S = set_option (sm_writer (ls_mutex S)) \<and>
     (sm_writer (ls_mutex S) \<noteq> None \<longrightarrow> sm_readers (ls_mutex S) = {})"

lemma running_upd:
  "running P (S\<lparr>ls_threads := (ls_threads S)(t := Running c p)\<rparr>) = (if P c then insert t (running P S) else running P S - {t})"
  "running P (S\<lparr>ls_threads := (ls_threads S)(t := Idle)\<rparr>) = running P S - {t}"
  "running P (S\<lparr>ls_threads := (ls_threads S)(t := Waiting c)\<rparr>) = running P S - {t}"
  by (auto simp: running_def)

lemma running_same [simp]:
  "running P (S\<lparr>ls_mutex := m\<rparr>) = running P S" "running P (S\<lparr>ls_state := s\<rparr>) = running P S"
  "running P (S\<lparr>ls_log := l\<rparr>) = running P S" "running P (S\<lparr>ls_failed := e\<rparr>) = running P S"
  by (simp_all add: running_def)

lemma runningI: "ls_threads S t = Running c p \<Longrightarrow> P c \<Longrightarrow> t \<in> running P S"
  by (auto simp: running_def)

lemma not_runningI: "(\<And>c p. ls_threads S t \<noteq> Running c p) \<Longrightarrow> t \<notin> running P S"
  by (auto simp: running_def)

lemma mutex_ok_writer:
  assumes "mutex_ok excl S" and "ls_threads S t = Running c p" "excl c" and "ls_threads S u = Running d q"
  shows "u = t"
proof -
  have t: "sm_writer (ls_mutex S) = Some t" using assms(1) runningI [OF assms(2), of excl] assms(3) by (auto simp: mutex_ok_def)
  with assms(1) have r: "running (\<lambda>c. \<not> excl c) S = {}" "running excl S = {t}" by (auto simp: mutex_ok_def)
  then show ?thesis using runningI [OF assms(4), of excl] runningI [OF assms(4), of "\<lambda>c. \<not> excl c"] by auto
qed

lemma mutex_ok_cong:
  assumes "mutex_ok excl S" and "ls_mutex S' = ls_mutex S" and "\<And>P. running P S' = running P S"
  shows "mutex_ok excl S'"
  using assms(1) unfolding mutex_ok_def assms(2,3) .

lemma mutex_ok_enter:
  assumes "mutex_ok excl S" and "ls_threads S t = Waiting c" and "aquire (excl c) t (ls_mutex S) = Some m"
  shows "mutex_ok excl (S\<lparr>ls_mutex := m, ls_threads := (ls_threads S)(t := Running c p)\<rparr>)"
proof -
  have t: "t \<notin> running P S" for P by (rule not_runningI) (simp add: assms(2))
  have upd: "running P (S\<lparr>ls_mutex := m, ls_threads := (ls_threads S)(t := Running c p)\<rparr>) = (if P c then insert t (running P S) else running P S)" for P
    using running_upd(1) [of P "S\<lparr>ls_mutex := m\<rparr>" t c p] t by simp
  show ?thesis using assms(1,3) by (cases "excl c") (auto simp: mutex_ok_def upd mutex_defs split: if_splits)
qed

lemma mutex_ok_return:
  assumes "mutex_ok excl S" and "ls_threads S t = Running c p"
  shows "mutex_ok excl (S\<lparr>ls_state := s, ls_mutex := release (excl c) t (ls_mutex S), ls_threads := (ls_threads S)(t := Idle), ls_log := l\<rparr>)"
proof -
  have upd: "running P (S\<lparr>ls_state := s, ls_mutex := m, ls_threads := (ls_threads S)(t := Idle)\<rparr>) = running P S - {t}" for P m
    by (auto simp: running_def)
  show ?thesis
  proof (cases "excl c")
    case True
    with runningI [OF assms(2), of excl] assms(1) have "sm_writer (ls_mutex S) = Some t" by (auto simp: mutex_ok_def)
    with assms(1) True show ?thesis by (auto simp: mutex_ok_def upd mutex_defs)
  next
    case False
    with runningI [OF assms(2), of "\<lambda>c. \<not> excl c"] assms(1) have "sm_writer (ls_mutex S) = None" by (auto simp: mutex_ok_def)
    with assms(1) False show ?thesis by (auto simp: mutex_ok_def upd mutex_defs)
  qed
qed

section \<open>Objects under a lock\<close>

text \<open>
  \<open>exec\<close> is a method as a whole and \<open>rest\<close> what is left of it. A method that locks shared does not change
  the object, and every method returns after finitely many steps, bounded by \<open>todo\<close>.
\<close>

locale locked_object =
  fixes excl :: "'c \<Rightarrow> bool" and begins :: "'c \<Rightarrow> 's \<Rightarrow> 'p outcome" and moves :: "'p \<Rightarrow> 's \<Rightarrow> (('p + 'r) \<times> 's) outcome"
    and exec :: "'c \<Rightarrow> 's \<Rightarrow> ('r \<times> 's) outcome" and rest :: "'p \<Rightarrow> 's \<Rightarrow> ('r \<times> 's) outcome"
    and reads :: "'p \<Rightarrow> bool" and todo :: "'p \<Rightarrow> nat"
  assumes exec_begins: "exec c s = bindR (begins c s) (\<lambda>p. rest p s)"
    and rest_moves: "rest p s = bindR (moves p s) (\<lambda>(x, s'). case x of Inl q \<Rightarrow> rest q s' | Inr r \<Rightarrow> Inr (r, s'))"
    and begins_reads: "begins c s = Inr p \<Longrightarrow> \<not> excl c \<Longrightarrow> reads p"
    and moves_reads: "reads p \<Longrightarrow> moves p s = Inr (x, s') \<Longrightarrow> s' = s"
    and goes_reads: "reads p \<Longrightarrow> moves p s = Inr (Inl q, s') \<Longrightarrow> reads q"
    and moves_todo: "moves p s = Inr (Inl q, s') \<Longrightarrow> todo q < todo p"
begin

text \<open>\<open>s\<close> is the state after the calls that have returned.\<close>

definition inv_at :: "'s \<Rightarrow> ('s, 'c, 'p, 'r) lock_system \<Rightarrow> bool" where
  "inv_at s S \<longleftrightarrow> mutex_ok excl S \<and> finite (active S) \<and> (sm_writer (ls_mutex S) = None \<longrightarrow> ls_state S = s) \<and>
     (\<forall>t c p. ls_threads S t = Running c p \<longrightarrow> rest p (ls_state S) = exec c s \<and> (\<not> excl c \<longrightarrow> reads p))"

lemma inv_atD:
  assumes "inv_at s S"
  shows "mutex_ok excl S" and "finite (active S)" and "sm_writer (ls_mutex S) = None \<Longrightarrow> ls_state S = s"
    and "ls_threads S t = Running c p \<Longrightarrow> rest p (ls_state S) = exec c s"
    and "ls_threads S t = Running c p \<Longrightarrow> \<not> excl c \<Longrightarrow> reads p"
  using assms unfolding inv_at_def by blast+

lemma inv_at_fail: "inv_at s S \<Longrightarrow> inv_at s (S\<lparr>ls_failed := e\<rparr>)"
  by (auto simp: inv_at_def mutex_ok_def active_def)

lemma inv_at_call:
  assumes "inv_at s S" and "ls_threads S t = Idle"
  shows "inv_at s (S\<lparr>ls_threads := (ls_threads S)(t := Waiting c)\<rparr>)"
proof -
  have "t \<notin> running P S" for P by (rule not_runningI) (simp add: assms(2))
  then have "mutex_ok excl (S\<lparr>ls_threads := (ls_threads S)(t := Waiting c)\<rparr>)"
    by (intro mutex_ok_cong [OF inv_atD(1) [OF assms(1)]]) (simp_all add: running_upd)
  moreover have "active (S\<lparr>ls_threads := (ls_threads S)(t := Waiting c)\<rparr>) = insert t (active S)" by (auto simp: active_def)
  ultimately show ?thesis using assms(1) by (auto simp: inv_at_def)
qed

lemma inv_at_enter:
  assumes "inv_at s S" and "ls_threads S t = Waiting c" and "aquire (excl c) t (ls_mutex S) = Some m" and "begins c (ls_state S) = Inr p"
  shows "inv_at s (S\<lparr>ls_mutex := m, ls_threads := (ls_threads S)(t := Running c p)\<rparr>)" (is "inv_at s ?S'")
proof -
  have "sm_writer (ls_mutex S) = None" using assms(3) by (auto simp: mutex_defs split: if_splits)
  then have s: "ls_state S = s" by (rule inv_atD(3) [OF assms(1)])
  have "rest p s = exec c s" using assms(4) s by (simp add: exec_begins)
  moreover have "active ?S' = active S" using assms(2) by (auto simp: active_def)
  ultimately show ?thesis
    using inv_atD [OF assms(1)] mutex_ok_enter [OF inv_atD(1) [OF assms(1)] assms(2,3), of p] begins_reads [OF assms(4)] s
    by (auto simp: inv_at_def)
qed

lemma inv_at_go_on:
  assumes "inv_at s S" and "ls_threads S t = Running c p" and "moves p (ls_state S) = Inr (Inl q, s')"
  shows "inv_at s (S\<lparr>ls_state := s', ls_threads := (ls_threads S)(t := Running c q)\<rparr>)" (is "inv_at s ?S'")
proof -
  have rest: "rest q s' = exec c s" using inv_atD(4) [OF assms(1,2)] assms(3) by (simp add: rest_moves [of p])
  have "running P ?S' = running P S" for P
    using running_upd(1) [of P "S\<lparr>ls_state := s'\<rparr>" t c q] runningI [OF assms(2), of P] assms(2) by (auto simp: running_def)
  then have m: "mutex_ok excl ?S'" by (intro mutex_ok_cong [OF inv_atD(1) [OF assms(1)]]) simp_all
  have act: "active ?S' = active S" using assms(2) by (auto simp: active_def)
  show ?thesis
  proof (cases "excl c")
    case True
    then have "u = t" if "ls_threads S u = Running d r" for u d r using mutex_ok_writer [OF inv_atD(1) [OF assms(1)] assms(2)] that by blast
    moreover have "sm_writer (ls_mutex S) \<noteq> None" using inv_atD(1) [OF assms(1)] runningI [OF assms(2), of excl] True by (auto simp: mutex_ok_def)
    ultimately show ?thesis using m act rest inv_atD(2) [OF assms(1)] True by (auto simp: inv_at_def)
  next
    case False
    note r = inv_atD(5) [OF assms(1,2) False]
    show ?thesis using m act rest inv_atD [OF assms(1)] moves_reads [OF r assms(3)] goes_reads [OF r assms(3)] by (auto simp: inv_at_def)
  qed
qed

lemma inv_at_return:
  assumes "inv_at s S" and "ls_threads S t = Running c p" and "moves p (ls_state S) = Inr (Inr r, s')"
  shows "exec c s = Inr (r, s')"
    and "inv_at s' (S\<lparr>ls_state := s', ls_mutex := release (excl c) t (ls_mutex S), ls_threads := (ls_threads S)(t := Idle), ls_log := l\<rparr>)"
proof -
  let ?S' = "S\<lparr>ls_state := s', ls_mutex := release (excl c) t (ls_mutex S), ls_threads := (ls_threads S)(t := Idle), ls_log := l\<rparr>"
  show "exec c s = Inr (r, s')" using inv_atD(4) [OF assms(1,2)] assms(3) by (simp add: rest_moves [of p])
  note m = mutex_ok_return [OF inv_atD(1) [OF assms(1)] assms(2), where s = s' and l = l]
  have fin: "finite (active ?S')" by (rule finite_subset [OF _ inv_atD(2) [OF assms(1)]]) (auto simp: active_def)
  show "inv_at s' ?S'"
  proof (cases "excl c")
    case True
    then have "u = t" if "ls_threads S u = Running d q" for u d q using mutex_ok_writer [OF inv_atD(1) [OF assms(1)] assms(2)] that by blast
    then show ?thesis using m fin by (auto simp: inv_at_def)
  next
    case False
    then have "sm_writer (ls_mutex S) = None" using inv_atD(1) [OF assms(1)] runningI [OF assms(2), of "\<lambda>c. \<not> excl c"] by (auto simp: mutex_ok_def)
    then have "ls_state S = s" by (rule inv_atD(3) [OF assms(1)])
    then show ?thesis using m fin inv_atD(4,5) [OF assms(1)] moves_reads [OF inv_atD(5) [OF assms(1,2) False] assms(3)] by (auto simp: inv_at_def)
  qed
qed

text \<open>Whatever the interleaving, the calls return what they return when executed one after the other.\<close>

lemma linearizable:
  assumes "rw_run excl begins moves s0 S"
  shows "\<exists>s. replays exec s0 (ls_log S) s \<and> inv_at s S"
  using assms
proof induction
  case new
  have "inv_at s0 (lock_system_new s0)" by (simp add: inv_at_def lock_system_new_def mutex_ok_def running_def active_def)
  then show ?case by (simp add: lock_system_new_def)
next
  case (call S t c)
  then show ?case using inv_at_call [OF _ call(2)] by auto
next
  case (advance S S')
  from advance.IH obtain s where s: "replays exec s0 (ls_log S) s" "inv_at s S" by blast
  from advance.hyps(2) show ?case
  proof cases
    case (enter t c m p)
    then show ?thesis using inv_at_enter [OF s(2) enter(3-5)] s(1) by auto
  next
    case (go_on t c p q s')
    then show ?thesis using inv_at_go_on [OF s(2) go_on(3,4)] s(1) by auto
  next
    case (return t c p r s')
    then show ?thesis using inv_at_return [OF s(2) return(3,4)] s(1) by (auto simp: replays_append)
  qed (use s inv_at_fail in auto)
qed

text \<open>A call that fails also fails when it is executed after the calls that have returned.\<close>

lemma fails_alone:
  assumes "rw_run excl begins moves s0 S" and "ls_failed S = None" and "rw_advance excl begins moves S S'" and "ls_failed S' = Some e"
  shows "\<exists>t c s. (ls_threads S t = Waiting c \<or> (\<exists>p. ls_threads S t = Running c p)) \<and> replays exec s0 (ls_log S) s \<and> exec c s = Inl e"
proof -
  from linearizable [OF assms(1)] obtain s where s: "replays exec s0 (ls_log S) s" "inv_at s S" by blast
  from assms(3) show ?thesis
  proof cases
    case (enter_fail t c m e')
    have "sm_writer (ls_mutex S) = None" using enter_fail(4) by (auto simp: mutex_defs split: if_splits)
    then have "exec c s = Inl e" using enter_fail(1,5) inv_atD(3) [OF s(2)] assms(4) by (simp add: exec_begins)
    with enter_fail(3) s(1) show ?thesis by blast
  next
    case (go_fail t c p e')
    have "exec c s = Inl e" using inv_atD(4) [OF s(2) go_fail(3)] go_fail(1,4) assms(4) by (simp add: rest_moves [of p])
    with go_fail(3) s(1) show ?thesis by blast
  qed (use assms(2,4) in auto)
qed

text \<open>No deadlock: as long as a call has not returned, some thread can take a step.\<close>

lemma advances:
  assumes "inv_at s S" and "ls_failed S = None" and "ls_threads S t \<noteq> Idle"
  shows "\<exists>S'. rw_advance excl begins moves S S'"
proof (cases "\<exists>u c p. ls_threads S u = Running c p")
  case True
  then obtain u c p where u: "ls_threads S u = Running c p" by blast
  show ?thesis
  proof (cases "moves p (ls_state S)")
    case (Inl e)
    then show ?thesis using rw_advance.go_fail [OF assms(2) u] by blast
  next
    case (Inr x)
    obtain y s' where "x = (y, s')" by (cases x)
    with Inr show ?thesis using rw_advance.go_on [OF assms(2) u] rw_advance.return [OF assms(2) u] by (cases y) blast+
  qed
next
  case False
  then obtain c where c: "ls_threads S t = Waiting c" using assms(3) by (cases "ls_threads S t") auto
  have "running P S = {}" for P using False by (auto simp: running_def)
  then have free: "aquire (excl c) t (ls_mutex S) \<noteq> None" using inv_atD(1) [OF assms(1)]
    by (cases "sm_writer (ls_mutex S)") (auto simp: mutex_ok_def mutex_defs)
  show ?thesis using free rw_advance.enter [OF assms(2) c] rw_advance.enter_fail [OF assms(2) c] by (cases "begins c (ls_state S)") blast+
qed

text \<open>Threads that make no new calls come to an end: fewer calls wait, or as many wait and less is left to do.\<close>

definition waiting :: "('s, 'c, 'p, 'r) lock_system \<Rightarrow> nat set" where
  "waiting S = {t. \<exists>c. ls_threads S t = Waiting c}"

definition left_at :: "('s, 'c, 'p, 'r) lock_system \<Rightarrow> nat \<Rightarrow> nat" where
  "left_at S t = (case ls_threads S t of Running c p \<Rightarrow> Suc (todo p) | _ \<Rightarrow> 0)"

definition progress :: "(('s, 'c, 'p, 'r) lock_system \<times> ('s, 'c, 'p, 'r) lock_system) set" where
  "progress = measures [\<lambda>S. if ls_failed S = None then 1 else 0, \<lambda>S. card (waiting S), \<lambda>S. \<Sum>t \<in> active S. left_at S t]"

lemma advance_progress:
  assumes "rw_advance excl begins moves S S'" and "finite (active S)"
  shows "(S', S) \<in> progress"
  using assms(1)
proof cases
  case (enter t c m p)
  have "waiting S \<subseteq> active S" by (auto simp: waiting_def active_def)
  then have "finite (waiting S)" by (rule finite_subset [OF _ assms(2)])
  moreover have "waiting S' = waiting S - {t}" "t \<in> waiting S" using enter by (auto simp: waiting_def)
  ultimately have "card (waiting S') < card (waiting S)" by (metis card_Diff1_less)
  then show ?thesis using enter(1,2) by (simp add: progress_def)
next
  case (go_on t c p q s)
  have t: "t \<in> active S" using go_on by (simp add: active_def)
  have "left_at S' t < left_at S t" using moves_todo [OF go_on(4)] go_on by (simp add: left_at_def)
  moreover have "left_at S' u \<le> left_at S u" for u using calculation go_on(1) by (cases "u = t") (simp_all add: left_at_def)
  ultimately have "(\<Sum>u \<in> active S. left_at S' u) < (\<Sum>u \<in> active S. left_at S u)"
    using t by (intro sum_strict_mono_ex1 [OF assms(2)]) auto
  moreover have "active S' = active S" "waiting S' = waiting S" using go_on by (auto simp: active_def waiting_def)
  ultimately show ?thesis using go_on(1,2) by (simp add: progress_def)
next
  case (return t c p r s)
  have t: "t \<in> active S" using return by (simp add: active_def)
  have "left_at S' t < left_at S t" using return by (simp add: left_at_def)
  moreover have "left_at S' u \<le> left_at S u" for u using calculation return(1) by (cases "u = t") (simp_all add: left_at_def)
  ultimately have "(\<Sum>u \<in> active S. left_at S' u) < (\<Sum>u \<in> active S. left_at S u)"
    using t by (intro sum_strict_mono_ex1 [OF assms(2)]) auto
  moreover have "active S' = active S - {t}" "waiting S' = waiting S" using return by (auto simp: active_def waiting_def)
  moreover have "(\<Sum>u \<in> active S - {t}. left_at S' u) \<le> (\<Sum>u \<in> active S. left_at S' u)" by (rule sum_mono2 [OF assms(2)]) auto
  ultimately show ?thesis using return(1,2) by (simp add: progress_def)
qed (simp_all add: progress_def)

lemma wf_progress: "wf progress"
  by (simp add: progress_def)

text \<open>Without new calls every run ends, and it ends in a state in which all calls have returned, unless one failed.\<close>

lemma run_ends:
  assumes "rw_run excl begins moves s0 S"
  shows "wfp (\<lambda>S' S. rw_run excl begins moves s0 S \<and> rw_advance excl begins moves S S')"
    and "\<exists>S'. (rw_advance excl begins moves)\<^sup>*\<^sup>* S S' \<and> (ls_failed S' \<noteq> None \<or> active S' = {})"
proof -
  have fin: "finite (active S)" if "rw_run excl begins moves s0 S" for S using linearizable [OF that] inv_atD(2) by blast
  show "wfp (\<lambda>S' S. rw_run excl begins moves s0 S \<and> rw_advance excl begins moves S S')"
    unfolding wfp_def by (rule wf_subset [OF wf_progress]) (auto intro: advance_progress fin)
  show "\<exists>S'. (rw_advance excl begins moves)\<^sup>*\<^sup>* S S' \<and> (ls_failed S' \<noteq> None \<or> active S' = {})"
    using assms
  proof (induction S rule: wf_induct_rule [OF wf_progress])
    case (1 S)
    show ?case
    proof (cases "ls_failed S \<noteq> None \<or> active S = {}")
      case False
      then obtain t where t: "ls_threads S t \<noteq> Idle" "ls_failed S = None" by (auto simp: active_def)
      from linearizable [OF 1(2)] obtain s where "inv_at s S" by blast
      from advances [OF this t(2,1)] obtain S' where S': "rw_advance excl begins moves S S'" by blast
      from 1(1) [OF advance_progress [OF S' fin [OF 1(2)]] rw_run.advance [OF 1(2) S']] S'
      show ?thesis by (metis converse_rtranclp_into_rtranclp)
    qed blast
  qed
qed

text \<open>Conversely, calls can be made one after the other.\<close>

lemma runs_on:
  assumes "rw_run excl begins moves s0 S" and "ls_failed S = None" and "ls_threads S = (\<lambda>_. Idle)(t := Running c p)"
    and "rest p (ls_state S) = Inr (r, s)"
  shows "rw_run excl begins moves s0
    (S\<lparr>ls_state := s, ls_mutex := release (excl c) t (ls_mutex S), ls_threads := (\<lambda>_. Idle), ls_log := ls_log S @ [(c, r)]\<rparr>)"
  using assms
proof (induction "todo p" arbitrary: p S rule: less_induct)
  case less
  have t: "ls_threads S t = Running c p" using less.prems(3) by simp
  from less.prems(4) obtain x s1 where m: "moves p (ls_state S) = Inr (x, s1)"
    by (cases "moves p (ls_state S)") (auto simp: rest_moves [of p])
  show ?case
  proof (cases x)
    case (Inl q)
    note go = rw_run.advance [OF less.prems(1) rw_advance.go_on [where moves = moves, OF less.prems(2) t m [unfolded Inl]]]
    have "rest q s1 = Inr (r, s)" using less.prems(4) m Inl by (simp add: rest_moves [of p])
    then show ?thesis using less.hyps [OF moves_todo [OF m [unfolded Inl]] go] less.prems(2,3) by simp
  next
    case (Inr r')
    then have "r' = r" "s1 = s" using less.prems(4) m by (simp_all add: rest_moves [of p])
    then show ?thesis
      using rw_run.advance [OF less.prems(1) rw_advance.return [where moves = moves, OF less.prems(2) t m [unfolded Inr]]] less.prems(3) by (simp add: fun_upd_idem)
  qed
qed

lemma runs_alone:
  assumes "replays exec s0 log s"
  shows "rw_run excl begins moves s0 ((lock_system_new s0)\<lparr>ls_state := s, ls_log := log\<rparr>)"
  using assms
proof (induction log arbitrary: s rule: rev_induct)
  case Nil
  then show ?case using rw_run.new [of excl begins moves s0] by (simp add: lock_system_new_def)
next
  case (snoc x log)
  obtain c r where x: "x = (c, r)" by (cases x)
  from snoc.prems obtain s1 where s1: "replays exec s0 log s1" "exec c s1 = Inr (r, s)" by (auto simp: replays_append x)
  let ?S = "(lock_system_new s0 :: ('s, 'c, 'p, 'r) lock_system)\<lparr>ls_state := s1, ls_log := log\<rparr>" and ?t = "0 :: nat"
  from s1(2) obtain p where p: "begins c s1 = Inr p" "rest p s1 = Inr (r, s)" by (auto simp: exec_begins bindR_eq_Inr)
  obtain m where m: "aquire (excl c) ?t (ls_mutex ?S) = Some m" "release (excl c) ?t m = ls_mutex ?S"
    by (cases "excl c") (simp_all add: mutex_defs lock_system_new_def)
  let ?S1 = "?S\<lparr>ls_threads := (ls_threads ?S)(?t := Waiting c)\<rparr>"
  have "rw_run excl begins moves s0 ?S1"
    by (rule rw_run.call [OF snoc.IH [OF s1(1)]]) (simp add: lock_system_new_def)
  moreover have "rw_advance excl begins moves ?S1 (?S1\<lparr>ls_mutex := m, ls_threads := (ls_threads ?S1)(?t := Running c p)\<rparr>)"
    using m p by (intro rw_advance.enter) (simp_all add: lock_system_new_def)
  ultimately have "rw_run excl begins moves s0 (?S1\<lparr>ls_mutex := m, ls_threads := (ls_threads ?S1)(?t := Running c p)\<rparr>)" by (rule rw_run.advance)
  from runs_on [OF this _ _, of ?t c p r s] p(2) m(2) show ?case by (simp add: lock_system_new_def x)
qed

end

end
