(* ===== verification/Index_Threads.thy ===== *)
theory Index_Threads
  imports Shared_Lock Vecodex_Index Segment_File
begin

text \<open>
  The methods of \<open>Index\<close> (\<open>index/include/Index.h\<close>) called from several threads, as the servers do:
  \<open>add\<close>, \<open>erase\<close>, \<open>pushSegment\<close> and \<open>eraseSegment\<close> hold \<open>segments_m_\<close> exclusively, \<open>search\<close> holds it shared.
  Below that, the methods of \<open>Segment\<close> under the lock of the segment, which also the thread that writes
  segments to files takes. A step of a thread is one round of a loop.
\<close>

section \<open>The methods of an index in steps\<close>

datatype ('x, 'id, 'f) index_call =
    CallAdd nat "'id list" "'f list"
  | CallErase nat "'id list"
  | CallPush "'x Segment option"
  | CallEraseSegment nat
  | CallSearch "'f list" int

datatype 'id index_result = Changed "update_event list" | Erased bool | Found "'id list"

datatype ('x, 'id, 'f) index_phase =
    Adding nat "'id list" "'f list" "nat list"
  | Reporting "nat list"
  | Erasing nat "'id list" "nat list"
  | Pushing "'x Segment option"
  | Looking nat
  | Searching "'f list" int "nat list" "('id, 'f) SearchResult list"

fun index_excl :: "('x, 'id, 'f) index_call \<Rightarrow> bool" where
  "index_excl (CallSearch query k) = False"
| "index_excl c = True"

text \<open>One round of the loop of \<open>add\<close>.\<close>

definition index_add_round ::
  "('x, 'id, 'f) IBaseIndex \<Rightarrow> nat \<Rightarrow> 'id list \<Rightarrow> 'f list \<Rightarrow> 'x Index \<times> rng \<Rightarrow> nat list \<Rightarrow>
    (('x, 'id, 'f) index_phase \<times> 'x Index \<times> rng) outcome" where
  "index_add_round V n ids vectors s inserted =
     (let (ix, g) = s;
          last = ix_last ix;
          batch = min n (size_sub (ix_threshold ix) (seg_size V (seg_at ix last)))
      in if batch = 0 then Inl (RuntimeError ''Empty batch in adding'')
      else
        bindR (seg_addVectorBatch V (seg_at ix last) batch ids vectors) (\<lambda>s.
          let ix = ix\<lparr>ix_store := (ix_store ix)[last := s]\<rparr>;
              ids = drop batch ids;
              vectors = drop (batch * to_size_t (ix_d ix)) vectors
          in if seg_size V s = ix_threshold ix
             then bindR (index_seal V ix g) (\<lambda>s. Inr (Adding (n - batch) ids vectors (inserted @ [last]), s))
             else Inr (Adding (n - batch) ids vectors inserted, ix, g)))"

text \<open>What \<open>add\<close> does after its loop: report the full segments, then merge.\<close>

definition index_add_end ::
  "('x, 'id, 'f) IBaseIndex \<Rightarrow> nat list \<Rightarrow> 'x Index \<times> rng \<Rightarrow> ('id index_result \<times> 'x Index \<times> rng) outcome" where
  "index_add_end V inserted s =
     (let (ix, g) = s;
          events = (if ix_callback ix \<and> inserted \<noteq> [] then [([], inserted)] else [])
      in if merge_predicate ix
         then bindR (storage_merge V 200 ix g) (\<lambda>(ix, g, events'). Inr (Changed (events @ events'), ix, g))
         else Inr (Changed events, ix, g))"

fun index_begins :: "('x, 'id, 'f) index_call \<Rightarrow> 'x Index \<times> rng \<Rightarrow> ('x, 'id, 'f) index_phase outcome" where
  "index_begins (CallAdd n ids vectors) (ix, g) = (if ix_threshold ix = 0 then Inl DivideByZero else Inr (Adding n ids vectors []))"
| "index_begins (CallErase n ids) (ix, g) = Inr (Erasing n ids (ix_segments ix @ [ix_last ix]))"
| "index_begins (CallPush segment) s = Inr (Pushing segment)"
| "index_begins (CallEraseSegment i) s = Inr (Looking i)"
| "index_begins (CallSearch query k) (ix, g) = Inr (Searching query k (ix_segments ix @ [ix_last ix]) [])"

fun index_moves ::
  "('x, 'id::linorder, 'f::linorder) IBaseIndex \<Rightarrow> (('id \<times> 'f) list \<Rightarrow> ('id \<times> 'f) list) \<Rightarrow> ('x, 'id, 'f) index_phase \<Rightarrow> 'x Index \<times> rng \<Rightarrow>
    ((('x, 'id, 'f) index_phase + 'id index_result) \<times> 'x Index \<times> rng) outcome" where
  "index_moves V it (Adding n ids vectors inserted) s =
     (if n = 0 then Inr (Inl (Reporting inserted), s)
      else bindR (index_add_round V n ids vectors s inserted) (\<lambda>(p, s). Inr (Inl p, s)))"
| "index_moves V it (Reporting inserted) s = bindR (index_add_end V inserted s) (\<lambda>(r, s). Inr (Inr r, s))"
| "index_moves V it (Erasing n ids []) s = Inr (Inr (Changed []), s)"
| "index_moves V it (Erasing n ids (p # ps)) (ix, g) =
     bindR (index_delete_at V n ids p (ix_store ix)) (\<lambda>store. Inr (Inl (Erasing n ids ps), ix\<lparr>ix_store := store\<rparr>, g))"
| "index_moves V it (Pushing segment) (ix, g) =
     bindR (index_pushSegment V ix segment) (\<lambda>(ix, events). Inr (Inr (Changed events), ix, g))"
| "index_moves V it (Looking i) (ix, g) = (case index_eraseSegment ix i of (ix, found) \<Rightarrow> Inr (Inr (Erased found), ix, g))"
| "index_moves V it (Searching query k [] kth_stat) s = Inr (Inr (Found (map sr_id kth_stat)), s)"
| "index_moves V it (Searching query k (p # ps) kth_stat) (ix, g) =
     bindR (index_collect V it query k (seg_at ix p) kth_stat) (\<lambda>kth_stat. Inr (Inl (Searching query k ps kth_stat), ix, g))"

text \<open>The methods as a whole.\<close>

fun index_calls ::
  "('x, 'id::linorder, 'f::linorder) IBaseIndex \<Rightarrow> (('id \<times> 'f) list \<Rightarrow> ('id \<times> 'f) list) \<Rightarrow> ('x, 'id, 'f) index_call \<Rightarrow> 'x Index \<times> rng \<Rightarrow>
    ('id index_result \<times> 'x Index \<times> rng) outcome" where
  "index_calls V it (CallAdd n ids vectors) (ix, g) = bindR (index_add V n ids vectors ix g) (\<lambda>(ix, g, events). Inr (Changed events, ix, g))"
| "index_calls V it (CallErase n ids) (ix, g) = bindR (index_erase V ix n ids) (\<lambda>ix. Inr (Changed [], ix, g))"
| "index_calls V it (CallPush segment) (ix, g) = bindR (index_pushSegment V ix segment) (\<lambda>(ix, events). Inr (Changed events, ix, g))"
| "index_calls V it (CallEraseSegment i) (ix, g) = (case index_eraseSegment ix i of (ix, found) \<Rightarrow> Inr (Erased found, ix, g))"
| "index_calls V it (CallSearch query k) (ix, g) = bindR (index_search V it ix query k) (\<lambda>ids. Inr (Found ids, ix, g))"

text \<open>What is left of a method: its loops from here on.\<close>

fun index_rest ::
  "('x, 'id::linorder, 'f::linorder) IBaseIndex \<Rightarrow> (('id \<times> 'f) list \<Rightarrow> ('id \<times> 'f) list) \<Rightarrow> ('x, 'id, 'f) index_phase \<Rightarrow> 'x Index \<times> rng \<Rightarrow>
    ('id index_result \<times> 'x Index \<times> rng) outcome" where
  "index_rest V it (Adding n ids vectors inserted) (ix, g) =
     bindR (index_add_loop V n ids vectors ix g inserted) (\<lambda>(ix, g, inserted). index_add_end V inserted (ix, g))"
| "index_rest V it (Reporting inserted) s = index_add_end V inserted s"
| "index_rest V it (Erasing n ids ps) (ix, g) =
     bindR (foldR (index_delete_at V n ids) ps (ix_store ix)) (\<lambda>store. Inr (Changed [], ix\<lparr>ix_store := store\<rparr>, g))"
| "index_rest V it (Pushing segment) s = index_calls V it (CallPush segment) s"
| "index_rest V it (Looking i) s = index_calls V it (CallEraseSegment i) s"
| "index_rest V it (Searching query k ps kth_stat) (ix, g) =
     bindR (foldR (\<lambda>p. index_collect V it query k (seg_at ix p)) ps kth_stat) (\<lambda>kth_stat. Inr (Found (map sr_id kth_stat), ix, g))"

fun index_reads :: "('x, 'id, 'f) index_phase \<Rightarrow> bool" where
  "index_reads (Searching query k ps kth_stat) = True"
| "index_reads p = False"

fun index_todo :: "('x, 'id, 'f) index_phase \<Rightarrow> nat" where
  "index_todo (Adding n ids vectors inserted) = n + 2"
| "index_todo (Reporting inserted) = 1"
| "index_todo (Erasing n ids ps) = length ps"
| "index_todo (Searching query k ps kth_stat) = length ps"
| "index_todo p = 0"

lemma index_add_loop_round:
  assumes "n \<noteq> 0"
  shows "index_rest V it (Adding n ids vectors inserted) s =
    bindR (index_add_round V n ids vectors s inserted) (\<lambda>(p, s). index_rest V it p s)"
proof -
  obtain ix g where s: "s = (ix, g)" by (cases s)
  let ?last = "ix_last ix"
  obtain batch where b: "min n (size_sub (ix_threshold ix) (seg_size V (seg_at ix ?last))) = batch" by simp
  note loop = index_add_loop.simps [of V n ids vectors ix g inserted] and defs = s index_add_round_def Let_def assms b
  show ?thesis
  proof (cases "batch = 0")
    case True
    then show ?thesis by (simp add: defs loop)
  next
    case False
    show ?thesis
    proof (cases "seg_addVectorBatch V (seg_at ix ?last) batch ids vectors")
      case (Inl e)
      with False show ?thesis by (simp add: defs loop)
    next
      case (Inr x)
      with False show ?thesis by (cases "index_seal V (ix\<lparr>ix_store := (ix_store ix)[?last := x]\<rparr>) g") (auto simp: defs loop)
    qed
  qed
qed

lemma index_calls_begins: "index_calls V it c s = bindR (index_begins c s) (\<lambda>p. index_rest V it p s)"
proof -
  obtain ix g where s: "s = (ix, g)" by (cases s)
  show ?thesis
  proof (cases c)
    case (CallAdd n ids vectors)
    show ?thesis
    proof (cases "index_add_loop V n ids vectors ix g []")
      case (Inl e)
      then show ?thesis by (simp add: s CallAdd index_add_def)
    next
      case (Inr x)
      obtain ix' g' ins where x: "x = (ix', g', ins)" by (cases x)
      then show ?thesis using Inr
        by (cases "storage_merge V 200 ix' g'") (auto simp: s CallAdd index_add_def index_add_end_def Let_def)
    qed
  next
    case (CallErase n ids)
    then show ?thesis by (simp add: s index_erase_def foldR_append bindR_assoc cong: bindR_cong)
  next
    case (CallSearch q k)
    then show ?thesis by (simp add: s index_search_def foldR_append bindR_assoc cong: bindR_cong)
  qed (simp_all add: s)
qed

lemma index_rest_moves:
  "index_rest V it p s = bindR (index_moves V it p s) (\<lambda>(x, s'). case x of Inl q \<Rightarrow> index_rest V it q s' | Inr r \<Rightarrow> Inr (r, s'))"
proof (induction V it p s rule: index_moves.induct)
  case (1 V it n ids vectors inserted s)
  show ?case
  proof (cases "n = 0")
    case True
    then show ?thesis by (cases s) (simp add: index_add_loop.simps [of V 0])
  next
    case False
    then show ?thesis unfolding index_add_loop_round [OF False] by (auto simp: bindR_assoc intro!: bindR_cong)
  qed
next
  case (2 V it inserted s)
  then show ?case by (cases "index_add_end V inserted s") auto
next
  case (5 V it segment ix g)
  then show ?case by (cases "index_pushSegment V ix segment") auto
qed (auto simp: bindR_assoc index_eraseSegment_def intro!: bindR_cong)

lemma index_add_round_todo:
  assumes "index_add_round V n ids vectors s inserted = Inr (p, s')" and "n \<noteq> 0"
  shows "index_todo p < n + 2"
  using assms by (auto simp: index_add_round_def Let_def bindR_eq_Inr split: prod.splits if_splits)

interpretation index_lock: locked_object index_excl index_begins "index_moves V it" "index_calls V it" "index_rest V it" index_reads index_todo
  for V :: "('x, 'id::linorder, 'f::linorder) IBaseIndex" and it
proof
  fix c :: "('x, 'id, 'f) index_call" and p q :: "('x, 'id, 'f) index_phase" and s s' :: "'x Index \<times> rng" and x
  show "index_calls V it c s = bindR (index_begins c s) (\<lambda>p. index_rest V it p s)" by (rule index_calls_begins)
  show "index_rest V it p s = bindR (index_moves V it p s) (\<lambda>(x, s'). case x of Inl q \<Rightarrow> index_rest V it q s' | Inr r \<Rightarrow> Inr (r, s'))"
    by (rule index_rest_moves)
  show "index_begins c s = Inr p \<Longrightarrow> \<not> index_excl c \<Longrightarrow> index_reads p" by (cases c; cases s) auto
  show "index_reads p \<Longrightarrow> index_moves V it p s = Inr (x, s') \<Longrightarrow> s' = s"
    by (cases "(V, it, p, s)" rule: index_moves.cases) (auto simp: bindR_eq_Inr)
  show "index_reads p \<Longrightarrow> index_moves V it p s = Inr (Inl q, s') \<Longrightarrow> index_reads q"
    by (cases "(V, it, p, s)" rule: index_moves.cases) (auto simp: bindR_eq_Inr)
  show "index_moves V it p s = Inr (Inl q, s') \<Longrightarrow> index_todo q < index_todo p"
    by (cases "(V, it, p, s)" rule: index_moves.cases)
      (auto simp: bindR_eq_Inr index_eraseSegment_def dest!: index_add_round_todo split: if_splits)
qed

section \<open>Any interleaving is as good as one call after the other\<close>

text \<open>
  C6. Concurrent calls of an index are linearizable. Whatever threads call the methods of an index, and
  however their steps interleave: the results of the calls that have returned are those of the same calls
  made one after the other, in the order in which they return; when no thread is changing the index, its
  state is that of this sequence; and a thread that changes the index runs alone.
\<close>

theorem index_calls_linearizable:
  fixes V :: "('x, 'id::linorder, 'f::linorder) IBaseIndex"
  assumes "rw_run index_excl index_begins (index_moves V it) (ix0, g0) S"
  shows "\<exists>ix g. replays (index_calls V it) (ix0, g0) (ls_log S) (ix, g) \<and> (sm_writer (ls_mutex S) = None \<longrightarrow> ls_state S = (ix, g)) \<and>
    (\<forall>t c p u d q. ls_threads S t = Running c p \<and> index_excl c \<and> ls_threads S u = Running d q \<longrightarrow> u = t)"
proof -
  from index_lock.linearizable [OF assms] obtain ix g
    where s: "replays (index_calls V it) (ix0, g0) (ls_log S) (ix, g)" "index_lock.inv_at V it (ix, g) S" by auto
  have "u = t" if "ls_threads S t = Running c p" "index_excl c" "ls_threads S u = Running d q" for t c p u d q
    by (rule mutex_ok_writer [OF index_lock.inv_atD(1) [OF s(2)] that])
  then show ?thesis using s(1) index_lock.inv_atD(3) [OF s(2)] by (intro exI [of _ ix] exI [of _ g] conjI allI impI) auto
qed

text \<open>The changes of a log as a history.\<close>

fun op_call :: "('id, 'f) index_op \<Rightarrow> ('x, 'id, 'f) index_call" where
  "op_call (AddOp ids vectors) = CallAdd (length ids) ids vectors"
| "op_call (EraseOp ids) = CallErase (length ids) ids"

lemma replays_history:
  assumes "replays (index_calls V it) s log s'" and "filter index_excl (map fst log) = map op_call ops"
  shows "foldR (index_exec V) ops s = Inr s'"
  using assms
proof (induction log arbitrary: s ops)
  case Nil
  then show ?case by simp
next
  case (Cons x log)
  obtain c r ix g where x: "x = (c, r)" "s = (ix, g)" by (cases x; cases s) auto
  from Cons.prems(1) obtain t where t: "index_calls V it c s = Inr (r, t)" "replays (index_calls V it) t log s'" by (auto simp: x)
  show ?case
  proof (cases "index_excl c")
    case False
    then obtain q k where "c = CallSearch q k" by (cases c) auto
    then have "t = s" using t(1) by (auto simp: x bindR_eq_Inr)
    with Cons.IH [OF t(2)] Cons.prems(2) False show ?thesis by (simp add: x)
  next
    case True
    with Cons.prems(2) obtain op ops' where ops: "ops = op # ops'" "c = op_call op" "filter index_excl (map fst log) = map op_call ops'"
      by (auto simp: x)
    have "index_exec V op s = Inr t" using t(1) by (cases op) (auto simp: x ops(2) bindR_eq_Inr)
    with Cons.IH [OF t(2) ops(3)] show ?thesis by (simp add: ops(1))
  qed
qed

section \<open>All calls return\<close>

text \<open>
  The obligation of the threads that add, delete and search: arrays and queries are long enough, and in the
  whole run an identifier is added at most once.
\<close>

fun call_ok :: "nat \<Rightarrow> ('x, 'id, 'f) index_call \<Rightarrow> bool" where
  "call_ok d (CallAdd n ids vectors) \<longleftrightarrow> n = length ids \<and> distinct ids \<and> n * d \<le> length vectors"
| "call_ok d (CallErase n ids) \<longleftrightarrow> n = length ids"
| "call_ok d (CallSearch query k) \<longleftrightarrow> d \<le> length query \<and> 0 < k \<and> k < 2 ^ 31"
| "call_ok d c \<longleftrightarrow> False"

fun call_adds :: "('x, 'id, 'f) index_call \<Rightarrow> 'id set" where
  "call_adds (CallAdd n ids vectors) = set ids"
| "call_adds c = {}"

definition sequence_ok :: "nat \<Rightarrow> ('x, 'id, 'f) index_call list \<Rightarrow> bool" where
  "sequence_ok d cs \<longleftrightarrow> (\<forall>c \<in> set cs. call_ok d c) \<and> sorted_wrt (\<lambda>a b. call_adds a \<inter> call_adds b = {}) cs"

definition pending :: "('s, 'c, 'p, 'r) lock_system \<Rightarrow> nat \<Rightarrow> 'c option" where
  "pending S t = (case ls_threads S t of Idle \<Rightarrow> None | Waiting c \<Rightarrow> Some c | Running c p \<Rightarrow> Some c)"

definition calls_ok :: "nat \<Rightarrow> ('s, ('x, 'id, 'f) index_call, 'p, 'r) lock_system \<Rightarrow> bool" where
  "calls_ok d S \<longleftrightarrow> sequence_ok d (map fst (ls_log S)) \<and>
     (\<forall>t c. pending S t = Some c \<longrightarrow> sequence_ok d (map fst (ls_log S) @ [c])) \<and>
     (\<forall>t u c c'. t \<noteq> u \<longrightarrow> pending S t = Some c \<longrightarrow> pending S u = Some c' \<longrightarrow> call_adds c \<inter> call_adds c' = {})"

lemma calls_ok_same:
  assumes "ls_log S' = ls_log S" and "\<And>t. pending S' t = pending S t"
  shows "calls_ok d S' \<longleftrightarrow> calls_ok d S"
  by (simp add: calls_ok_def assms)

lemma calls_ok_fewer:
  assumes "calls_ok d S'" and "ls_log S' = ls_log S" and "\<And>t c. pending S t = Some c \<Longrightarrow> pending S' t = Some c"
  shows "calls_ok d S"
  using assms(1) unfolding calls_ok_def assms(2) by (blast dest: assms(3))

lemma calls_ok_return:
  assumes "pending S t = Some c" and "ls_log S' = ls_log S @ [(c, r)]" and "\<And>u. pending S' u = (if u = t then None else pending S u)"
  shows "calls_ok d S' \<longleftrightarrow> calls_ok d S"
proof
  assume S': "calls_ok d S'"
  have one: "sequence_ok d (map fst (ls_log S) @ [c])" using S' by (simp add: calls_ok_def assms(2))
  have two: "sequence_ok d (map fst (ls_log S) @ [c, c'])" if "pending S u = Some c'" "u \<noteq> t" for u c'
  proof -
    have "pending S' u = Some c'" using that by (simp add: assms(3))
    with S' have "sequence_ok d (map fst (ls_log S') @ [c'])" unfolding calls_ok_def by blast
    then show ?thesis by (simp add: assms(2))
  qed
  show "calls_ok d S"
    unfolding calls_ok_def
  proof (intro conjI allI impI)
    show "sequence_ok d (map fst (ls_log S))" using one by (simp add: sequence_ok_def sorted_wrt_append)
    show "sequence_ok d (map fst (ls_log S) @ [c'])" if "pending S u = Some c'" for u c'
      using one two [OF that] that assms(1) by (cases "u = t") (simp_all add: sequence_ok_def sorted_wrt_append)
    show "call_adds a \<inter> call_adds b = {}" if "u \<noteq> v" "pending S u = Some a" "pending S v = Some b" for u v a b
    proof -
      consider "u = t" "v \<noteq> t" | "v = t" "u \<noteq> t" | "u \<noteq> t" "v \<noteq> t" using \<open>u \<noteq> v\<close> by blast
      then show ?thesis
      proof cases
        case 1
        then show ?thesis using two [OF that(3)] that(2) assms(1) by (simp add: sequence_ok_def sorted_wrt_append)
      next
        case 2
        then show ?thesis using two [OF that(2)] that(3) assms(1) by (simp add: sequence_ok_def sorted_wrt_append Int_commute)
      next
        case 3
        then show ?thesis using S' that unfolding calls_ok_def assms(3) by metis
      qed
    qed
  qed
next
  assume S: "calls_ok d S"
  have "sequence_ok d (map fst (ls_log S) @ [c])" using S assms(1) by (simp add: calls_ok_def)
  moreover have "sequence_ok d (map fst (ls_log S) @ [c, c'])" if "pending S u = Some c'" "u \<noteq> t" for u c'
  proof -
    have "sequence_ok d (map fst (ls_log S) @ [c'])" "call_adds c \<inter> call_adds c' = {}"
      using S that assms(1) unfolding calls_ok_def by blast+
    then show ?thesis using calculation by (simp add: sequence_ok_def sorted_wrt_append)
  qed
  moreover have "call_adds a \<inter> call_adds b = {}" if "u \<noteq> v" "pending S u = Some a" "pending S v = Some b" for u v a b
    using S that unfolding calls_ok_def by blast
  ultimately show "calls_ok d S'" unfolding calls_ok_def by (auto simp: assms(2,3) split: if_splits)
qed

text \<open>A step keeps the calls that were made.\<close>

lemma advance_calls_ok: "rw_advance excl begins moves S S' \<Longrightarrow> calls_ok d S' \<longleftrightarrow> calls_ok d S"
proof (induction rule: rw_advance.induct)
  case (return S t c p r s)
  then show ?case by (intro calls_ok_return [of S t c _ r]) (simp_all add: pending_def)
qed (rule calls_ok_same; simp add: pending_def)+

text \<open>Obliging calls as a history.\<close>

fun call_ops :: "('x, 'id, 'f) index_call \<Rightarrow> ('id, 'f) index_op list" where
  "call_ops (CallAdd n ids vectors) = [AddOp ids vectors]"
| "call_ops (CallErase n ids) = [EraseOp ids]"
| "call_ops c = []"

lemma sequence_history:
  assumes "sequence_ok d cs" and "\<forall>c \<in> set cs. call_adds c \<inter> used = {}"
  shows "filter index_excl cs = map op_call (concat (map call_ops cs)) \<and> ops_ok d used (concat (map call_ops cs))"
  using assms
proof (induction cs arbitrary: used)
  case Nil
  then show ?case by simp
next
  case (Cons c cs)
  have cs: "sequence_ok d cs" "call_ok d c" "\<forall>b \<in> set cs. call_adds c \<inter> call_adds b = {}"
    using Cons.prems(1) by (auto simp: sequence_ok_def)
  have "\<forall>b \<in> set cs. call_adds b \<inter> (used \<union> call_adds c) = {}" using Cons.prems(2) cs(3) by auto
  from Cons.IH [OF cs(1) this] cs(2) Cons.prems(2) show ?case by (cases c) auto
qed

lemma obliging_call_succeeds:
  fixes F :: "('b, 'f::{linorder, zero}) faiss_lib" and it :: "(int \<times> 'id::linorder) list \<Rightarrow> _"
  assumes F: "faiss_contract F vecs dist" "reorders it" and it': "reorders it'" and g: "inj g" and thr: "0 < thr" "thr < 2 ^ 31"
    and d: "0 \<le> d" "d < 2 ^ 31" "fx_d F (fx_make F args) = nat d"
    and log: "replays (index_calls (faiss_vtable F it ser) it') (index_new d thr enable_merge (faiss_factory F args) g) log s"
    and ok: "sequence_ok (nat d) (map fst log @ [c])"
  shows "\<exists>r s'. index_calls (faiss_vtable F it ser) it' c s = Inr (r, s')"
proof -
  let ?f = "faiss_factory F args :: ('b, 'id) FaissIndex SegmentFactory" and ?V = "faiss_vtable F it ser"
  let ?new = "index_new d thr enable_merge ?f g"
  have f: "faiss_ok F vecs dist it (sf_index ?f)" using F by (rule faiss_factory_ok(1))
  define ops where "ops = concat (map call_ops (map fst log))"
  have "sequence_ok (nat d) (map fst log)" using ok by (simp add: sequence_ok_def sorted_wrt_append)
  from sequence_history [OF this, of "{}"] have ops: "filter index_excl (map fst log) = map op_call ops" "ops_ok (nat d) {} ops"
    by (simp_all add: ops_def)
  from replays_history [OF log ops(1)] have run: "foldR (index_exec ?V) ops ?new = Inr s" .
  obtain ix g' where s: "s = (ix, g')" by (cases s)
  have all: "ops_ok (nat d) {} (ops @ call_ops c)" using sequence_history [OF ok, of "{}"] by (simp add: ops_def)
  have c: "call_ok (nat d) c" using ok by (simp add: sequence_ok_def)
  have "\<exists>s'. foldR (index_exec ?V) (ops @ call_ops c) ?new = Inr s'"
    using faiss.index_run_new_ok [OF f, of d thr g "ops @ call_ops c" ser enable_merge] d thr g all by auto
  then obtain s' where s': "foldR (index_exec ?V) (call_ops c) s = Inr s'" using run by (auto simp: foldR_append)
  show ?thesis
  proof (cases c)
    case (CallAdd n ids vs)
    then show ?thesis using s' c by (auto simp: s bindR_eq_Inr)
  next
    case (CallErase n ids)
    then show ?thesis using s' c by (auto simp: s bindR_eq_Inr)
  next
    case (CallSearch q k)
    from faiss.index_run_search_sound [OF f, of d thr g ops q k it' ser enable_merge] d thr g ops(2) it' c run CallSearch
    show ?thesis by (auto simp: s)
  qed (use c in auto)
qed

lemma obliging_calls_succeed:
  fixes F :: "('b, 'f::{linorder, zero}) faiss_lib" and it :: "(int \<times> 'id::linorder) list \<Rightarrow> _"
  assumes F: "faiss_contract F vecs dist" "reorders it" and it': "reorders it'" and g: "inj g" and thr: "0 < thr" "thr < 2 ^ 31"
    and d: "0 \<le> d" "d < 2 ^ 31" "fx_d F (fx_make F args) = nat d"
    and run: "rw_run index_excl index_begins (index_moves (faiss_vtable F it ser) it')
      (index_new d thr enable_merge (faiss_factory F args) g) S"
    and ok: "calls_ok (nat d) S"
  shows "ls_failed S = None"
  using run ok
proof induction
  case new
  then show ?case by (simp add: lock_system_new_def)
next
  case (call S t c)
  have "calls_ok (nat d) S"
    using call.hyps(2) by (intro calls_ok_fewer [OF call.prems]) (auto simp: pending_def)
  then show ?case using call.IH by simp
next
  case (advance S S')
  let ?V = "faiss_vtable F it ser"
  have okS: "calls_ok (nat d) S" using advance.prems advance_calls_ok [OF advance.hyps(2)] by blast
  then have none: "ls_failed S = None" by (rule advance.IH)
  show ?case
  proof (rule ccontr)
    assume "ls_failed S' \<noteq> None"
    then obtain e where "ls_failed S' = Some e" by blast
    from index_lock.fails_alone [OF advance.hyps(1) none advance.hyps(2) this] obtain t c s
      where th: "ls_threads S t = Waiting c \<or> (\<exists>p. ls_threads S t = Running c p)"
        and s: "replays (index_calls ?V it') (index_new d thr enable_merge (faiss_factory F args) g) (ls_log S) s"
        "index_calls ?V it' c s = Inl e" by blast
    from th have c: "pending S t = Some c" by (auto simp: pending_def)
    have "sequence_ok (nat d) (map fst (ls_log S) @ [c])" using okS c by (auto simp: calls_ok_def)
    from obliging_call_succeeds [OF F it' g thr d s(1) this] s(2) show False by auto
  qed
qed

text \<open>
  C7. Concurrent additions, deletions and searches all return. An index was built by the constructor over
  a FAISS index; threads add, delete and search, and an identifier is added at most once. In every state
  they can reach, however their steps interleave: no call has failed; as long as a call has not returned,
  some thread can take a step, and no step fails; without new calls no infinite sequence of steps is possible,
  so that all calls return.
\<close>

theorem index_calls_return:
  fixes F :: "('b, 'f::{linorder, zero}) faiss_lib" and it :: "(int \<times> 'id::linorder) list \<Rightarrow> _"
  assumes "faiss_contract F vecs dist" and "reorders it" and "reorders it'" and "inj g"
    and "0 < thr" "thr < 2 ^ 31" and "0 \<le> d" "d < 2 ^ 31" "fx_d F (fx_make F args) = nat d"
    and "rw_run index_excl index_begins (index_moves (faiss_vtable F it ser) it')
      (index_new d thr enable_merge (faiss_factory F args) g) S" and "calls_ok (nat d) S"
  shows "wfp (\<lambda>S' S. rw_run index_excl index_begins (index_moves (faiss_vtable F it ser) it')
        (index_new d thr enable_merge (faiss_factory F args) g) S \<and>
      rw_advance index_excl index_begins (index_moves (faiss_vtable F it ser) it') S S') \<and>
    (\<forall>S'. (rw_advance index_excl index_begins (index_moves (faiss_vtable F it ser) it'))\<^sup>*\<^sup>* S S' \<longrightarrow>
      ls_failed S' = None \<and>
      ((\<forall>t. ls_threads S' t = Idle) \<or> (\<exists>S''. rw_advance index_excl index_begins (index_moves (faiss_vtable F it ser) it') S' S''))) \<and>
    (\<exists>S'. (rw_advance index_excl index_begins (index_moves (faiss_vtable F it ser) it'))\<^sup>*\<^sup>* S S' \<and>
      ls_failed S' = None \<and> (\<forall>t. ls_threads S' t = Idle))"
proof -
  let ?moves = "index_moves (faiss_vtable F it ser) it'" and ?s0 = "index_new d thr enable_merge (faiss_factory F args) g"
  let ?adv = "rw_advance index_excl index_begins ?moves"
  have run: "rw_run index_excl index_begins ?moves ?s0 S' \<and> calls_ok (nat d) S'" if "?adv\<^sup>*\<^sup>* S S'" for S'
    using that
  proof induction
    case base
    then show ?case using assms(10,11) by simp
  next
    case (step S' S'')
    then show ?case using rw_run.advance [OF _ step(2)] advance_calls_ok [OF step(2)] by simp
  qed
  note fine = obliging_calls_succeed [OF assms(1-9)]
  have "ls_failed S' = None \<and> ((\<forall>t. ls_threads S' t = Idle) \<or> (\<exists>S''. ?adv S' S''))" if "?adv\<^sup>*\<^sup>* S S'" for S'
  proof -
    have none: "ls_failed S' = None" using fine run [OF that] by blast
    from index_lock.linearizable [OF run [OF that, THEN conjunct1]] index_lock.advances [OF _ none] none show ?thesis by blast
  qed
  moreover from index_lock.run_ends [OF assms(10)] obtain S' where S': "?adv\<^sup>*\<^sup>* S S'" "ls_failed S' \<noteq> None \<or> active S' = {}" by blast
  ultimately show ?thesis
    using index_lock.run_ends(1) [OF assms(10)] by (simp add: active_def) blast
qed

text \<open>
  C3. Searches are exact while other threads add, delete and search. In any interleaving of calls on an
  index that was built by the constructor over an exhaustive FAISS index: a search that has returned has
  returned the \<open>k\<close> nearest of the documents that the additions and deletions which returned before it have
  left, nearest first; additions and deletions that were going on at the same time are seen as a whole or
  not at all.
\<close>

theorem concurrent_search_exact:
  fixes F :: "('b, 'f::{linorder, zero}) faiss_lib" and it :: "(int \<times> 'id::linorder) list \<Rightarrow> _"
  assumes "faiss_exact F vecs dist" and "reorders it" and "reorders it'" and "inj g"
    and "0 < thr" "thr < 2 ^ 31" and "0 \<le> d" "d < 2 ^ 31" "fx_d F (fx_make F args) = nat d"
    and "rw_run index_excl index_begins (index_moves (faiss_vtable F it ser) it')
      (index_new d thr enable_merge (faiss_factory F args) g) S"
    and "ls_log S = before @ (CallSearch q k, Found ids) # after" and "filter index_excl (map fst before) = map op_call ops"
    and "ops_ok (nat d) {} ops" and "nat d \<le> length q" and "0 < k" "k < 2 ^ 31"
  shows "\<exists>r. ids = map sr_id r \<and> sorted r \<and> distinct (map sr_id r) \<and>
    top_k sr_dist (nat k) (candidates dist (take (nat d) q) (fold (spec_exec (nat d)) ops {})) (set r)"
proof -
  let ?f = "faiss_factory F args :: ('b, 'id) FaissIndex SegmentFactory" and ?V = "faiss_vtable F it ser"
  have "faiss_contract F vecs dist" using assms(1) by (simp add: faiss_exact_def)
  then have "faiss_ok_exact F vecs dist it (sf_index ?f)" using assms(1,2) by (intro faiss_factory_ok(2))
  from faiss_flat.index_run_search_exact [OF this, of d thr g ops q k it' ser enable_merge] assms(3-9,13-) obtain ix g' r
    where run: "foldR (index_exec ?V) ops (index_new d thr enable_merge ?f g) = Inr (ix, g')"
      and r: "index_search ?V it' ix q k = Inr (map sr_id r)" "sorted r" "distinct (map sr_id r)"
        "top_k sr_dist (nat k) (candidates dist (take (nat d) q) (fold (spec_exec (nat d)) ops {})) (set r)" by auto
  from index_lock.linearizable [OF assms(10)] obtain s
    where "replays (index_calls ?V it') (index_new d thr enable_merge ?f g) (ls_log S) s" by blast
  then obtain s1 s2 where s: "replays (index_calls ?V it') (index_new d thr enable_merge ?f g) before s1"
    "index_calls ?V it' (CallSearch q k) s1 = Inr (Found ids, s2)" by (auto simp: assms(11) replays_append)
  from replays_history [OF s(1) assms(12)] run have "s1 = (ix, g')" by simp
  with s(2) r(1) have "ids = map sr_id r" by simp
  with r show ?thesis by blast
qed

text \<open>Three documents are added, then the two nearest to a query are searched for.\<close>

abbreviation "demo_vtable \<equiv> faiss_vtable ref_faiss rev (\<lambda>_ :: (ref_base, nat) FaissIndex. [])"

abbreviation "demo_new \<equiv> index_new 2 2 True (faiss_factory ref_faiss (FlatArgs 2 METRIC_L1) :: (ref_base, nat) FaissIndex SegmentFactory) (\<lambda>n. n)"

lemma demo_threads:
  "\<exists>S ids ev. rw_run index_excl index_begins (index_moves demo_vtable rev) demo_new S \<and>
    ls_log S = [(CallAdd 3 [10, 11, 12] [0, 1, 0, 2, 3, 0], Changed ev), (CallSearch [0, 0] 2, Found ids)] \<and>
    ls_failed S = None \<and> ls_mutex S = \<lparr>sm_writer = None, sm_readers = {}\<rparr> \<and> ls_threads S = (\<lambda>_. Idle)"
proof -
  have "faiss_ok_exact ref_faiss ref_vecs ref_dist rev (sf_index (faiss_factory ref_faiss (FlatArgs 2 METRIC_L1) :: (ref_base, nat) FaissIndex SegmentFactory))"
    by (rule faiss_factory_ok(2) [OF ref_faiss_contract reorders_rev ref_faiss_exact])
  from faiss_flat.index_run_search_exact [OF this, of 2 2 "\<lambda>n. n" "[AddOp [10, 11, 12] [0, 1, 0, 2, 3, 0]]" "[0, 0]" 2 rev "\<lambda>_. []" True]
  obtain ix g and r :: "(nat, int) SearchResult list" where "foldR (index_exec demo_vtable) [AddOp [10, 11, 12] [0, 1, 0, 2, 3, 0]] demo_new = Inr (ix, g)"
    and search: "index_search demo_vtable rev ix [0, 0] 2 = Inr (map sr_id r)"
    by (simp add: ref_make_dim reorders_rev del: foldR.simps) blast
  then obtain ev where "index_calls demo_vtable rev (CallAdd 3 [10, 11, 12] [0, 1, 0, 2, 3, 0]) demo_new = Inr (Changed ev, ix, g)"
    by (cases demo_new) (auto simp: bindR_eq_Inr numeral_3_eq_3)
  then have "replays (index_calls demo_vtable rev) demo_new
      [(CallAdd 3 [10, 11, 12] [0, 1, 0, 2, 3, 0], Changed ev), (CallSearch [0, 0] 2, Found (map sr_id r))] (ix, g)"
    using search by simp
  from index_lock.runs_alone [OF this] show ?thesis
    by (intro exI conjI) (assumption | simp add: lock_system_new_def)+
qed

theorem concurrent_search_exact_witness:
  "\<exists>S ids ev r. rw_run index_excl index_begins (index_moves demo_vtable rev) demo_new S \<and>
    ls_log S = [(CallAdd 3 [10, 11, 12] [0, 1, 0, 2, 3, 0], Changed ev), (CallSearch [0, 0] 2, Found ids)] \<and>
    ids = map sr_id r \<and> top_k sr_dist 2 (candidates ref_dist [0, 0] {(10, [0, 1]), (11, [0, 2]), (12, [3, 0])}) (set r)"
proof -
  from demo_threads obtain S ids ev where S: "rw_run index_excl index_begins (index_moves demo_vtable rev) demo_new S"
    "ls_log S = [(CallAdd 3 [10, 11, 12] [0, 1, 0, 2, 3, 0], Changed ev), (CallSearch [0, 0] 2, Found ids)]" by blast
  let ?ops = "[AddOp [10, 11, 12] [0, 1, 0, 2, 3, 0]] :: (nat, int) index_op list"
  have log: "ls_log S = [(CallAdd 3 [10, 11, 12] [0, 1, 0, 2, 3, 0], Changed ev)] @ (CallSearch [0, 0] 2, Found ids) # []"
    "filter index_excl (map fst [(CallAdd 3 [10, 11, 12] [0, 1, 0, 2, 3, 0], Changed ev)]) = map op_call ?ops"
    using S(2) by simp_all
  have docs: "fold (spec_exec (nat 2)) ?ops {} = {(10, [0, 1]), (11, [0, 2]), (12, [3, 0])}" by (simp add: rows_3)
  have "inj (\<lambda>n. n)" "(0 :: int) < 2" "2 < (2 :: int) ^ 31" "(0 :: int) \<le> 2" "fx_d ref_faiss (fx_make ref_faiss (FlatArgs 2 METRIC_L1)) = nat 2"
    "ops_ok (nat 2) {} ?ops" "nat 2 \<le> length [0, 0 :: int]" by (simp_all add: ref_make_dim)
  note h = this
  from concurrent_search_exact [OF ref_faiss_exact reorders_rev reorders_rev h(1,2,3,4,3,5) S(1) log h(6,7,2,3)] obtain r
    where r: "ids = map sr_id r" "top_k sr_dist (nat 2) (candidates ref_dist (take (nat 2) [0, 0]) (fold (spec_exec (nat 2)) ?ops {})) (set r)" by blast
  from r(2) have "top_k sr_dist 2 (candidates ref_dist [0, 0] {(10, [0, 1]), (11, [0, 2]), (12, [3, 0])}) (set r)" unfolding docs by simp
  with S r(1) show ?thesis by blast
qed

theorem index_calls_linearizable_witness:
  "\<exists>S ids ev ix g. rw_run index_excl index_begins (index_moves demo_vtable rev) (demo_index, Suc) S \<and>
    ls_log S = [(CallAdd 3 [10, 11, 12] [0, 1, 0, 2, 3, 0], Changed ev), (CallSearch [0, 0] 2, Found ids)] \<and>
    replays (index_calls demo_vtable rev) (demo_index, Suc) (ls_log S) (ix, g) \<and> ls_state S = (ix, g)"
proof -
  have new: "demo_new = (demo_index, Suc)"
    by (simp add: demo_index_def index_new_def factory_create_def segment_new_def rand_def)
  from demo_threads obtain S ids ev where S: "rw_run index_excl index_begins (index_moves demo_vtable rev) (demo_index, Suc) S"
    "ls_log S = [(CallAdd 3 [10, 11, 12] [0, 1, 0, 2, 3, 0], Changed ev), (CallSearch [0, 0] 2, Found ids)]"
    "ls_mutex S = \<lparr>sm_writer = None, sm_readers = {}\<rparr>" unfolding new by blast
  from index_calls_linearizable [OF S(1)] S(3) obtain ix g
    where "replays (index_calls demo_vtable rev) (demo_index, Suc) (ls_log S) (ix, g)" "ls_state S = (ix, g)" by auto
  with S(1,2) show ?thesis by blast
qed

theorem index_calls_return_witness:
  "\<exists>S S'. rw_run index_excl index_begins (index_moves demo_vtable rev) demo_new S \<and> ls_failed S = None \<and>
    ls_threads S 1 = Waiting (CallSearch [0, 0] 2) \<and> ls_threads S 2 = Waiting (CallAdd 1 [13] [4, 4]) \<and>
    ls_threads S 3 = Waiting (CallErase 1 [10]) \<and>
    (rw_advance index_excl index_begins (index_moves demo_vtable rev))\<^sup>*\<^sup>* S S' \<and> ls_failed S' = None \<and> (\<forall>t. ls_threads S' t = Idle)"
proof -
  from demo_threads obtain S ids ev where S: "rw_run index_excl index_begins (index_moves demo_vtable rev) demo_new S"
    "ls_log S = [(CallAdd 3 [10, 11, 12] [0, 1, 0, 2, 3, 0], Changed ev), (CallSearch [0, 0] 2, Found ids)]"
    "ls_failed S = None" "ls_threads S = (\<lambda>_. Idle)" by blast
  let ?S1 = "S\<lparr>ls_threads := (ls_threads S)(1 := Waiting (CallSearch [0, 0] 2))\<rparr>"
  let ?S2 = "?S1\<lparr>ls_threads := (ls_threads ?S1)(2 := Waiting (CallAdd 1 [13] [4, 4]))\<rparr>"
  let ?S3 = "?S2\<lparr>ls_threads := (ls_threads ?S2)(3 := Waiting (CallErase 1 [10]))\<rparr>"
  have run: "rw_run index_excl index_begins (index_moves demo_vtable rev) demo_new ?S3"
    using S(4) by (intro rw_run.call S(1)) simp_all
  have ok: "calls_ok (nat 2) ?S3"
    using S(2,4) by (auto simp: calls_ok_def pending_def sequence_ok_def split: if_splits)
  have g: "inj (\<lambda>n :: nat. n)" by simp
  have bounds: "(0::int) < 2" "(2::int) < 2 ^ 31" "(0::int) \<le> 2" "fx_d ref_faiss (fx_make ref_faiss (FlatArgs 2 METRIC_L1)) = nat 2"
    by (simp_all add: ref_make_dim)
  from index_calls_return [OF ref_faiss_contract reorders_rev reorders_rev g bounds(1,2,3,2,4) run ok] obtain S'
    where "(rw_advance index_excl index_begins (index_moves demo_vtable rev))\<^sup>*\<^sup>* ?S3 S'" "ls_failed S' = None" "\<forall>t. ls_threads S' t = Idle" by blast
  moreover have "ls_failed ?S3 = None" "ls_threads ?S3 1 = Waiting (CallSearch [0, 0] 2)"
    "ls_threads ?S3 2 = Waiting (CallAdd 1 [13] [4, 4])" "ls_threads ?S3 3 = Waiting (CallErase 1 [10])" using S(3) by simp_all
  ultimately show ?thesis using run by blast
qed

section \<open>The methods of a segment\<close>

datatype ('id, 'f) segment_call = CallDelete nat "'id list" | CallQuery "'f list" int | CallSerialize

datatype ('id, 'f) segment_result = Deleted | Answer "('id \<times> 'f) list" | Written string

datatype ('id, 'f) segment_phase = Deleting nat "'id list" | Asking "'f list" int | Filling "('id \<times> 'f) list" | Writing | Closing string

fun segment_excl :: "('id, 'f) segment_call \<Rightarrow> bool" where
  "segment_excl (CallDelete n ids) = True"
| "segment_excl c = False"

text \<open>\<open>searchQuery\<close> allocates its arrays, searches, and fills the answer; \<open>serialize\<close> writes the base index, then the identifier.\<close>

fun segment_begins :: "('id, 'f) segment_call \<Rightarrow> 'x Segment \<Rightarrow> ('id, 'f) segment_phase outcome" where
  "segment_begins (CallDelete n ids) s = Inr (Deleting n ids)"
| "segment_begins (CallQuery query k) s = (if k < 0 then Inl LengthError else Inr (Asking query k))"
| "segment_begins CallSerialize s = Inr Writing"

fun segment_moves ::
  "('x, 'id, 'f) IBaseIndex \<Rightarrow> ('id, 'f) segment_phase \<Rightarrow> 'x Segment \<Rightarrow>
    ((('id, 'f) segment_phase + ('id, 'f) segment_result) \<times> 'x Segment) outcome" where
  "segment_moves V (Deleting n ids) s = bindR (seg_deleteBatch V s n ids) (\<lambda>s. Inr (Inr Deleted, s))"
| "segment_moves V (Asking query k) s = bindR (single_search V (seg_index s) (nat k) query) (\<lambda>r. Inr (Inl (Filling r), s))"
| "segment_moves V (Filling r) s = Inr (Inr (Answer (fold (\<lambda>(i, d) m. AList.update i d m) r [])), s)"
| "segment_moves V Writing s = Inr (Inl (Closing (serialize_index V (seg_index s))), s)"
| "segment_moves V (Closing fd) s = Inr (Inr (Written (fd @ writeBinary_size (seg_id s))), s)"

fun segment_calls ::
  "('x, 'id, 'f) IBaseIndex \<Rightarrow> ('id, 'f) segment_call \<Rightarrow> 'x Segment \<Rightarrow> (('id, 'f) segment_result \<times> 'x Segment) outcome" where
  "segment_calls V (CallDelete n ids) s = bindR (seg_deleteBatch V s n ids) (\<lambda>s. Inr (Deleted, s))"
| "segment_calls V (CallQuery query k) s = bindR (seg_searchQuery V s query k) (\<lambda>r. Inr (Answer r, s))"
| "segment_calls V CallSerialize s = Inr (Written (seg_serialize V s), s)"

fun segment_rest ::
  "('x, 'id, 'f) IBaseIndex \<Rightarrow> ('id, 'f) segment_phase \<Rightarrow> 'x Segment \<Rightarrow> (('id, 'f) segment_result \<times> 'x Segment) outcome" where
  "segment_rest V (Deleting n ids) s = segment_calls V (CallDelete n ids) s"
| "segment_rest V (Asking query k) s = bindR (single_search V (seg_index s) (nat k) query)
     (\<lambda>r. Inr (Answer (fold (\<lambda>(i, d) m. AList.update i d m) r []), s))"
| "segment_rest V (Filling r) s = Inr (Answer (fold (\<lambda>(i, d) m. AList.update i d m) r []), s)"
| "segment_rest V Writing s = Inr (Written (seg_serialize V s), s)"
| "segment_rest V (Closing fd) s = Inr (Written (fd @ writeBinary_size (seg_id s)), s)"

fun segment_reads :: "('id, 'f) segment_phase \<Rightarrow> bool" where
  "segment_reads (Deleting n ids) = False"
| "segment_reads p = True"

fun segment_todo :: "('id, 'f) segment_phase \<Rightarrow> nat" where
  "segment_todo (Asking query k) = 1"
| "segment_todo Writing = 1"
| "segment_todo p = 0"

interpretation segment_lock: locked_object segment_excl segment_begins "segment_moves V" "segment_calls V" "segment_rest V" segment_reads segment_todo
  for V :: "('x, 'id, 'f) IBaseIndex"
proof
  fix c :: "('id, 'f) segment_call" and p q :: "('id, 'f) segment_phase" and s s' :: "'x Segment" and x
  show "segment_calls V c s = bindR (segment_begins c s) (\<lambda>p. segment_rest V p s)"
    by (cases c) (auto simp: seg_searchQuery_def bindR_assoc intro!: bindR_cong)
  show "segment_rest V p s = bindR (segment_moves V p s) (\<lambda>(x, s'). case x of Inl q \<Rightarrow> segment_rest V q s' | Inr r \<Rightarrow> Inr (r, s'))"
    by (cases p) (auto simp: bindR_assoc seg_serialize_def intro!: bindR_cong)
  show "segment_begins c s = Inr p \<Longrightarrow> \<not> segment_excl c \<Longrightarrow> segment_reads p" by (cases c) (auto split: if_splits)
  show "segment_reads p \<Longrightarrow> segment_moves V p s = Inr (x, s') \<Longrightarrow> s' = s" by (cases p) (auto simp: bindR_eq_Inr)
  show "segment_reads p \<Longrightarrow> segment_moves V p s = Inr (Inl q, s') \<Longrightarrow> segment_reads q" by (cases p) (auto simp: bindR_eq_Inr)
  show "segment_moves V p s = Inr (Inl q, s') \<Longrightarrow> segment_todo q < segment_todo p" by (cases p) (auto simp: bindR_eq_Inr)
qed

text \<open>The identifiers deleted by the calls of a log.\<close>

fun deleted_ids :: "(('id, 'f) segment_call \<times> ('id, 'f) segment_result) list \<Rightarrow> 'id set" where
  "deleted_ids [] = {}"
| "deleted_ids ((CallDelete n ids, r) # log) = set (take n ids) \<union> deleted_ids log"
| "deleted_ids (x # log) = deleted_ids log"

lemma replays_deletions:
  fixes F :: "('b, 'f::{linorder, zero}) faiss_lib" and it :: "(int \<times> 'id::linorder) list \<Rightarrow> _"
  assumes "replays (segment_calls (faiss_vtable F it ser)) s log s'" and "faiss_ok F vecs dist it (seg_index s)"
    and "\<forall>n ids r. (CallDelete n ids, r) \<in> set log \<longrightarrow> n \<le> length ids"
  shows "seg_id s' = seg_id s \<and> faiss_ok F vecs dist it (seg_index s') \<and>
    faiss_docs vecs (seg_index s') = filter (\<lambda>(i, _). i \<notin> deleted_ids log) (faiss_docs vecs (seg_index s))"
  using assms
proof (induction log arbitrary: s rule: deleted_ids.induct)
  case 1
  then show ?case by simp
next
  case (2 n ids r log)
  have "n \<le> length ids" using 2(4) by auto
  from faiss.seg_delete_docs [OF 2(3) this, of ser] obtain x where x: "seg_deleteBatch (faiss_vtable F it ser) s n ids = Inr (s\<lparr>seg_index := x\<rparr>)"
    "faiss_ok F vecs dist it x" "faiss_docs vecs x = filter (\<lambda>(i, _). i \<notin> set (take n ids)) (faiss_docs vecs (seg_index s))" by blast
  from 2(2) x(1) have "replays (segment_calls (faiss_vtable F it ser)) (s\<lparr>seg_index := x\<rparr>) log s'" by auto
  from 2(1) [OF this] x(2,3) 2(4) show ?case by (auto simp: filter_filter split_def intro: filter_cong)
qed (auto simp: bindR_eq_Inr)

text \<open>
  C23. A segment is written as it is at one moment. A segment is written to a file while other threads
  search it and delete documents from it: the file is the one that writing the segment alone gives, after
  exactly the deletions that returned before the writing did. It holds the documents of the segment
  without those deleted.
\<close>

theorem segment_file_snapshot:
  fixes F :: "('b, 'f::{linorder, zero}) faiss_lib" and it :: "(int \<times> 'id::linorder) list \<Rightarrow> _"
  assumes "rw_run segment_excl segment_begins (segment_moves (faiss_vtable F it ser)) s0 S" and "faiss_ok F vecs dist it (seg_index s0)"
    and "ls_log S = before @ (CallSerialize, Written bytes) # after" and "\<forall>n ids r. (CallDelete n ids, r) \<in> set before \<longrightarrow> n \<le> length ids"
  shows "\<exists>s. bytes = seg_serialize (faiss_vtable F it ser) s \<and> seg_id s = seg_id s0 \<and>
    faiss_docs vecs (seg_index s) = filter (\<lambda>(i, _). i \<notin> deleted_ids before) (faiss_docs vecs (seg_index s0))"
proof -
  from segment_lock.linearizable [OF assms(1)] obtain s'
    where "replays (segment_calls (faiss_vtable F it ser)) s0 (ls_log S) s'" by blast
  then obtain s where s: "replays (segment_calls (faiss_vtable F it ser)) s0 before s" "bytes = seg_serialize (faiss_vtable F it ser) s"
    by (auto simp: assms(3) replays_append)
  from replays_deletions [OF s(1) assms(2,4)] s(2) show ?thesis by blast
qed

theorem segment_file_snapshot_witness:
  "\<exists>(s0 :: (ref_base, nat) FaissIndex Segment) S bytes s.
    faiss_docs ref_vecs (seg_index s0) = [(10, [0, 1]), (11, [0, 2])] \<and>
    rw_run segment_excl segment_begins (segment_moves demo_vtable) s0 S \<and>
    ls_log S = [(CallDelete 1 [10], Deleted), (CallSerialize, Written bytes)] \<and>
    bytes = seg_serialize demo_vtable s \<and> faiss_docs ref_vecs (seg_index s) = [(11, [0, 2])]"
proof -
  let ?e = "\<lparr>seg_index = faiss_new ref_faiss (FlatArgs 2 METRIC_L1), seg_id = 7, seg_type = 0\<rparr> :: (ref_base, nat) FaissIndex Segment"
  have ok: "faiss_ok ref_faiss ref_vecs ref_dist rev (seg_index ?e)"
    using faiss_factory_ok(1) [OF ref_faiss_contract reorders_rev, of "FlatArgs 2 METRIC_L1"] by simp
  have e: "faiss_docs ref_vecs (seg_index ?e) = []" "faiss_known (seg_index ?e) = {}" "fx_d ref_faiss (fi_index (seg_index ?e)) = 2"
    by (simp_all add: faiss_new_def faiss_docs_def faiss_known_def ref_make_dim)
  from faiss.seg_add_docs [OF ok, of 2 "[0, 1, 0, 2]" "[10, 11]" "\<lambda>_. []"] e obtain x :: "(ref_base, nat) FaissIndex"
    where x: "faiss_ok ref_faiss ref_vecs ref_dist rev x" "faiss_docs ref_vecs x = [(10, [0, 1]), (11, [0, 2])]"
    by (auto simp: numeral_2_eq_2)
  let ?s = "?e\<lparr>seg_index := x\<rparr>"
  from faiss.seg_delete_docs [of ref_faiss ref_vecs ref_dist rev ?s 1 "[10]" "\<lambda>_. []"] x(1) obtain y
    where "seg_deleteBatch demo_vtable ?s 1 [10] = Inr (?s\<lparr>seg_index := y\<rparr>)" by auto
  then have "replays (segment_calls demo_vtable) ?s
      [(CallDelete 1 [10], Deleted), (CallSerialize, Written (seg_serialize demo_vtable (?s\<lparr>seg_index := y\<rparr>)))] (?s\<lparr>seg_index := y\<rparr>)" by simp
  from segment_lock.runs_alone [OF this] obtain S bytes where S: "rw_run segment_excl segment_begins (segment_moves demo_vtable) ?s S"
    "ls_log S = [(CallDelete 1 [10], Deleted)] @ (CallSerialize, Written bytes) # []" by (auto simp: lock_system_new_def)
  have ok': "faiss_ok ref_faiss ref_vecs ref_dist rev (seg_index ?s)" using x(1) by simp
  from segment_file_snapshot [OF S(1) ok' S(2)] x(2) obtain s
    where "bytes = seg_serialize demo_vtable s" "faiss_docs ref_vecs (seg_index s) = [(11, [0, 2])]" by auto
  with S x(2) show ?thesis by (intro exI [of _ ?s] exI [of _ S] exI [of _ bytes] exI [of _ s]) simp
qed

end
