(* ===== verification/Bootstrap.thy ===== *)
theory Bootstrap
  imports Writer
begin

text \<open>
  Start-up: the command line and the configuration file (\<open>app/include/BootstrapConfig.h\<close>), the servers
  that are constructed from the configuration (\<open>app/src/Base.cpp\<close> and the constructors of \<open>Searcher\<close>,
  \<open>Writer\<close> and \<open>Coordinator\<close>) and \<open>main\<close>. The argument parser is a parameter of the model, and so is
  what the gRPC server does with a service until \<open>Wait\<close> returns.
\<close>

section \<open>The libraries\<close>

text \<open>\<open>add_argument\<close> with the choices and the default value; the help texts are left out.\<close>

record argument =
  arg_name :: string
  arg_choices :: "string list option"
  arg_default :: string

record 'a argparse_lib =
  ap_new :: "string \<Rightarrow> 'a"
  ap_add_argument :: "argument \<Rightarrow> 'a \<Rightarrow> 'a"
  ap_parse_args :: "string list \<Rightarrow> 'a \<Rightarrow> 'a outcome"
  ap_get :: "'a \<Rightarrow> string \<Rightarrow> string outcome"

text \<open>
  \<open>gr_listen\<close> says whether \<open>BuildAndStart\<close> returns a server for an address; the next three are \<open>Wait\<close>
  for each kind of service, the last one is the transport of the update calls of the writer.
\<close>

record ('b, 'j, 'e, 's, 'p, 'cf, 'gf, 'w) grpc_lib =
  gr_listen :: "string \<Rightarrow> bool"
  gr_searcher :: "(('b, 'e, 's, 'p, 'cf, 'gf) SearcherImpl, unit) proc"
  gr_writer :: "(('b, 'j, 'e, 's, 'p, 'cf, 'gf, 'w) WriterImpl, unit) proc"
  gr_coordinator :: "(('e, 'p, 'cf, 'gf, 'w) CoordinatorImpl, unit) proc"
  gr_update :: "('s, 'w) update_rpc"

section \<open>The configuration\<close>

definition bootstrap_arguments :: "argument list" where
  "bootstrap_arguments = [
     \<lparr>arg_name = ''--config-path'', arg_choices = None, arg_default = ''''\<rparr>,
     \<lparr>arg_name = ''--mode'', arg_choices = Some [''searcher'', ''writer'', ''coordinator'', ''''], arg_default = ''''\<rparr>,
     \<lparr>arg_name = ''--hostname'', arg_choices = None, arg_default = ''''\<rparr>,
     \<lparr>arg_name = ''--listening-port'', arg_choices = None, arg_default = ''''\<rparr>,
     \<lparr>arg_name = ''--output-port'', arg_choices = None, arg_default = ''''\<rparr>,
     \<lparr>arg_name = ''--s3-host'', arg_choices = None, arg_default = ''''\<rparr>,
     \<lparr>arg_name = ''--etcd-address'', arg_choices = None, arg_default = ''''\<rparr>,
     \<lparr>arg_name = ''--indexes'', arg_choices = None, arg_default = ''''\<rparr>]"

text \<open>
  A file that cannot be opened reads as empty. The only handler catches a \<open>type_error\<close> and throws it
  again.
\<close>

definition ReadJsonConfig :: "'j json_lib \<Rightarrow> files \<Rightarrow> string \<Rightarrow> 'j outcome" where
  "ReadJsonConfig J fs config_path =
     (if config_path = '''' then Inr (js_null J)
      else js_parse J (case fs config_path of None \<Rightarrow> '''' | Some text \<Rightarrow> text))"

text \<open>
  \<open>result_[key]\<close> on the value that is not constant: null becomes an object first, and a missing key is
  null. The entry that this creates is assigned at once.
\<close>

definition json_ref :: "'j json_lib \<Rightarrow> 'j \<Rightarrow> string \<Rightarrow> 'j outcome" where
  "json_ref J j key = (if j = js_null J then Inr (js_null J) else js_at J j key)"

definition override_string :: "'j json_lib \<Rightarrow> string \<Rightarrow> string \<Rightarrow> 'j \<Rightarrow> 'j outcome" where
  "override_string J value key result =
     bindR (if value = '''' then bindR (json_ref J result key) (js_get_string J) else Inr value) (\<lambda>v.
       js_set J result key (js_of_string J v))"

definition override_indexes :: "'j json_lib \<Rightarrow> string \<Rightarrow> 'j \<Rightarrow> 'j outcome" where
  "override_indexes J indexes result =
     bindR (if indexes = '''' then json_ref J result ''indexes'' else js_parse J indexes) (\<lambda>v.
       js_set J result ''indexes'' v)"

definition override_settings ::
  "'j json_lib \<Rightarrow> string \<Rightarrow> string \<Rightarrow> string \<Rightarrow> string \<Rightarrow> string \<Rightarrow> string \<Rightarrow> 'j \<Rightarrow> 'j outcome" where
  "override_settings J mode hostname listening_port s3_host etcd_addr indexes result =
     bindR (override_string J mode ''mode'' result) (\<lambda>result.
     bindR (override_string J hostname ''hostname'' result) (\<lambda>result.
     bindR (override_string J listening_port ''port'' result) (\<lambda>result.
     bindR (override_string J s3_host ''s3-host'' result) (\<lambda>result.
     bindR (override_string J etcd_addr ''etcd_address'' result) (\<lambda>result.
       override_indexes J indexes result)))))"

datatype process_end = Exited int | Uncaught cxx_error

definition uncaught :: "'a outcome \<Rightarrow> process_end + 'a" where
  "uncaught r = (case r of Inl e \<Rightarrow> Inl (Uncaught e) | Inr x \<Rightarrow> Inr x)"

definition BootstrapConfig_Parse ::
  "'a argparse_lib \<Rightarrow> 'j json_lib \<Rightarrow> files \<Rightarrow> string list \<Rightarrow> 'a \<Rightarrow> process_end + 'j" where
  "BootstrapConfig_Parse L J fs argv program =
     (case ap_parse_args L argv program of
        Inl err \<Rightarrow> Inl (Exited 1)
      | Inr program \<Rightarrow> uncaught (
          bindR (ap_get L program ''mode'') (\<lambda>mode.
          bindR (ap_get L program ''--config-path'') (\<lambda>config_path.
          bindR (ap_get L program ''--output-port'') (\<lambda>output_port.
          bindR (ap_get L program ''--listening-port'') (\<lambda>listening_port.
          bindR (ap_get L program ''--s3-host'') (\<lambda>s3_host.
          bindR (ap_get L program ''--etcd-address'') (\<lambda>etcd_addr.
          bindR (ap_get L program ''--hostname'') (\<lambda>hostname.
          bindR (ap_get L program ''--indexes'') (\<lambda>indexes.
          bindR (ReadJsonConfig J fs config_path) (\<lambda>result.
          override_settings J mode hostname listening_port s3_host etcd_addr indexes result)))))))))))"

definition BootstrapConfig :: "'a argparse_lib \<Rightarrow> 'j json_lib \<Rightarrow> files \<Rightarrow> string list \<Rightarrow> process_end + 'j" where
  "BootstrapConfig L J fs argv =
     BootstrapConfig_Parse L J fs argv (fold (ap_add_argument L) bootstrap_arguments (ap_new L ''vecodex-app''))"

section \<open>The servers\<close>

text \<open>What a process finds outside: etcd and S3 by address, the files, the searchers, the clock and \<open>rand\<close>.\<close>

record ('e, 's, 'w) environment =
  en_etcd :: "string \<Rightarrow> 'e"
  en_s3 :: "string \<Rightarrow> 's"
  en_files :: files
  en_world :: 'w
  en_clock :: "nat \<Rightarrow> int"
  en_rng :: rng

definition BaseServer :: "'j json_lib \<Rightarrow> 'j \<Rightarrow> (string \<times> string) outcome" where
  "BaseServer J config =
     bindR (json_string J config ''hostname'') (\<lambda>host.
     bindR (json_string J config ''port'') (\<lambda>port. Inr (host, port)))"

text \<open>\<open>BuildAndStart\<close> returns a null pointer when the server cannot listen, which is used unchecked.\<close>

definition InternalRun :: "(string \<Rightarrow> bool) \<Rightarrow> ('st, unit) proc \<Rightarrow> string \<Rightarrow> ('st, unit) proc" where
  "InternalRun listen wait port = (if listen (''[::]:'' @ port) then wait else throwP NullPointer)"

text \<open>The life of a service: its constructor, \<open>Run\<close>, and its destructor at the end of the block in \<open>main\<close>.\<close>

definition searcher_service ::
  "('b, 'f, 'j, 'e, 's, 'p, 'cf, 'gf) pf \<Rightarrow> ('b, 'j, 'e, 's, 'p, 'cf, 'gf, 'w) grpc_lib \<Rightarrow>
    'b shard_index outer_order \<Rightarrow> 'b shard_index inner_order \<Rightarrow>
    string \<Rightarrow> string \<Rightarrow> string \<Rightarrow> string \<Rightarrow> 'j \<Rightarrow> (('e, 's, 'w) environment, unit) proc" where
  "searcher_service pf G ito iti host port etcd_addr s3_host indexes env =
     (case exposer_new (pf_prom pf) ''0.0.0.0:8080'' of
        Inl e \<Rightarrow> (Inl e, env)
      | Inr prom \<Rightarrow>
          (case thenP (searcher_new pf ito iti indexes)
              (thenP (InternalRun (gr_listen G) (gr_searcher G) port) (GracefulShutdown pf ito iti))
              \<lparr>se_host = host, se_port = port, se_etcd = en_etcd env etcd_addr,
               se_storage = storage_new (en_s3 env s3_host) (en_files env), se_prom = prom, se_shards = [],
               se_rng = en_rng env\<rparr> of
            (r, st) \<Rightarrow> (r, env\<lparr>en_etcd := (en_etcd env)(etcd_addr := se_etcd st),
              en_s3 := (en_s3 env)(s3_host := sc_s3 (se_storage st)), en_files := sc_files (se_storage st)\<rparr>)))"

definition writer_service ::
  "('b, 'f::{linorder, zero}, 'j, 'e, 's, 'p, 'cf, 'gf) pf \<Rightarrow> ('b, 'j, 'e, 's, 'p, 'cf, 'gf, 'w) grpc_lib \<Rightarrow>
    ((string \<times> 'j) list \<Rightarrow> (string \<times> 'j) list) \<Rightarrow> nat inner_order \<Rightarrow>
    string \<Rightarrow> string \<Rightarrow> string \<Rightarrow> string \<Rightarrow> 'j \<Rightarrow> (('e, 's, 'w) environment, unit) proc" where
  "writer_service pf G ita itn host port etcd_addr s3_host indexes env =
     (case exposer_new (pf_prom pf) ''0.0.0.0:8080'' of
        Inl e \<Rightarrow> (Inl e, env)
      | Inr prom \<Rightarrow>
          (case thenP (writer_new pf ita itn indexes)
              (thenP (InternalRun (gr_listen G) (gr_writer G) port) (writer_join pf (gr_update G)))
              \<lparr>wr_host = host, wr_port = port, wr_create_args = [], wr_objects = [], wr_shards = [],
               wr_etcd = en_etcd env etcd_addr, wr_storage = storage_new (en_s3 env s3_host) (en_files env),
               wr_prom = prom, wr_rng = en_rng env, wr_queue = [], wr_world = en_world env\<rparr> of
            (r, st) \<Rightarrow> (r, env\<lparr>en_etcd := (en_etcd env)(etcd_addr := wr_etcd st),
              en_s3 := (en_s3 env)(s3_host := sc_s3 (wr_storage st)), en_files := sc_files (wr_storage st),
              en_world := wr_world st\<rparr>)))"

definition coordinator_service ::
  "('b, 'f, 'j, 'e, 's, 'p, 'cf, 'gf) pf \<Rightarrow> ('b, 'j, 'e, 's, 'p, 'cf, 'gf, 'w) grpc_lib \<Rightarrow>
    string \<Rightarrow> string \<Rightarrow> (('e, 's, 'w) environment, unit) proc" where
  "coordinator_service pf G port etcd_addr env =
     (case coordinator_new (pf_etcd pf) (pf_prom pf) (en_etcd env etcd_addr) (en_world env) (en_clock env) of
        Inl e \<Rightarrow> (Inl e, env)
      | Inr st \<Rightarrow>
          (case InternalRun (gr_listen G) (gr_coordinator G) port st of
            (r, st) \<Rightarrow> (r, env\<lparr>en_etcd := (en_etcd env)(etcd_addr := co_etcd st), en_world := co_world st\<rparr>)))"

text \<open>The constructors from the configuration, with the block of \<open>main\<close> that follows.\<close>

definition Searcher_server ::
  "('b, 'f, 'j, 'e, 's, 'p, 'cf, 'gf) pf \<Rightarrow> ('b, 'j, 'e, 's, 'p, 'cf, 'gf, 'w) grpc_lib \<Rightarrow>
    'b shard_index outer_order \<Rightarrow> 'b shard_index inner_order \<Rightarrow> 'j \<Rightarrow> (('e, 's, 'w) environment, unit) proc" where
  "Searcher_server pf G ito iti config =
     bindP (liftP (BaseServer (pf_json pf) config)) (\<lambda>(host, port).
     bindP (liftP (json_string (pf_json pf) config ''etcd_address'')) (\<lambda>etcd_addr.
     bindP (liftP (json_string (pf_json pf) config ''s3-host'')) (\<lambda>s3_host.
     bindP (liftP (js_at (pf_json pf) config ''indexes'')) (\<lambda>indexes.
       searcher_service pf G ito iti host port etcd_addr s3_host indexes))))"

definition Writer_server ::
  "('b, 'f::{linorder, zero}, 'j, 'e, 's, 'p, 'cf, 'gf) pf \<Rightarrow> ('b, 'j, 'e, 's, 'p, 'cf, 'gf, 'w) grpc_lib \<Rightarrow>
    ((string \<times> 'j) list \<Rightarrow> (string \<times> 'j) list) \<Rightarrow> nat inner_order \<Rightarrow> 'j \<Rightarrow> (('e, 's, 'w) environment, unit) proc" where
  "Writer_server pf G ita itn config =
     bindP (liftP (BaseServer (pf_json pf) config)) (\<lambda>(host, port).
     bindP (liftP (json_string (pf_json pf) config ''etcd_address'')) (\<lambda>etcd_addr.
     bindP (liftP (json_string (pf_json pf) config ''s3-host'')) (\<lambda>s3_host.
     bindP (liftP (js_at (pf_json pf) config ''indexes'')) (\<lambda>indexes.
       writer_service pf G ita itn host port etcd_addr s3_host indexes))))"

definition Coordinator_server ::
  "('b, 'f, 'j, 'e, 's, 'p, 'cf, 'gf) pf \<Rightarrow> ('b, 'j, 'e, 's, 'p, 'cf, 'gf, 'w) grpc_lib \<Rightarrow> 'j \<Rightarrow>
    (('e, 's, 'w) environment, unit) proc" where
  "Coordinator_server pf G config =
     bindP (liftP (BaseServer (pf_json pf) config)) (\<lambda>(host, port).
     bindP (liftP (json_string (pf_json pf) config ''etcd_address'')) (\<lambda>etcd_addr.
       coordinator_service pf G port etcd_addr))"

section \<open>The main function\<close>

definition main_modes ::
  "('b, 'f::{linorder, zero}, 'j, 'e, 's, 'p, 'cf, 'gf) pf \<Rightarrow> ('b, 'j, 'e, 's, 'p, 'cf, 'gf, 'w) grpc_lib \<Rightarrow>
    'b shard_index outer_order \<Rightarrow> 'b shard_index inner_order \<Rightarrow> ((string \<times> 'j) list \<Rightarrow> (string \<times> 'j) list) \<Rightarrow>
    nat inner_order \<Rightarrow> 'j \<Rightarrow> (('e, 's, 'w) environment, unit) proc" where
  "main_modes pf G ito iti ita itn config =
     bindP (liftP (json_string (pf_json pf) config ''mode'')) (\<lambda>mode.
       thenP (if mode = ''searcher'' then Searcher_server pf G ito iti config else returnP ())
       (thenP (if mode = ''writer'' then Writer_server pf G ita itn config else returnP ())
       (thenP (if mode = ''coordinator'' then Coordinator_server pf G config else returnP ())
         (throwP (InvalidArgument (''Invalid mode: '' @ mode))))))"

definition main ::
  "('b, 'f::{linorder, zero}, 'j, 'e, 's, 'p, 'cf, 'gf) pf \<Rightarrow> 'a argparse_lib \<Rightarrow>
    ('b, 'j, 'e, 's, 'p, 'cf, 'gf, 'w) grpc_lib \<Rightarrow> 'b shard_index outer_order \<Rightarrow> 'b shard_index inner_order \<Rightarrow>
    ((string \<times> 'j) list \<Rightarrow> (string \<times> 'j) list) \<Rightarrow> nat inner_order \<Rightarrow> string list \<Rightarrow>
    ('e, 's, 'w) environment \<Rightarrow> process_end \<times> ('e, 's, 'w) environment" where
  "main pf L G ito iti ita itn argv env =
     (case BootstrapConfig L (pf_json pf) (en_files env) argv of
        Inl stopped \<Rightarrow> (stopped, env)
      | Inr config \<Rightarrow> (case main_modes pf G ito iti ita itn config env of
          (Inl e, env) \<Rightarrow> (Uncaught e, env) | (Inr _, env) \<Rightarrow> (Exited 0, env)))"

section \<open>Command lines\<close>

text \<open>
  The documented behaviour of the parser, for options \<open>--name value\<close>: it accepts the values that are
  among the choices; a value that was not given is the default; the dashes can be left out in \<open>get\<close>.
\<close>

definition option_name :: "string \<Rightarrow> bool" where
  "option_name n \<longleftrightarrow> take 2 n = ''--'' \<and> 2 < length n \<and> n ! 2 \<noteq> CHR ''-''"

definition option_words :: "(string \<times> string) list \<Rightarrow> string list" where
  "option_words given = concat (map (\<lambda>(n, v). [n, v]) given)"

definition declared :: "argument list \<Rightarrow> bool" where
  "declared args \<longleftrightarrow> distinct (map arg_name args) \<and> (\<forall>a \<in> set args. option_name (arg_name a))"

definition options_of :: "argument list \<Rightarrow> (string \<times> string) list \<Rightarrow> bool" where
  "options_of args given \<longleftrightarrow> distinct (map fst given) \<and>
     (\<forall>(n, v) \<in> set given. n \<in> arg_name ` set args \<and> take 1 v \<noteq> ''-'')"

definition chosen :: "argument list \<Rightarrow> (string \<times> string) list \<Rightarrow> bool" where
  "chosen args given \<longleftrightarrow> (\<forall>a \<in> set args. case map_of given (arg_name a) of None \<Rightarrow> True
     | Some v \<Rightarrow> (case arg_choices a of None \<Rightarrow> True | Some cs \<Rightarrow> v \<in> set cs))"

definition option_value :: "(string \<times> string) list \<Rightarrow> argument \<Rightarrow> string" where
  "option_value given a = (case map_of given (arg_name a) of Some v \<Rightarrow> v | None \<Rightarrow> arg_default a)"

definition argparse_contract :: "'a argparse_lib \<Rightarrow> bool" where
  "argparse_contract L \<longleftrightarrow> (\<forall>args given prog name. declared args \<longrightarrow> options_of args given \<longrightarrow>
     (if chosen args given
      then \<exists>p. ap_parse_args L (prog # option_words given) (fold (ap_add_argument L) args (ap_new L name)) = Inr p \<and>
        (\<forall>a \<in> set args. ap_get L p (arg_name a) = Inr (option_value given a) \<and>
           ap_get L p (drop 2 (arg_name a)) = Inr (option_value given a))
      else \<exists>e. ap_parse_args L (prog # option_words given) (fold (ap_add_argument L) args (ap_new L name)) = Inl e))"

text \<open>The documented behaviour of JSON objects; \<open>obj\<close> are the fields of a value that is an object.\<close>

definition json_objects :: "'j json_lib \<Rightarrow> ('j \<Rightarrow> (string \<rightharpoonup> 'j) option) \<Rightarrow> bool" where
  "json_objects J obj \<longleftrightarrow> obj (js_null J) = None \<and>
     (\<forall>j m key. obj j = Some m \<longrightarrow> js_at J j key = Inr (case m key of None \<Rightarrow> js_null J | Some v \<Rightarrow> v)) \<and>
     (\<forall>j m key v. obj j = Some m \<longrightarrow> (\<exists>j'. js_set J j key v = Inr j' \<and> obj j' = Some (m(key \<mapsto> v)))) \<and>
     (\<forall>key v. \<exists>j'. js_set J (js_null J) key v = Inr j' \<and> obj j' = Some [key \<mapsto> v]) \<and>
     (\<forall>s. js_get_string J (js_of_string J s) = Inr s) \<and> (\<exists>e. js_get_string J (js_null J) = Inl e)"

section \<open>Settings\<close>

text \<open>
  What the configuration means: an option that is given and not empty counts, otherwise the field of
  the configuration file, which has to be a string then. The indexes may be missing.
\<close>

record 'j settings =
  cf_mode :: string
  cf_hostname :: string
  cf_port :: string
  cf_s3_host :: string
  cf_etcd_address :: string
  cf_indexes :: 'j

definition given_option :: "(string \<times> string) list \<Rightarrow> string \<Rightarrow> string" where
  "given_option given n = (case map_of given n of None \<Rightarrow> '''' | Some v \<Rightarrow> v)"

definition setting :: "'j json_lib \<Rightarrow> string \<Rightarrow> (string \<rightharpoonup> 'j) \<Rightarrow> string \<Rightarrow> string option" where
  "setting J value m key =
     (if value \<noteq> '''' then Some value
      else case m key of None \<Rightarrow> None | Some j \<Rightarrow> (case js_get_string J j of Inl _ \<Rightarrow> None | Inr s \<Rightarrow> Some s))"

definition index_setting :: "'j json_lib \<Rightarrow> string \<Rightarrow> (string \<rightharpoonup> 'j) \<Rightarrow> 'j option" where
  "index_setting J value m =
     (if value \<noteq> '''' then (case js_parse J value of Inl _ \<Rightarrow> None | Inr j \<Rightarrow> Some j)
      else Some (case m ''indexes'' of None \<Rightarrow> js_null J | Some j \<Rightarrow> j))"

definition settings_of :: "'j json_lib \<Rightarrow> (string \<times> string) list \<Rightarrow> (string \<rightharpoonup> 'j) \<Rightarrow> 'j settings option" where
  "settings_of J given m =
     Option.bind (setting J (given_option given ''--mode'') m ''mode'') (\<lambda>mode.
     Option.bind (setting J (given_option given ''--hostname'') m ''hostname'') (\<lambda>hostname.
     Option.bind (setting J (given_option given ''--listening-port'') m ''port'') (\<lambda>port.
     Option.bind (setting J (given_option given ''--s3-host'') m ''s3-host'') (\<lambda>s3_host.
     Option.bind (setting J (given_option given ''--etcd-address'') m ''etcd_address'') (\<lambda>etcd_address.
     Option.bind (index_setting J (given_option given ''--indexes'') m) (\<lambda>indexes.
       Some \<lparr>cf_mode = mode, cf_hostname = hostname, cf_port = port, cf_s3_host = s3_host,
         cf_etcd_address = etcd_address, cf_indexes = indexes\<rparr>))))))"

text \<open>The fields that the configuration file provides, none without a file.\<close>

definition config_file ::
  "'j json_lib \<Rightarrow> ('j \<Rightarrow> (string \<rightharpoonup> 'j) option) \<Rightarrow> files \<Rightarrow> string \<Rightarrow> (string \<rightharpoonup> 'j) \<Rightarrow> bool" where
  "config_file J obj fs path m \<longleftrightarrow>
     (if path = '''' then m = Map.empty
      else \<exists>text j. fs path = Some text \<and> js_parse J text = Inr j \<and> obj j = Some m)"

text \<open>A computation that fails exactly when there is no result, and otherwise returns one that fits.\<close>

definition agrees :: "('a \<Rightarrow> 'j \<Rightarrow> bool) \<Rightarrow> 'j outcome \<Rightarrow> 'a option \<Rightarrow> bool" where
  "agrees P r x = (case x of None \<Rightarrow> \<exists>e. r = Inl e | Some a \<Rightarrow> \<exists>j. r = Inr j \<and> P a j)"

lemma agrees_bind:
  assumes "agrees Q r x" and "\<And>a j. Q a j \<Longrightarrow> agrees P (f j) (g a)"
  shows "agrees P (bindR r f) (Option.bind x g)"
proof (cases x)
  case None
  with assms(1) show ?thesis by (auto simp: agrees_def)
next
  case (Some a)
  with assms(1) obtain j where "r = Inr j" "Q a j" by (auto simp: agrees_def)
  with Some assms(2) show ?thesis by simp
qed

lemma agrees_result: "agrees (\<lambda>a. P (h a)) r x \<Longrightarrow> agrees P r (Option.bind x (\<lambda>a. Some (h a)))"
  by (cases x) (simp_all add: agrees_def)

text \<open>The fields of the result so far, which is null in the beginning without a file.\<close>

definition fields :: "'j json_lib \<Rightarrow> ('j \<Rightarrow> (string \<rightharpoonup> 'j) option) \<Rightarrow> 'j \<Rightarrow> (string \<rightharpoonup> 'j) \<Rightarrow> bool" where
  "fields J obj j m \<longleftrightarrow> obj j = Some m \<or> (j = js_null J \<and> m = Map.empty)"

lemma fields_ref:
  assumes "json_objects J obj" and "fields J obj j m"
  shows "json_ref J j key = Inr (case m key of None \<Rightarrow> js_null J | Some v \<Rightarrow> v)"
  using assms by (auto simp: json_objects_def fields_def json_ref_def)

lemma fields_set:
  assumes "json_objects J obj" and "fields J obj j m"
  shows "\<exists>j'. js_set J j key v = Inr j' \<and> obj j' = Some (m(key \<mapsto> v))"
  using assms(2) unfolding fields_def
proof
  assume "obj j = Some m"
  with assms(1) show ?thesis unfolding json_objects_def by blast
next
  assume "j = js_null J \<and> m = Map.empty"
  with assms(1) show ?thesis unfolding json_objects_def by simp
qed

lemma override_string_ok:
  assumes J: "json_objects J obj" and "fields J obj j m"
  shows "agrees (\<lambda>s j'. fields J obj j' (m(key \<mapsto> js_of_string J s))) (override_string J value key j) (setting J value m key)"
proof -
  have "\<exists>e. js_get_string J (js_null J) = Inl e" using J by (simp add: json_objects_def)
  with fields_set [OF assms] show ?thesis
    by (auto simp: agrees_def setting_def override_string_def fields_ref [OF assms] fields_def bindR_def split: option.split sum.split)
qed

lemma override_indexes_ok:
  assumes "json_objects J obj" and "fields J obj j m"
  shows "agrees (\<lambda>v j'. obj j' = Some (m(''indexes'' \<mapsto> v))) (override_indexes J value j) (index_setting J value m)"
  using fields_set [OF assms]
  by (auto simp: agrees_def index_setting_def override_indexes_def fields_ref [OF assms] bindR_def split: option.split sum.split)

lemma setting_other [simp]: "key' \<noteq> key \<Longrightarrow> setting J value (m(key' \<mapsto> v)) key = setting J value m key"
  by (simp add: setting_def)

lemma index_setting_other [simp]: "key' \<noteq> ''indexes'' \<Longrightarrow> index_setting J value (m(key' \<mapsto> v)) = index_setting J value m"
  by (simp add: index_setting_def)

lemma read_config:
  assumes "config_file J obj fs path m"
  shows "\<exists>j. ReadJsonConfig J fs path = Inr j \<and> fields J obj j m"
  using assms by (auto simp: config_file_def ReadJsonConfig_def fields_def split: if_splits)

definition holds_settings :: "'j json_lib \<Rightarrow> 'j settings \<Rightarrow> 'j \<Rightarrow> bool" where
  "holds_settings J cf j \<longleftrightarrow> json_string J j ''mode'' = Inr (cf_mode cf) \<and> json_string J j ''hostname'' = Inr (cf_hostname cf) \<and>
     json_string J j ''port'' = Inr (cf_port cf) \<and> json_string J j ''s3-host'' = Inr (cf_s3_host cf) \<and>
     json_string J j ''etcd_address'' = Inr (cf_etcd_address cf) \<and> js_at J j ''indexes'' = Inr (cf_indexes cf)"

lemma override_next:
  assumes "json_objects J obj" and "fields J obj j m" and "setting J value m0 key = setting J value m key"
    and "\<And>s j'. fields J obj j' (m(key \<mapsto> js_of_string J s)) \<Longrightarrow> agrees P (f j') (g s)"
  shows "agrees P (bindR (override_string J value key j) f) (Option.bind (setting J value m0 key) g)"
  unfolding assms(3) using agrees_bind [OF override_string_ok [OF assms(1,2)]] assms(4) by blast

lemma override_last:
  assumes "json_objects J obj" and "fields J obj j m" and "index_setting J value m0 = index_setting J value m"
    and "\<And>i j'. obj j' = Some (m(''indexes'' \<mapsto> i)) \<Longrightarrow> P (h i) j'"
  shows "agrees P (override_indexes J value j) (Option.bind (index_setting J value m0) (\<lambda>i. Some (h i)))"
  using override_indexes_ok [OF assms(1,2), of "value"] assms(4)
  by (intro agrees_result) (auto simp: assms(3) agrees_def split: option.splits)

lemma override_settings_ok:
  assumes J: "json_objects J obj" and "fields J obj j m"
  shows "agrees (holds_settings J)
    (override_settings J (given_option given ''--mode'') (given_option given ''--hostname'') (given_option given ''--listening-port'')
      (given_option given ''--s3-host'') (given_option given ''--etcd-address'') (given_option given ''--indexes'') j)
    (settings_of J given m)"
proof -
  have get: "js_at J j key = Inr (case m key of None \<Rightarrow> js_null J | Some v \<Rightarrow> v)" if "obj j = Some m" for j m key
    using J that by (simp add: json_objects_def)
  have str: "js_get_string J (js_of_string J s) = Inr s" for s using J by (simp add: json_objects_def)
  show ?thesis
    unfolding override_settings_def settings_of_def
    by (rule override_next [OF J] override_last [OF J], use assms(2) in \<open>assumption | simp\<close>, simp)+
      (simp add: holds_settings_def json_string_def get str)
qed

lemma bootstrap_declared: "declared bootstrap_arguments"
  by (simp add: declared_def bootstrap_arguments_def option_name_def)

lemma bootstrap_option_value: "a \<in> set bootstrap_arguments \<Longrightarrow> option_value given a = given_option given (arg_name a)"
  by (auto simp: bootstrap_arguments_def option_value_def given_option_def split: option.split)

lemma bootstrap_options:
  assumes L: "argparse_contract L" and given: "options_of bootstrap_arguments given" "chosen bootstrap_arguments given"
  shows "\<exists>p. ap_parse_args L (prog # option_words given) (fold (ap_add_argument L) bootstrap_arguments (ap_new L name)) = Inr p \<and>
    (\<forall>n \<in> {''--config-path'', ''--mode'', ''--hostname'', ''--listening-port'', ''--output-port'', ''--s3-host'',
        ''--etcd-address'', ''--indexes''}.
       ap_get L p n = Inr (given_option given n) \<and> ap_get L p (drop 2 n) = Inr (given_option given n))"
proof -
  from L bootstrap_declared given obtain p
    where p: "ap_parse_args L (prog # option_words given) (fold (ap_add_argument L) bootstrap_arguments (ap_new L name)) = Inr p"
      and get: "\<forall>a \<in> set bootstrap_arguments. ap_get L p (arg_name a) = Inr (option_value given a) \<and>
        ap_get L p (drop 2 (arg_name a)) = Inr (option_value given a)"
    unfolding argparse_contract_def by (metis (no_types, lifting))
  have "\<forall>n \<in> arg_name ` set bootstrap_arguments. ap_get L p n = Inr (given_option given n) \<and> ap_get L p (drop 2 n) = Inr (given_option given n)"
    using get bootstrap_option_value by auto
  then show ?thesis using p by (simp add: bootstrap_arguments_def)
qed

lemma BootstrapConfig_ok:
  assumes L: "argparse_contract L" and J: "json_objects J obj" and given: "options_of bootstrap_arguments given" "chosen bootstrap_arguments given"
    and conf: "config_file J obj fs (given_option given ''--config-path'') m"
  shows "case settings_of J given m of
      None \<Rightarrow> \<exists>e. BootstrapConfig L J fs (prog # option_words given) = Inl (Uncaught e)
    | Some cf \<Rightarrow> \<exists>j. BootstrapConfig L J fs (prog # option_words given) = Inr j \<and> holds_settings J cf j"
proof -
  from bootstrap_options [OF L given] obtain p
    where p: "ap_parse_args L (prog # option_words given) (fold (ap_add_argument L) bootstrap_arguments (ap_new L ''vecodex-app'')) = Inr p"
      "ap_get L p ''mode'' = Inr (given_option given ''--mode'')" "ap_get L p ''--config-path'' = Inr (given_option given ''--config-path'')"
      "ap_get L p ''--output-port'' = Inr (given_option given ''--output-port'')"
      "ap_get L p ''--listening-port'' = Inr (given_option given ''--listening-port'')"
      "ap_get L p ''--s3-host'' = Inr (given_option given ''--s3-host'')"
      "ap_get L p ''--etcd-address'' = Inr (given_option given ''--etcd-address'')"
      "ap_get L p ''--hostname'' = Inr (given_option given ''--hostname'')"
      "ap_get L p ''--indexes'' = Inr (given_option given ''--indexes'')" by auto
  from read_config [OF conf] obtain j
    where j: "ReadJsonConfig J fs (given_option given ''--config-path'') = Inr j" "fields J obj j m" by blast
  show ?thesis
    using override_settings_ok [OF J j(2), of given]
    by (cases "settings_of J given m") (auto simp: BootstrapConfig_def BootstrapConfig_Parse_def p j(1) agrees_def uncaught_def)
qed

section \<open>What the program does\<close>

definition selected_service ::
  "('b, 'f::{linorder, zero}, 'j, 'e, 's, 'p, 'cf, 'gf) pf \<Rightarrow> ('b, 'j, 'e, 's, 'p, 'cf, 'gf, 'w) grpc_lib \<Rightarrow>
    'b shard_index outer_order \<Rightarrow> 'b shard_index inner_order \<Rightarrow> ((string \<times> 'j) list \<Rightarrow> (string \<times> 'j) list) \<Rightarrow>
    nat inner_order \<Rightarrow> 'j settings \<Rightarrow> (('e, 's, 'w) environment, unit) proc" where
  "selected_service pf G ito iti ita itn cf =
     (if cf_mode cf = ''searcher'' then
        searcher_service pf G ito iti (cf_hostname cf) (cf_port cf) (cf_etcd_address cf) (cf_s3_host cf) (cf_indexes cf)
      else if cf_mode cf = ''writer'' then
        writer_service pf G ita itn (cf_hostname cf) (cf_port cf) (cf_etcd_address cf) (cf_s3_host cf) (cf_indexes cf)
      else if cf_mode cf = ''coordinator'' then coordinator_service pf G (cf_port cf) (cf_etcd_address cf)
      else returnP ())"

lemma main_modes_selected:
  assumes "holds_settings (pf_json pf) cf j"
  shows "main_modes pf G ito iti ita itn j =
    thenP (selected_service pf G ito iti ita itn cf) (throwP (InvalidArgument (''Invalid mode: '' @ cf_mode cf)))"
  using assms unfolding holds_settings_def
  by (auto simp: main_modes_def selected_service_def Searcher_server_def Writer_server_def Coordinator_server_def
      BaseServer_def proc_defs fun_eq_iff split: prod.split sum.split)

text \<open>
  C33. Start-up. A command line whose mode is not one of the choices ends the program with exit code 1.
  Otherwise every setting is the option of the command line or, when this is missing or empty, the field
  of the configuration file; when one of them is missing altogether the program ends by an exception
  before it has touched anything. With all settings present it runs the server of its mode with exactly
  these settings, and ends by an exception in any case: the one of the server, or, when the server has
  shut down properly, \<open>invalid_argument\<close>.
\<close>

theorem main_settings:
  fixes pf :: "('b, 'f::{linorder, zero}, 'j, 'e, 's, 'p, 'cf, 'gf) pf"
  assumes "argparse_contract L" and "json_objects (pf_json pf) obj" and "options_of bootstrap_arguments given"
    and "config_file (pf_json pf) obj (en_files env) (given_option given ''--config-path'') m"
  shows "\<exists>e. main pf L G ito iti ita itn (prog # option_words given) env =
    (if \<not> chosen bootstrap_arguments given then (Exited 1, env)
     else case settings_of (pf_json pf) given m of
       None \<Rightarrow> (Uncaught e, env)
     | Some cf \<Rightarrow> (case selected_service pf G ito iti ita itn cf env of
         (Inl e', env') \<Rightarrow> (Uncaught e', env')
       | (Inr _, env') \<Rightarrow> (Uncaught (InvalidArgument (''Invalid mode: '' @ cf_mode cf)), env')))"
proof (cases "chosen bootstrap_arguments given")
  case False
  from assms(1,3) bootstrap_declared False obtain err
    where "ap_parse_args L (prog # option_words given) (fold (ap_add_argument L) bootstrap_arguments (ap_new L ''vecodex-app'')) = Inl err"
    unfolding argparse_contract_def by (metis (no_types, lifting))
  then show ?thesis using False by (simp add: main_def BootstrapConfig_def BootstrapConfig_Parse_def)
next
  case True
  note B = BootstrapConfig_ok [OF assms(1,2,3) True assms(4), of prog]
  show ?thesis
  proof (cases "settings_of (pf_json pf) given m")
    case None
    with B True show ?thesis by (auto simp: main_def)
  next
    case (Some cf)
    with B obtain j where j: "BootstrapConfig L (pf_json pf) (en_files env) (prog # option_words given) = Inr j"
      "holds_settings (pf_json pf) cf j" by auto
    show ?thesis using True Some
      by (simp add: main_def j(1) main_modes_selected [OF j(2)] thenP_def bindP_def throwP_def split: prod.split sum.split)
  qed
qed

section \<open>Reference instances and a witness\<close>

definition ref_fields :: "ref_json \<Rightarrow> (string \<rightharpoonup> ref_json) option" where
  "ref_fields j = (case j of JObject fs \<Rightarrow> Some (map_of fs) | _ \<Rightarrow> None)"

lemma ref_json_objects: "json_objects ref_json_lib ref_fields"
  unfolding json_objects_def
  by (auto simp: ref_json_lib_def ref_fields_def update_conv' split: ref_json.splits option.split)

fun ref_pairs :: "string list \<Rightarrow> (string \<times> string) list" where
  "ref_pairs (n # v # ws) = (n, v) # ref_pairs ws"
| "ref_pairs _ = []"

lemma ref_pairs_words [simp]: "ref_pairs (option_words given) = given"
  by (induction given) (auto simp: option_words_def)

definition ref_argparse :: "(argument list \<times> (string \<times> string) list) argparse_lib" where
  "ref_argparse = \<lparr>
     ap_new = (\<lambda>_. ([], [])),
     ap_add_argument = (\<lambda>a (args, given). (args @ [a], given)),
     ap_parse_args = (\<lambda>argv (args, given).
       if chosen args (ref_pairs (tl argv)) then Inr (args, ref_pairs (tl argv)) else Inl (RuntimeError ''Invalid argument'')),
     ap_get = (\<lambda>(args, given) n. case find (\<lambda>a. arg_name a = n \<or> arg_name a = ''--'' @ n) args of
       None \<Rightarrow> Inl (LibraryError ''logic_error'') | Some a \<Rightarrow> Inr (option_value given a))\<rparr>"

lemma ref_declare: "fold (ap_add_argument ref_argparse) args (as, given) = (as @ args, given)"
  by (induction args arbitrary: as) (simp_all add: ref_argparse_def)

lemma find_unique:
  assumes "a \<in> set as" and "P a" and "\<And>b. b \<in> set as \<Longrightarrow> P b \<Longrightarrow> b = a"
  shows "find P as = Some a"
  using assms
proof (induction as)
  case (Cons x xs)
  show ?case
  proof (cases "P x")
    case True
    then have "x = a" by (intro Cons.prems(3)) simp_all
    with True show ?thesis by simp
  next
    case False
    with Cons.prems(1,2) have "a \<in> set xs" by auto
    from Cons.IH [OF this Cons.prems(2)] Cons.prems(3) have "find P xs = Some a" by (simp only: list.set_intros)
    with False show ?thesis by simp
  qed
qed simp

lemma option_name_split:
  assumes "option_name n"
  obtains c cs where "n = CHR ''-'' # CHR ''-'' # c # cs" and "c \<noteq> CHR ''-''"
proof -
  have "drop 2 n \<noteq> []" and two: "take 2 n = ''--''" using assms by (simp_all add: option_name_def)
  then obtain c cs where "drop 2 n = c # cs" by (cases "drop 2 n") simp_all
  with append_take_drop_id [of 2 n] two have n: "n = CHR ''-'' # CHR ''-'' # c # cs" by simp
  moreover from this assms have "c \<noteq> CHR ''-''" by (simp add: option_name_def)
  ultimately show thesis by (rule that)
qed

lemma ref_find:
  assumes "declared args" and "a \<in> set args" and "n = arg_name a \<or> n = drop 2 (arg_name a)"
  shows "find (\<lambda>b. arg_name b = n \<or> arg_name b = ''--'' @ n) args = Some a"
proof (rule find_unique [OF assms(2)])
  from assms(1,2) have "option_name (arg_name a)" by (simp add: declared_def)
  then obtain c cs where c: "arg_name a = CHR ''-'' # CHR ''-'' # c # cs" "c \<noteq> CHR ''-''" by (rule option_name_split)
  then show "arg_name a = n \<or> arg_name a = ''--'' @ n" using assms(3) by auto
  fix b assume b: "b \<in> set args" "arg_name b = n \<or> arg_name b = ''--'' @ n"
  from assms(1) b(1) have "option_name (arg_name b)" by (simp add: declared_def)
  then obtain d ds where d: "arg_name b = CHR ''-'' # CHR ''-'' # d # ds" "d \<noteq> CHR ''-''" by (rule option_name_split)
  have "arg_name b = arg_name a" using assms(3) b(2) c d by auto
  with assms(1,2) b(1) show "b = a" by (auto simp: declared_def distinct_map dest: inj_onD)
qed

lemma ref_argparse_contract: "argparse_contract ref_argparse"
  unfolding argparse_contract_def
proof (intro allI impI)
  fix args given prog name assume decl: "declared args"
  have new: "fold (ap_add_argument ref_argparse) args (ap_new ref_argparse name) = (args, [])"
    using ref_declare [of args "[]" "[]"] by (simp add: ref_argparse_def)
  have "ap_get ref_argparse (args, given) (arg_name a) = Inr (option_value given a)"
    "ap_get ref_argparse (args, given) (drop 2 (arg_name a)) = Inr (option_value given a)" if "a \<in> set args" for a
    using ref_find [OF decl that] by (simp_all add: ref_argparse_def)
  moreover have "ap_parse_args ref_argparse (prog # option_words given) (args, []) =
      (if chosen args given then Inr (args, given) else Inl (RuntimeError ''Invalid argument''))"
    by (simp add: ref_argparse_def)
  ultimately show "if chosen args given
      then \<exists>p. ap_parse_args ref_argparse (prog # option_words given) (fold (ap_add_argument ref_argparse) args (ap_new ref_argparse name)) = Inr p \<and>
        (\<forall>a \<in> set args. ap_get ref_argparse p (arg_name a) = Inr (option_value given a) \<and>
           ap_get ref_argparse p (drop 2 (arg_name a)) = Inr (option_value given a))
      else \<exists>e. ap_parse_args ref_argparse (prog # option_words given) (fold (ap_add_argument ref_argparse) args (ap_new ref_argparse name)) = Inl e"
    unfolding new by simp
qed

definition demo_options :: "(string \<times> string) list" where
  "demo_options = [(''--config-path'', ''c''), (''--mode'', ''searcher''), (''--hostname'', ''h''),
     (''--listening-port'', ''1''), (''--s3-host'', ''s3''), (''--etcd-address'', ''etcd'')]"

abbreviation "demo_grpc \<equiv> \<lparr>gr_listen = (\<lambda>a. a = ''[::]:1''), gr_searcher = returnP (), gr_writer = returnP (),
  gr_coordinator = returnP (), gr_update = (\<lambda>_ _ w. (0, w))\<rparr>"

abbreviation "demo_environment \<equiv> \<lparr>en_etcd = (\<lambda>_. []), en_s3 = (\<lambda>_. ({}, Map.empty)), en_files = [''c'' \<mapsto> ''{}''],
  en_world = (), en_clock = int, en_rng = (\<lambda>n. n)\<rparr>"

theorem main_settings_witness:
  "\<exists>env'. main ref_platform ref_argparse demo_grpc rev rev rev rev
     [''vecodex'', ''--config-path'', ''c'', ''--mode'', ''searcher'', ''--hostname'', ''h'', ''--listening-port'', ''1'',
      ''--s3-host'', ''s3'', ''--etcd-address'', ''etcd''] demo_environment =
     (Uncaught (InvalidArgument ''Invalid mode: searcher''), env')"
proof -
  have given: "options_of bootstrap_arguments demo_options"
    by (simp add: options_of_def demo_options_def bootstrap_arguments_def)
  have ch: "chosen bootstrap_arguments demo_options"
    by (simp add: chosen_def demo_options_def bootstrap_arguments_def)
  have conf: "config_file (pf_json ref_platform) ref_fields (en_files demo_environment) (given_option demo_options ''--config-path'') Map.empty"
    by (simp add: config_file_def given_option_def demo_options_def ref_platform_simps ref_json_lib_def ref_fields_def)
  have set: "settings_of ref_json_lib demo_options Map.empty =
      Some \<lparr>cf_mode = ''searcher'', cf_hostname = ''h'', cf_port = ''1'', cf_s3_host = ''s3'', cf_etcd_address = ''etcd'', cf_indexes = JNull\<rparr>"
    by (simp add: settings_of_def setting_def index_setting_def given_option_def demo_options_def ref_platform_simps ref_json_lib_def)
  have J: "json_objects (pf_json ref_platform) ref_fields" using ref_json_objects by (simp add: ref_platform_simps)
  have run: "\<exists>env'. searcher_service ref_platform demo_grpc rev rev ''h'' ''1'' ''etcd'' ''s3'' JNull demo_environment = (Inr (), env')"
    by (simp add: searcher_service_def ref_platform_simps exposer_new_def ref_prom_def searcher_new_def searcher_Init_def GracefulShutdown_def
        InternalRun_def shard_names_def ref_json_lib_def proc_defs searcher_storage_def logIn_def storage_new_def)
  have words: "[''vecodex'', ''--config-path'', ''c'', ''--mode'', ''searcher'', ''--hostname'', ''h'', ''--listening-port'', ''1'',
      ''--s3-host'', ''s3'', ''--etcd-address'', ''etcd''] = ''vecodex'' # option_words demo_options"
    by (simp add: option_words_def demo_options_def)
  from main_settings [OF ref_argparse_contract J given conf, of demo_grpc rev rev rev rev "''vecodex''"] run
  show ?thesis unfolding words by (auto simp: ch set selected_service_def)
qed

end
