(* ===== verification/Kube_Operator.thy ===== *)
theory Kube_Operator
  imports Vecodex_Prelude
begin

text \<open>
  The Kubernetes operator (\<open>kube-operator/internal/controller/vecodexset_controller.go\<close> and
  \<open>kube-operator/api/v1alpha1/vecodexset_types.go\<close>): it brings the deployments and the ingress of a
  \<open>VecodexSet\<close> to what its specification asks for. The client of the API server and the functions of
  \<open>controllerutil\<close> are parameters; logging and the registration of the types are left out.
\<close>

section \<open>The types\<close>

text \<open>\<open>om_controller\<close> is the owner reference that is marked as controller; \<open>Resources\<close> stay opaque.\<close>

record ObjectMeta =
  om_name :: string
  om_namespace :: string
  om_uid :: string
  om_labels :: "(string \<times> string) list"
  om_controller :: "string option"

record 'r NodeSpec =
  nd_Image :: string
  nd_Replicas :: "int option"
  nd_Command :: "string list"
  nd_Resources :: 'r

record IngressSpec =
  is_Host :: string

record 'r VecodexSetSpec =
  sp_Coordinator :: "'r NodeSpec"
  sp_Writer :: "'r NodeSpec"
  sp_Searcher :: "'r NodeSpec"
  sp_Ingress :: IngressSpec

record 'r VecodexSet =
  vs_meta :: ObjectMeta
  vs_spec :: "'r VecodexSetSpec"

text \<open>The part of the types of Kubernetes that the controller fills in.\<close>

record 'r Container =
  ct_name :: string
  ct_image :: string
  ct_command :: "string list"
  ct_resources :: 'r

record 'r DeploymentSpec =
  ds_replicas :: "int option"
  ds_match_labels :: "(string \<times> string) list"
  ds_template_labels :: "(string \<times> string) list"
  ds_containers :: "'r Container list"

record 'r Deployment =
  dp_meta :: ObjectMeta
  dp_spec :: "'r DeploymentSpec"

datatype path_type = PathTypeExact | PathTypePrefix | PathTypeImplementationSpecific

record ingress_path =
  ip_path :: string
  ip_type :: path_type
  ip_service :: string
  ip_port :: int

record ingress_rule =
  ir_host :: string
  ir_paths :: "ingress_path list"

record Ingress =
  in_meta :: ObjectMeta
  in_rules :: "ingress_rule list"

datatype kube_error = NotFound | KubeError string

type_synonym 'a answer = "kube_error + 'a"

text \<open>
  \<open>kb_get\<close> fetches a \<open>VecodexSet\<close> by namespace and name; \<open>kb_apply_\<dots>\<close> is \<open>CreateOrUpdate\<close> with the
  function that changes the object; \<open>kb_set_controller\<close> is \<open>SetControllerReference\<close>.
\<close>

record ('k, 'r) kube_lib =
  kb_get :: "string \<times> string \<Rightarrow> 'k \<Rightarrow> 'r VecodexSet answer"
  kb_apply_deployment :: "'r Deployment \<Rightarrow> ('r Deployment \<Rightarrow> 'r Deployment answer) \<Rightarrow> 'k \<Rightarrow> unit answer \<times> 'k"
  kb_apply_ingress :: "Ingress \<Rightarrow> (Ingress \<Rightarrow> Ingress answer) \<Rightarrow> 'k \<Rightarrow> unit answer \<times> 'k"
  kb_set_controller :: "ObjectMeta \<Rightarrow> ObjectMeta \<Rightarrow> ObjectMeta answer"

section \<open>The controller\<close>

abbreviation new_meta :: "string \<Rightarrow> string \<Rightarrow> ObjectMeta" where
  "new_meta n ns \<equiv> \<lparr>om_name = n, om_namespace = ns, om_uid = '''', om_labels = [], om_controller = None\<rparr>"

definition deployment_spec :: "string \<Rightarrow> string \<Rightarrow> 'r NodeSpec \<Rightarrow> 'r DeploymentSpec" where
  "deployment_spec set_name name spec = \<lparr>
     ds_replicas = nd_Replicas spec,
     ds_match_labels = [(''app'', set_name @ ''-'' @ name)],
     ds_template_labels = [(''app'', set_name @ ''-'' @ name)],
     ds_containers = [\<lparr>ct_name = name, ct_image = nd_Image spec, ct_command = [], ct_resources = nd_Resources spec\<rparr>]\<rparr>"

definition new_deployment :: "string \<Rightarrow> string \<Rightarrow> 'r Deployment" where
  "new_deployment n ns = \<lparr>dp_meta = new_meta n ns,
     dp_spec = \<lparr>ds_replicas = None, ds_match_labels = [], ds_template_labels = [], ds_containers = []\<rparr>\<rparr>"

definition reconcileDeployment ::
  "('k, 'r) kube_lib \<Rightarrow> 'r VecodexSet \<Rightarrow> string \<Rightarrow> 'r NodeSpec \<Rightarrow> 'k \<Rightarrow> unit answer \<times> 'k" where
  "reconcileDeployment K vecodex name spec =
     kb_apply_deployment K
       (new_deployment (om_name (vs_meta vecodex) @ ''-'' @ name) (om_namespace (vs_meta vecodex)))
       (\<lambda>deployment.
          case kb_set_controller K (vs_meta vecodex) (dp_meta deployment) of
            Inl e \<Rightarrow> Inl e
          | Inr owned \<Rightarrow> Inr (deployment\<lparr>dp_meta := owned,
              dp_spec := deployment_spec (om_name (vs_meta vecodex)) name spec\<rparr>))"

definition ingress_rules :: "'r VecodexSet \<Rightarrow> ingress_rule list" where
  "ingress_rules vecodex = [\<lparr>ir_host = is_Host (sp_Ingress (vs_spec vecodex)),
     ir_paths = [\<lparr>ip_path = ''/'', ip_type = PathTypePrefix,
       ip_service = om_name (vs_meta vecodex) @ ''-coordinator'', ip_port = 80\<rparr>]\<rparr>]"

definition reconcileIngress :: "('k, 'r) kube_lib \<Rightarrow> 'r VecodexSet \<Rightarrow> 'k \<Rightarrow> unit answer \<times> 'k" where
  "reconcileIngress K vecodex =
     kb_apply_ingress K
       \<lparr>in_meta = new_meta (om_name (vs_meta vecodex) @ ''-ingress'') (om_namespace (vs_meta vecodex)), in_rules = []\<rparr>
       (\<lambda>ingress.
          case kb_set_controller K (vs_meta vecodex) (in_meta ingress) of
            Inl e \<Rightarrow> Inl e
          | Inr owned \<Rightarrow> Inr (ingress\<lparr>in_meta := owned, in_rules := ingress_rules vecodex\<rparr>))"

text \<open>\<open>if err != nil { return err }\<close> between two calls.\<close>

definition if_ok :: "('k \<Rightarrow> unit answer \<times> 'k) \<Rightarrow> ('k \<Rightarrow> unit answer \<times> 'k) \<Rightarrow> 'k \<Rightarrow> unit answer \<times> 'k" where
  "if_ok m m' k = (case m k of (Inl e, k) \<Rightarrow> (Inl e, k) | (Inr _, k) \<Rightarrow> m' k)"

definition Reconcile :: "('k, 'r) kube_lib \<Rightarrow> string \<times> string \<Rightarrow> 'k \<Rightarrow> unit answer \<times> 'k" where
  "Reconcile K req k =
     (case kb_get K req k of
        Inl err \<Rightarrow> if err = NotFound then (Inr (), k) else (Inl err, k)
      | Inr vecodex \<Rightarrow>
          if_ok (reconcileDeployment K vecodex ''coordinator'' (sp_Coordinator (vs_spec vecodex)))
          (if_ok (reconcileDeployment K vecodex ''writer'' (sp_Writer (vs_spec vecodex)))
          (if_ok (reconcileDeployment K vecodex ''searcher'' (sp_Searcher (vs_spec vecodex)))
            (reconcileIngress K vecodex))) k)"

section \<open>The API server\<close>

text \<open>
  The documented behaviour of an API server that accepts what it is sent. \<open>defaulted\<close> is the
  completion of a specification on the server. \<open>CreateOrUpdate\<close> applies its function to the stored
  object, or to the given one when there is none, and stores nothing when the function fails.
  \<open>SetControllerReference\<close> refuses an object that has another controller.
\<close>

definition controllable :: "ObjectMeta \<Rightarrow> ObjectMeta \<Rightarrow> bool" where
  "controllable owner m \<longleftrightarrow> om_controller m = None \<or> om_controller m = Some (om_uid owner)"

definition kube_contract ::
  "('k, 'r) kube_lib \<Rightarrow> ('k \<Rightarrow> string \<times> string \<rightharpoonup> 'r VecodexSet) \<Rightarrow> ('k \<Rightarrow> string \<times> string \<rightharpoonup> 'r Deployment) \<Rightarrow>
    ('k \<Rightarrow> string \<times> string \<rightharpoonup> Ingress) \<Rightarrow> ('r DeploymentSpec \<Rightarrow> 'r DeploymentSpec) \<Rightarrow> bool" where
  "kube_contract K sets deployments ingresses defaulted \<longleftrightarrow>
     (\<forall>key k. kb_get K key k = (case sets k key of None \<Rightarrow> Inl NotFound | Some v \<Rightarrow> Inr v)) \<and>
     (\<forall>d f k. let key = (om_namespace (dp_meta d), om_name (dp_meta d)) in
        case f (case deployments k key of None \<Rightarrow> d | Some old \<Rightarrow> old) of
          Inl e \<Rightarrow> kb_apply_deployment K d f k = (Inl e, k)
        | Inr d' \<Rightarrow> \<exists>k'. kb_apply_deployment K d f k = (Inr (), k') \<and> sets k' = sets k \<and> ingresses k' = ingresses k \<and>
            deployments k' = (deployments k)(key \<mapsto> d'\<lparr>dp_spec := defaulted (dp_spec d')\<rparr>)) \<and>
     (\<forall>g f k. let key = (om_namespace (in_meta g), om_name (in_meta g)) in
        case f (case ingresses k key of None \<Rightarrow> g | Some old \<Rightarrow> old) of
          Inl e \<Rightarrow> kb_apply_ingress K g f k = (Inl e, k)
        | Inr g' \<Rightarrow> \<exists>k'. kb_apply_ingress K g f k = (Inr (), k') \<and> sets k' = sets k \<and> deployments k' = deployments k \<and>
            ingresses k' = (ingresses k)(key \<mapsto> g')) \<and>
     (\<forall>owner m. if controllable owner m then kb_set_controller K owner m = Inr (m\<lparr>om_controller := Some (om_uid owner)\<rparr>)
        else \<exists>e. kb_set_controller K owner m = Inl e)"

lemma get_set:
  "kube_contract K sets deployments ingresses defaulted \<Longrightarrow> kb_get K key k = (case sets k key of None \<Rightarrow> Inl NotFound | Some v \<Rightarrow> Inr v)"
  unfolding kube_contract_def by (elim conjE allE)






text \<open>What is stored after the object was reconciled, given what was stored before.\<close>

definition desired_deployment ::
  "('r DeploymentSpec \<Rightarrow> 'r DeploymentSpec) \<Rightarrow> 'r VecodexSet \<Rightarrow> string \<Rightarrow> 'r NodeSpec \<Rightarrow> 'r Deployment option \<Rightarrow> 'r Deployment" where
  "desired_deployment defaulted v name spec old =
     (let d = (case old of None \<Rightarrow> new_deployment (om_name (vs_meta v) @ ''-'' @ name) (om_namespace (vs_meta v)) | Some d \<Rightarrow> d) in
      d\<lparr>dp_meta := (dp_meta d)\<lparr>om_controller := Some (om_uid (vs_meta v))\<rparr>,
        dp_spec := defaulted (deployment_spec (om_name (vs_meta v)) name spec)\<rparr>)"

definition desired_ingress :: "'r VecodexSet \<Rightarrow> Ingress option \<Rightarrow> Ingress" where
  "desired_ingress v old =
     (let g = (case old of None \<Rightarrow> \<lparr>in_meta = new_meta (om_name (vs_meta v) @ ''-ingress'') (om_namespace (vs_meta v)), in_rules = []\<rparr>
        | Some g \<Rightarrow> g) in
      g\<lparr>in_meta := (in_meta g)\<lparr>om_controller := Some (om_uid (vs_meta v))\<rparr>, in_rules := ingress_rules v\<rparr>)"



lemma desired_again [simp]:
  "desired_deployment f v name spec (Some (desired_deployment f v name spec old)) = desired_deployment f v name spec old"
  "desired_ingress v (Some (desired_ingress v g)) = desired_ingress v g"
  by (simp_all add: desired_deployment_def desired_ingress_def Let_def)

lemma desired_fields [simp]:
  "dp_spec (desired_deployment f v name spec old) = f (deployment_spec (om_name (vs_meta v)) name spec)"
  "om_controller (dp_meta (desired_deployment f v name spec old)) = Some (om_uid (vs_meta v))"
  "in_rules (desired_ingress v g) = ingress_rules v"
  "om_controller (in_meta (desired_ingress v g)) = Some (om_uid (vs_meta v))"
  by (simp_all add: desired_deployment_def desired_ingress_def Let_def)

text \<open>No object of the set has another controller.\<close>

definition free_deployment :: "'r VecodexSet \<Rightarrow> 'r Deployment option \<Rightarrow> bool" where
  "free_deployment v old = (case old of None \<Rightarrow> True | Some d \<Rightarrow> controllable (vs_meta v) (dp_meta d))"

definition free_ingress :: "'r VecodexSet \<Rightarrow> Ingress option \<Rightarrow> bool" where
  "free_ingress v old = (case old of None \<Rightarrow> True | Some g \<Rightarrow> controllable (vs_meta v) (in_meta g))"

lemma desired_free [simp]:
  "free_deployment v (Some (desired_deployment f v name spec old))" "free_ingress v (Some (desired_ingress v g))"
  by (simp_all add: free_deployment_def free_ingress_def controllable_def)













section \<open>What the controller achieves\<close>


lemma reconcile_deleted:
  assumes "kube_contract K sets deployments ingresses defaulted" and "sets k req = None"
  shows "Reconcile K req k = (Inr (), k)"
  using assms(2) by (simp add: Reconcile_def get_set [OF assms(1)])

section \<open>Reference instance and witness\<close>

record ref_kube =
  rk_sets :: "string \<times> string \<rightharpoonup> string VecodexSet"
  rk_deployments :: "string \<times> string \<rightharpoonup> string Deployment"
  rk_ingresses :: "string \<times> string \<rightharpoonup> Ingress"




definition demo_node :: "string NodeSpec" where
  "demo_node = \<lparr>nd_Image = ''app'', nd_Replicas = None, nd_Command = [''app'', ''searcher''], nd_Resources = ''100m''\<rparr>"

definition demo_set :: "string VecodexSet" where
  "demo_set = \<lparr>vs_meta = \<lparr>om_name = ''v'', om_namespace = ''ns'', om_uid = ''1'', om_labels = [], om_controller = None\<rparr>,
     vs_spec = \<lparr>sp_Coordinator = demo_node, sp_Writer = demo_node, sp_Searcher = demo_node, sp_Ingress = \<lparr>is_Host = ''host''\<rparr>\<rparr>\<rparr>"

abbreviation "demo_kube \<equiv> \<lparr>rk_sets = [(''ns'', ''v'') \<mapsto> demo_set], rk_deployments = Map.empty, rk_ingresses = Map.empty\<rparr>"


end
