(* ===== verification/Kube_Manager.thy ===== *)
theory Kube_Manager
  imports Vecodex_Prelude
begin

text \<open>
  The program of the Kubernetes operator (\<open>kube-operator/cmd/main.go\<close>): it reads its flags, makes a
  manager, registers the controller and the two checks, and starts the manager. The flags are read by
  the package \<open>flag\<close> of the standard library, which is modelled as far as the program uses it; the
  flags that the logging package and the controller runtime add and the manager are parameters.
\<close>

section \<open>Flags\<close>

record operator_flags =
  metricsAddr :: string
  probeAddr :: string
  enableLeaderElection :: bool
  secureMetrics :: bool
  enableHTTP2 :: bool

definition default_flags :: operator_flags where
  "default_flags = \<lparr>metricsAddr = '':8080'', probeAddr = '':8081'', enableLeaderElection = False, secureMetrics = False, enableHTTP2 = False\<rparr>"

text \<open>\<open>strconv.ParseBool\<close>.\<close>

definition parse_bool :: "string \<Rightarrow> bool option" where
  "parse_bool s =
     (if s \<in> {''1'', ''t'', ''T'', ''TRUE'', ''true'', ''True''} then Some True
      else if s \<in> {''0'', ''f'', ''F'', ''FALSE'', ''false'', ''False''} then Some False
      else None)"

text \<open>
  The flags of the program: whether a flag is boolean, and what setting it does (None for a value that
  is not accepted). \<open>zap\<close> has the same for the flags of the logging package and the runtime, which change nothing here.
\<close>

type_synonym flag_table = "string \<rightharpoonup> bool \<times> (string \<Rightarrow> operator_flags \<Rightarrow> operator_flags option)"

definition operator_table :: flag_table where
  "operator_table =
     [''metrics-bind-address'' \<mapsto> (False, \<lambda>v f. Some (f\<lparr>metricsAddr := v\<rparr>)),
      ''health-probe-bind-address'' \<mapsto> (False, \<lambda>v f. Some (f\<lparr>probeAddr := v\<rparr>)),
      ''leader-elect'' \<mapsto> (True, \<lambda>v f. map_option (\<lambda>b. f\<lparr>enableLeaderElection := b\<rparr>) (parse_bool v)),
      ''metrics-secure'' \<mapsto> (True, \<lambda>v f. map_option (\<lambda>b. f\<lparr>secureMetrics := b\<rparr>) (parse_bool v)),
      ''enable-http2'' \<mapsto> (True, \<lambda>v f. map_option (\<lambda>b. f\<lparr>enableHTTP2 := b\<rparr>) (parse_bool v))]"

definition flag_lookup :: "(string \<rightharpoonup> bool \<times> (string \<Rightarrow> bool)) \<Rightarrow> flag_table" where
  "flag_lookup zap name =
     (case operator_table name of
        Some e \<Rightarrow> Some e
      | None \<Rightarrow> map_option (\<lambda>(b, ok). (b, \<lambda>v f. if ok v then Some f else None)) (zap name))"

text \<open>The name of an argument without its dashes, split at the first \<open>=\<close> that is not its first character.\<close>

definition split_flag :: "string \<Rightarrow> string \<times> string option" where
  "split_flag name =
     (let n = hd name # takeWhile (\<lambda>c. c \<noteq> CHR ''='') (tl name);
          r = dropWhile (\<lambda>c. c \<noteq> CHR ''='') (tl name)
      in (n, if r = [] then None else Some (tl r)))"

definition flag_name :: "string \<Rightarrow> string" where
  "flag_name s = drop (if s ! 1 = CHR ''-'' then 2 else 1) s"

text \<open>
  \<open>flag.Parse\<close>: an argument that is no flag ends the flags, as does \<open>--\<close>. An error ends the program with
  status 2, a request for help with status 0 (Inl).
\<close>

function parse_flags :: "(string \<rightharpoonup> bool \<times> (string \<Rightarrow> bool)) \<Rightarrow> string list \<Rightarrow> operator_flags \<Rightarrow> nat + operator_flags" where
  "parse_flags zap [] f = Inr f"
| "parse_flags zap (s # args) f =
     (if length s < 2 \<or> s ! 0 \<noteq> CHR ''-'' then Inr f
      else if s = ''--'' then Inr f
      else
        let name = flag_name s in
        if name = [] \<or> hd name = CHR ''-'' \<or> hd name = CHR ''='' then Inl 2
        else
          case split_flag name of (n, value) \<Rightarrow>
            (case flag_lookup zap n of
               None \<Rightarrow> Inl (if n = ''help'' \<or> n = ''h'' then 0 else 2)
             | Some (is_bool, set_flag) \<Rightarrow>
                 (case (value, args) of
                    (Some v, _) \<Rightarrow> (case set_flag v f of None \<Rightarrow> Inl 2 | Some f \<Rightarrow> parse_flags zap args f)
                  | (None, _) \<Rightarrow>
                      if is_bool then (case set_flag ''true'' f of None \<Rightarrow> Inl 2 | Some f \<Rightarrow> parse_flags zap args f)
                      else (case args of
                          [] \<Rightarrow> Inl 2
                        | v # args' \<Rightarrow> (case set_flag v f of None \<Rightarrow> Inl 2 | Some f \<Rightarrow> parse_flags zap args' f)))))"
  by pat_completeness auto
termination
  by (relation "measure (\<lambda>(zap, args, f). length args)") auto

declare parse_flags.simps [simp del]

section \<open>The manager\<close>

text \<open>\<open>tls_NextProtos\<close> is what the options for TLS make of the protocols of a configuration (None: left as they are).\<close>

record manager_options =
  mo_metrics_BindAddress :: string
  mo_metrics_SecureServing :: bool
  mo_metrics_NextProtos :: "string list option"
  mo_webhook_NextProtos :: "string list option"
  mo_HealthProbeBindAddress :: string
  mo_LeaderElection :: bool
  mo_LeaderElectionID :: string

definition tls_NextProtos :: "operator_flags \<Rightarrow> string list option" where
  "tls_NextProtos f = (if \<not> enableHTTP2 f then Some [''http/1.1''] else None)"

definition options_of :: "operator_flags \<Rightarrow> manager_options" where
  "options_of f =
     \<lparr>mo_metrics_BindAddress = metricsAddr f, mo_metrics_SecureServing = secureMetrics f, mo_metrics_NextProtos = tls_NextProtos f,
      mo_webhook_NextProtos = tls_NextProtos f, mo_HealthProbeBindAddress = probeAddr f,
      mo_LeaderElection = enableLeaderElection f, mo_LeaderElectionID = ''7bc3ee8b.vecodex.link''\<rparr>"

text \<open>
  The functions of the controller runtime; each says whether it succeeded. \<open>ml_GetConfig\<close> loads the
  configuration of the cluster into the state of the runtime.
\<close>

record 'm manager_lib =
  ml_GetConfig :: "'m \<Rightarrow> bool \<times> 'm"
  ml_NewManager :: "manager_options \<Rightarrow> 'm \<Rightarrow> bool \<times> 'm"
  ml_NewControllerManagedBy :: "string \<Rightarrow> 'm \<Rightarrow> bool \<times> 'm"
  ml_AddHealthzCheck :: "string \<Rightarrow> 'm \<Rightarrow> bool \<times> 'm"
  ml_AddReadyzCheck :: "string \<Rightarrow> 'm \<Rightarrow> bool \<times> 'm"
  ml_Start :: "'m \<Rightarrow> bool \<times> 'm"

definition SetupWithManager :: "'m manager_lib \<Rightarrow> 'm \<Rightarrow> bool \<times> 'm" where
  "SetupWithManager L = ml_NewControllerManagedBy L ''VecodexSet''"

text \<open>
  One stage of \<open>main\<close>: when it fails, the program ends with status 1. This is also what
  \<open>GetConfigOrDie\<close> does.
\<close>

definition or_exit :: "('m \<Rightarrow> bool \<times> 'm) \<Rightarrow> ('m \<Rightarrow> nat \<times> 'm) \<Rightarrow> 'm \<Rightarrow> nat \<times> 'm" where
  "or_exit stage rest m = (case stage m of (ok, m) \<Rightarrow> if ok then rest m else (1, m))"

definition operator_main :: "'m manager_lib \<Rightarrow> (string \<rightharpoonup> bool \<times> (string \<Rightarrow> bool)) \<Rightarrow> string list \<Rightarrow> 'm \<Rightarrow> nat \<times> 'm" where
  "operator_main L zap args m =
     (case parse_flags zap args default_flags of
        Inl status \<Rightarrow> (status, m)
      | Inr f \<Rightarrow>
          or_exit (ml_GetConfig L)
          (or_exit (ml_NewManager L (options_of f))
          (or_exit (SetupWithManager L)
          (or_exit (ml_AddHealthzCheck L ''healthz'')
          (or_exit (ml_AddReadyzCheck L ''readyz'')
          (or_exit (ml_Start L) (\<lambda>m. (0, m))))))) m)"

section \<open>Reading flags\<close>

text \<open>The arguments by which a setting is given.\<close>

definition bool_arg :: "bool \<Rightarrow> string" where
  "bool_arg b = (if b then ''true'' else ''false'')"

definition flag_args :: "operator_flags \<Rightarrow> string list" where
  "flag_args f =
     [''--metrics-bind-address='' @ metricsAddr f, ''-health-probe-bind-address'', probeAddr f,
      ''--leader-elect='' @ bool_arg (enableLeaderElection f), ''--metrics-secure='' @ bool_arg (secureMetrics f)] @
     (if enableHTTP2 f then [''--enable-http2''] else [])"

lemma split_flag_eq:
  assumes "n \<noteq> []" and "CHR ''='' \<notin> set n"
  shows "split_flag (n @ CHR ''='' # v) = (n, Some v)" and "split_flag n = (n, None)"
proof -
  obtain c n' where n: "n = c # n'" "\<forall>d \<in> set n'. d \<noteq> CHR ''=''" using assms by (cases n) auto
  then have "takeWhile (\<lambda>c. c \<noteq> CHR ''='') n' = n'" "dropWhile (\<lambda>c. c \<noteq> CHR ''='') n' = []"
    "takeWhile (\<lambda>c. c \<noteq> CHR ''='') (n' @ CHR ''='' # v) = n'" "dropWhile (\<lambda>c. c \<noteq> CHR ''='') (n' @ CHR ''='' # v) = CHR ''='' # v"
    by (simp_all add: takeWhile_eq_all_conv dropWhile_eq_Nil_conv takeWhile_append2 dropWhile_append2)
  then show "split_flag (n @ CHR ''='' # v) = (n, Some v)" and "split_flag n = (n, None)" by (simp_all add: split_flag_def n(1))
qed

text \<open>A flag that is given a value with \<open>=\<close>, and one that is given alone or with the next argument.\<close>

lemma parse_flag_value:
  assumes "flag_lookup zap n = Some (b, set_flag)" and "set_flag v f = Some f'"
    and "n \<noteq> []" "CHR ''='' \<notin> set n" "hd n \<noteq> CHR ''-''"
  shows "parse_flags zap ((CHR ''-'' # CHR ''-'' # n @ CHR ''='' # v) # args) f = parse_flags zap args f'"
proof -
  have "hd n \<noteq> CHR ''=''" using assms(3,4) by (cases n) auto
  then show ?thesis using assms split_flag_eq(1) [OF assms(3,4)]
    by (simp add: parse_flags.simps(2) flag_name_def Let_def)
qed

lemma parse_flag_alone:
  assumes "flag_lookup zap n = Some (True, set_flag)" and "set_flag ''true'' f = Some f'"
    and "n \<noteq> []" "CHR ''='' \<notin> set n" "hd n \<noteq> CHR ''-''"
  shows "parse_flags zap ((CHR ''-'' # CHR ''-'' # n) # args) f = parse_flags zap args f'"
proof -
  have "hd n \<noteq> CHR ''=''" using assms(3,4) by (cases n) auto
  then show ?thesis using assms split_flag_eq(2) [OF assms(3,4)]
    by (simp add: parse_flags.simps(2) flag_name_def Let_def)
qed

lemma parse_flag_next:
  assumes "flag_lookup zap n = Some (False, set_flag)" and "set_flag v f = Some f'"
    and "n \<noteq> []" "CHR ''='' \<notin> set n" "hd n \<noteq> CHR ''-''"
  shows "parse_flags zap ((CHR ''-'' # n) # v # args) f = parse_flags zap args f'"
proof -
  have "hd n \<noteq> CHR ''=''" using assms(3,4) by (cases n) auto
  moreover obtain c n' where "n = c # n'" using assms(3) by (cases n) auto
  ultimately show ?thesis using assms split_flag_eq(2) [OF assms(3,4)]
    by (simp add: parse_flags.simps(2) flag_name_def Let_def)
qed

lemma flag_lookup_simps [simp]:
  "flag_lookup zap ''metrics-bind-address'' = Some (False, \<lambda>v f. Some (f\<lparr>metricsAddr := v\<rparr>))"
  "flag_lookup zap ''health-probe-bind-address'' = Some (False, \<lambda>v f. Some (f\<lparr>probeAddr := v\<rparr>))"
  "flag_lookup zap ''leader-elect'' = Some (True, \<lambda>v f. map_option (\<lambda>b. f\<lparr>enableLeaderElection := b\<rparr>) (parse_bool v))"
  "flag_lookup zap ''metrics-secure'' = Some (True, \<lambda>v f. map_option (\<lambda>b. f\<lparr>secureMetrics := b\<rparr>) (parse_bool v))"
  "flag_lookup zap ''enable-http2'' = Some (True, \<lambda>v f. map_option (\<lambda>b. f\<lparr>enableHTTP2 := b\<rparr>) (parse_bool v))"
  by (simp_all add: flag_lookup_def operator_table_def)

lemma parse_bool_arg [simp]: "parse_bool (bool_arg b) = Some b" "parse_bool ''true'' = Some True"
  by (simp_all add: parse_bool_def bool_arg_def)

lemma parse_steps:
  "parse_flags zap ((''--metrics-bind-address='' @ v) # args) f = parse_flags zap args (f\<lparr>metricsAddr := v\<rparr>)"
  "parse_flags zap (''-health-probe-bind-address'' # v # args) f = parse_flags zap args (f\<lparr>probeAddr := v\<rparr>)"
  "parse_flags zap ((''--leader-elect='' @ bool_arg b) # args) f = parse_flags zap args (f\<lparr>enableLeaderElection := b\<rparr>)"
  "parse_flags zap ((''--metrics-secure='' @ bool_arg b) # args) f = parse_flags zap args (f\<lparr>secureMetrics := b\<rparr>)"
  "parse_flags zap (''--enable-http2'' # args) f = parse_flags zap args (f\<lparr>enableHTTP2 := True\<rparr>)"
  using parse_flag_value [where v = v and f = f and zap = zap and args = args, OF flag_lookup_simps(1)]
    parse_flag_next [where v = v and f = f and zap = zap and args = args, OF flag_lookup_simps(2)]
    parse_flag_value [where v = "bool_arg b" and f = f and zap = zap and args = args, OF flag_lookup_simps(3)]
    parse_flag_value [where v = "bool_arg b" and f = f and zap = zap and args = args, OF flag_lookup_simps(4)]
    parse_flag_alone [where f = f and zap = zap and args = args, OF flag_lookup_simps(5)]
  by simp_all

lemma parse_flag_args: "parse_flags zap (flag_args f) default_flags = Inr f"
  by (simp add: flag_args_def parse_steps [simplified] parse_flags.simps(1) default_flags_def)

lemma parse_flag_wrong:
  assumes "flag_lookup zap n = Some (b, set_flag)" and "set_flag v f = None"
    and "n \<noteq> []" "CHR ''='' \<notin> set n" "hd n \<noteq> CHR ''-''"
  shows "parse_flags zap ((CHR ''-'' # CHR ''-'' # n @ CHR ''='' # v) # args) f = Inl 2"
proof -
  have "hd n \<noteq> CHR ''=''" using assms(3,4) by (cases n) auto
  then show ?thesis using assms split_flag_eq(1) [OF assms(3,4)]
    by (simp add: parse_flags.simps(2) flag_name_def Let_def)
qed

lemma parse_wrong_bool:
  assumes "parse_bool v = None"
  shows "parse_flags zap ((''--leader-elect='' @ v) # args) f = Inl 2"
    and "parse_flags zap ((''--metrics-secure='' @ v) # args) f = Inl 2"
    and "parse_flags zap ((''--enable-http2='' @ v) # args) f = Inl 2"
  using parse_flag_wrong [where v = v and f = f and zap = zap and args = args, OF flag_lookup_simps(3)]
    parse_flag_wrong [where v = v and f = f and zap = zap and args = args, OF flag_lookup_simps(4)]
    parse_flag_wrong [where v = v and f = f and zap = zap and args = args, OF flag_lookup_simps(5)] assms
  by simp_all

section \<open>What the program does\<close>

text \<open>Stages one after the other, up to the first that fails.\<close>

fun run_stages :: "('m \<Rightarrow> bool \<times> 'm) list \<Rightarrow> 'm \<Rightarrow> bool \<times> 'm" where
  "run_stages [] m = (True, m)"
| "run_stages (stage # stages) m = (case stage m of (ok, m) \<Rightarrow> if ok then run_stages stages m else (False, m))"

lemma or_exit_stages:
  assumes "\<And>m. rest m = (case run_stages stages m of (ok, m) \<Rightarrow> (if ok then 0 else 1, m))"
  shows "or_exit stage rest m = (case run_stages (stage # stages) m of (ok, m) \<Rightarrow> (if ok then 0 else 1, m))"
  by (simp add: or_exit_def assms split: prod.split)

lemma operator_main_stages:
  assumes "parse_flags zap args default_flags = Inr f"
  shows "operator_main L zap args m =
    (case run_stages [ml_GetConfig L, ml_NewManager L (options_of f), ml_NewControllerManagedBy L ''VecodexSet'',
        ml_AddHealthzCheck L ''healthz'', ml_AddReadyzCheck L ''readyz'', ml_Start L] m of (ok, m') \<Rightarrow> (if ok then 0 else 1, m'))"
  unfolding operator_main_def assms sum.case SetupWithManager_def by (intro or_exit_stages) simp

text \<open>
  C35. The operator runs with the settings it is given. For every setting the arguments below make \<open>main\<close>
  load the configuration of the cluster, make a manager with exactly this setting, register the
  controller, the health check and the ready check, and start the manager, in this order. Both servers
  are restricted to HTTP/1.1 unless HTTP/2 is asked for. The status is 0 when all these stages succeed,
  and 1 when one fails, and then no later one is begun. Without arguments the documented defaults are
  used. A boolean flag with a value that is no boolean ends the program with status 2 before anything begins.
\<close>

theorem operator_runs:
  fixes f :: operator_flags and L :: "'m manager_lib"
  shows "operator_main L zap (
      [''--metrics-bind-address='' @ metricsAddr f, ''-health-probe-bind-address'', probeAddr f,
       ''--leader-elect='' @ (if enableLeaderElection f then ''true'' else ''false''),
       ''--metrics-secure='' @ (if secureMetrics f then ''true'' else ''false'')] @
      (if enableHTTP2 f then [''--enable-http2''] else [])) m =
    (case run_stages [ml_GetConfig L,
        ml_NewManager L \<lparr>mo_metrics_BindAddress = metricsAddr f, mo_metrics_SecureServing = secureMetrics f,
          mo_metrics_NextProtos = (if enableHTTP2 f then None else Some [''http/1.1'']),
          mo_webhook_NextProtos = (if enableHTTP2 f then None else Some [''http/1.1'']),
          mo_HealthProbeBindAddress = probeAddr f, mo_LeaderElection = enableLeaderElection f,
          mo_LeaderElectionID = ''7bc3ee8b.vecodex.link''\<rparr>,
        ml_NewControllerManagedBy L ''VecodexSet'', ml_AddHealthzCheck L ''healthz'', ml_AddReadyzCheck L ''readyz'',
        ml_Start L] m of (ok, m') \<Rightarrow> (if ok then 0 else 1, m')) \<and>
   operator_main L zap [] m =
    (case run_stages [ml_GetConfig L,
        ml_NewManager L \<lparr>mo_metrics_BindAddress = '':8080'', mo_metrics_SecureServing = False,
          mo_metrics_NextProtos = Some [''http/1.1''], mo_webhook_NextProtos = Some [''http/1.1''],
          mo_HealthProbeBindAddress = '':8081'', mo_LeaderElection = False, mo_LeaderElectionID = ''7bc3ee8b.vecodex.link''\<rparr>,
        ml_NewControllerManagedBy L ''VecodexSet'', ml_AddHealthzCheck L ''healthz'', ml_AddReadyzCheck L ''readyz'',
        ml_Start L] m of (ok, m') \<Rightarrow> (if ok then 0 else 1, m')) \<and>
   (\<forall>flag v args. flag \<in> {''--leader-elect='', ''--metrics-secure='', ''--enable-http2=''} \<and> parse_bool v = None \<longrightarrow>
      operator_main L zap ((flag @ v) # args) m = (2, m))"
proof (intro conjI allI impI; (elim conjE)?)
  show "operator_main L zap (
      [''--metrics-bind-address='' @ metricsAddr f, ''-health-probe-bind-address'', probeAddr f,
       ''--leader-elect='' @ (if enableLeaderElection f then ''true'' else ''false''),
       ''--metrics-secure='' @ (if secureMetrics f then ''true'' else ''false'')] @
      (if enableHTTP2 f then [''--enable-http2''] else [])) m =
    (case run_stages [ml_GetConfig L,
        ml_NewManager L \<lparr>mo_metrics_BindAddress = metricsAddr f, mo_metrics_SecureServing = secureMetrics f,
          mo_metrics_NextProtos = (if enableHTTP2 f then None else Some [''http/1.1'']),
          mo_webhook_NextProtos = (if enableHTTP2 f then None else Some [''http/1.1'']),
          mo_HealthProbeBindAddress = probeAddr f, mo_LeaderElection = enableLeaderElection f,
          mo_LeaderElectionID = ''7bc3ee8b.vecodex.link''\<rparr>,
        ml_NewControllerManagedBy L ''VecodexSet'', ml_AddHealthzCheck L ''healthz'', ml_AddReadyzCheck L ''readyz'',
        ml_Start L] m of (ok, m') \<Rightarrow> (if ok then 0 else 1, m'))"
    using operator_main_stages [OF parse_flag_args, where f = f and zap = zap and L = L and m = m]
    unfolding flag_args_def bool_arg_def options_of_def tls_NextProtos_def by (cases "enableHTTP2 f") simp_all
  show "operator_main L zap [] m =
    (case run_stages [ml_GetConfig L,
        ml_NewManager L \<lparr>mo_metrics_BindAddress = '':8080'', mo_metrics_SecureServing = False,
          mo_metrics_NextProtos = Some [''http/1.1''], mo_webhook_NextProtos = Some [''http/1.1''],
          mo_HealthProbeBindAddress = '':8081'', mo_LeaderElection = False, mo_LeaderElectionID = ''7bc3ee8b.vecodex.link''\<rparr>,
        ml_NewControllerManagedBy L ''VecodexSet'', ml_AddHealthzCheck L ''healthz'', ml_AddReadyzCheck L ''readyz'',
        ml_Start L] m of (ok, m') \<Rightarrow> (if ok then 0 else 1, m'))"
    using operator_main_stages [OF parse_flags.simps(1), where zap = zap and L = L and m = m] by (simp add: options_of_def tls_NextProtos_def default_flags_def)
  show "operator_main L zap ((flag @ v) # args) m = (2, m)"
    if "flag \<in> {''--leader-elect='', ''--metrics-secure='', ''--enable-http2=''}" "parse_bool v = None" for flag v args
    using that(1) parse_wrong_bool [OF that(2), of zap args default_flags] by (auto simp: operator_main_def)
qed

text \<open>
  A runtime that records the options of the manager and the stages that were begun; the ready check
  fails when the probe address is \<open>:0\<close>.
\<close>

definition demo_manager :: "(manager_options list \<times> string list) manager_lib" where
  "demo_manager = \<lparr>ml_GetConfig = (\<lambda>(os, ss). (True, os, ss)),
     ml_NewManager = (\<lambda>opt (os, ss). (True, opt # os, ss)), ml_NewControllerManagedBy = (\<lambda>s (os, ss). (True, os, s # ss)),
     ml_AddHealthzCheck = (\<lambda>s (os, ss). (True, os, s # ss)),
     ml_AddReadyzCheck = (\<lambda>s (os, ss). (mo_HealthProbeBindAddress (hd os) \<noteq> '':0'', os, s # ss)),
     ml_Start = (\<lambda>(os, ss). (True, os, ''start'' # ss))\<rparr>"

theorem operator_runs_witness:
  "operator_main demo_manager (\<lambda>_. None) [''--metrics-bind-address=:80'', ''-health-probe-bind-address'', '':9090'',
      ''--leader-elect=true'', ''--metrics-secure=false''] ([], []) =
     (0, [\<lparr>mo_metrics_BindAddress = '':80'', mo_metrics_SecureServing = False,
       mo_metrics_NextProtos = Some [''http/1.1''], mo_webhook_NextProtos = Some [''http/1.1''],
       mo_HealthProbeBindAddress = '':9090'', mo_LeaderElection = True, mo_LeaderElectionID = ''7bc3ee8b.vecodex.link''\<rparr>],
      [''start'', ''readyz'', ''healthz'', ''VecodexSet'']) \<and>
   fst (operator_main demo_manager (\<lambda>_. None) [''--metrics-bind-address=:80'', ''-health-probe-bind-address'', '':0'',
      ''--leader-elect=false'', ''--metrics-secure=false'', ''--enable-http2''] ([], [])) = 1 \<and>
   operator_main demo_manager (\<lambda>_. None) [''--leader-elect=yes''] ([], []) = (2, [], [])"
  using operator_runs [of demo_manager "\<lambda>_. None"
      "\<lparr>metricsAddr = '':80'', probeAddr = '':9090'', enableLeaderElection = True, secureMetrics = False, enableHTTP2 = False\<rparr>" "([], [])",
      THEN conjunct1]
    operator_runs [of demo_manager "\<lambda>_. None"
      "\<lparr>metricsAddr = '':80'', probeAddr = '':0'', enableLeaderElection = False, secureMetrics = False, enableHTTP2 = True\<rparr>" "([], [])",
      THEN conjunct1]
    operator_runs [of demo_manager "\<lambda>_. None" default_flags "([], [])", THEN conjunct2, THEN conjunct2, THEN spec, of "''--leader-elect=''",
      THEN spec, of "''yes''", THEN spec, of "[]"]
  by (simp add: demo_manager_def parse_bool_def)

end
