(* ===== verification/Spec2Isabelle.thy ===== *)
theory Spec2Isabelle
  imports Vecodex_System Index_Threads Bootstrap Kube_Operator Kube_Manager
begin

text \<open>
  A verification development for vecodex, a distributed vector search database.

  \<^bold>\<open>The program.\<close> Documents are pairs of an identifier and a vector. An index (\<open>src/index\<close>) keeps them in
  segments, each a FAISS index with a masked set of erased identifiers; full segments are sealed, stored
  by size in levels and merged in the background. Three servers (\<open>src/app\<close>) share the work. The
  \<^emph>\<open>writer\<close> takes write requests, adds each document to the shard with the lowest response time, stores
  sealed segments as files in S3 and announces them to the searchers. A \<^emph>\<open>searcher\<close> holds one index per
  shard, loads the announced segments and answers search requests. The \<^emph>\<open>coordinator\<close> sends a search
  request to all searchers of an index and merges their answers by reciprocal rank. Searchers register
  in etcd, which also holds response times; metrics go to Prometheus. A Kubernetes operator
  (\<open>src/kube-operator\<close>) deploys the servers. Users write through a \<open>WriterClient\<close> and search through a
  \<open>CoordinatorClient\<close>.

  \<^bold>\<open>Model.\<close> Objects are records, methods are functions on them. A failure is a value of \<open>cxx_error\<close>:
  exceptions with their message, and one constructor per kind of undefined behaviour the code can reach
  (null pointers, buffer overruns, indeterminate values, shifts that are too wide, a thread that waits
  for its own lock). Stateful code of the servers is written with the combinators of \<open>Effects\<close>, which keep
  the state that is left behind by a failure. \<open>size_t\<close> is \<open>nat\<close> with its wrap-around written out, files
  are lists of bytes, \<open>double\<close> is a rational number that is rounded to 53 bits after each operation,
  \<open>rand()\<close> is an explicit supply of numbers. A hash map is an association list with distinct keys, and
  the order in which it is iterated is an argument, any permutation.

  Code outside the repository is a parameter, a record of the calls the program makes, and what the
  program relies on is a named predicate: \<open>faiss_contract\<close>, \<open>faiss_exact\<close> (flat indexes), \<open>faiss_files\<close>,
  \<open>etcd_contract\<close>, \<open>s3_contract\<close>, \<open>prom_contract\<close>, \<open>argparse_contract\<close>, \<open>json_objects\<close>, \<open>kube_contract\<close>,
  \<open>delivers\<close>, \<open>serves\<close> and \<open>accepts\<close> (gRPC calls the handler of the addressed process).
  \<open>faiss_exact\<close> has one distance: it stands for the use of one exhaustive kind of index and one metric. The
  services accept what they are sent; what happens when etcd, S3 or the API server fail is in the
  definitions, but not the subject of the theorems. Each predicate is shown to hold for a small reference implementation, which the
  witnesses run.

  \<^bold>\<open>Theories.\<close>
  \<^item> \<open>Vecodex_Prelude\<close>, \<open>Effects\<close>: failures, results, \<open>size_t\<close>, random numbers, containers, effects.
  \<^item> \<open>Search_TopK\<close>: \<open>SearchResult\<close> and the bounded \<open>std::set\<close> of \<open>Index::search\<close> (\<open>Segment.h\<close>, \<open>Index.h\<close>).
  \<^item> \<open>Base_Index\<close>: \<open>IBaseIndex.h\<close> as a record of methods; the locales \<open>base_index\<close> and \<open>exact_base_index\<close> are
    its contract. \<open>Faiss_Index\<close>, \<open>Faiss_Interface\<close>: \<open>FaissIndex\<close> (\<open>baselines/faiss.h\<close>) and the interpretations of both
    locales on it. \<open>Faiss_Reference\<close>: a concrete instance of FAISS.
  \<^item> \<open>Vecodex_Segment\<close>: \<open>Segment.h\<close>, \<open>ISegment.h\<close>, \<open>SegmentFactory.h\<close>.
  \<^item> \<open>Index_Model\<close>: \<open>Index.h\<close> and \<open>IIndex.h\<close> with \<open>SegmentStorage\<close>, its levels and the merge loops, and the
    asynchronous variants. \<open>Index_Heap\<close>, \<open>Index_Storage\<close>, \<open>Index_Merge\<close>, \<open>Index_Correct\<close>, \<open>Index_Update\<close>,
    \<open>Index_Ids\<close>: the invariant of an index and that every operation keeps it, over any base index.
    \<open>Index_Refinement\<close>: the index refines a plain collection of documents. \<open>Vecodex_Index\<close>: the theorems
    for the index the servers use.
  \<^item> \<open>Shared_Lock\<close> (locale \<open>locked_object\<close>): an object whose methods run in several threads under a
    \<open>std::shared_mutex\<close>, as a step relation. \<open>Index_Threads\<close>: its interpretations on the methods of \<open>Index\<close> under
    \<open>segments_m_\<close> and on those of \<open>Segment\<close> under the lock of \<open>ISegment\<close>, in steps of one round of a loop.
  \<^item> \<open>Binary_IO\<close> (\<open>baselines/io.h\<close>, locale \<open>binary_codec\<close>), \<open>Segment_File\<close> (files of segments), \<open>Index_Factory\<close>
    (\<open>baselines/IndexFactory.h\<close>).
  \<^item> \<open>Float_Rounding\<close> (locale \<open>rounding\<close>), \<open>Number_Text\<close>: \<open>double\<close> and numbers as text. \<open>Rank_Merging\<close>: \<open>Merging.h\<close>.
    \<open>Response_Stats\<close>: \<open>utils/Stats.h\<close>.
  \<^item> \<open>Etcd_Client\<close> (locale \<open>searcher_registry\<close>), \<open>Prometheus_Exposer\<close> (locale \<open>metric_store\<close>), \<open>Storage_Client\<close>: the
    clients of the services.
  \<^item> \<open>Coordinator\<close>: \<open>Coordinator.cpp\<close> and \<open>BaseClient.cpp\<close>. \<open>Platform\<close>: everything the other two servers run on, and
    how an index is searched and extended on it. \<open>Searcher\<close>: \<open>Searcher.cpp\<close>. \<open>Writer\<close>: \<open>Writer.cpp\<close> and
    \<open>SearcherClient.cpp\<close>; \<open>Writer_State\<close> and \<open>Writer_Correct\<close>: its invariant and its requests.
  \<^item> \<open>Writer_Log\<close>, \<open>Replication\<close>: the writer and its searchers as one system, an inductive step relation over
    write requests and tasks of the runner thread in any order. \<open>Vecodex_System\<close>: the clients of the users
    (\<open>WriterClient.cpp\<close>), the writer, the searchers and the coordinator together.
  \<^item> \<open>Bootstrap\<close>: \<open>BootstrapConfig.h\<close>, \<open>Base.cpp\<close> and \<open>main.cpp\<close>. \<open>Kube_Operator\<close>: the controller of the
    operator. \<open>Kube_Manager\<close>: its program (\<open>kube-operator/cmd/main.go\<close>) with the flags.

  \<^bold>\<open>What is shown.\<close> For an index: after any history of additions and deletions, with or without merging, a
  search is exact when FAISS searches exhaustively and sound for every kind of FAISS index; adding,
  erasing, merging and pushing segments change exactly the documents they should; merging always ends.
  Called from several threads, its methods are linearizable and do not deadlock; additions, deletions and
  searches all return without a failure, and the searches stay exact; a segment that is written to a file meanwhile is written as it is at one moment.
  For files: segments are read back as they were written. For the coordinator: every request is answered
  and the answer is ordered by the reciprocal rank score as computed in doubles, which is close to the exact
  score. For searchers and the writer: start,
  updates, searches and write requests have exactly their documented effect. For the cluster with flat
  indexes that do not merge, and requests that add documents with new identifiers or are refused: no
  interleaving of requests and tasks fails, searchers never hold a
  document the writer does not hold, and when the queue of the writer has been worked off, every searcher
  of a shard finds all documents but the ones that are not sealed yet. For the users: what a client is told
  about its write request is true, and a query to the coordinator finds the documents of all sealed
  segments. For the operator: the objects it creates and the options it starts with, field by field. Other theorems establish where the
  code does not do what it should: damaged files that go unnoticed, null pointers that requests can
  reach, a healthy searcher that is unregistered, counters that wrap around.

  \<^bold>\<open>Bounds.\<close> All loops are total functions. The merge loop terminates by the number of segments that are
  still to be inspected and the remaining amount; its parameter \<open>amount\<close> is arbitrary. Sizes of segments
  are at most \<open>2 ^ 63\<close>, because the code shifts a 64-bit number; the number of answers that is
  asked of FAISS, \<open>k\<close> and the number of erased vectors, is added without wrap-around, and labels are unbounded
  integers, since an index in memory stays far below \<open>2 ^ 63\<close> vectors; answers that are merged have at most
  \<open>2 ^ 52\<close> entries, for which ranks are exact as doubles, and up to \<open>2 ^ 50\<close> entries different ranks have
  different scores; string lengths and
  identifiers fit the machine. Identifiers of segments are pairwise different, as long as \<open>rand()\<close> does not
  repeat itself within one writer.

  \<^bold>\<open>Not modelled.\<close> Threads below the locks of indexes and segments: a handler of a server is one step, as are
  the tasks of the runner between requests, and a merge, which holds the locks of two segments, is one
  step of \<open>add\<close>. \<open>addVectorBatch\<close>, \<open>size\<close> and the identifier of a segment are used without its lock, which is
  sound only as far as the lock of the index covers them. The asynchronous index methods never post a
  task, because the promise they ask for its future does not exist, so the executor has nothing to run.
  An exception inside an index operation of the writer leaves the index unchanged in the model, and in the
  step relation of concurrent calls a call that fails ends the run. Console
  output, log messages, the generated gRPC stubs and the transport, example programs, benchmarks and
  tests, and the registration of the operator's types. The constructors of \<open>Segment\<close> from an index and of
  \<open>FaissIndex\<close> from a file name are templates that nothing instantiates. The theorems on
  the cluster exclude merging, because searchers keep segments the writer has merged (\<open>eraseSegment\<close> does
  nothing), and requests for deletion, which fail (see \<open>writer_delete_null_pointer\<close>).
\<close>

end
